(* ===== verification/Prelude.thy ===== *)
theory Prelude
  imports Main "HOL-Library.Sublist" "HOL-Library.Char_ord" "HOL-Library.List_Lexorder"
    "HOL-Library.Code_Target_Nat"
begin

section \<open>Prelude\<close>

text \<open>
  Shared by every theory of the development: the collections of facts the component proofs
  are driven by, the result type of fallible Go functions, the checked sequencing of
  validations, and generic facts on lists of characters, on splitting a list at a separator
  and on sorting.

  A Go \<^verbatim>\<open>string\<close> or \<^verbatim>\<open>[]byte\<close> is a \<^typ>\<open>string\<close>, that is a list of bytes: Isabelle's
  \<^typ>\<open>char\<close> is exactly one byte. A Go function returning \<^verbatim>\<open>(T, error)\<close> returns
  \<^typ>\<open>'e + 'a\<close>: \<^term>\<open>Inl e\<close> is the non-nil error, \<^term>\<open>Inr v\<close> the value with a nil error.
\<close>

named_theorems no_violations \<open>when a check returns the empty list of violations\<close>
named_theorems accepted \<open>when a validation or a parser accepts its input\<close>
named_theorems go_simps \<open>equations of the modelled standard library\<close>

type_synonym ('e, 'a) result = "'e + 'a"

definition is_ok :: "('e, 'a) result \<Rightarrow> bool" where
  "is_ok r \<longleftrightarrow> (case r of Inl _ \<Rightarrow> False | Inr _ \<Rightarrow> True)"

lemma is_ok_simps [simp]: "is_ok (Inr v)" "\<not> is_ok (Inl e)"
  by (simp_all add: is_ok_def)

lemma is_ok_iff: "is_ok r \<longleftrightarrow> (\<exists>v. r = Inr v)"
  by (cases r) simp_all

text \<open>
  \<open>report b v\<close> is the idiom \<^verbatim>\<open>if b { bad = append(bad, v) }\<close> of every check that collects
  violations: the violations found by one test.
\<close>

definition report :: "bool \<Rightarrow> 'v \<Rightarrow> 'v list" where
  "report b v = (if b then [v] else [])"

lemma report_Nil [no_violations, simp]: "report b v = [] \<longleftrightarrow> \<not> b"
  by (simp add: report_def)

lemma set_report: "set (report b v) = (if b then {v} else {})"
  by (simp add: report_def)

lemma report_True [simp]: "report True v = [v]" and report_False [simp]: "report False v = []"
  by (simp_all add: report_def)

lemma concat_map_Nil [no_violations, simp]:
  "concat (map f xs) = [] \<longleftrightarrow> (\<forall>x \<in> set xs. f x = [])"
  by (induction xs) auto

subsection \<open>Lists\<close>

text \<open>
  In the lexicographic order a list comes before each of its proper extensions: the reason
  why sorting paths puts every parent directory before its children.
\<close>

lemma lex_prefix_le: "(xs :: 'a :: linorder list) \<le> xs @ ys"
  by (induction xs) simp_all

lemma lex_prefix_less: "ys \<noteq> [] \<Longrightarrow> (xs :: 'a :: linorder list) < xs @ ys"
  by (metis append_self_conv le_neq_trans lex_prefix_le)

lemma sorted_wrt_map_nth_less:
  fixes f :: "'a \<Rightarrow> 'b :: linorder"
  assumes "sorted (map f xs)" "i < length xs" "j < length xs" "f (xs ! i) < f (xs ! j)"
  shows "i < j"
proof (rule ccontr)
  assume "\<not> i < j"
  then have "f (xs ! j) \<le> f (xs ! i)"
    using assms sorted_nth_mono [of "map f xs" j i] by simp
  with assms(4) show False by simp
qed

subsection \<open>Splitting at a separator\<close>

text \<open>
  \<open>split_on c s\<close> is \<^verbatim>\<open>strings.Split(s, sep)\<close> for a separator of one byte: one piece more than
  there are separators, so the empty text has one empty piece. \<open>join_with c ps\<close> is
  \<^verbatim>\<open>strings.Join(ps, sep)\<close>.
\<close>

fun split_on :: "'a \<Rightarrow> 'a list \<Rightarrow> 'a list list" where
  "split_on c [] = [[]]"
| "split_on c (x # xs) =
     (if x = c then [] # split_on c xs
      else case split_on c xs of [] \<Rightarrow> [[x]] | p # ps \<Rightarrow> (x # p) # ps)"

fun join_with :: "'a list \<Rightarrow> 'a list list \<Rightarrow> 'a list" where
  "join_with sep [] = []"
| "join_with sep [p] = p"
| "join_with sep (p # q # ps) = p @ sep @ join_with sep (q # ps)"

lemma split_on_not_Nil [simp]: "split_on c xs \<noteq> []"
  by (cases xs) (auto split: list.splits)

lemma split_on_no_sep: "c \<notin> set xs \<Longrightarrow> split_on c xs = [xs]"
  by (induction xs) auto

lemma split_on_append_sep: "c \<notin> set xs \<Longrightarrow> split_on c (xs @ c # ys) = xs # split_on c ys"
  by (induction xs) auto

lemma split_on_pieces: "p \<in> set (split_on c xs) \<Longrightarrow> c \<notin> set p"
proof (induction xs arbitrary: p)
  case (Cons x xs)
  obtain q qs where qs: "split_on c xs = q # qs"
    by (cases "split_on c xs") auto
  with Cons show ?case by (cases "x = c") auto
qed simp

lemma join_with_Cons: "ps \<noteq> [] \<Longrightarrow> join_with sep (p # ps) = p @ sep @ join_with sep ps"
  by (cases ps) auto

lemma join_split: "join_with [c] (split_on c xs) = xs"
proof (induction xs)
  case (Cons x xs)
  obtain q qs where qs: "split_on c xs = q # qs"
    by (cases "split_on c xs") auto
  show ?case
  proof (cases "x = c")
    case True
    with Cons qs show ?thesis by (simp add: join_with_Cons)
  next
    case False
    with Cons qs show ?thesis by (cases qs) auto
  qed
qed simp

lemma split_join:
  "ps \<noteq> [] \<Longrightarrow> \<forall>p \<in> set ps. c \<notin> set p \<Longrightarrow> split_on c (join_with [c] ps) = ps"
proof (induction ps)
  case (Cons p ps)
  show ?case
  proof (cases "ps = []")
    case True
    with Cons.prems show ?thesis by (simp add: split_on_no_sep)
  next
    case False
    with Cons show ?thesis by (simp add: join_with_Cons split_on_append_sep)
  qed
qed simp

lemma set_join_with: "set (join_with sep ps) \<subseteq> set sep \<union> (\<Union>p \<in> set ps. set p)"
  by (induction sep ps rule: join_with.induct) auto

lemma concat_Cons_join: "ps \<noteq> [] \<Longrightarrow> concat (map (Cons c) ps) = c # join_with [c] ps"
proof (induction ps)
  case (Cons p ps)
  then show ?case by (cases ps) auto
qed simp

lemma hd_split_on: "hd (split_on c xs) = takeWhile (\<lambda>x. x \<noteq> c) xs"
proof (induction xs)
  case (Cons x xs)
  then show ?case by (cases "split_on c xs") auto
qed simp

lemma split_on_lines:
  "\<forall>l \<in> set ls. c \<notin> set l \<Longrightarrow> split_on c (concat (map (\<lambda>l. l @ [c]) ls)) = ls @ [[]]"
  by (induction ls) (auto simp: split_on_append_sep)

lemma remdups_adj_sort:
  fixes xs :: "'a :: linorder list"
  shows "remdups_adj (sort xs) = sorted_list_of_set (set xs)"
proof -
  have "distinct (remdups_adj ys)" if "sorted ys" for ys :: "'a list"
    using that by (induction ys rule: remdups_adj.induct) (auto simp: order.antisym)
  moreover have "sorted (remdups_adj (sort xs))" by (rule sorted_remdups_adj) simp
  ultimately show ?thesis
    using sorted_distinct_set_unique [of "remdups_adj (sort xs)" "sorted_list_of_set (set xs)"]
    by simp
qed

end
