(* ===== verification/Go_Strings.thy ===== *)
theory Go_Strings
  imports Prelude
begin

section \<open>The strings and bytes packages\<close>

text \<open>
  What the source calls of Go's \<^verbatim>\<open>strings\<close> and \<^verbatim>\<open>bytes\<close> packages, on byte lists, under the
  package's own names. Nothing here depends on the repository. \<^verbatim>\<open>ToUpper\<close>, \<^verbatim>\<open>TrimSpace\<close> and
  \<^verbatim>\<open>Fields\<close> are given for ASCII text, which is what the callers pass: capability names,
  interface names and decimal values.
\<close>

definition HasPrefix :: "string \<Rightarrow> string \<Rightarrow> bool" where
  "HasPrefix s p \<longleftrightarrow> take (length p) s = p"

definition HasSuffix :: "string \<Rightarrow> string \<Rightarrow> bool" where
  "HasSuffix s p \<longleftrightarrow> length p \<le> length s \<and> drop (length s - length p) s = p"

definition CutPrefix :: "string \<Rightarrow> string \<Rightarrow> string \<times> bool" where
  "CutPrefix s p = (if HasPrefix s p then (drop (length p) s, True) else (s, False))"

definition CutSuffix :: "string \<Rightarrow> string \<Rightarrow> string \<times> bool" where
  "CutSuffix s p = (if HasSuffix s p then (take (length s - length p) s, True) else (s, False))"

definition TrimPrefix :: "string \<Rightarrow> string \<Rightarrow> string" where
  "TrimPrefix s p = fst (CutPrefix s p)"

definition TrimSuffix :: "string \<Rightarrow> string \<Rightarrow> string" where
  "TrimSuffix s p = fst (CutSuffix s p)"

fun Index :: "string \<Rightarrow> string \<Rightarrow> nat option" where
  "Index [] sub = (if sub = [] then Some 0 else None)"
| "Index (c # s) sub = (if HasPrefix (c # s) sub then Some 0 else map_option Suc (Index s sub))"

definition Contains :: "string \<Rightarrow> string \<Rightarrow> bool" where
  "Contains s sub \<longleftrightarrow> Index s sub \<noteq> None"

definition Cut :: "string \<Rightarrow> string \<Rightarrow> string \<times> string \<times> bool" where
  "Cut s sep = (case Index s sep of
      None \<Rightarrow> (s, [], False)
    | Some i \<Rightarrow> (take i s, drop (i + length sep) s, True))"

definition upper_char :: "char \<Rightarrow> char" where
  "upper_char c = (if CHR ''a'' \<le> c \<and> c \<le> CHR ''z'' then char_of (of_char c - 32 :: nat) else c)"

definition ToUpper :: "string \<Rightarrow> string" where
  "ToUpper s = map upper_char s"

definition TrimLeft :: "string \<Rightarrow> string \<Rightarrow> string" where
  "TrimLeft s cutset = dropWhile (\<lambda>c. c \<in> set cutset) s"

definition Trim :: "string \<Rightarrow> string \<Rightarrow> string" where
  "Trim s cutset = rev (TrimLeft (rev (TrimLeft s cutset)) cutset)"

definition ascii_space :: "string" where
  "ascii_space = [CHR 0x09, CHR 0x0A, CHR 0x0B, CHR 0x0C, CHR 0x0D, CHR '' '']"

definition TrimSpace :: "string \<Rightarrow> string" where
  "TrimSpace s = Trim s ascii_space"

definition Fields :: "string \<Rightarrow> string list" where
  "Fields s = filter (\<lambda>p. p \<noteq> [])
     (split_on (CHR '' '') (map (\<lambda>c. if c \<in> set ascii_space then CHR '' '' else c) s))"

subsection \<open>Facts\<close>

lemma HasPrefix_iff: "HasPrefix s p \<longleftrightarrow> (\<exists>t. s = p @ t)"
  by (metis HasPrefix_def append_eq_conv_conj append_take_drop_id)

lemma HasPrefix_append [simp]: "HasPrefix (p @ t) p"
  by (simp add: HasPrefix_def)

lemma HasPrefix_Nil [simp]: "HasPrefix s []"
  by (simp add: HasPrefix_def)

lemma HasPrefix_Cons [simp]: "HasPrefix (c # s) (d # p) \<longleftrightarrow> c = d \<and> HasPrefix s p"
  by (simp add: HasPrefix_def)

lemma HasPrefix_empty [simp]: "HasPrefix [] (d # p) \<longleftrightarrow> False"
  by (simp add: HasPrefix_def)

lemma HasPrefix_same [simp]: "HasPrefix (p @ s) (p @ t) \<longleftrightarrow> HasPrefix s t"
  by (simp add: HasPrefix_iff)

lemma HasSuffix_iff: "HasSuffix s p \<longleftrightarrow> (\<exists>t. s = t @ p)"
  by (auto simp: HasSuffix_def) (metis append_take_drop_id)

lemma HasSuffix_append [simp]: "HasSuffix (t @ p) p"
  by (simp add: HasSuffix_def)

lemma CutPrefix_True: "CutPrefix s p = (r, True) \<longleftrightarrow> s = p @ r"
  by (auto simp: CutPrefix_def HasPrefix_iff)

lemma CutPrefix_append [simp]: "CutPrefix (p @ r) p = (r, True)"
  by (simp add: CutPrefix_True)

lemma CutSuffix_True: "CutSuffix s p = (r, True) \<longleftrightarrow> s = r @ p"
  by (auto simp: CutSuffix_def HasSuffix_iff)

lemma CutSuffix_append [simp]: "CutSuffix (r @ p) p = (r, True)"
  by (simp add: CutSuffix_True)

lemma TrimPrefix_append [simp]: "TrimPrefix (p @ r) p = r"
  by (simp add: TrimPrefix_def)

lemma TrimSuffix_append [simp]: "TrimSuffix (r @ p) p = r"
  by (simp add: TrimSuffix_def)

lemma TrimSuffix_none: "\<not> HasSuffix s p \<Longrightarrow> TrimSuffix s p = s"
  by (simp add: TrimSuffix_def CutSuffix_def)

lemma Index_Some_split: "Index s sub = Some i \<Longrightarrow> s = take i s @ sub @ drop (i + length sub) s"
proof (induction s arbitrary: i)
  case (Cons c s)
  then show ?case
    by (auto simp: HasPrefix_iff split: if_splits)
qed (auto split: if_splits)

lemma Index_Some_le: "Index s sub = Some i \<Longrightarrow> i \<le> length s"
proof (induction s arbitrary: i)
  case (Cons c s)
  then show ?case by (auto split: if_splits)
qed (auto split: if_splits)

lemma Index_None_iff: "Index s sub = None \<longleftrightarrow> (\<nexists>u v. s = u @ sub @ v)"
proof (induction s)
  case (Cons c s)
  have "(\<exists>u v. c # s = u @ sub @ v) \<longleftrightarrow> HasPrefix (c # s) sub \<or> (\<exists>u v. s = u @ sub @ v)"
    by (auto simp: HasPrefix_iff Cons_eq_append_conv)
  with Cons show ?case by simp
qed auto

lemma Contains_iff: "Contains s sub \<longleftrightarrow> (\<exists>u v. s = u @ sub @ v)"
  by (simp add: Contains_def Index_None_iff)

text \<open>The first occurrence of a separator lies where a prefix free of its first byte ends.\<close>

lemma Index_first_char:
  "d \<notin> set u \<Longrightarrow> Index (u @ (d # sub) @ v) (d # sub) = Some (length u)"
  by (induction u) (auto simp: HasPrefix_iff)

lemma Index_None_char: "d \<notin> set s \<Longrightarrow> Index s (d # sub) = None"
  by (induction s) auto

lemma Cut_first_char: "d \<notin> set u \<Longrightarrow> Cut (u @ d # v) [d] = (u, v, True)"
  using Index_first_char [of d u "[]" v] by (simp add: Cut_def)

lemma Cut_none_char: "d \<notin> set s \<Longrightarrow> Cut s [d] = (s, [], False)"
  by (simp add: Cut_def Index_None_char)

lemma Cut_True: "Cut s sep = (a, b, True) \<Longrightarrow> s = a @ sep @ b"
  by (auto simp: Cut_def dest: Index_Some_split split: option.splits)

lemma Cut_False: "Cut s sep = (a, b, False) \<Longrightarrow> a = s \<and> b = [] \<and> \<not> Contains s sep"
  by (auto simp: Cut_def Contains_def split: option.splits)

lemma TrimLeft_Nil_iff: "TrimLeft s cutset = [] \<longleftrightarrow> set s \<subseteq> set cutset"
  by (auto simp: TrimLeft_def dropWhile_eq_Nil_conv)

lemma Trim_Nil_iff: "Trim s cutset = [] \<longleftrightarrow> set s \<subseteq> set cutset"
proof -
  have "Trim s cutset = [] \<longleftrightarrow> set (TrimLeft s cutset) \<subseteq> set cutset"
    by (simp add: Trim_def TrimLeft_Nil_iff)
  also have "\<dots> \<longleftrightarrow> set s \<subseteq> set cutset"
  proof
    assume a: "set (TrimLeft s cutset) \<subseteq> set cutset"
    have "s = takeWhile (\<lambda>c. c \<in> set cutset) s @ TrimLeft s cutset"
      by (simp add: TrimLeft_def)
    then have "set s = set (takeWhile (\<lambda>c. c \<in> set cutset) s) \<union> set (TrimLeft s cutset)"
      by (metis set_append)
    with a show "set s \<subseteq> set cutset" by (auto dest: set_takeWhileD)
  next
    assume "set s \<subseteq> set cutset"
    then show "set (TrimLeft s cutset) \<subseteq> set cutset"
      by (auto simp: TrimLeft_def dest: set_dropWhileD)
  qed
  finally show ?thesis .
qed

lemma TrimLeft_id: "s = [] \<or> hd s \<notin> set cutset \<Longrightarrow> TrimLeft s cutset = s"
  by (cases s) (auto simp: TrimLeft_def)

lemma Trim_id: "s \<noteq> [] \<Longrightarrow> hd s \<notin> set cutset \<Longrightarrow> last s \<notin> set cutset \<Longrightarrow> Trim s cutset = s"
  by (simp add: Trim_def TrimLeft_id hd_rev)

lemma upper_char_idem [simp]: "upper_char (upper_char c) = upper_char c"
proof (cases "CHR ''a'' \<le> c \<and> c \<le> CHR ''z''")
  case True
  then have "97 \<le> (of_char c :: nat)" and "(of_char c :: nat) \<le> 122"
    by (simp_all add: less_eq_char_def)
  then have "(of_char (char_of (of_char c - 32 :: nat)) :: nat) \<le> 90"
    by (simp add: of_char_of)
  then show ?thesis
    by (simp add: upper_char_def less_eq_char_def)
next
  case False
  then have "upper_char c = c" by (simp only: upper_char_def if_False)
  then show ?thesis by simp
qed

lemma ToUpper_idem [simp]: "ToUpper (ToUpper s) = ToUpper s"
  by (simp add: ToUpper_def)

subsection \<open>Texts made of separated pieces\<close>

lemma Contains_skip: "c \<notin> set s \<Longrightarrow> Contains (s @ t) (c # w) \<longleftrightarrow> Contains t (c # w)"
  by (induction s) (auto simp: Contains_def)

lemma HasPrefix_piece:
  "c \<notin> set w \<Longrightarrow> HasPrefix (s @ concat (map (Cons c) ps)) w \<longleftrightarrow> HasPrefix s w"
proof (induction s arbitrary: w)
  case Nil
  then show ?case by (cases w; cases ps) auto
next
  case (Cons a s)
  then show ?case by (cases w) auto
qed

lemma Contains_piece:
  assumes "c \<notin> set w" "\<forall>p \<in> set ps. c \<notin> set p"
  shows "Contains (concat (map (Cons c) ps)) (c # w) \<longleftrightarrow> (\<exists>p \<in> set ps. HasPrefix p w)"
  using assms(2)
proof (induction ps)
  case (Cons p ps)
  have "Contains (c # p @ concat (map (Cons c) ps)) (c # w) \<longleftrightarrow>
        HasPrefix p w \<or> Contains (p @ concat (map (Cons c) ps)) (c # w)"
    using HasPrefix_piece [OF assms(1)] by (auto simp: Contains_def)
  with Cons show ?case by (simp add: Contains_skip)
qed (simp add: Contains_def)

lemma first_segment:
  assumes "c \<notin> set w"
  shows "q = w \<or> HasPrefix q (w @ [c]) \<longleftrightarrow> hd (split_on c q) = w"
proof
  assume "q = w \<or> HasPrefix q (w @ [c])"
  with assms show "hd (split_on c q) = w"
    by (auto simp: HasPrefix_iff hd_split_on takeWhile_eq_all_conv takeWhile_tail
        split_on_no_sep split_on_append_sep)
next
  assume "hd (split_on c q) = w"
  then have w: "takeWhile (\<lambda>x. x \<noteq> c) q = w" by (simp add: hd_split_on)
  have q: "q = w @ dropWhile (\<lambda>x. x \<noteq> c) q" by (simp flip: w)
  show "q = w \<or> HasPrefix q (w @ [c])"
  proof (cases "dropWhile (\<lambda>x. x \<noteq> c) q")
    case (Cons d rest)
    then have "d = c" using hd_dropWhile [of "\<lambda>x. x \<noteq> c" q] by simp
    with Cons q show ?thesis by (metis HasPrefix_iff append.assoc append_Cons append_Nil)
  next
    case Nil
    show ?thesis using q unfolding Nil by simp
  qed
qed

lemma split_on_prefix: "HasPrefix s (w @ [c]) \<Longrightarrow> c \<notin> set w \<Longrightarrow> w \<in> set (split_on c s)"
  by (auto simp: HasPrefix_iff split_on_append_sep)

end
