(* ===== verification/Go_Path.thy ===== *)
theory Go_Path
  imports Go_Strings
begin

section \<open>The path package\<close>

text \<open>
  \<^verbatim>\<open>path.Clean\<close>, the lexical normal form of a slash-separated path: separators are merged,
  \<^verbatim>\<open>.\<close> elements dropped, \<^verbatim>\<open>..\<close> elements cancel the element before them, a leading \<^verbatim>\<open>..\<close> of a
  rooted path is dropped, and the empty path is \<^verbatim>\<open>.\<close>. The stack of the loop is the prefix
  written so far, innermost element first.
\<close>

fun clean_segs :: "bool \<Rightarrow> string list \<Rightarrow> string list \<Rightarrow> string list" where
  "clean_segs rooted st [] = rev st"
| "clean_segs rooted st (seg # segs) =
     (if seg = [] \<or> seg = ''.'' then clean_segs rooted st segs
      else if seg = ''..'' then
        (case st of
           [] \<Rightarrow> clean_segs rooted (if rooted then [] else [''..'']) segs
         | t # st' \<Rightarrow> clean_segs rooted (if t = ''..'' then ''..'' # st else st') segs)
      else clean_segs rooted (seg # st) segs)"

definition IsAbs :: "string \<Rightarrow> bool" where
  "IsAbs p \<longleftrightarrow> p \<noteq> [] \<and> hd p = CHR ''/''"

definition Clean :: "string \<Rightarrow> string" where
  "Clean p =
     (if p = [] then ''.''
      else let out = join_with ''/'' (clean_segs (IsAbs p) [] (split_on (CHR ''/'') p))
           in if IsAbs p then CHR ''/'' # out else if out = [] then ''.'' else out)"

text \<open>An element that \<^verbatim>\<open>path.Clean\<close> leaves alone wherever it stands.\<close>

definition plain_seg :: "string \<Rightarrow> bool" where
  "plain_seg s \<longleftrightarrow> s \<noteq> [] \<and> s \<noteq> ''.'' \<and> s \<noteq> ''..''"

subsection \<open>Facts\<close>

lemma clean_segs_plain:
  "\<forall>s \<in> set segs. plain_seg s \<Longrightarrow> clean_segs rooted st segs = rev st @ segs"
  by (induction segs arbitrary: st) (auto simp: plain_seg_def)

lemma clean_segs_rooted:
  "\<forall>s \<in> set st. plain_seg s \<Longrightarrow> s \<in> set (clean_segs True st segs) \<Longrightarrow> plain_seg s"
proof (induction segs arbitrary: st)
  case (Cons seg segs)
  consider "seg = [] \<or> seg = ''.''" | "seg = ''..''" | "plain_seg seg"
    by (auto simp: plain_seg_def)
  then show ?case
  proof cases
    case 2
    have "\<forall>s \<in> set (tl st). plain_seg s" using Cons.prems(1) by (cases st) auto
    moreover have "s \<in> set (clean_segs True (tl st) segs)"
      using Cons.prems 2 by (cases st) (auto simp: plain_seg_def)
    ultimately show ?thesis by (rule Cons.IH)
  next
    case 3
    have "\<forall>s \<in> set (seg # st). plain_seg s" using Cons.prems(1) 3 by simp
    moreover have "s \<in> set (clean_segs True (seg # st) segs)"
      using Cons.prems(2) 3 by (auto simp: plain_seg_def)
    ultimately show ?thesis by (rule Cons.IH)
  qed (use Cons in auto)
qed simp

lemma clean_segs_no_slash:
  "\<forall>s \<in> set st \<union> set segs. CHR ''/'' \<notin> set s \<Longrightarrow>
   s \<in> set (clean_segs rooted st segs) \<Longrightarrow> CHR ''/'' \<notin> set s"
proof (induction rooted st segs rule: clean_segs.induct)
  case (2 rooted st seg segs)
  then show ?case
    by (cases st) (auto split: if_splits)
qed simp

text \<open>
  A rooted path is clean exactly when it is the root or every element between its slashes is
  plain: no empty element (so no doubled or trailing slash), no \<^verbatim>\<open>.\<close> and no \<^verbatim>\<open>..\<close>.
\<close>

lemma Clean_rooted_iff:
  "Clean (CHR ''/'' # q) = CHR ''/'' # q \<longleftrightarrow>
     q = [] \<or> (\<forall>s \<in> set (split_on (CHR ''/'') q). plain_seg s)"
proof -
  let ?segs = "split_on (CHR ''/'') q"
  let ?out = "clean_segs True [] ?segs"
  have C: "Clean (CHR ''/'' # q) = CHR ''/'' # join_with ''/'' ?out"
    by (simp add: Clean_def IsAbs_def)
  show ?thesis
  proof
    assume "Clean (CHR ''/'' # q) = CHR ''/'' # q"
    with C have j: "join_with ''/'' ?out = q" by simp
    have noslash: "\<forall>s \<in> set ?out. CHR ''/'' \<notin> set s"
      using clean_segs_no_slash [of "[]" ?segs _ True] split_on_pieces by fastforce
    show "q = [] \<or> (\<forall>s \<in> set ?segs. plain_seg s)"
    proof (cases "?out = []")
      case True
      with j show ?thesis by simp
    next
      case False
      then have "?segs = ?out" using split_join [OF False noslash] j by simp
      then show ?thesis
        using clean_segs_rooted [of "[]" _ ?segs] by (metis empty_iff list.set(1))
    qed
  next
    assume "q = [] \<or> (\<forall>s \<in> set ?segs. plain_seg s)"
    then show "Clean (CHR ''/'' # q) = CHR ''/'' # q"
    proof
      assume "q = []"
      with C show ?thesis by simp
    next
      assume "\<forall>s \<in> set ?segs. plain_seg s"
      with C show ?thesis by (simp add: clean_segs_plain join_split)
    qed
  qed
qed

lemma Clean_relative:
  assumes "p \<noteq> []" "hd p \<noteq> CHR ''/''" "\<forall>s \<in> set (split_on (CHR ''/'') p). plain_seg s"
  shows "Clean p = p"
proof -
  have "clean_segs False [] (split_on (CHR ''/'') p) = split_on (CHR ''/'') p"
    using assms(3) by (simp add: clean_segs_plain)
  with assms(1,2) show ?thesis
    by (simp add: Clean_def IsAbs_def join_split)
qed

lemma Clean_single:
  "plain_seg p \<Longrightarrow> CHR ''/'' \<notin> set p \<Longrightarrow> Clean p = p"
  by (cases p) (auto intro!: Clean_relative simp: plain_seg_def split_on_no_sep)

end
