(* ===== verification/Go_Regexp.thy ===== *)
theory Go_Regexp
  imports Go_Strings
begin

section \<open>The regexp package\<close>

text \<open>
  The anchored regular expressions of the source (\<^verbatim>\<open>^...$\<close>, matched against the whole text)
  over byte classes given as ranges. Matching runs by derivatives; \<open>lang\<close> is the textbook
  semantics, and \<open>MatchString_iff\<close> says that the matcher decides it. Every class of the source
  is ASCII, so matching bytes and matching UTF-8 code points is the same thing.
\<close>

datatype re =
    Zero
  | One
  | Cls "(char \<times> char) list"
  | Alt re re
  | Seq re re
  | Star re

definition in_cls :: "(char \<times> char) list \<Rightarrow> char \<Rightarrow> bool" where
  "in_cls rs c \<longleftrightarrow> list_ex (\<lambda>(lo, hi). lo \<le> c \<and> c \<le> hi) rs"

definition lit :: "char \<Rightarrow> re" where
  "lit c = Cls [(c, c)]"

definition Plus :: "re \<Rightarrow> re" where
  "Plus r = Seq r (Star r)"

text \<open>\<open>UpTo r n\<close> is \<^verbatim>\<open>r{0,n}\<close>, and so \<open>Seq r (UpTo r n)\<close> is \<^verbatim>\<open>r{1,n+1}\<close>.\<close>

fun UpTo :: "re \<Rightarrow> nat \<Rightarrow> re" where
  "UpTo r 0 = One"
| "UpTo r (Suc n) = Alt One (Seq r (UpTo r n))"

fun nullable :: "re \<Rightarrow> bool" where
  "nullable Zero = False"
| "nullable One = True"
| "nullable (Cls rs) = False"
| "nullable (Alt r s) = (nullable r \<or> nullable s)"
| "nullable (Seq r s) = (nullable r \<and> nullable s)"
| "nullable (Star r) = True"

fun deriv :: "char \<Rightarrow> re \<Rightarrow> re" where
  "deriv c Zero = Zero"
| "deriv c One = Zero"
| "deriv c (Cls rs) = (if in_cls rs c then One else Zero)"
| "deriv c (Alt r s) = Alt (deriv c r) (deriv c s)"
| "deriv c (Seq r s) =
     (if nullable r then Alt (Seq (deriv c r) s) (deriv c s) else Seq (deriv c r) s)"
| "deriv c (Star r) = Seq (deriv c r) (Star r)"

fun MatchString :: "re \<Rightarrow> string \<Rightarrow> bool" where
  "MatchString r [] = nullable r"
| "MatchString r (c # s) = MatchString (deriv c r) s"

inductive_set star :: "string set \<Rightarrow> string set" for A where
  star_Nil: "[] \<in> star A"
| star_Cons: "u \<in> A \<Longrightarrow> v \<in> star A \<Longrightarrow> u @ v \<in> star A"

fun lang :: "re \<Rightarrow> string set" where
  "lang Zero = {}"
| "lang One = {[]}"
| "lang (Cls rs) = {[c] |c. in_cls rs c}"
| "lang (Alt r s) = lang r \<union> lang s"
| "lang (Seq r s) = {u @ v |u v. u \<in> lang r \<and> v \<in> lang s}"
| "lang (Star r) = star (lang r)"

subsection \<open>The matcher decides the language\<close>

lemma nullable_iff: "nullable r \<longleftrightarrow> [] \<in> lang r"
  by (induction r) (auto intro: star_Nil)

lemma star_Cons_iff: "c # s \<in> star A \<longleftrightarrow> (\<exists>u v. s = u @ v \<and> c # u \<in> A \<and> v \<in> star A)"
proof
  assume "c # s \<in> star A"
  then show "\<exists>u v. s = u @ v \<and> c # u \<in> A \<and> v \<in> star A"
  proof (induction "c # s" arbitrary: s)
    case (star_Cons u v)
    then show ?case by (cases u) auto
  qed
next
  assume "\<exists>u v. s = u @ v \<and> c # u \<in> A \<and> v \<in> star A"
  then show "c # s \<in> star A"
    using star.star_Cons [of "c # _" A] by force
qed

lemma lang_deriv: "s \<in> lang (deriv c r) \<longleftrightarrow> c # s \<in> lang r"
proof (induction r arbitrary: s)
  case (Seq r1 r2)
  have "c # s \<in> lang (Seq r1 r2) \<longleftrightarrow>
      (\<exists>u v. s = u @ v \<and> c # u \<in> lang r1 \<and> v \<in> lang r2) \<or> ([] \<in> lang r1 \<and> c # s \<in> lang r2)"
    by (simp add: Cons_eq_append_conv) blast
  with Seq show ?case by (auto simp: nullable_iff)
next
  case (Star r)
  then show ?case by (auto simp: star_Cons_iff)
qed auto

lemma MatchString_iff: "MatchString r s \<longleftrightarrow> s \<in> lang r"
  by (induction s arbitrary: r) (simp_all add: nullable_iff lang_deriv)

subsection \<open>Classes under repetition\<close>

lemma star_Cls: "s \<in> star {[c] |c. P c} \<longleftrightarrow> (\<forall>c \<in> set s. P c)"
proof
  assume "s \<in> star {[c] |c. P c}"
  then show "\<forall>c \<in> set s. P c" by induction auto
next
  assume "\<forall>c \<in> set s. P c"
  then show "s \<in> star {[c] |c. P c}"
  proof (induction s)
    case (Cons c s)
    then show ?case using star.star_Cons [of "[c]" "{[c] |c. P c}" s] by simp
  qed (rule star_Nil)
qed

lemma lang_Star_Cls: "s \<in> lang (Star (Cls rs)) \<longleftrightarrow> (\<forall>c \<in> set s. in_cls rs c)"
  by (simp add: star_Cls)

lemma lang_Seq_Cls:
  "s \<in> lang (Seq (Cls rs) r) \<longleftrightarrow> (\<exists>c t. s = c # t \<and> in_cls rs c \<and> t \<in> lang r)"
proof
  assume "\<exists>c t. s = c # t \<and> in_cls rs c \<and> t \<in> lang r"
  then obtain c t where "s = [c] @ t" "in_cls rs c" "t \<in> lang r" by auto
  then show "s \<in> lang (Seq (Cls rs) r)"
    unfolding lang.simps mem_Collect_eq by blast
qed auto

lemma lang_Plus_Cls: "s \<in> lang (Plus (Cls rs)) \<longleftrightarrow> s \<noteq> [] \<and> (\<forall>c \<in> set s. in_cls rs c)"
  unfolding Plus_def lang_Seq_Cls lang_Star_Cls by (cases s) auto

lemma lang_lit [simp]: "lang (lit d) = {[d]}"
  by (auto simp: lit_def in_cls_def)

lemma lang_UpTo_chars: "s \<in> lang (UpTo (Cls rs) n) \<Longrightarrow> c \<in> set s \<Longrightarrow> in_cls rs c"
  by (induction n arbitrary: s) auto

lemma lang_UpTo_length: "s \<in> lang (UpTo (Cls rs) n) \<Longrightarrow> length s \<le> n"
  by (induction n arbitrary: s) auto

lemma lang_UpTo_Cls:
  "s \<in> lang (UpTo (Cls rs) n) \<longleftrightarrow> length s \<le> n \<and> (\<forall>c \<in> set s. in_cls rs c)"
proof
  assume "s \<in> lang (UpTo (Cls rs) n)"
  then show "length s \<le> n \<and> (\<forall>c \<in> set s. in_cls rs c)"
    using lang_UpTo_chars lang_UpTo_length by blast
next
  assume "length s \<le> n \<and> (\<forall>c \<in> set s. in_cls rs c)"
  then show "s \<in> lang (UpTo (Cls rs) n)"
  proof (induction n arbitrary: s)
    case (Suc n)
    then have "s = [] \<or> s \<in> lang (Seq (Cls rs) (UpTo (Cls rs) n))"
      unfolding lang_Seq_Cls by (cases s) auto
    then show ?case by auto
  qed simp
qed

end
