(* ===== verification/Go_Strconv.thy ===== *)
theory Go_Strconv
  imports Go_Strings
begin

section \<open>The strconv package\<close>

text \<open>
  Decimal and octal conversions, as the source uses them: \<^verbatim>\<open>Itoa\<close> and \<^verbatim>\<open>FormatInt(n, 10)\<close>,
  \<^verbatim>\<open>Atoi\<close> and \<^verbatim>\<open>ParseInt(s, 10, 64)\<close> (Go's \<^verbatim>\<open>int\<close> has 64 bits on every platform the
  repository builds for), and \<^verbatim>\<open>ParseUint(s, 8, 32)\<close>. \<^term>\<open>None\<close> is the non-nil error; the
  range checks are written out, so overflow is an error and never wraps. With an explicit
  base neither a base prefix nor an underscore is accepted.
\<close>

definition digit_char :: "nat \<Rightarrow> char" where
  "digit_char d = char_of (48 + d)"

definition digit_value :: "nat \<Rightarrow> char \<Rightarrow> nat option" where
  "digit_value base c =
     (let v = (of_char c :: nat) in if 48 \<le> v \<and> v < 48 + base then Some (v - 48) else None)"

fun decimal :: "nat \<Rightarrow> string" where
  "decimal n = (if n < 10 then [digit_char n] else decimal (n div 10) @ [digit_char (n mod 10)])"

declare decimal.simps [simp del]

definition Itoa :: "int \<Rightarrow> string" where
  "Itoa i = (if i < 0 then CHR ''-'' # decimal (nat (- i)) else decimal (nat i))"

fun digits_acc :: "nat \<Rightarrow> nat \<Rightarrow> string \<Rightarrow> nat option" where
  "digits_acc base acc [] = Some acc"
| "digits_acc base acc (c # cs) =
     (case digit_value base c of None \<Rightarrow> None | Some d \<Rightarrow> digits_acc base (acc * base + d) cs)"

definition ParseUint :: "string \<Rightarrow> nat \<Rightarrow> nat \<Rightarrow> nat option" where
  "ParseUint s base bits =
     (if s = [] then None
      else case digits_acc base 0 s of
        None \<Rightarrow> None
      | Some n \<Rightarrow> if n < 2 ^ bits then Some n else None)"

definition ParseInt :: "string \<Rightarrow> int option" where
  "ParseInt s =
     (let neg = (s \<noteq> [] \<and> hd s = CHR ''-'');
          rest = (if s \<noteq> [] \<and> (hd s = CHR ''-'' \<or> hd s = CHR ''+'') then tl s else s)
      in case ParseUint rest 10 64 of
           None \<Rightarrow> None
         | Some n \<Rightarrow>
             (if neg then (if n \<le> 2 ^ 63 then Some (- int n) else None)
              else (if n < 2 ^ 63 then Some (int n) else None)))"

definition Atoi :: "string \<Rightarrow> int option" where
  "Atoi s = ParseInt s"

definition is_int64 :: "int \<Rightarrow> bool" where
  "is_int64 i \<longleftrightarrow> - (2 ^ 63) \<le> i \<and> i < 2 ^ 63"

definition is_digit :: "char \<Rightarrow> bool" where
  "is_digit c \<longleftrightarrow> CHR ''0'' \<le> c \<and> c \<le> CHR ''9''"

subsection \<open>Facts\<close>

lemma of_char_digit [simp]: "d < 10 \<Longrightarrow> (of_char (digit_char d) :: nat) = 48 + d"
  by (simp add: digit_char_def of_char_of)

lemma digit_value_char [simp]: "d < 10 \<Longrightarrow> digit_value 10 (digit_char d) = Some d"
  by (simp add: digit_value_def)

lemma digits_acc_append:
  "digits_acc b acc (xs @ ys) =
     (case digits_acc b acc xs of None \<Rightarrow> None | Some a \<Rightarrow> digits_acc b a ys)"
  by (induction xs arbitrary: acc) (auto split: option.splits)

lemma digits_acc_decimal: "digits_acc 10 0 (decimal n) = Some n"
proof (induction n rule: decimal.induct)
  case (1 n)
  show ?case
  proof (cases "n < 10")
    case True
    then show ?thesis by (simp add: decimal.simps [of n])
  next
    case False
    with 1 have "digits_acc 10 0 (decimal (n div 10)) = Some (n div 10)" by simp
    with False show ?thesis by (simp add: decimal.simps [of n] digits_acc_append)
  qed
qed

lemma decimal_not_Nil [simp]: "decimal n \<noteq> []"
  by (subst decimal.simps) simp

lemma decimal_inject [simp]: "decimal m = decimal n \<longleftrightarrow> m = n"
  by (metis digits_acc_decimal option.inject)

lemma is_digit_digit_char: "d < 10 \<Longrightarrow> is_digit (digit_char d)"
  by (simp add: is_digit_def less_eq_char_def)

lemma decimal_digits: "c \<in> set (decimal n) \<Longrightarrow> is_digit c"
proof (induction n arbitrary: c rule: decimal.induct)
  case (1 n)
  then show ?case
    by (subst (asm) (2) decimal.simps) (auto simp: is_digit_digit_char split: if_splits)
qed

lemma hd_decimal_digit: "is_digit (hd (decimal n))"
  by (rule decimal_digits [of _ n]) simp

lemma decimal_no_sign: "hd (decimal n) \<noteq> CHR ''-''" "hd (decimal n) \<noteq> CHR ''+''"
  using hd_decimal_digit [of n] by (auto simp: is_digit_def)

lemma Itoa_not_Nil [simp]: "Itoa i \<noteq> []"
  by (simp add: Itoa_def)

lemma Itoa_nat [simp]: "0 \<le> i \<Longrightarrow> Itoa i = decimal (nat i)"
  by (simp add: Itoa_def)

lemma ParseUint_decimal: "n < 2 ^ 64 \<Longrightarrow> ParseUint (decimal n) 10 64 = Some n"
  by (simp add: ParseUint_def digits_acc_decimal)

text \<open>Printing an \<^verbatim>\<open>int\<close> and parsing it back gives the same number over the whole 64-bit range.\<close>

lemma ParseInt_Itoa: "is_int64 i \<Longrightarrow> ParseInt (Itoa i) = Some i"
proof (cases "i < 0")
  case True
  assume "is_int64 i"
  with True have "nat (- i) \<le> 2 ^ 63"
    by (simp add: is_int64_def)
  then have "ParseUint (decimal (nat (- i))) 10 64 = Some (nat (- i))"
    by (intro ParseUint_decimal) simp
  with True \<open>nat (- i) \<le> 2 ^ 63\<close> show ?thesis
    by (simp add: ParseInt_def Itoa_def)
next
  case False
  assume "is_int64 i"
  with False have n: "nat i < 2 ^ 63"
    by (simp add: is_int64_def)
  then have "ParseUint (decimal (nat i)) 10 64 = Some (nat i)"
    by (intro ParseUint_decimal) simp
  with False n show ?thesis
    by (simp add: ParseInt_def decimal_no_sign)
qed

lemma Itoa_inject: "is_int64 i \<Longrightarrow> is_int64 j \<Longrightarrow> Itoa i = Itoa j \<longleftrightarrow> i = j"
  by (metis ParseInt_Itoa option.inject)

lemma ParseInt_range: "ParseInt s = Some i \<Longrightarrow> is_int64 i"
  by (auto simp: ParseInt_def is_int64_def Let_def split: option.splits if_splits)

lemma ParseUint_range: "ParseUint s base bits = Some n \<Longrightarrow> n < 2 ^ bits"
  by (auto simp: ParseUint_def split: option.splits if_splits)

lemma digits_acc_Some: "\<forall>c \<in> set s. is_digit c \<Longrightarrow> \<exists>n. digits_acc 10 acc s = Some n"
proof (induction s arbitrary: acc)
  case (Cons c s)
  then have "\<exists>d. digit_value 10 c = Some d"
    by (simp add: digit_value_def is_digit_def less_eq_char_def)
  with Cons show ?case by auto
qed simp

lemma digits_acc_digits: "digits_acc 10 acc s = Some n \<Longrightarrow> c \<in> set s \<Longrightarrow> is_digit c"
proof (induction s arbitrary: acc)
  case (Cons d s)
  then show ?case
    by (auto simp: digit_value_def is_digit_def less_eq_char_def Let_def
        split: option.splits if_splits)
qed simp

lemma digits_acc_ge: "0 < b \<Longrightarrow> digits_acc b acc s = Some n \<Longrightarrow> acc \<le> n"
proof (induction s arbitrary: acc)
  case (Cons c s)
  then obtain d where "digits_acc b (acc * b + d) s = Some n"
    by (auto split: option.splits)
  with Cons have "acc * b + d \<le> n" by blast
  moreover have "acc \<le> acc * b" using Cons.prems(1) by simp
  ultimately show ?case by linarith
qed simp

lemma digits_acc_zero: "digits_acc 10 0 s = Some 0 \<Longrightarrow> set s \<subseteq> {CHR ''0''}"
proof (induction s)
  case (Cons c s)
  then obtain d where d: "digit_value 10 c = Some d" and r: "digits_acc 10 d s = Some 0"
    by (auto split: option.splits)
  from digits_acc_ge [OF _ r] have "d = 0" by simp
  with d have "(of_char c :: nat) = of_char (CHR ''0'')"
    by (auto simp: digit_value_def Let_def split: if_splits)
  then have "c = CHR ''0''" by (simp only: of_char_eq_iff)
  with Cons.IH r \<open>d = 0\<close> show ?case by simp
qed simp

lemma digits_acc_zeros: "set s \<subseteq> {CHR ''0''} \<Longrightarrow> digits_acc 10 0 s = Some 0"
  by (induction s) (auto simp: digit_value_def)

end
