(* ===== verification/Go_Utf8.thy ===== *)
theory Go_Utf8
  imports Go_Strings
begin

section \<open>The unicode/utf8 package\<close>

text \<open>
  \<^verbatim>\<open>utf8.ValidString\<close>. \<open>rune_len s\<close> is the length of the well-formed UTF-8 sequence at the
  start of \<open>s\<close>, 0 when there is none: overlong forms, surrogates and code points above
  U+10FFFF are refused by the ranges of the second byte.
\<close>

definition byte_in :: "string \<Rightarrow> nat \<Rightarrow> nat \<Rightarrow> nat \<Rightarrow> bool" where
  "byte_in s i lo hi \<longleftrightarrow> i < length s \<and> lo \<le> (of_char (s ! i) :: nat) \<and> of_char (s ! i) \<le> hi"

definition seq2 :: "string \<Rightarrow> bool" where
  "seq2 s \<longleftrightarrow> byte_in s 0 0xC2 0xDF \<and> byte_in s 1 0x80 0xBF"

definition seq3 :: "string \<Rightarrow> bool" where
  "seq3 s \<longleftrightarrow> byte_in s 0 0xE0 0xEF
     \<and> byte_in s 1 (if byte_in s 0 0xE0 0xE0 then 0xA0 else 0x80)
                   (if byte_in s 0 0xED 0xED then 0x9F else 0xBF)
     \<and> byte_in s 2 0x80 0xBF"

definition seq4 :: "string \<Rightarrow> bool" where
  "seq4 s \<longleftrightarrow> byte_in s 0 0xF0 0xF4
     \<and> byte_in s 1 (if byte_in s 0 0xF0 0xF0 then 0x90 else 0x80)
                   (if byte_in s 0 0xF4 0xF4 then 0x8F else 0xBF)
     \<and> byte_in s 2 0x80 0xBF \<and> byte_in s 3 0x80 0xBF"

definition rune_len :: "string \<Rightarrow> nat" where
  "rune_len s =
     (if byte_in s 0 0 0x7F then 1 else if seq2 s then 2 else if seq3 s then 3
      else if seq4 s then 4 else 0)"

function ValidString :: "string \<Rightarrow> bool" where
  "ValidString s =
     (if s = [] then True
      else if rune_len s = 0 then False
      else ValidString (drop (rune_len s) s))"
  by pat_completeness auto
termination
  by (relation "measure length") auto

declare ValidString.simps [simp del]

definition is_ascii :: "char \<Rightarrow> bool" where
  "is_ascii c \<longleftrightarrow> (of_char c :: nat) \<le> 0x7F"

subsection \<open>Facts\<close>

lemma ValidString_Nil [simp]: "ValidString []"
  by (simp add: ValidString.simps)

lemma rune_len_ascii [simp]: "is_ascii c \<Longrightarrow> rune_len (c # s) = 1"
  by (simp add: rune_len_def byte_in_def is_ascii_def)

lemma ValidString_ascii_Cons [simp]: "is_ascii c \<Longrightarrow> ValidString (c # s) \<longleftrightarrow> ValidString s"
  by (subst ValidString.simps) simp

lemma ValidString_ascii: "\<forall>c \<in> set s. is_ascii c \<Longrightarrow> ValidString s"
  by (induction s) simp_all

lemma byte_in_length: "byte_in s i lo hi \<Longrightarrow> Suc i \<le> length s"
  by (simp add: byte_in_def)

lemma seq_length:
  "seq2 s \<Longrightarrow> 2 \<le> length s" "seq3 s \<Longrightarrow> 3 \<le> length s" "seq4 s \<Longrightarrow> 4 \<le> length s"
  unfolding seq2_def seq3_def seq4_def by (auto dest!: byte_in_length)

lemma rune_len_le: "rune_len s \<le> length s"
  using byte_in_length [of s 0] seq_length [of s] by (simp add: rune_len_def)

lemma byte_in_cong:
  "i < length r \<Longrightarrow> byte_in (r @ s) i lo hi \<longleftrightarrow> byte_in (r @ t) i lo hi"
  by (simp add: byte_in_def nth_append)

lemma seq_local:
  "2 \<le> length r \<Longrightarrow> seq2 (r @ s) = seq2 (r @ t)"
  "3 \<le> length r \<Longrightarrow> seq3 (r @ s) = seq3 (r @ t)"
  "4 \<le> length r \<Longrightarrow> seq4 (r @ s) = seq4 (r @ t)"
proof -
  have b: "byte_in (r @ s) i lo hi = byte_in (r @ t) i lo hi" if "n \<le> length r" "i < n" for n i lo hi
    using that by (intro byte_in_cong) simp
  show "2 \<le> length r \<Longrightarrow> seq2 (r @ s) = seq2 (r @ t)"
    unfolding seq2_def by (simp only: b [of 2])
  show "3 \<le> length r \<Longrightarrow> seq3 (r @ s) = seq3 (r @ t)"
    unfolding seq3_def by (simp only: b [of 3])
  show "4 \<le> length r \<Longrightarrow> seq4 (r @ s) = seq4 (r @ t)"
    unfolding seq4_def by (simp only: b [of 4])
qed

text \<open>The sequence at the start depends on its own bytes only.\<close>

lemma rune_len_local:
  assumes r: "rune_len (r @ s) = length r" "r \<noteq> []"
  shows "rune_len (r @ t) = length r"
proof -
  have one: "byte_in (r @ t) 0 0 0x7F = byte_in (r @ s) 0 0 0x7F"
    using r(2) by (intro byte_in_cong) simp
  have two: "2 \<le> length r \<Longrightarrow> seq2 (r @ t) = seq2 (r @ s)"
    and three: "3 \<le> length r \<Longrightarrow> seq3 (r @ t) = seq3 (r @ s)"
    and four: "4 \<le> length r \<Longrightarrow> seq4 (r @ t) = seq4 (r @ s)"
    using seq_local by blast+
  have "length r \<noteq> 0" using r(2) by simp
  with r(1) one two three four show ?thesis
    unfolding rune_len_def by (simp split: if_splits)
qed

lemma ValidString_induct [consumes 1, case_names Nil rune]:
  assumes "ValidString s"
    and "P []"
    and "\<And>r s. r \<noteq> [] \<Longrightarrow> (\<And>t. rune_len (r @ t) = length r) \<Longrightarrow> ValidString s \<Longrightarrow> P s \<Longrightarrow> P (r @ s)"
  shows "P s"
  using assms(1)
proof (induction s rule: ValidString.induct)
  case (1 s)
  show ?case
  proof (cases "s = []")
    case False
    let ?r = "take (rune_len s) s" and ?t = "drop (rune_len s) s"
    from "1.prems" False have n: "rune_len s \<noteq> 0" and t: "ValidString ?t"
      by (auto simp: ValidString.simps [of s] split: if_splits)
    have len: "length ?r = rune_len s" using rune_len_le [of s] by simp
    with n have "?r \<noteq> []" by force
    moreover have "rune_len (?r @ t) = length ?r" for t
      by (rule rune_len_local [of _ ?t]) (use len \<open>?r \<noteq> []\<close> in auto)
    moreover have "P ?t" using 1 False n t by blast
    ultimately show ?thesis using assms(3) [of ?r ?t] t by simp
  qed (simp add: assms(2))
qed

lemma ValidString_rune: "rune_len (r @ t) = length r \<Longrightarrow> r \<noteq> [] \<Longrightarrow> ValidString t \<Longrightarrow> ValidString (r @ t)"
  by (subst ValidString.simps) simp

lemma byte_in_high: "byte_in s i lo hi \<Longrightarrow> 0x80 \<le> lo \<Longrightarrow> \<not> is_ascii (s ! i)"
  by (simp add: byte_in_def is_ascii_def)

lemma seq_high:
  "seq2 s \<Longrightarrow> i < 2 \<Longrightarrow> \<not> is_ascii (s ! i)"
  "seq3 s \<Longrightarrow> i < 3 \<Longrightarrow> \<not> is_ascii (s ! i)"
  "seq4 s \<Longrightarrow> i < 4 \<Longrightarrow> \<not> is_ascii (s ! i)"
proof -
  have lt: "i < 2 \<Longrightarrow> i = 0 \<or> i = 1" "i < 3 \<Longrightarrow> i = 0 \<or> i = 1 \<or> i = 2"
    "i < 4 \<Longrightarrow> i = 0 \<or> i = 1 \<or> i = 2 \<or> i = 3"
    by arith+
  show "seq2 s \<Longrightarrow> i < 2 \<Longrightarrow> \<not> is_ascii (s ! i)"
    unfolding seq2_def using lt(1) byte_in_high [of s i] by fastforce
  show "seq3 s \<Longrightarrow> i < 3 \<Longrightarrow> \<not> is_ascii (s ! i)"
    unfolding seq3_def using lt(2) byte_in_high [of s i] by (fastforce split: if_splits)
  show "seq4 s \<Longrightarrow> i < 4 \<Longrightarrow> \<not> is_ascii (s ! i)"
    unfolding seq4_def using lt(3) byte_in_high [of s i] by (fastforce split: if_splits)
qed

lemma rune_ascii_single:
  assumes "\<And>t. rune_len (r @ t) = length r" "c \<in> set r" "is_ascii c"
  shows "r = [c]"
proof -
  from assms(2) obtain i where i: "i < length r" "r ! i = c" by (metis in_set_conv_nth)
  have rl: "rune_len r = length r" using assms(1) [of "[]"] by simp
  have "length r = 1"
  proof (rule ccontr)
    assume "length r \<noteq> 1"
    with rl i have "seq2 r \<and> i < 2 \<or> seq3 r \<and> i < 3 \<or> seq4 r \<and> i < 4"
      by (auto simp: rune_len_def split: if_splits)
    with i assms(3) seq_high show False by blast
  qed
  with i show ?thesis by (cases r) auto
qed

end
