(* ===== verification/Go_JSON.thy ===== *)
theory Go_JSON
  imports Go_Utf8
begin

section \<open>The encoding/json scanner\<close>

text \<open>
  The byte-driven state machine behind \<^verbatim>\<open>json.Unmarshal\<close>, \<^verbatim>\<open>json.Valid\<close> and \<^verbatim>\<open>json.Compact\<close>:
  a current state, a stack of open objects and arrays (innermost first), the flag that the
  top-level value has ended, and a sticky error. Each byte yields an opcode; \<open>Compact\<close> keeps
  the bytes whose opcode is neither \<open>SkipSpace\<close> nor \<open>End\<close>. The nesting limit is the library's.

  The result the harness rests on is \<open>checkValid_Compact\<close>: compacting a valid text gives a
  valid text. It is a simulation: the scanner over the compacted bytes follows the scanner
  over the original ones, staying behind in a state that can still end the value.
\<close>

datatype sstate =
    BeginValueOrEmpty | BeginValue | BeginStringOrEmpty | BeginString | EndValue | EndTop
  | InString | InStringEsc | InStringEscU | InStringEscU1 | InStringEscU12 | InStringEscU123
  | SNeg | S1 | S0 | SDot | SDot0 | SE | SESign | SE0
  | ST | STr | STru | SF | SFa | SFal | SFals | SN | SNu | SNul
  | SError

datatype pstate = ParseObjectKey | ParseObjectValue | ParseArrayValue

datatype scanop =
    Continue | BeginLiteral | BeginObject | ObjectKey | ObjectValue | EndObject
  | BeginArray | ArrayValue | EndArray | SkipSpace | End | ScanError

record scanner =
  sc_step :: sstate
  sc_stack :: "pstate list"
  sc_endTop :: bool
  sc_err :: bool

definition maxNestingDepth :: nat where
  "maxNestingDepth = 10000"

definition isSpace :: "char \<Rightarrow> bool" where
  "isSpace c \<longleftrightarrow> c = CHR '' '' \<or> c = CHR 0x09 \<or> c = CHR 0x0D \<or> c = CHR 0x0A"

definition digit19 :: "char \<Rightarrow> bool" where
  "digit19 c \<longleftrightarrow> CHR ''1'' \<le> c \<and> c \<le> CHR ''9''"

definition digit09 :: "char \<Rightarrow> bool" where
  "digit09 c \<longleftrightarrow> CHR ''0'' \<le> c \<and> c \<le> CHR ''9''"

definition hexdigit :: "char \<Rightarrow> bool" where
  "hexdigit c \<longleftrightarrow> digit09 c \<or> (CHR ''a'' \<le> c \<and> c \<le> CHR ''f'') \<or> (CHR ''A'' \<le> c \<and> c \<le> CHR ''F'')"

definition newScanner :: scanner where
  "newScanner = \<lparr>sc_step = BeginValue, sc_stack = [], sc_endTop = False, sc_err = False\<rparr>"

definition scan_error :: "scanner \<Rightarrow> scanner \<times> scanop" where
  "scan_error s = (s\<lparr>sc_step := SError, sc_err := True\<rparr>, ScanError)"

definition to_state :: "scanner \<Rightarrow> sstate \<Rightarrow> scanop \<Rightarrow> scanner \<times> scanop" where
  "to_state s st op = (s\<lparr>sc_step := st\<rparr>, op)"

definition pushParseState :: "scanner \<Rightarrow> pstate \<Rightarrow> sstate \<Rightarrow> scanop \<Rightarrow> scanner \<times> scanop" where
  "pushParseState s p st op =
     (let s' = s\<lparr>sc_step := st, sc_stack := p # sc_stack s\<rparr>
      in if length (sc_stack s') \<le> maxNestingDepth then (s', op) else scan_error s')"

definition popParseState :: "scanner \<Rightarrow> scanop \<Rightarrow> scanner \<times> scanop" where
  "popParseState s op =
     (let rest = tl (sc_stack s)
      in if rest = [] then (s\<lparr>sc_stack := rest, sc_step := EndTop, sc_endTop := True\<rparr>, op)
         else (s\<lparr>sc_stack := rest, sc_step := EndValue\<rparr>, op))"

definition state_EndTop :: "scanner \<Rightarrow> char \<Rightarrow> scanner \<times> scanop" where
  "state_EndTop s c = (if isSpace c then (s, End) else (fst (scan_error s), End))"

definition state_EndValue :: "scanner \<Rightarrow> char \<Rightarrow> scanner \<times> scanop" where
  "state_EndValue s c =
     (case sc_stack s of
        [] \<Rightarrow> state_EndTop (s\<lparr>sc_step := EndTop, sc_endTop := True\<rparr>) c
      | p # ps \<Rightarrow>
          if isSpace c then to_state s EndValue SkipSpace
          else case p of
            ParseObjectKey \<Rightarrow>
              if c = CHR '':'' then (s\<lparr>sc_stack := ParseObjectValue # ps, sc_step := BeginValue\<rparr>, ObjectKey)
              else scan_error s
          | ParseObjectValue \<Rightarrow>
              if c = CHR '','' then (s\<lparr>sc_stack := ParseObjectKey # ps, sc_step := BeginString\<rparr>, ObjectValue)
              else if c = CHR ''}'' then popParseState s EndObject
              else scan_error s
          | ParseArrayValue \<Rightarrow>
              if c = CHR '','' then to_state s BeginValue ArrayValue
              else if c = CHR '']'' then popParseState s EndArray
              else scan_error s)"

definition state_BeginValue :: "scanner \<Rightarrow> char \<Rightarrow> scanner \<times> scanop" where
  "state_BeginValue s c =
     (if isSpace c then (s, SkipSpace)
      else if c = CHR ''{'' then pushParseState s ParseObjectKey BeginStringOrEmpty BeginObject
      else if c = CHR ''['' then pushParseState s ParseArrayValue BeginValueOrEmpty BeginArray
      else if c = CHR 0x22 then to_state s InString BeginLiteral
      else if c = CHR ''-'' then to_state s SNeg BeginLiteral
      else if c = CHR ''0'' then to_state s S0 BeginLiteral
      else if c = CHR ''t'' then to_state s ST BeginLiteral
      else if c = CHR ''f'' then to_state s SF BeginLiteral
      else if c = CHR ''n'' then to_state s SN BeginLiteral
      else if digit19 c then to_state s S1 BeginLiteral
      else scan_error s)"

definition state_BeginString :: "scanner \<Rightarrow> char \<Rightarrow> scanner \<times> scanop" where
  "state_BeginString s c =
     (if isSpace c then (s, SkipSpace)
      else if c = CHR 0x22 then to_state s InString BeginLiteral
      else scan_error s)"

definition state_0 :: "scanner \<Rightarrow> char \<Rightarrow> scanner \<times> scanop" where
  "state_0 s c =
     (if c = CHR ''.'' then to_state s SDot Continue
      else if c = CHR ''e'' \<or> c = CHR ''E'' then to_state s SE Continue
      else state_EndValue s c)"

definition state_ESign :: "scanner \<Rightarrow> char \<Rightarrow> scanner \<times> scanop" where
  "state_ESign s c = (if digit09 c then to_state s SE0 Continue else scan_error s)"

definition expect :: "scanner \<Rightarrow> bool \<Rightarrow> sstate \<Rightarrow> scanner \<times> scanop" where
  "expect s b st = (if b then to_state s st Continue else scan_error s)"

definition scan_step :: "scanner \<Rightarrow> char \<Rightarrow> scanner \<times> scanop" where
  "scan_step s c =
     (case sc_step s of
        BeginValueOrEmpty \<Rightarrow>
          if isSpace c then (s, SkipSpace)
          else if c = CHR '']'' then state_EndValue s c else state_BeginValue s c
      | BeginValue \<Rightarrow> state_BeginValue s c
      | BeginStringOrEmpty \<Rightarrow>
          if isSpace c then (s, SkipSpace)
          else if c = CHR ''}'' then state_EndValue (s\<lparr>sc_stack := ParseObjectValue # tl (sc_stack s)\<rparr>) c
          else state_BeginString s c
      | BeginString \<Rightarrow> state_BeginString s c
      | EndValue \<Rightarrow> state_EndValue s c
      | EndTop \<Rightarrow> state_EndTop s c
      | InString \<Rightarrow>
          if c = CHR 0x22 then to_state s EndValue Continue
          else if c = CHR 0x5C then to_state s InStringEsc Continue
          else if (of_char c :: nat) < 0x20 then scan_error s
          else (s, Continue)
      | InStringEsc \<Rightarrow>
          if c \<in> {CHR ''b'', CHR ''f'', CHR ''n'', CHR ''r'', CHR ''t'', CHR 0x5C, CHR ''/'', CHR 0x22}
          then to_state s InString Continue
          else expect s (c = CHR ''u'') InStringEscU
      | InStringEscU \<Rightarrow> expect s (hexdigit c) InStringEscU1
      | InStringEscU1 \<Rightarrow> expect s (hexdigit c) InStringEscU12
      | InStringEscU12 \<Rightarrow> expect s (hexdigit c) InStringEscU123
      | InStringEscU123 \<Rightarrow> expect s (hexdigit c) InString
      | SNeg \<Rightarrow> if c = CHR ''0'' then to_state s S0 Continue else expect s (digit19 c) S1
      | S1 \<Rightarrow> if digit09 c then to_state s S1 Continue else state_0 s c
      | S0 \<Rightarrow> state_0 s c
      | SDot \<Rightarrow> expect s (digit09 c) SDot0
      | SDot0 \<Rightarrow>
          if digit09 c then (s, Continue)
          else if c = CHR ''e'' \<or> c = CHR ''E'' then to_state s SE Continue
          else state_EndValue s c
      | SE \<Rightarrow>
          if c = CHR ''+'' \<or> c = CHR ''-'' then to_state s SESign Continue else state_ESign s c
      | SESign \<Rightarrow> state_ESign s c
      | SE0 \<Rightarrow> if digit09 c then (s, Continue) else state_EndValue s c
      | ST \<Rightarrow> expect s (c = CHR ''r'') STr
      | STr \<Rightarrow> expect s (c = CHR ''u'') STru
      | STru \<Rightarrow> expect s (c = CHR ''e'') EndValue
      | SF \<Rightarrow> expect s (c = CHR ''a'') SFa
      | SFa \<Rightarrow> expect s (c = CHR ''l'') SFal
      | SFal \<Rightarrow> expect s (c = CHR ''s'') SFals
      | SFals \<Rightarrow> expect s (c = CHR ''e'') EndValue
      | SN \<Rightarrow> expect s (c = CHR ''u'') SNu
      | SNu \<Rightarrow> expect s (c = CHR ''l'') SNul
      | SNul \<Rightarrow> expect s (c = CHR ''l'') EndValue
      | SError \<Rightarrow> (s, ScanError))"

definition scan_eof :: "scanner \<Rightarrow> bool" where
  "scan_eof s \<longleftrightarrow>
     \<not> sc_err s \<and> (sc_endTop s \<or> sc_endTop (fst (scan_step s (CHR '' ''))))"

fun scan_run :: "scanner \<Rightarrow> string \<Rightarrow> scanner" where
  "scan_run s [] = s"
| "scan_run s (c # cs) = scan_run (fst (scan_step s c)) cs"

definition checkValid :: "string \<Rightarrow> bool" where
  "checkValid cs = scan_eof (scan_run newScanner cs)"

definition dropped :: "scanop \<Rightarrow> bool" where
  "dropped op \<longleftrightarrow> op = SkipSpace \<or> op = End"

fun compact_from :: "scanner \<Rightarrow> string \<Rightarrow> string" where
  "compact_from s [] = []"
| "compact_from s (c # cs) =
     (case scan_step s c of
        (s', op) \<Rightarrow> if dropped op then compact_from s' cs else c # compact_from s' cs)"

definition Compact :: "string \<Rightarrow> string" where
  "Compact cs = (if checkValid cs then compact_from newScanner cs else [])"

text \<open>
  \<^verbatim>\<open>json.Unmarshal\<close> into a \<^verbatim>\<open>map[string]json.RawMessage\<close> succeeds with a non-nil map exactly
  on a valid text whose value is an object: \<^verbatim>\<open>null\<close> leaves the map nil, and any other value
  is a type error.
\<close>

definition first_byte :: "string \<Rightarrow> char option" where
  "first_byte cs = (case dropWhile isSpace cs of [] \<Rightarrow> None | c # _ \<Rightarrow> Some c)"

definition isObject :: "string \<Rightarrow> bool" where
  "isObject cs \<longleftrightarrow> checkValid cs \<and> first_byte cs = Some (CHR ''{'')"

subsection \<open>One step\<close>

lemmas scan_defs = scan_step_def state_BeginValue_def state_BeginString_def state_0_def
  state_ESign_def expect_def to_state_def pushParseState_def popParseState_def scan_error_def
  state_EndTop_def

lemma err_sticky_EndValue: "sc_err s \<Longrightarrow> sc_err (fst (state_EndValue s c))"
  by (auto simp: state_EndValue_def scan_defs Let_def split: list.split pstate.split)

lemma err_sticky: "sc_err s \<Longrightarrow> sc_err (fst (scan_step s c))"
  by (cases "sc_step s") (simp_all add: scan_defs Let_def err_sticky_EndValue)

lemma err_sticky_run: "sc_err s \<Longrightarrow> sc_err (scan_run s cs)"
  by (induction cs arbitrary: s) (simp_all add: err_sticky)

text \<open>The states in which the value may end at the next byte.\<close>

definition endable :: "sstate \<Rightarrow> bool" where
  "endable st \<longleftrightarrow> st \<in> {EndValue, S1, S0, SDot0, SE0}"

definition number_byte :: "char \<Rightarrow> bool" where
  "number_byte c \<longleftrightarrow> digit09 c \<or> c = CHR ''.'' \<or> c = CHR ''e'' \<or> c = CHR ''E''"

lemma endable_step:
  "endable (sc_step s) \<Longrightarrow> \<not> number_byte c \<Longrightarrow> scan_step s c = state_EndValue s c"
  by (cases "sc_step s") (simp_all add: endable_def number_byte_def scan_step_def state_0_def)

lemma space_not_number: "isSpace c \<Longrightarrow> \<not> number_byte c"
  by (auto simp: isSpace_def number_byte_def digit09_def)

lemma state_EndValue_step [simp]: "state_EndValue (s\<lparr>sc_step := x\<rparr>) c = state_EndValue s c"
  by (auto simp: state_EndValue_def scan_defs Let_def split: list.split pstate.split)

lemma EndValue_punctuation:
  assumes "sc_stack s \<noteq> []" "\<not> isSpace c" "\<not> sc_err (fst (state_EndValue s c))"
  shows "\<not> number_byte c" "\<not> dropped (snd (state_EndValue s c))"
  using assms
  by (auto simp: state_EndValue_def scan_defs Let_def number_byte_def digit09_def dropped_def
      neq_Nil_conv split: pstate.splits if_splits)

lemma EndValue_space:
  "isSpace c \<Longrightarrow> state_EndValue s c =
     (if sc_stack s = [] then (s\<lparr>sc_step := EndTop, sc_endTop := True\<rparr>, End)
      else (s\<lparr>sc_step := EndValue\<rparr>, SkipSpace))"
  by (auto simp: state_EndValue_def state_EndTop_def to_state_def split: list.split)

lemma EndValue_dropped:
  assumes "dropped (snd (state_EndValue s c))" "\<not> sc_err (fst (state_EndValue s c))"
  shows "isSpace c"
  using assms
  by (cases "sc_stack s")
    (auto simp: state_EndValue_def scan_defs Let_def dropped_def split: pstate.splits if_splits)

text \<open>
  A byte that \<^verbatim>\<open>Compact\<close> drops is white space, and it leaves the scanner where it was or moves
  it from an endable state to the state after the value.
\<close>

definition after_value :: "scanner \<Rightarrow> scanner" where
  "after_value s =
     (if sc_stack s = [] then s\<lparr>sc_step := EndTop, sc_endTop := True\<rparr> else s\<lparr>sc_step := EndValue\<rparr>)"

lemma dropped_space:
  assumes "dropped (snd (scan_step s c))" "\<not> sc_err (fst (scan_step s c))"
  shows "isSpace c"
  using assms EndValue_dropped [of s c]
    EndValue_dropped [of "s\<lparr>sc_stack := ParseObjectValue # tl (sc_stack s)\<rparr>" c]
  by (cases "sc_step s") (auto simp: scan_defs Let_def dropped_def split: if_splits)

lemma dropped_step:
  assumes "dropped (snd (scan_step s c))" "\<not> sc_err (fst (scan_step s c))"
  shows "fst (scan_step s c) = s \<or> (endable (sc_step s) \<and> fst (scan_step s c) = after_value s)"
proof (cases "endable (sc_step s)")
  case True
  from dropped_space [OF assms] have "isSpace c" .
  with True show ?thesis
    by (simp add: endable_step space_not_number EndValue_space after_value_def)
next
  case False
  with dropped_space [OF assms] assms show ?thesis
    by (cases "sc_step s")
      (auto simp: endable_def scan_defs dropped_def split: if_splits)
qed

subsection \<open>Compacting preserves validity\<close>

text \<open>\<open>behind s s'\<close>: \<open>s'\<close> has read the compacted form of what \<open>s\<close> has read.\<close>

definition behind :: "scanner \<Rightarrow> scanner \<Rightarrow> bool" where
  "behind s s' \<longleftrightarrow> s = s' \<or> (endable (sc_step s') \<and> s = after_value s')"

lemma behind_refl [simp]: "behind s s"
  by (simp add: behind_def)

lemma after_value_step:
  assumes "endable (sc_step s')" "\<not> sc_err (fst (scan_step (after_value s') c))"
  shows "if isSpace c then scan_step (after_value s') c = (after_value s', snd (scan_step (after_value s') c))
           \<and> dropped (snd (scan_step (after_value s') c))
         else scan_step s' c = scan_step (after_value s') c
           \<and> \<not> dropped (snd (scan_step (after_value s') c))"
proof (cases "sc_stack s' = []")
  case True
  then have "scan_step (after_value s') c = state_EndTop (after_value s') c"
    by (simp add: after_value_def scan_step_def)
  with assms(2) show ?thesis
    by (auto simp: state_EndTop_def scan_error_def dropped_def split: if_splits)
next
  case False
  then have step: "scan_step (after_value s') c = state_EndValue s' c"
    by (simp add: after_value_def scan_step_def)
  show ?thesis
  proof (cases "isSpace c")
    case True
    with False step show ?thesis by (simp add: EndValue_space after_value_def dropped_def)
  next
    case nsp: False
    note EndValue_punctuation [OF False nsp assms(2) [unfolded step]]
    with nsp step assms(1) show ?thesis by (simp add: endable_step)
  qed
qed

lemma behind_step:
  assumes "behind s s'" "scan_step s c = (s1, op)" "\<not> sc_err s1"
  shows "if dropped op then isSpace c \<and> behind s1 s'
         else \<exists>s1'. scan_step s' c = (s1', op) \<and> behind s1 s1'"
proof -
  from assms(1) consider "s = s'" | "endable (sc_step s')" "s = after_value s'"
    by (auto simp: behind_def)
  then show ?thesis
  proof cases
    case 1
    with assms(2,3) dropped_space [of s c] dropped_step [of s c] show ?thesis
      by (auto simp: behind_def)
  next
    case 2
    from after_value_step [OF 2(1), of c] assms(2,3) 2 show ?thesis
      by (auto simp: behind_def split: if_splits)
  qed
qed

lemma compact_behind:
  assumes "behind s s'" "\<not> sc_err (scan_run s cs)"
  shows "behind (scan_run s cs) (scan_run s' (compact_from s cs)) \<and>
         compact_from s' (compact_from s cs) = compact_from s cs"
  using assms
proof (induction cs arbitrary: s s')
  case (Cons c cs)
  obtain s1 op where step: "scan_step s c = (s1, op)" by (cases "scan_step s c") auto
  from Cons.prems(2) step have run: "\<not> sc_err (scan_run s1 cs)" by simp
  then have "\<not> sc_err s1" using err_sticky_run by blast
  note b = behind_step [OF Cons.prems(1) step this]
  show ?case
  proof (cases "dropped op")
    case True
    with b have "behind s1 s'" by simp
    from Cons.IH [OF this run] True step show ?thesis by simp
  next
    case False
    with b obtain s1' where s1': "scan_step s' c = (s1', op)" "behind s1 s1'" by auto
    from Cons.IH [OF s1'(2) run] False step s1'(1) show ?thesis by simp
  qed
qed simp

lemma behind_eof: "behind s s' \<Longrightarrow> scan_eof s \<Longrightarrow> scan_eof s'"
proof -
  assume b: "behind s s'" and e: "scan_eof s"
  from b consider "s = s'" | "endable (sc_step s')" "s = after_value s'"
    by (auto simp: behind_def)
  then show ?thesis
  proof cases
    case 2
    have sp: "isSpace (CHR '' '')" by (simp add: isSpace_def)
    from 2(1) sp have "scan_step s' (CHR '' '') = state_EndValue s' (CHR '' '')"
      by (simp add: endable_step space_not_number)
    with 2 e sp show ?thesis
      by (cases "sc_stack s' = []")
        (auto simp: scan_eof_def after_value_def EndValue_space scan_step_def)
  qed (use e in simp)
qed

lemma checkValid_no_err: "checkValid cs \<Longrightarrow> \<not> sc_err (scan_run newScanner cs)"
  by (simp add: checkValid_def scan_eof_def)

lemma checkValid_Compact: "checkValid cs \<Longrightarrow> checkValid (Compact cs)"
  using compact_behind [OF behind_refl, of newScanner cs] checkValid_no_err [of cs] behind_eof
  by (auto simp: Compact_def checkValid_def)

lemma Compact_idem: "Compact (Compact cs) = Compact cs"
proof (cases "checkValid cs")
  case True
  then have "checkValid (Compact cs)" by (rule checkValid_Compact)
  with compact_behind [OF behind_refl, of newScanner cs] checkValid_no_err [OF True] True
  show ?thesis by (simp add: Compact_def)
next
  case False
  have "\<not> checkValid []" by (simp add: checkValid_def scan_eof_def newScanner_def scan_step_def
        state_BeginValue_def isSpace_def)
  with False show ?thesis by (simp add: Compact_def)
qed

subsection \<open>The first byte and UTF-8\<close>

lemma compact_skip_space:
  "sc_step s = BeginValue \<Longrightarrow> compact_from s cs = compact_from s (dropWhile isSpace cs)"
  by (induction cs) (auto simp: scan_step_def state_BeginValue_def dropped_def)

lemma begin_value_kept:
  "sc_step s = BeginValue \<Longrightarrow> \<not> isSpace c \<Longrightarrow> \<not> dropped (snd (scan_step s c))"
  by (auto simp: scan_defs Let_def dropped_def)

lemma first_byte_Compact: "checkValid cs \<Longrightarrow> first_byte (Compact cs) = first_byte cs"
proof (cases "dropWhile isSpace cs")
  case Nil
  assume "checkValid cs"
  moreover have "compact_from newScanner cs = []"
    using compact_skip_space [of newScanner cs] unfolding Nil by (simp add: newScanner_def)
  ultimately show ?thesis unfolding Compact_def first_byte_def Nil by simp
next
  case (Cons c rest)
  assume "checkValid cs"
  moreover from Cons have "\<not> isSpace c" using hd_dropWhile [of isSpace cs] by simp
  ultimately show ?thesis
    using Cons compact_skip_space [of newScanner cs] begin_value_kept [of newScanner c]
    by (simp add: Compact_def first_byte_def newScanner_def split: prod.splits)
qed

lemma isObject_Compact: "isObject cs \<Longrightarrow> isObject (Compact cs)"
  by (simp add: isObject_def checkValid_Compact first_byte_Compact)

lemma scan_run_append: "scan_run s (xs @ ys) = scan_run (scan_run s xs) ys"
  by (induction xs arbitrary: s) simp_all

lemma compact_append: "compact_from s (xs @ ys) = compact_from s xs @ compact_from (scan_run s xs) ys"
  by (induction xs arbitrary: s) (auto split: prod.splits)

lemma compact_no_space:
  "\<forall>c \<in> set r. \<not> isSpace c \<Longrightarrow> \<not> sc_err (scan_run s r) \<Longrightarrow> compact_from s r = r"
proof (induction r arbitrary: s)
  case (Cons c r)
  obtain s1 op where step: "scan_step s c = (s1, op)" by (cases "scan_step s c") auto
  from Cons.prems(2) step have run: "\<not> sc_err (scan_run s1 r)" by simp
  with err_sticky_run have "\<not> sc_err s1" by blast
  with dropped_space [of s c] step Cons.prems(1) have "\<not> dropped op" by auto
  with Cons run step show ?case by simp
qed simp

lemma isSpace_ascii: "isSpace c \<Longrightarrow> is_ascii c"
  by (auto simp: isSpace_def is_ascii_def)

lemma ValidString_compact:
  "ValidString cs \<Longrightarrow> \<not> sc_err (scan_run s cs) \<Longrightarrow> ValidString (compact_from s cs)"
proof (induction arbitrary: s rule: ValidString_induct)
  case (rune r cs)
  then have run: "\<not> sc_err (scan_run (scan_run s r) cs)" by (simp add: scan_run_append)
  then have r: "\<not> sc_err (scan_run s r)" using err_sticky_run by blast
  note rest = rune.IH [OF run]
  show ?case
  proof (cases "\<exists>c \<in> set r. isSpace c")
    case True
    then obtain c where "r = [c]" "is_ascii c"
      using rune_ascii_single [OF rune.hyps(2)] isSpace_ascii by blast
    with rest show ?thesis by (auto split: prod.splits)
  next
    case False
    with r have "compact_from s r = r" by (simp add: compact_no_space)
    with rest rune.hyps show ?thesis by (simp add: compact_append ValidString_rune)
  qed
qed simp

lemma ValidString_Compact: "ValidString cs \<Longrightarrow> ValidString (Compact cs)"
  using ValidString_compact checkValid_no_err by (simp add: Compact_def)

subsection \<open>Encoding a string\<close>

text \<open>
  What \<^verbatim>\<open>json.Encoder\<close> writes for a string when HTML escaping is off: the two characters JSON
  reserves and the control characters are escaped, U+2028 and U+2029 too, and a byte that is
  not part of well-formed UTF-8 becomes the replacement character.
\<close>

definition hex_digit :: "nat \<Rightarrow> char" where
  "hex_digit d = (if d < 10 then char_of (48 + d) else char_of (87 + d))"

definition quote_byte :: "char \<Rightarrow> string" where
  "quote_byte c =
     (if c = CHR 0x5C \<or> c = CHR 0x22 then [CHR 0x5C, c]
      else if c = CHR 0x08 then [CHR 0x5C, CHR ''b'']
      else if c = CHR 0x0C then [CHR 0x5C, CHR ''f'']
      else if c = CHR 0x0A then [CHR 0x5C, CHR ''n'']
      else if c = CHR 0x0D then [CHR 0x5C, CHR ''r'']
      else if c = CHR 0x09 then [CHR 0x5C, CHR ''t'']
      else if (of_char c :: nat) < 0x20 then
        CHR 0x5C # ''u00'' @ [hex_digit (of_char c div 16), hex_digit (of_char c mod 16)]
      else [c])"

definition quote_rune :: "string \<Rightarrow> string" where
  "quote_rune r =
     (if r = [CHR 0xE2, CHR 0x80, CHR 0xA8] then CHR 0x5C # ''u2028''
      else if r = [CHR 0xE2, CHR 0x80, CHR 0xA9] then CHR 0x5C # ''u2029''
      else r)"

function quote_from :: "string \<Rightarrow> string" where
  "quote_from [] = []"
| "quote_from (c # s) =
     (if is_ascii c then quote_byte c @ quote_from s
      else if rune_len (c # s) = 0 then CHR 0x5C # ''ufffd'' @ quote_from s
      else quote_rune (take (rune_len (c # s)) (c # s))
             @ quote_from (drop (rune_len (c # s)) (c # s)))"
  by pat_completeness auto
termination
  by (relation "measure length") auto

definition EncodeString :: "string \<Rightarrow> string" where
  "EncodeString s = CHR 0x22 # quote_from s @ [CHR 0x22, CHR 0x0A]"

definition plain_byte :: "char \<Rightarrow> bool" where
  "plain_byte c \<longleftrightarrow> 0x20 \<le> (of_char c :: nat) \<and> (of_char c :: nat) \<le> 0x7F
     \<and> c \<noteq> CHR 0x5C \<and> c \<noteq> CHR 0x22"

lemma quote_byte_plain: "plain_byte c \<Longrightarrow> quote_byte c = [c]"
  by (auto simp: plain_byte_def quote_byte_def)

lemma quote_from_plain: "\<forall>c \<in> set s. plain_byte c \<Longrightarrow> quote_from s = s"
  by (induction s) (auto simp: quote_byte_plain, auto simp: plain_byte_def is_ascii_def)

end
