(* ===== verification/Image.thy ===== *)
theory Image
  imports Go_Path Go_Regexp Go_Strconv Go_JSON "HOL-Library.Multiset"
begin

section \<open>Fixture images (internal/lab/docker/image.go)\<close>

text \<open>
  The description of a fixture image, its validation, the generated Dockerfile and the build
  context handed to the daemon. An error value is a constructor carrying the arguments the
  source formats into its message. A map used as a set of seen names is the list of the names
  put into it. A tar archive is the list of its entries, a header and the bytes after it, and
  \<open>writeTar\<close> keeps the checks of \<^verbatim>\<open>archive/tar\<close> that depend on the header.
\<close>

subsection \<open>Data\<close>

type_synonym labels = "(string \<times> string) list"

definition LabelHarness :: string where
  "LabelHarness = ''trinkets.harness''"

definition LabelLesson :: string where
  "LabelLesson = ''trinkets.lesson''"

definition Labels :: "string \<Rightarrow> labels" where
  "Labels lesson = [(LabelHarness, ''1''), (LabelLesson, lesson)]"

definition DefaultFixtureUser :: string where
  "DefaultFixtureUser = ''10001:10001''"

definition fixtureBinary :: string where
  "fixtureBinary = ''/fixture''"

record OwnedDir =
  dir_Path :: string
  dir_UID :: int
  dir_GID :: int

record FixtureImage =
  img_Lesson :: string
  img_Tag :: string
  img_Package :: string
  img_User :: string
  img_Dirs :: "OwnedDir list"

definition lower_alnum :: "(char \<times> char) list" where
  "lower_alnum = [(CHR ''a'', CHR ''z''), (CHR ''0'', CHR ''9'')]"

definition digit_cls :: "(char \<times> char) list" where
  "digit_cls = [(CHR ''0'', CHR ''9'')]"

definition lessonRE :: re where
  "lessonRE = Seq (Plus (Cls lower_alnum)) (Star (Seq (lit (CHR ''-'')) (Plus (Cls lower_alnum))))"

definition nameRE :: re where
  "nameRE = Seq (Plus (Cls lower_alnum)) (Star (Seq (lit (CHR ''-'')) (Plus (Cls lower_alnum))))"

definition userRE :: re where
  "userRE = Seq (Plus (Cls digit_cls)) (Seq (lit (CHR '':'')) (Plus (Cls digit_cls)))"

definition maxID :: int where
  "maxID = 2 ^ 31 - 1"

definition validID :: "int \<Rightarrow> bool" where
  "validID n \<longleftrightarrow> 0 \<le> n \<and> n \<le> maxID"

definition user :: "FixtureImage \<Rightarrow> string" where
  "user img = (if img_User img = [] then DefaultFixtureUser else img_User img)"

subsection \<open>Validation\<close>

definition ownedPathChar :: "char \<Rightarrow> bool" where
  "ownedPathChar c \<longleftrightarrow>
     (if (CHR ''a'' \<le> c \<and> c \<le> CHR ''z'') \<or> (CHR ''A'' \<le> c \<and> c \<le> CHR ''Z'')
         \<or> (CHR ''0'' \<le> c \<and> c \<le> CHR ''9'')
      then True else c \<in> set ''/._@+-'')"

definition whiteoutPrefix :: string where
  "whiteoutPrefix = ''.wh.''"

datatype path_err =
    EmptyPath | NotAbsolute | RootDirectory
  | BadCharacter char | PathNotClean string | OnFixtureBinary | WhiteoutSegment

definition validateOwnedPath :: "string \<Rightarrow> path_err option" where
  "validateOwnedPath p =
     (if p = [] then Some EmptyPath
      else if hd p \<noteq> CHR ''/'' then Some NotAbsolute
      else if p = ''/'' then Some RootDirectory
      else case List.find (\<lambda>c. \<not> ownedPathChar c) p of
        Some c \<Rightarrow> Some (BadCharacter c)
      | None \<Rightarrow>
          (if Clean p \<noteq> p then Some (PathNotClean (Clean p))
           else if p = fixtureBinary \<or> HasPrefix p (fixtureBinary @ ''/'') then Some OnFixtureBinary
           else if Contains p (''/'' @ whiteoutPrefix) then Some WhiteoutSegment
           else None))"

datatype image_err =
    BadLesson string
  | BadTag string string
  | BadPackage string
  | BadUser string
  | UserOutOfRange string
  | OwnedDirPath string path_err
  | OwnedDirOutOfRange string int int
  | OwnedDirTwice string

definition idOutOfRange :: "string \<Rightarrow> bool" where
  "idOutOfRange s = (case ParseInt s of None \<Rightarrow> True | Some n \<Rightarrow> \<not> validID n)"

fun validate_dirs :: "string list \<Rightarrow> OwnedDir list \<Rightarrow> image_err option" where
  "validate_dirs seen [] = None"
| "validate_dirs seen (d # ds) =
     (case validateOwnedPath (dir_Path d) of
        Some e \<Rightarrow> Some (OwnedDirPath (dir_Path d) e)
      | None \<Rightarrow>
          (if \<not> validID (dir_UID d) \<or> \<not> validID (dir_GID d)
           then Some (OwnedDirOutOfRange (dir_Path d) (dir_UID d) (dir_GID d))
           else if dir_Path d \<in> set seen then Some (OwnedDirTwice (dir_Path d))
           else validate_dirs (dir_Path d # seen) ds))"

definition validate :: "FixtureImage \<Rightarrow> image_err option" where
  "validate img =
     (if \<not> MatchString lessonRE (img_Lesson img) then Some (BadLesson (img_Lesson img))
      else
        let (rest, hasPrefix) = CutPrefix (img_Tag img) (''trinkets-'' @ img_Lesson img @ ''-'');
            (name, hasSuffix) = CutSuffix rest '':dev''
        in if \<not> hasPrefix \<or> \<not> hasSuffix \<or> \<not> MatchString nameRE name
           then Some (BadTag (img_Tag img) (img_Lesson img))
           else if img_Package img = [] \<or> HasPrefix (img_Package img) ''-''
           then Some (BadPackage (img_Package img))
           else if \<not> MatchString userRE (user img) then Some (BadUser (user img))
           else
             let (uid, gid, _) = Cut (user img) '':''
             in if list_ex idOutOfRange [uid, gid] then Some (UserOutOfRange (user img))
                else validate_dirs [] (img_Dirs img))"

subsection \<open>The Dockerfile and the build context\<close>

definition jsonString :: "string \<Rightarrow> string" where
  "jsonString s = TrimSuffix (EncodeString s) [CHR 0x0A]"

definition ownedSrc :: "nat \<Rightarrow> string" where
  "ownedSrc i = ''d/'' @ Itoa (int i)"

definition sortedDirs :: "FixtureImage \<Rightarrow> OwnedDir list" where
  "sortedDirs img = sort_key dir_Path (img_Dirs img)"

definition probeMarker :: string where
  "probeMarker = ''TRINKETS_PROBE''"

definition copyLine :: "nat \<times> OwnedDir \<Rightarrow> string" where
  "copyLine = (\<lambda>(i, d). ''COPY --chown='' @ Itoa (dir_UID d) @ '':'' @ Itoa (dir_GID d) @ '' [''
     @ jsonString (ownedSrc i) @ '', '' @ jsonString (dir_Path d) @ '']'')"

definition fixtureDockerfile :: "FixtureImage \<Rightarrow> string" where
  "fixtureDockerfile img =
     ''FROM scratch'' @ [CHR 0x0A]
     @ ''ENV '' @ probeMarker @ ''=1'' @ [CHR 0x0A]
     @ ''COPY ['' @ jsonString ''fixture'' @ '', '' @ jsonString fixtureBinary @ '']'' @ [CHR 0x0A]
     @ concat (map (\<lambda>d. copyLine d @ [CHR 0x0A]) (enumerate 0 (sortedDirs img)))
     @ ''USER '' @ user img @ [CHR 0x0A]
     @ ''ENTRYPOINT ['' @ jsonString fixtureBinary @ '']'' @ [CHR 0x0A]"

record contextFile =
  cf_Name :: string
  cf_Dir :: bool
  cf_Mode :: int
  cf_Data :: string

definition fixtureContext :: "FixtureImage \<Rightarrow> string \<Rightarrow> (image_err, contextFile list) result" where
  "fixtureContext img binary =
     (case validate img of
        Some e \<Rightarrow> Inl e
      | None \<Rightarrow> Inr (
          [\<lparr>cf_Name = ''Dockerfile'', cf_Dir = False, cf_Mode = 0x1A4, cf_Data = fixtureDockerfile img\<rparr>,
           \<lparr>cf_Name = ''fixture'', cf_Dir = False, cf_Mode = 0x1ED, cf_Data = binary\<rparr>]
          @ (if length (img_Dirs img) > 0
             then [\<lparr>cf_Name = ''d'', cf_Dir = True, cf_Mode = 0x1ED, cf_Data = []\<rparr>] else [])
          @ map (\<lambda>i. \<lparr>cf_Name = ownedSrc i, cf_Dir = True, cf_Mode = 0x1ED, cf_Data = []\<rparr>)
              [0..<length (img_Dirs img)]))"

datatype name_violation =
    EmptyName string | NotRelativeClean string | BadBytes string | AppearsTwice string

definition nameViolations :: "string list \<Rightarrow> string \<Rightarrow> name_violation list" where
  "nameViolations seen n =
     (if n = [] \<or> n = ''.'' then [EmptyName n]
      else if IsAbs n \<or> Clean n \<noteq> n \<or> (n = ''..'' \<or> HasPrefix n ''../'')
      then [NotRelativeClean n]
      else if list_ex (\<lambda>c. c \<in> {CHR 0x5C, CHR 0x00}) n \<or> \<not> ValidString n then [BadBytes n]
      else if n \<in> set seen then [AppearsTwice n]
      else [])"

fun contextNamesClean_from :: "string list \<Rightarrow> contextFile list \<Rightarrow> name_violation list" where
  "contextNamesClean_from seen [] = []"
| "contextNamesClean_from seen (f # fs) =
     nameViolations seen (cf_Name f) @ contextNamesClean_from (cf_Name f # seen) fs"

definition contextNamesClean :: "contextFile list \<Rightarrow> name_violation list" where
  "contextNamesClean files = contextNamesClean_from [] files"

datatype typeflag = TypeReg | TypeDir

record tar_header =
  th_Name :: string
  th_Mode :: int
  th_Typeflag :: typeflag
  th_Size :: int
  th_ModTime :: int

datatype tar_err =
    UnsafeContext "name_violation list" | ErrHeader string | ErrWriteTooLong string

definition tarHeader :: "contextFile \<Rightarrow> tar_header" where
  "tarHeader f =
     (if cf_Dir f
      then \<lparr>th_Name = cf_Name f @ ''/'', th_Mode = cf_Mode f, th_Typeflag = TypeDir, th_Size = 0,
            th_ModTime = 0\<rparr>
      else \<lparr>th_Name = cf_Name f, th_Mode = cf_Mode f, th_Typeflag = TypeReg,
            th_Size = int (length (cf_Data f)), th_ModTime = 0\<rparr>)"

text \<open>
  The PAX writer of \<^verbatim>\<open>archive/tar\<close> refuses a header whose mode does not fit the seven octal
  digits of its field, and refuses more bytes than the header announced.
\<close>

fun writeEntries :: "contextFile list \<Rightarrow> (tar_err, (tar_header \<times> string) list) result" where
  "writeEntries [] = Inr []"
| "writeEntries (f # fs) =
     (let h = tarHeader f
      in if th_Mode h < 0 \<or> 2 ^ 21 \<le> th_Mode h then Inl (ErrHeader (th_Name h))
         else if th_Size h < int (length (cf_Data f)) then Inl (ErrWriteTooLong (th_Name h))
         else case writeEntries fs of
                Inl e \<Rightarrow> Inl e
              | Inr es \<Rightarrow> Inr ((h, cf_Data f) # es))"

definition writeTar :: "contextFile list \<Rightarrow> (tar_err, (tar_header \<times> string) list) result" where
  "writeTar files =
     (let bad = contextNamesClean files
      in if length bad > 0 then Inl (UnsafeContext bad) else writeEntries files)"

datatype context_err = InvalidImage image_err | TarFailed tar_err

definition fixtureContextTar ::
    "FixtureImage \<Rightarrow> string \<Rightarrow> (context_err, (tar_header \<times> string) list) result" where
  "fixtureContextTar img binary =
     (case fixtureContext img binary of
        Inl e \<Rightarrow> Inl (InvalidImage e)
      | Inr files \<Rightarrow>
          (case writeTar files of Inl e \<Rightarrow> Inl (TarFailed e) | Inr t \<Rightarrow> Inr t))"

subsection \<open>Names and paths\<close>

lemma lang_lessonRE:
  assumes "MatchString lessonRE s"
  shows "s \<noteq> [] \<and> (\<forall>c \<in> set s. in_cls lower_alnum c \<or> c = CHR ''-'')"
proof -
  let ?ok = "\<lambda>c. in_cls lower_alnum c \<or> c = CHR ''-''"
  have piece: "\<forall>c \<in> set t. ?ok c" if "t \<in> lang (Seq (lit (CHR ''-'')) (Plus (Cls lower_alnum)))" for t
    using that lang_Plus_Cls by auto
  have tail: "\<forall>c \<in> set t. ?ok c" if "t \<in> star (lang (Seq (lit (CHR ''-'')) (Plus (Cls lower_alnum))))" for t
    using that by induction (use piece in auto)
  obtain u v where "s = u @ v" "u \<in> lang (Plus (Cls lower_alnum))"
      "v \<in> star (lang (Seq (lit (CHR ''-'')) (Plus (Cls lower_alnum))))"
    using assms unfolding MatchString_iff lessonRE_def by auto
  with lang_Plus_Cls tail show ?thesis by auto
qed

lemma userRE_chars: "MatchString userRE s \<Longrightarrow> c \<in> set s \<Longrightarrow> is_digit c \<or> c = CHR '':''"
  unfolding MatchString_iff userRE_def lang.simps lang_Plus_Cls lang_lit
  using lang_Plus_Cls [of _ digit_cls] by (auto simp: digit_cls_def in_cls_def is_digit_def)

text \<open>
  The promise of \<open>validateOwnedPath\<close>, stated on the elements of the path: a non-empty sequence
  of elements over the allow-list, none of them empty, \<^verbatim>\<open>.\<close>, \<^verbatim>\<open>..\<close> or a whiteout, the first
  not the fixture binary.
\<close>

definition owned_segment :: "string \<Rightarrow> bool" where
  "owned_segment s \<longleftrightarrow> plain_seg s \<and> (\<forall>c \<in> set s. ownedPathChar c \<and> c \<noteq> CHR ''/'')
     \<and> \<not> HasPrefix s whiteoutPrefix"

definition path_of :: "string list \<Rightarrow> string" where
  "path_of segs = concat (map (Cons (CHR ''/'')) segs)"

lemma path_of_split: "path_of (split_on (CHR ''/'') q) = CHR ''/'' # q"
  by (simp add: path_of_def concat_Cons_join join_split)

lemma validateOwnedPath_rooted:
  "validateOwnedPath (CHR ''/'' # q) = None \<longleftrightarrow>
     (\<forall>s \<in> set (split_on (CHR ''/'') q). owned_segment s)
       \<and> hd (split_on (CHR ''/'') q) \<noteq> ''fixture''"
  (is "?ok \<longleftrightarrow> ?spec")
proof (cases "q = []")
  case True
  then show ?thesis by (simp add: validateOwnedPath_def owned_segment_def plain_seg_def)
next
  case False
  let ?segs = "split_on (CHR ''/'') q"
  let ?p = "CHR ''/'' # q"
  have noslash: "\<forall>s \<in> set ?segs. CHR ''/'' \<notin> set s" by (auto dest: split_on_pieces)
  have p: "?p = concat (map (Cons (CHR ''/'')) ?segs)"
    using path_of_split [of q] by (simp add: path_of_def)
  have chars: "(\<forall>c \<in> set ?p. ownedPathChar c) \<longleftrightarrow> (\<forall>s \<in> set ?segs. \<forall>c \<in> set s. ownedPathChar c)"
    unfolding p by (auto simp: ownedPathChar_def)
  have clean: "Clean ?p = ?p \<longleftrightarrow> (\<forall>s \<in> set ?segs. plain_seg s)"
    using False by (simp add: Clean_rooted_iff)
  have fixture: "?p = fixtureBinary \<or> HasPrefix ?p (fixtureBinary @ ''/'') \<longleftrightarrow> hd ?segs = ''fixture''"
    using first_segment [of "CHR ''/''" "''fixture''" q] by (simp add: fixtureBinary_def)
  have wh: "Contains ?p (''/'' @ whiteoutPrefix) \<longleftrightarrow> (\<exists>s \<in> set ?segs. HasPrefix s whiteoutPrefix)"
    unfolding p using Contains_piece [OF _ noslash, of whiteoutPrefix] by (simp add: whiteoutPrefix_def)
  have "?ok \<longleftrightarrow> (\<forall>c \<in> set ?p. ownedPathChar c) \<and> Clean ?p = ?p
          \<and> \<not> (?p = fixtureBinary \<or> HasPrefix ?p (fixtureBinary @ ''/''))
          \<and> \<not> Contains ?p (''/'' @ whiteoutPrefix)"
    using False unfolding validateOwnedPath_def
    by (auto simp: find_None_iff find_Some_iff split: option.splits)
  then show ?thesis
    unfolding chars clean fixture wh using noslash by (auto simp: owned_segment_def)
qed

text \<open>
  C29. A path is accepted as an owned directory exactly when it is \<^verbatim>\<open>/s1/s2/.../sn\<close> with n at
  least 1, every element over the allow-list and neither empty, \<^verbatim>\<open>.\<close>, \<^verbatim>\<open>..\<close> nor a layer
  whiteout, and the first element not \<^verbatim>\<open>fixture\<close>: so no accepted path climbs, is tidied into
  another path, or sits on or under the fixture binary.
\<close>

theorem validateOwnedPath_iff:
  "validateOwnedPath p = None \<longleftrightarrow>
     (\<exists>segs. p = path_of segs \<and> segs \<noteq> [] \<and> list_all owned_segment segs
        \<and> hd segs \<noteq> ''fixture'')"
proof
  assume ok: "validateOwnedPath p = None"
  then obtain q where "p = CHR ''/'' # q"
    by (cases p) (auto simp: validateOwnedPath_def split: if_splits)
  with ok show "\<exists>segs. p = path_of segs \<and> segs \<noteq> [] \<and> list_all owned_segment segs
        \<and> hd segs \<noteq> ''fixture''"
    using path_of_split [of q] validateOwnedPath_rooted [of q] by (metis list_all_iff split_on_not_Nil)
next
  assume "\<exists>segs. p = path_of segs \<and> segs \<noteq> [] \<and> list_all owned_segment segs
        \<and> hd segs \<noteq> ''fixture''"
  then obtain segs where segs: "p = path_of segs" "segs \<noteq> []" "list_all owned_segment segs"
      "hd segs \<noteq> ''fixture''" by blast
  then have "split_on (CHR ''/'') (join_with ''/'' segs) = segs"
    using split_join [of segs "CHR ''/''"] by (auto simp: owned_segment_def list_all_iff)
  with segs validateOwnedPath_rooted [of "join_with ''/'' segs"]
  show "validateOwnedPath p = None" by (simp add: path_of_def concat_Cons_join list_all_iff)
qed

subsection \<open>What validation establishes\<close>

lemma validate_dirs_None [accepted]:
  "validate_dirs seen ds = None \<longleftrightarrow>
     (\<forall>d \<in> set ds. validateOwnedPath (dir_Path d) = None \<and> validID (dir_UID d) \<and> validID (dir_GID d))
     \<and> distinct (map dir_Path ds) \<and> set seen \<inter> dir_Path ` set ds = {}"
  by (induction ds arbitrary: seen) (auto split: option.splits)

lemma ownedPathChar_plain: "ownedPathChar c \<Longrightarrow> plain_byte c"
  by (auto simp: ownedPathChar_def plain_byte_def less_eq_char_def split: if_splits)

lemma owned_path_chars:
  assumes "validateOwnedPath p = None" "c \<in> set p"
  shows "ownedPathChar c"
  using assms
  by (auto simp: validateOwnedPath_def find_None_iff find_Some_iff split: if_splits option.splits)

definition validated :: "FixtureImage \<Rightarrow> bool" where
  "validated img \<longleftrightarrow> MatchString lessonRE (img_Lesson img) \<and> MatchString userRE (user img)
     \<and> (\<forall>d \<in> set (img_Dirs img). validateOwnedPath (dir_Path d) = None
          \<and> validID (dir_UID d) \<and> validID (dir_GID d))
     \<and> distinct (map dir_Path (img_Dirs img))"

lemma validate_validated: "validate img = None \<Longrightarrow> validated img"
  by (auto simp: validate_def validated_def validate_dirs_None Let_def split: if_splits prod.splits)

lemma set_sortedDirs [simp]: "set (sortedDirs img) = set (img_Dirs img)"
  by (simp add: sortedDirs_def)

lemma length_sortedDirs [simp]: "length (sortedDirs img) = length (img_Dirs img)"
  by (simp add: sortedDirs_def)

subsection \<open>The Dockerfile\<close>

definition quoted :: "string \<Rightarrow> string" where
  "quoted s = CHR 0x22 # s @ [CHR 0x22]"

lemma jsonString_plain: "\<forall>c \<in> set s. plain_byte c \<Longrightarrow> jsonString s = quoted s"
  using TrimSuffix_append [of "CHR 0x22 # s @ [CHR 0x22]" "[CHR 0x0A]"]
  by (simp add: jsonString_def EncodeString_def quote_from_plain quoted_def)

lemma decimal_plain: "c \<in> set (decimal n) \<Longrightarrow> plain_byte c"
  using decimal_digits [of c n] by (auto simp: is_digit_def plain_byte_def less_eq_char_def)

lemma jsonString_ownedSrc: "jsonString (ownedSrc i) = quoted (''d/'' @ decimal i)"
  by (subst jsonString_plain) (auto simp: ownedSrc_def decimal_plain, simp_all add: plain_byte_def)

lemma jsonString_fixture:
  "jsonString ''fixture'' = quoted ''fixture''" "jsonString fixtureBinary = quoted ''/fixture''"
  by (subst jsonString_plain; simp add: plain_byte_def fixtureBinary_def)+

definition copy_instruction :: "nat \<times> OwnedDir \<Rightarrow> string" where
  "copy_instruction = (\<lambda>(i, d). ''COPY --chown='' @ decimal (nat (dir_UID d)) @ '':''
     @ decimal (nat (dir_GID d)) @ '' ['' @ quoted (''d/'' @ decimal i) @ '', ''
     @ quoted (dir_Path d) @ '']'')"

lemma copyLine_instruction:
  assumes "validated img" "d \<in> set (img_Dirs img)"
  shows "copyLine (i, d) = copy_instruction (i, d)"
proof -
  from assms have "jsonString (dir_Path d) = quoted (dir_Path d)"
    by (intro jsonString_plain) (auto simp: validated_def dest: owned_path_chars intro: ownedPathChar_plain)
  with assms show ?thesis
    by (auto simp: copyLine_def copy_instruction_def jsonString_ownedSrc validated_def validID_def)
qed

lemma plain_not_newline: "plain_byte c \<Longrightarrow> c \<noteq> CHR 0x0A"
  by (auto simp: plain_byte_def)

lemma copy_instruction_one_line:
  assumes "validated img" "d \<in> set (img_Dirs img)"
  shows "CHR 0x0A \<notin> set (copy_instruction (i, d))"
proof -
  have "CHR 0x0A \<notin> set (decimal n)" for n using decimal_plain plain_not_newline by blast
  moreover have "CHR 0x0A \<notin> set (dir_Path d)"
    using assms by (auto simp: validated_def dest!: owned_path_chars ownedPathChar_plain plain_not_newline)
  ultimately show ?thesis by (simp add: copy_instruction_def quoted_def)
qed

text \<open>
  The Dockerfile of a validated image has exactly the intended lines, one instruction each:
  the fixed header, one \<^verbatim>\<open>COPY --chown\<close> per owned directory with its numeric owner, its generated
  context name and its path verbatim between quotes, the numeric \<^verbatim>\<open>USER\<close> and the entry point.
  No path or user can add a line, break out of the quotes or change another instruction.
\<close>

theorem fixtureDockerfile_lines:
  assumes "validate img = None"
  shows "split_on (CHR 0x0A) (fixtureDockerfile img) =
    [''FROM scratch'', ''ENV TRINKETS_PROBE=1'',
     ''COPY ['' @ quoted ''fixture'' @ '', '' @ quoted ''/fixture'' @ '']'']
    @ map copy_instruction (enumerate 0 (sortedDirs img))
    @ [''USER '' @ user img, ''ENTRYPOINT ['' @ quoted ''/fixture'' @ '']'', []]"
    (is "_ = ?first @ ?copies @ [?user, ?entry, []]")
proof -
  from assms have v: "validated img" by (rule validate_validated)
  have dirs: "snd x \<in> set (img_Dirs img)" if "x \<in> set (enumerate 0 (sortedDirs img))" for x
  proof -
    from that have "snd x \<in> snd ` set (enumerate 0 (sortedDirs img))" by simp
    then show ?thesis by (metis list.set_map map_snd_enumerate set_sortedDirs)
  qed
  have copies: "map (\<lambda>d. copyLine d @ [CHR 0x0A]) (enumerate 0 (sortedDirs img))
      = map (\<lambda>l. l @ [CHR 0x0A]) ?copies"
    using copyLine_instruction [OF v] dirs by (auto simp: prod_eq_iff)
  have "fixtureDockerfile img = concat (map (\<lambda>l. l @ [CHR 0x0A]) (?first @ ?copies @ [?user, ?entry]))"
    unfolding fixtureDockerfile_def copies jsonString_fixture by (simp add: probeMarker_def)
  moreover have "\<forall>l \<in> set (?first @ ?copies @ [?user, ?entry]). CHR 0x0A \<notin> set l"
  proof -
    have "CHR 0x0A \<notin> set (user img)"
      using v userRE_chars [of "user img" "CHR 0x0A"] by (auto simp: validated_def is_digit_def less_eq_char_def)
    moreover have "CHR 0x0A \<notin> set (copy_instruction x)" if "x \<in> set (enumerate 0 (sortedDirs img))" for x
      using copy_instruction_one_line [OF v dirs [OF that], of "fst x"] by simp
    ultimately show ?thesis by (auto simp: quoted_def)
  qed
  ultimately show ?thesis by (simp only: split_on_lines append_assoc append.simps)
qed

definition sample_image :: FixtureImage where
  "sample_image = \<lparr>img_Lesson = ''sandbox'', img_Tag = ''trinkets-sandbox-probe:dev'',
     img_Package = ''./probe'', img_User = [],
     img_Dirs = [\<lparr>dir_Path = ''/work/in'', dir_UID = 10001, dir_GID = 10001\<rparr>,
                 \<lparr>dir_Path = ''/work'', dir_UID = 10001, dir_GID = 0\<rparr>]\<rparr>"

theorem fixtureDockerfile_lines_witness:
  "validate sample_image = None
   \<and> length (split_on (CHR 0x0A) (fixtureDockerfile sample_image)) = 8"
proof -
  have v: "validate sample_image = None" by code_simp
  have "length (sortedDirs sample_image) = 2" by (simp add: sample_image_def)
  with v fixtureDockerfile_lines [OF v] show ?thesis by simp
qed

text \<open>
  \<open>sortedDirs\<close> permutes the owned directories so that no directory comes after one of its
  descendants: every parent is created, and chowned, before its children.
\<close>

theorem sortedDirs_parents_first:
  "mset (sortedDirs img) = mset (img_Dirs img)
   \<and> sorted_wrt (\<lambda>d e. \<not> strict_prefix (dir_Path e) (dir_Path d)) (sortedDirs img)"
proof
  show "mset (sortedDirs img) = mset (img_Dirs img)" by (simp add: sortedDirs_def)
  have no: "\<not> strict_prefix q p" if "p \<le> q" for p q :: string
  proof
    assume "strict_prefix q p"
    then obtain z zs where "p = q @ z # zs" by (rule strict_prefixE')
    with lex_prefix_less [of "z # zs" q] that show False by simp
  qed
  have "sorted_wrt (\<lambda>d e. dir_Path d \<le> dir_Path e) (sortedDirs img)"
    using sorted_sort_key [of dir_Path "img_Dirs img"] by (simp add: sortedDirs_def sorted_map)
  then show "sorted_wrt (\<lambda>d e. \<not> strict_prefix (dir_Path e) (dir_Path d)) (sortedDirs img)"
    by (rule sorted_wrt_mono_rel [rotated]) (rule no)
qed

subsection \<open>The build context\<close>

definition safe_name :: "string \<Rightarrow> bool" where
  "safe_name n \<longleftrightarrow> n \<noteq> [] \<and> n \<noteq> ''.'' \<and> \<not> IsAbs n \<and> Clean n = n \<and> n \<noteq> ''..'' \<and> \<not> HasPrefix n ''../''
     \<and> CHR 0x5C \<notin> set n \<and> CHR 0x00 \<notin> set n \<and> ValidString n"

lemma nameViolations_Nil [no_violations]:
  "nameViolations seen n = [] \<longleftrightarrow> safe_name n \<and> n \<notin> set seen"
  by (auto simp: nameViolations_def safe_name_def list_ex_iff)

lemma contextNamesClean_from_Nil [no_violations]:
  "contextNamesClean_from seen fs = [] \<longleftrightarrow>
     (\<forall>f \<in> set fs. safe_name (cf_Name f))
     \<and> distinct (map cf_Name fs) \<and> set seen \<inter> cf_Name ` set fs = {}"
  by (induction fs arbitrary: seen) (auto simp: nameViolations_Nil)

definition clean_name :: "string \<Rightarrow> bool" where
  "clean_name n \<longleftrightarrow> n \<noteq> [] \<and> hd n \<noteq> CHR ''/''
     \<and> (\<forall>s \<in> set (split_on (CHR ''/'') n). plain_seg s) \<and> (\<forall>c \<in> set n. plain_byte c)"

lemma plain_byte_not: "\<not> plain_byte (CHR 0x5C)" "\<not> plain_byte (CHR 0x00)"
  by (simp_all add: plain_byte_def)

lemma clean_name_accepted:
  assumes "clean_name n"
  shows "safe_name n"
proof -
  have "Clean n = n" using assms Clean_relative [of n] by (simp add: clean_name_def)
  moreover have "ValidString n"
    using assms by (intro ValidString_ascii) (auto simp: clean_name_def plain_byte_def is_ascii_def)
  moreover have "\<not> HasPrefix n ''../''"
    using assms split_on_prefix [of n "''..''" "CHR ''/''"] by (auto simp: clean_name_def plain_seg_def)
  moreover have "n \<noteq> ''.''" "n \<noteq> ''..''" using assms by (auto simp: clean_name_def plain_seg_def)
  moreover have "CHR 0x5C \<notin> set n" "CHR 0x00 \<notin> set n"
    using assms plain_byte_not unfolding clean_name_def by blast+
  moreover have "n \<noteq> []" "\<not> IsAbs n" using assms by (auto simp: clean_name_def IsAbs_def)
  ultimately show ?thesis by (simp add: safe_name_def)
qed

lemma clean_name_ownedSrc: "clean_name (ownedSrc i)"
proof -
  have noslash: "CHR ''/'' \<notin> set (decimal i)"
    using decimal_digits by (fastforce simp: is_digit_def less_eq_char_def)
  have "hd (decimal i) \<noteq> CHR ''.''"
    using hd_decimal_digit [of i] by (auto simp: is_digit_def less_eq_char_def)
  then have "plain_seg (decimal i)" by (auto simp: plain_seg_def)
  with noslash show ?thesis
    using split_on_append_sep [of "CHR ''/''" "''d''" "decimal i"] decimal_plain
    by (auto simp: clean_name_def ownedSrc_def split_on_no_sep) (auto simp: plain_byte_def plain_seg_def)
qed

lemma clean_name_fixed: "clean_name ''Dockerfile''" "clean_name ''fixture''" "clean_name ''d''"
  by (simp_all add: clean_name_def plain_seg_def plain_byte_def)

lemma contextNamesClean_Nil:
  "\<forall>f \<in> set fs. clean_name (cf_Name f) \<Longrightarrow> distinct (map cf_Name fs) \<Longrightarrow> contextNamesClean fs = []"
  unfolding contextNamesClean_def contextNamesClean_from_Nil
  using clean_name_accepted by simp

lemma writeEntries_ok:
  "\<forall>f \<in> set fs. 0 \<le> cf_Mode f \<and> cf_Mode f < 2 ^ 21 \<and> (cf_Dir f \<longrightarrow> cf_Data f = []) \<Longrightarrow>
   writeEntries fs = Inr (map (\<lambda>f. (tarHeader f, cf_Data f)) fs)"
  by (induction fs) (auto simp: Let_def tarHeader_def)

lemma distinct_ownedSrc: "distinct (map ownedSrc [0..<n])"
  by (simp add: distinct_map inj_on_def ownedSrc_def)

lemma ownedSrc_fresh:
  "ownedSrc i \<noteq> ''Dockerfile''" "ownedSrc i \<noteq> ''fixture''" "ownedSrc i \<noteq> ''d''"
  by (simp_all add: ownedSrc_def)

definition dir_entry :: "string \<Rightarrow> tar_header \<times> string" where
  "dir_entry n = (\<lparr>th_Name = n @ ''/'', th_Mode = 0x1ED, th_Typeflag = TypeDir, th_Size = 0,
     th_ModTime = 0\<rparr>, [])"

definition file_entry :: "string \<Rightarrow> int \<Rightarrow> string \<Rightarrow> tar_header \<times> string" where
  "file_entry n mode data = (\<lparr>th_Name = n, th_Mode = mode, th_Typeflag = TypeReg,
     th_Size = int (length data), th_ModTime = 0\<rparr>, data)"

text \<open>
  C30. Building the context of an image fails exactly when the image is invalid, with the
  validation's error: for a valid image the names are always safe and \<open>writeTar\<close> never refuses.
  The archive is the Dockerfile, the binary and one empty directory per owned directory under
  generated names, with fixed modes and times, so equal inputs give equal archives.
\<close>

theorem fixtureContextTar_total:
  "fixtureContextTar img binary =
     (case validate img of
        Some e \<Rightarrow> Inl (InvalidImage e)
      | None \<Rightarrow> Inr ([file_entry ''Dockerfile'' 0x1A4 (fixtureDockerfile img),
                     file_entry ''fixture'' 0x1ED binary]
                    @ (if img_Dirs img = [] then [] else [dir_entry ''d''])
                    @ map (\<lambda>i. dir_entry (''d/'' @ decimal i)) [0..<length (img_Dirs img)]))"
proof (cases "validate img")
  case None
  then obtain files where files: "fixtureContext img binary = Inr files"
    by (simp add: fixtureContext_def)
  with None have "contextNamesClean files = []"
    by (intro contextNamesClean_Nil)
       (auto simp: fixtureContext_def clean_name_fixed clean_name_ownedSrc comp_def distinct_ownedSrc
         ownedSrc_fresh ownedSrc_fresh [symmetric] split: if_splits)
  moreover have "writeEntries files = Inr (map (\<lambda>f. (tarHeader f, cf_Data f)) files)"
    using None files by (intro writeEntries_ok) (auto simp: fixtureContext_def split: if_splits)
  moreover have "map (\<lambda>f. (tarHeader f, cf_Data f)) files =
      [file_entry ''Dockerfile'' 0x1A4 (fixtureDockerfile img), file_entry ''fixture'' 0x1ED binary]
                    @ (if img_Dirs img = [] then [] else [dir_entry ''d''])
                    @ map (\<lambda>i. dir_entry (''d/'' @ decimal i)) [0..<length (img_Dirs img)]"
    using None files
    by (auto simp: fixtureContext_def tarHeader_def file_entry_def dir_entry_def ownedSrc_def)
  ultimately show ?thesis
    using None files by (simp add: fixtureContextTar_def writeTar_def)
qed (simp add: fixtureContextTar_def fixtureContext_def)

end
