(* ===== verification/Container_Spec.thy ===== *)
theory Container_Spec
  imports Image
begin

section \<open>Container specs (internal/lab/docker/spec.go)\<close>

text \<open>
  The description of a fixture container and its translation to the engine's create request.
  Strings that Go gives their own types (mount types, namespace modes) stay strings, so every
  value the engine could report has a model. A pointer that may be nil is an option. A slice is
  a list, except for the capability lists, where the source tells nil from empty: they are
  options of lists. A label map is its association list, looked up with \<open>label\<close>, which gives
  the empty string for a missing key as indexing a Go map does. \<^verbatim>\<open>int64\<close> fields are integers:
  nothing in this file computes with them.

  The fields of \<^verbatim>\<open>container.Config\<close>, \<^verbatim>\<open>container.HostConfig\<close> and \<^verbatim>\<open>mount.Mount\<close> that the source
  reads or writes are those of the records below.
\<close>

subsection \<open>Data\<close>

definition FixtureBinary :: string where
  "FixtureBinary = fixtureBinary"

definition MountVolume :: string where
  "MountVolume = ''volume''"

definition MountTmpfs :: string where
  "MountTmpfs = ''tmpfs''"

definition TypeBind :: string where
  "TypeBind = ''bind''"

definition IPCModePrivate :: string where
  "IPCModePrivate = ''private''"

definition CgroupnsModePrivate :: string where
  "CgroupnsModePrivate = ''private''"

record Mount =
  mt_Type :: string
  mt_Source :: string
  mt_Target :: string
  mt_ReadOnly :: bool
  mt_TmpfsSize :: int

record Spec =
  sp_Lesson :: string
  sp_Role :: string
  sp_Image :: string
  sp_Cmd :: "string list"
  sp_Env :: "string list"
  sp_User :: string
  sp_Groups :: "string list"
  sp_Mounts :: "Mount list"
  sp_Network :: string
  sp_ReadOnlyRoot :: bool
  sp_CapDrop :: "string list option"
  sp_CapAdd :: "string list option"
  sp_NoNewPrivileges :: bool
  sp_Seccomp :: string
  sp_PIDMode :: string
  sp_Memory :: int
  sp_NanoCPUs :: int
  sp_PidsLimit :: int
  sp_Runtime :: string

definition RestrictedUser :: string where
  "RestrictedUser = DefaultFixtureUser"

definition RestrictedMemory :: int where
  "RestrictedMemory = 64 * 2 ^ 20"

definition RestrictedNanoCPUs :: int where
  "RestrictedNanoCPUs = 500000000"

definition RestrictedPidsLimit :: int where
  "RestrictedPidsLimit = 64"

definition RestrictedTmpSize :: int where
  "RestrictedTmpSize = 16 * 2 ^ 20"

definition RestrictedRuntime :: string where
  "RestrictedRuntime = ''runc''"

definition Restricted :: "string \<Rightarrow> string \<Rightarrow> string \<Rightarrow> string list \<Rightarrow> Spec" where
  "Restricted lesson role img cmd =
     \<lparr>sp_Lesson = lesson, sp_Role = role, sp_Image = img, sp_Cmd = cmd, sp_Env = [],
      sp_User = RestrictedUser, sp_Groups = [],
      sp_Mounts = [\<lparr>mt_Type = MountTmpfs, mt_Source = [], mt_Target = ''/tmp'', mt_ReadOnly = False,
                    mt_TmpfsSize = RestrictedTmpSize\<rparr>],
      sp_Network = ''none'', sp_ReadOnlyRoot = True, sp_CapDrop = Some [''ALL''], sp_CapAdd = None,
      sp_NoNewPrivileges = True, sp_Seccomp = [], sp_PIDMode = [],
      sp_Memory = RestrictedMemory, sp_NanoCPUs = RestrictedNanoCPUs,
      sp_PidsLimit = RestrictedPidsLimit, sp_Runtime = RestrictedRuntime\<rparr>"

record EngineMount =
  em_Type :: string
  em_Source :: string
  em_Target :: string
  em_ReadOnly :: bool
  em_VolumeLabels :: "labels option"
  em_TmpfsSize :: "int option"

record Config =
  cfg_Image :: string
  cfg_Cmd :: "string list"
  cfg_Env :: "string list"
  cfg_User :: string
  cfg_Labels :: labels

record HostConfig =
  hc_Binds :: "string list"
  hc_Privileged :: bool
  hc_NetworkMode :: string
  hc_PidMode :: string
  hc_IpcMode :: string
  hc_UTSMode :: string
  hc_UsernsMode :: string
  hc_CgroupnsMode :: string
  hc_ReadonlyRootfs :: bool
  hc_CapDrop :: "string list option"
  hc_CapAdd :: "string list option"
  hc_SecurityOpt :: "string list"
  hc_GroupAdd :: "string list"
  hc_Mounts :: "EngineMount list"
  hc_Memory :: int
  hc_MemorySwap :: int
  hc_NanoCPUs :: int
  hc_PidsLimit :: "int option"
  hc_Runtime :: string

record Request =
  rq_Name :: string
  rq_Config :: Config
  rq_HostConfig :: HostConfig

definition label :: "labels \<Rightarrow> string \<Rightarrow> string" where
  "label ls k = (case map_of ls k of None \<Rightarrow> [] | Some v \<Rightarrow> v)"

subsection \<open>Names and identifiers\<close>

definition alnum :: "(char \<times> char) list" where
  "alnum = [(CHR ''a'', CHR ''z''), (CHR ''A'', CHR ''Z''), (CHR ''0'', CHR ''9'')]"

definition name_cls :: "(char \<times> char) list" where
  "name_cls = alnum @ [(CHR ''_'', CHR ''_''), (CHR ''.'', CHR ''.''), (CHR ''-'', CHR ''-'')]"

definition fixedSocketPaths :: "string list" where
  "fixedSocketPaths = [''/var/run/docker.sock'', ''/run/docker.sock'']"

definition volumeNameRE :: re where
  "volumeNameRE = Seq (Cls alnum) (Plus (Cls name_cls))"

definition networkNameRE :: re where
  "networkNameRE = Seq (Cls alnum) (Star (Cls name_cls))"

definition suffixRE :: re where
  "suffixRE = Seq (Cls lower_alnum) (UpTo (Cls lower_alnum) 31)"

definition capRE :: re where
  "capRE = Plus (Cls (alnum @ [(CHR ''_'', CHR ''_'')]))"

definition numericIDRE :: re where
  "numericIDRE = Plus (Cls digit_cls)"

text \<open>\<open>NameSuffix b\<close> takes the four random bytes as an argument.\<close>

definition NameSuffix :: "string \<Rightarrow> string" where
  "NameSuffix b = concat (map (\<lambda>c. [hex_digit (of_char c div 16), hex_digit (of_char c mod 16)]) b)"

definition ContainerName :: "string \<Rightarrow> string \<Rightarrow> string \<Rightarrow> string" where
  "ContainerName lesson role suf = ''trinkets-'' @ lesson @ ''-'' @ role @ ''-'' @ suf"

text \<open>
  \<open>SocketPath parseHostURL host\<close>: the client library's \<^verbatim>\<open>ParseHostURL\<close> is the argument, giving
  the scheme and the host of the URL or an error (\<^term>\<open>None\<close>).
\<close>

definition SocketPath :: "(string \<Rightarrow> (string \<times> string) option) \<Rightarrow> string \<Rightarrow> string" where
  "SocketPath parseHostURL host =
     (case parseHostURL host of
        None \<Rightarrow> []
      | Some (scheme, uhost) \<Rightarrow> if scheme \<noteq> ''unix'' then [] else uhost)"

definition socketPaths :: "string \<Rightarrow> string list" where
  "socketPaths socket = fixedSocketPaths @ (if socket \<noteq> [] then [Clean socket] else [])"

definition isDockerSocket :: "string \<Rightarrow> string \<Rightarrow> bool" where
  "isDockerSocket source socket \<longleftrightarrow> source \<noteq> [] \<and> Clean source \<in> set (socketPaths socket)"

definition isJSONObject :: "string \<Rightarrow> bool" where
  "isJSONObject s \<longleftrightarrow> (if \<not> ValidString s then False else isObject s)"

definition normalizeCap :: "string \<Rightarrow> string" where
  "normalizeCap c =
     (let c = ToUpper c in if c \<noteq> ''ALL'' \<and> \<not> HasPrefix c ''CAP_'' then ''CAP_'' @ c else c)"

definition normalizeCaps :: "string list option \<Rightarrow> string list option" where
  "normalizeCaps caps =
     (case caps of None \<Rightarrow> None | Some cs \<Rightarrow> Some (remdups_adj (sort (map normalizeCap cs))))"

definition validNumericID :: "string \<Rightarrow> bool" where
  "validNumericID s \<longleftrightarrow>
     (if \<not> MatchString numericIDRE s then False
      else case ParseInt s of None \<Rightarrow> False | Some n \<Rightarrow> validID n)"

definition validUser :: "string \<Rightarrow> bool" where
  "validUser u \<longleftrightarrow>
     (let (uid, gid, hasGID) = Cut u '':''
      in validNumericID uid \<and> (\<not> hasGID \<or> validNumericID gid))"

subsection \<open>Translation\<close>

datatype spec_reason =
    LessonName string | RoleName string | SuffixName string | ImageEmpty
  | UserNotNumeric string | GroupNotNumeric string
  | VolumeName nat string | TmpfsSizeOnVolume nat
  | TmpfsSource nat string | NegativeTmpfsSize nat | MountTypeUnknown nat string
  | TargetNotAbsolute nat string | TargetNotClean nat string | TargetBadBytes nat string
  | TargetTwice nat string
  | NetworkHost | NetworkName string | PidModeUnknown string | CapabilityName string
  | NegativeLimit int int int

datatype spec_err = InvalidSpec spec_reason | ErrDockerSocket nat string | ErrSeccompPath string

definition typeErrors :: "nat \<Rightarrow> Mount \<Rightarrow> spec_err list" where
  "typeErrors i m =
     (if mt_Type m = MountVolume then
        report (\<not> MatchString volumeNameRE (mt_Source m)) (InvalidSpec (VolumeName i (mt_Source m)))
        @ report (mt_TmpfsSize m \<noteq> 0) (InvalidSpec (TmpfsSizeOnVolume i))
      else if mt_Type m = MountTmpfs then
        report (mt_Source m \<noteq> []) (InvalidSpec (TmpfsSource i (mt_Source m)))
        @ report (mt_TmpfsSize m < 0) (InvalidSpec (NegativeTmpfsSize i))
      else [InvalidSpec (MountTypeUnknown i (mt_Type m))])"

definition targetErrors :: "nat \<Rightarrow> string list \<Rightarrow> string \<Rightarrow> spec_err list" where
  "targetErrors i targets t =
     (if t = [] \<or> hd t \<noteq> CHR ''/'' \<or> t = ''/'' then [InvalidSpec (TargetNotAbsolute i t)]
      else if Clean t \<noteq> t then [InvalidSpec (TargetNotClean i t)]
      else if CHR 0x00 \<in> set t \<or> \<not> ValidString t then [InvalidSpec (TargetBadBytes i t)]
      else if t \<in> set targets then [InvalidSpec (TargetTwice i t)]
      else [])"

fun mountErrors :: "string \<Rightarrow> nat \<Rightarrow> string list \<Rightarrow> Mount list \<Rightarrow> spec_err list" where
  "mountErrors socket i targets [] = []"
| "mountErrors socket i targets (m # ms) =
     report (isDockerSocket (mt_Source m) socket) (ErrDockerSocket i (mt_Source m))
     @ typeErrors i m
     @ targetErrors i targets (mt_Target m)
     @ mountErrors socket (Suc i) (mt_Target m # targets) ms"

definition engineMount :: "string \<Rightarrow> Mount \<Rightarrow> EngineMount" where
  "engineMount lesson m =
     \<lparr>em_Type = mt_Type m, em_Source = mt_Source m, em_Target = mt_Target m,
      em_ReadOnly = mt_ReadOnly m,
      em_VolumeLabels = (if mt_Type m = MountVolume then Some (Labels lesson) else None),
      em_TmpfsSize =
        (if mt_Type m = MountTmpfs \<and> mt_TmpfsSize m > 0 then Some (mt_TmpfsSize m) else None)\<rparr>"

definition networkErrors :: "string \<Rightarrow> spec_err list" where
  "networkErrors n =
     (if n = ''host'' then [InvalidSpec NetworkHost]
      else if n \<noteq> [] \<and> \<not> MatchString networkNameRE n then [InvalidSpec (NetworkName n)]
      else [])"

definition pidModeErrors :: "string \<Rightarrow> spec_err list" where
  "pidModeErrors p =
     (if p \<noteq> [] then
        let (cid, ok) = CutPrefix p ''container:''
        in report (\<not> ok \<or> \<not> MatchString networkNameRE cid) (InvalidSpec (PidModeUnknown p))
      else [])"

definition caps_of :: "string list option \<Rightarrow> string list" where
  "caps_of caps = (case caps of None \<Rightarrow> [] | Some cs \<Rightarrow> cs)"

definition seccompOpt :: "string \<Rightarrow> spec_err list \<times> string list" where
  "seccompOpt s =
     (if s = [] then ([], [])
      else if s = ''unconfined'' then ([], [''seccomp=unconfined''])
      else if isJSONObject s then ([], [''seccomp='' @ Compact s])
      else ([ErrSeccompPath s], []))"

definition securityOpts :: "Spec \<Rightarrow> string list" where
  "securityOpts s =
     (if sp_NoNewPrivileges s then [''no-new-privileges:true''] else []) @ snd (seccompOpt (sp_Seccomp s))"

definition specErrors :: "Spec \<Rightarrow> string \<Rightarrow> string \<Rightarrow> spec_err list" where
  "specErrors s socket suf =
     report (\<not> MatchString lessonRE (sp_Lesson s)) (InvalidSpec (LessonName (sp_Lesson s)))
     @ report (\<not> MatchString lessonRE (sp_Role s)) (InvalidSpec (RoleName (sp_Role s)))
     @ report (\<not> MatchString suffixRE suf) (InvalidSpec (SuffixName suf))
     @ report (sp_Image s = []) (InvalidSpec ImageEmpty)
     @ report (sp_User s \<noteq> [] \<and> \<not> validUser (sp_User s)) (InvalidSpec (UserNotNumeric (sp_User s)))
     @ concat (map (\<lambda>g. report (\<not> validNumericID g) (InvalidSpec (GroupNotNumeric g))) (sp_Groups s))
     @ mountErrors socket 0 [] (sp_Mounts s)
     @ networkErrors (sp_Network s)
     @ pidModeErrors (sp_PIDMode s)
     @ concat (map (\<lambda>c. report (\<not> MatchString capRE c) (InvalidSpec (CapabilityName c)))
         (caps_of (sp_CapDrop s) @ caps_of (sp_CapAdd s)))
     @ fst (seccompOpt (sp_Seccomp s))
     @ report (sp_Memory s < 0 \<or> sp_NanoCPUs s < 0 \<or> sp_PidsLimit s < 0)
         (InvalidSpec (NegativeLimit (sp_Memory s) (sp_NanoCPUs s) (sp_PidsLimit s)))"

definition specConfig :: "Spec \<Rightarrow> Config" where
  "specConfig s =
     \<lparr>cfg_Image = sp_Image s, cfg_Cmd = sp_Cmd s, cfg_Env = sp_Env s, cfg_User = sp_User s,
      cfg_Labels = Labels (sp_Lesson s)\<rparr>"

definition specHostConfig :: "Spec \<Rightarrow> HostConfig" where
  "specHostConfig s =
     \<lparr>hc_Binds = [], hc_Privileged = False, hc_NetworkMode = sp_Network s, hc_PidMode = sp_PIDMode s,
      hc_IpcMode = IPCModePrivate, hc_UTSMode = [], hc_UsernsMode = [],
      hc_CgroupnsMode = CgroupnsModePrivate, hc_ReadonlyRootfs = sp_ReadOnlyRoot s,
      hc_CapDrop = normalizeCaps (sp_CapDrop s), hc_CapAdd = normalizeCaps (sp_CapAdd s),
      hc_SecurityOpt = securityOpts s, hc_GroupAdd = sp_Groups s,
      hc_Mounts = map (engineMount (sp_Lesson s)) (sp_Mounts s),
      hc_Memory = sp_Memory s, hc_MemorySwap = (if sp_Memory s > 0 then sp_Memory s else 0),
      hc_NanoCPUs = sp_NanoCPUs s,
      hc_PidsLimit = (if sp_PidsLimit s > 0 then Some (sp_PidsLimit s) else None),
      hc_Runtime = sp_Runtime s\<rparr>"

definition Translate :: "Spec \<Rightarrow> string \<Rightarrow> string \<Rightarrow> (spec_err list, Request) result" where
  "Translate s socket suf =
     (let errs = specErrors s socket suf
      in if length errs > 0 then Inl errs
         else Inr \<lparr>rq_Name = ContainerName (sp_Lesson s) (sp_Role s) suf,
                   rq_Config = specConfig s, rq_HostConfig = specHostConfig s\<rparr>)"

subsection \<open>Facts on names and identifiers\<close>

lemma normalizeCap_idem [simp]: "normalizeCap (normalizeCap c) = normalizeCap c"
proof -
  have "ToUpper (''CAP_'' @ ToUpper c) = ''CAP_'' @ ToUpper c"
    using ToUpper_idem [of c] by (simp add: ToUpper_def upper_char_def less_eq_char_def)
  moreover have "ToUpper ''ALL'' = ''ALL''" by (simp add: ToUpper_def upper_char_def less_eq_char_def)
  ultimately show ?thesis by (simp add: normalizeCap_def Let_def)
qed

text \<open>
  Normalising a capability list gives its canonical form: the sorted list, without
  duplicates, of the set of normalised names. So two lists compare equal after normalisation
  exactly when they name the same set of capabilities, and normalising twice changes nothing.
\<close>

theorem normalizeCaps_canonical:
  "normalizeCaps (Some cs) = Some (sorted_list_of_set (normalizeCap ` set cs))
   \<and> (normalizeCaps (Some cs) = normalizeCaps (Some ds)
        \<longleftrightarrow> normalizeCap ` set cs = normalizeCap ` set ds)
   \<and> normalizeCaps (normalizeCaps caps) = normalizeCaps caps"
proof -
  have canon: "normalizeCaps (Some cs) = Some (sorted_list_of_set (normalizeCap ` set cs))" for cs
    by (simp add: normalizeCaps_def remdups_adj_sort)
  moreover have "sorted_list_of_set (normalizeCap ` set cs) = sorted_list_of_set (normalizeCap ` set ds)
      \<longleftrightarrow> normalizeCap ` set cs = normalizeCap ` set ds"
    by (metis finite_imageI finite_set set_sorted_list_of_set)
  moreover have "normalizeCaps (normalizeCaps caps) = normalizeCaps caps"
  proof (cases caps)
    case (Some cs)
    then show ?thesis by (simp add: canon image_image)
  qed (simp add: normalizeCaps_def)
  ultimately show ?thesis by simp
qed

lemma set_normalizeCaps: "set (caps_of (normalizeCaps caps)) = normalizeCap ` set (caps_of caps)"
  by (cases caps) (simp_all add: normalizeCaps_def caps_of_def)

lemma hex_digit_cls: "d < 16 \<Longrightarrow> in_cls lower_alnum (hex_digit d)"
  by (auto simp: in_cls_def lower_alnum_def hex_digit_def less_eq_char_def)

lemma NameSuffix_valid:
  assumes "0 < length b" "length b \<le> 16"
  shows "MatchString suffixRE (NameSuffix b)"
proof -
  have len: "length (NameSuffix b) = 2 * length b" for b
    by (induction b) (simp_all add: NameSuffix_def)
  have chars: "\<forall>c \<in> set (NameSuffix b). in_cls lower_alnum c"
    by (auto simp: NameSuffix_def less_mult_imp_div_less intro!: hex_digit_cls)
  from assms len [of b] obtain c t where "NameSuffix b = c # t" by (cases "NameSuffix b") auto
  with chars len [of b] assms show ?thesis
    unfolding MatchString_iff suffixRE_def lang_Seq_Cls lang_UpTo_Cls by auto
qed

lemma volume_name_chars:
  "MatchString volumeNameRE n \<Longrightarrow> n \<noteq> [] \<and> in_cls alnum (hd n) \<and> (\<forall>c \<in> set n. in_cls name_cls c)"
  unfolding MatchString_iff volumeNameRE_def lang_Seq_Cls lang_Plus_Cls
  by (auto simp: name_cls_def in_cls_def)

lemma name_cls_no_slash: "\<not> in_cls name_cls (CHR ''/'')"
  by (simp add: in_cls_def name_cls_def alnum_def less_eq_char_def)

lemma volume_name_not_path: "MatchString volumeNameRE n \<Longrightarrow> CHR ''/'' \<notin> set n"
  using volume_name_chars name_cls_no_slash by blast

lemma volume_name_plain:
  assumes "MatchString volumeNameRE n"
  shows "plain_seg n"
proof -
  have "\<not> in_cls alnum (CHR ''.'')" by (simp add: in_cls_def alnum_def less_eq_char_def)
  with volume_name_chars [OF assms] show ?thesis by (auto simp: plain_seg_def)
qed

subsection \<open>What translation establishes\<close>

lemma Translate_Inr [accepted]:
  "Translate s socket suf = Inr req \<longleftrightarrow> specErrors s socket suf = [] \<and>
     req = \<lparr>rq_Name = ContainerName (sp_Lesson s) (sp_Role s) suf,
            rq_Config = specConfig s, rq_HostConfig = specHostConfig s\<rparr>"
  by (auto simp: Translate_def Let_def)

lemma specErrors_Nil [no_violations]:
  "specErrors s socket suf = [] \<longleftrightarrow>
     MatchString lessonRE (sp_Lesson s) \<and> MatchString lessonRE (sp_Role s) \<and> MatchString suffixRE suf
     \<and> sp_Image s \<noteq> [] \<and> (sp_User s = [] \<or> validUser (sp_User s))
     \<and> (\<forall>g \<in> set (sp_Groups s). validNumericID g)
     \<and> mountErrors socket 0 [] (sp_Mounts s) = [] \<and> networkErrors (sp_Network s) = []
     \<and> pidModeErrors (sp_PIDMode s) = []
     \<and> (\<forall>c \<in> set (caps_of (sp_CapDrop s)) \<union> set (caps_of (sp_CapAdd s)). MatchString capRE c)
     \<and> fst (seccompOpt (sp_Seccomp s)) = []
     \<and> 0 \<le> sp_Memory s \<and> 0 \<le> sp_NanoCPUs s \<and> 0 \<le> sp_PidsLimit s"
  unfolding specErrors_def by (simp add: not_less) blast

definition good_target :: "string \<Rightarrow> bool" where
  "good_target t \<longleftrightarrow> IsAbs t \<and> t \<noteq> ''/'' \<and> Clean t = t \<and> CHR 0x00 \<notin> set t \<and> ValidString t"

lemma targetErrors_Nil [no_violations]:
  "targetErrors i targets t = [] \<longleftrightarrow> good_target t \<and> t \<notin> set targets"
  by (auto simp: targetErrors_def good_target_def IsAbs_def)

definition good_mount :: "Mount \<Rightarrow> bool" where
  "good_mount m \<longleftrightarrow> good_target (mt_Target m)
     \<and> (mt_Type m = MountVolume \<and> MatchString volumeNameRE (mt_Source m) \<and> mt_TmpfsSize m = 0
        \<or> mt_Type m = MountTmpfs \<and> mt_Source m = [] \<and> 0 \<le> mt_TmpfsSize m)"

lemma mountErrors_Nil [no_violations]:
  "mountErrors socket i targets ms = [] \<longleftrightarrow>
     (\<forall>m \<in> set ms. good_mount m \<and> \<not> isDockerSocket (mt_Source m) socket)
     \<and> distinct (map mt_Target ms) \<and> set targets \<inter> mt_Target ` set ms = {}"
proof (induction ms arbitrary: i targets)
  case (Cons m ms)
  have ty: "typeErrors i m = [] \<longleftrightarrow>
      mt_Type m = MountVolume \<and> MatchString volumeNameRE (mt_Source m) \<and> mt_TmpfsSize m = 0
        \<or> mt_Type m = MountTmpfs \<and> mt_Source m = [] \<and> 0 \<le> mt_TmpfsSize m"
    by (auto simp: typeErrors_def MountVolume_def MountTmpfs_def)
  show ?case
    by (auto simp: Cons.IH ty targetErrors_Nil good_mount_def)
qed simp

text \<open>
  C33. Every mount of a translated container is a labelled named volume whose name is not a
  path, or a tmpfs without a source, at an absolute clean target; targets are pairwise distinct
  and there is no bind mount of either spelling.
\<close>

theorem Translate_mounts:
  assumes "Translate s socket suf = Inr req"
  shows "list_all (\<lambda>m. (em_Type m = ''volume'' \<and> em_Source m \<noteq> [] \<and> CHR ''/'' \<notin> set (em_Source m)
                          \<and> em_VolumeLabels m = Some (Labels (sp_Lesson s))
                        \<or> em_Type m = ''tmpfs'' \<and> em_Source m = [])
                       \<and> good_target (em_Target m)) (hc_Mounts (rq_HostConfig req))
         \<and> distinct (map em_Target (hc_Mounts (rq_HostConfig req)))
         \<and> hc_Binds (rq_HostConfig req) = []"
proof -
  from assms have ms: "mountErrors socket 0 [] (sp_Mounts s) = []"
    and req: "hc_Mounts (rq_HostConfig req) = map (engineMount (sp_Lesson s)) (sp_Mounts s)"
      "hc_Binds (rq_HostConfig req) = []"
    by (auto simp: Translate_Inr specErrors_Nil specHostConfig_def)
  have "em_Target \<circ> engineMount (sp_Lesson s) = mt_Target"
    by (simp add: fun_eq_iff engineMount_def)
  with ms req show ?thesis
    using volume_name_chars volume_name_not_path
    by (auto simp: mountErrors_Nil list_all_iff good_mount_def engineMount_def MountVolume_def MountTmpfs_def)
qed

text \<open>
  A spec with a mount whose source, cleaned, is a Docker socket path (one of the fixed ones
  or the resolved daemon socket) never translates, and the error names that mount.
\<close>

theorem Translate_refuses_socket:
  assumes "i < length (sp_Mounts s)" "isDockerSocket (mt_Source (sp_Mounts s ! i)) socket"
  shows "\<exists>errs. Translate s socket suf = Inl errs
           \<and> ErrDockerSocket i (mt_Source (sp_Mounts s ! i)) \<in> set errs"
proof -
  have "ErrDockerSocket (n + i) (mt_Source (ms ! i)) \<in> set (mountErrors socket n ts ms)"
    if "i < length ms" "isDockerSocket (mt_Source (ms ! i)) socket" for n ts ms
    using that
  proof (induction ms arbitrary: n ts i)
    case (Cons m ms)
    then show ?case
    proof (cases i)
      case (Suc j)
      with Cons.IH [of j "Suc n"] Cons.prems show ?thesis by simp
    qed simp
  qed simp
  from this [OF assms, of 0 "[]"] have "ErrDockerSocket i (mt_Source (sp_Mounts s ! i)) \<in> set (specErrors s socket suf)"
    by (simp add: specErrors_def)
  then show ?thesis by (auto simp: Translate_def Let_def)
qed

subsection \<open>A concrete spec\<close>

definition demo_spec :: Spec where
  "demo_spec = (Restricted ''demo'' ''worker'' ''img:dev'' [''serve''])
     \<lparr>sp_Mounts := [\<lparr>mt_Type = MountVolume, mt_Source = ''trinkets-demo-work'', mt_Target = ''/work'',
                     mt_ReadOnly = False, mt_TmpfsSize = 0\<rparr>],
      sp_Seccomp := [CHR ''{'', CHR '' '', CHR ''}'']\<rparr>"

definition demo_request :: Request where
  "demo_request = \<lparr>rq_Name = ''trinkets-demo-worker-0a1b'', rq_Config = specConfig demo_spec,
     rq_HostConfig = specHostConfig demo_spec\<rparr>"

lemma demo_translates: "Translate demo_spec ''/run/docker.sock'' ''0a1b'' = Inr demo_request"
  by code_simp

theorem Translate_mounts_witness:
  "map em_Source (hc_Mounts (rq_HostConfig demo_request)) = [''trinkets-demo-work'']
   \<and> distinct (map em_Target (hc_Mounts (rq_HostConfig demo_request)))"
proof
  show "map em_Source (hc_Mounts (rq_HostConfig demo_request)) = [''trinkets-demo-work'']"
    by (simp add: demo_request_def demo_spec_def specHostConfig_def engineMount_def)
  show "distinct (map em_Target (hc_Mounts (rq_HostConfig demo_request)))"
    using Translate_mounts [OF demo_translates] by blast
qed

definition socket_spec :: Spec where
  "socket_spec = demo_spec\<lparr>sp_Mounts := [\<lparr>mt_Type = MountVolume, mt_Source = ''/var/../run//docker.sock'',
     mt_Target = ''/s'', mt_ReadOnly = True, mt_TmpfsSize = 0\<rparr>]\<rparr>"

theorem Translate_refuses_socket_witness:
  "\<exists>errs. Translate socket_spec [] ''0a1b'' = Inl errs
     \<and> ErrDockerSocket 0 ''/var/../run//docker.sock'' \<in> set errs"
proof -
  have "0 < length (sp_Mounts socket_spec)"
    "isDockerSocket (mt_Source (sp_Mounts socket_spec ! 0)) []" by code_simp+
  from Translate_refuses_socket [OF this] show ?thesis by (simp add: socket_spec_def)
qed

end
