(* ===== verification/Invariants.thy ===== *)
theory Invariants
  imports Container_Spec
begin

section \<open>Config invariants (internal/lab/docker/invariants.go)\<close>

text \<open>
  The named invariants the launcher checks before every create and after every inspect. Each
  is a function returning the violations it finds. A violation is a constructor carrying the
  arguments of the source's message.

  The locale \<open>invariant_check\<close> is the contract all of them share, \<^emph>\<open>empty exactly when it holds\<close>;
  it is closed under running two checks one after the other, which is how \<open>CheckConfig\<close> is made.
\<close>

subsection \<open>The checks\<close>

datatype violation =
    BindMount string | BindMountOf string string | SourceIsSocket string
  | Privileged | HostNamespace string
  | HarnessLabel string | LessonLabel | NamePrefix string string
  | SwapNotPinned int int
  | SeccompNotInline string

definition noDockerSocket :: "string \<Rightarrow> HostConfig \<Rightarrow> violation list" where
  "noDockerSocket socket hc =
     map BindMount (hc_Binds hc)
     @ concat (map (\<lambda>m.
         report (em_Type m = TypeBind) (BindMountOf (em_Source m) (em_Target m))
         @ report (isDockerSocket (em_Source m) socket) (SourceIsSocket (em_Source m))) (hc_Mounts hc))"

definition namespaceModes :: "HostConfig \<Rightarrow> (string \<times> string) list" where
  "namespaceModes hc =
     [(''PidMode'', hc_PidMode hc), (''NetworkMode'', hc_NetworkMode hc), (''IpcMode'', hc_IpcMode hc),
      (''UTSMode'', hc_UTSMode hc), (''UsernsMode'', hc_UsernsMode hc),
      (''CgroupnsMode'', hc_CgroupnsMode hc)]"

definition neverPrivileged :: "HostConfig \<Rightarrow> violation list" where
  "neverPrivileged hc =
     report (hc_Privileged hc) Privileged
     @ concat (map (\<lambda>(name, mode). report (mode = ''host'') (HostNamespace name)) (namespaceModes hc))"

definition labelled :: "string \<Rightarrow> Config \<Rightarrow> violation list" where
  "labelled name cfg =
     report (label (cfg_Labels cfg) LabelHarness \<noteq> ''1'') (HarnessLabel (label (cfg_Labels cfg) LabelHarness))
     @ (let lesson = label (cfg_Labels cfg) LabelLesson
        in if lesson = [] then [LessonLabel]
           else report (\<not> HasPrefix name (''trinkets-'' @ lesson @ ''-'')) (NamePrefix name lesson))"

definition swapPinned :: "HostConfig \<Rightarrow> violation list" where
  "swapPinned hc =
     report (hc_Memory hc > 0 \<and> hc_MemorySwap hc \<noteq> hc_Memory hc)
       (SwapNotPinned (hc_Memory hc) (hc_MemorySwap hc))"

definition securityOptKV :: "string \<Rightarrow> string \<times> string" where
  "securityOptKV opt =
     (let (k, v, ok) = Cut opt ''=''
      in if ok then (k, v) else let (k, v, _) = Cut opt '':'' in (k, v))"

definition seccompInline :: "HostConfig \<Rightarrow> violation list" where
  "seccompInline hc =
     concat (map (\<lambda>opt. let (k, v) = securityOptKV opt
       in report (k = ''seccomp'' \<and> v \<noteq> ''unconfined'' \<and> \<not> isJSONObject v) (SeccompNotInline v))
       (hc_SecurityOpt hc))"

definition isNoNewPrivileges :: "string \<Rightarrow> bool" where
  "isNoNewPrivileges opt \<longleftrightarrow>
     (let (k, v) = securityOptKV opt in k = ''no-new-privileges'' \<and> (v = [] \<or> v = ''true''))"

datatype restriction =
    RootUser string | CapDropLacksAll "string list option" | CapAddNotEmpty "string list option"
  | NewPrivileges | WritableRoot | NetworkNotNone string | SharedPid string | IpcNotPrivate string
  | CgroupNotPrivate string | LimitsUnset int int "int option"

definition restrictedComplete :: "Config \<Rightarrow> HostConfig \<Rightarrow> restriction list" where
  "restrictedComplete cfg hc =
     (let (uid, _, _) = Cut (cfg_User cfg) '':''
      in report (\<not> validUser (cfg_User cfg) \<or> TrimLeft uid ''0'' = []) (RootUser (cfg_User cfg)))
     @ report (''ALL'' \<notin> set (caps_of (hc_CapDrop hc))) (CapDropLacksAll (hc_CapDrop hc))
     @ report (length (caps_of (hc_CapAdd hc)) > 0) (CapAddNotEmpty (hc_CapAdd hc))
     @ report (\<not> list_ex isNoNewPrivileges (hc_SecurityOpt hc)) NewPrivileges
     @ report (\<not> hc_ReadonlyRootfs hc) WritableRoot
     @ report (hc_NetworkMode hc \<noteq> ''none'') (NetworkNotNone (hc_NetworkMode hc))
     @ report (hc_PidMode hc \<noteq> []) (SharedPid (hc_PidMode hc))
     @ report (hc_IpcMode hc \<noteq> IPCModePrivate) (IpcNotPrivate (hc_IpcMode hc))
     @ report (hc_CgroupnsMode hc \<noteq> CgroupnsModePrivate) (CgroupNotPrivate (hc_CgroupnsMode hc))
     @ report (hc_Memory hc \<le> 0 \<or> hc_NanoCPUs hc \<le> 0
               \<or> (case hc_PidsLimit hc of None \<Rightarrow> True | Some p \<Rightarrow> p \<le> 0))
         (LimitsUnset (hc_Memory hc) (hc_NanoCPUs hc) (hc_PidsLimit hc))"

definition IsRestricted :: "Config \<Rightarrow> HostConfig \<Rightarrow> bool" where
  "IsRestricted cfg hc \<longleftrightarrow> length (restrictedComplete cfg hc) = 0"

definition CheckConfig :: "Request \<Rightarrow> string \<Rightarrow> violation list" where
  "CheckConfig req socket =
     noDockerSocket socket (rq_HostConfig req)
     @ neverPrivileged (rq_HostConfig req)
     @ labelled (rq_Name req) (rq_Config req)
     @ swapPinned (rq_HostConfig req)
     @ seccompInline (rq_HostConfig req)"

subsection \<open>The package's start-up check\<close>

text \<open>\<open>docker_init\<close> is \<^verbatim>\<open>init\<close> of spec.go: \<^term>\<open>None\<close> when the package loads, else its panic.\<close>

datatype init_panic = DoesNotTranslate "spec_err list" | Incomplete "restriction list"

definition docker_init :: "init_panic option" where
  "docker_init =
     (case Translate (Restricted ''check'' ''check'' ''check'' []) [] ''check'' of
        Inl errs \<Rightarrow> Some (DoesNotTranslate errs)
      | Inr req \<Rightarrow>
          (let bad = restrictedComplete (rq_Config req) (rq_HostConfig req)
           in if length bad > 0 then Some (Incomplete bad) else None))"

subsection \<open>Observed state against intent\<close>

record InspectResponse =
  in_Name :: string
  in_Config :: "Config option"
  in_HostConfig :: "HostConfig option"

definition emptyNil :: "string list \<Rightarrow> string list option" where
  "emptyNil s = (if length s = 0 then None else Some s)"

definition ptrValueOr0 :: "int option \<Rightarrow> int" where
  "ptrValueOr0 p = (case p of None \<Rightarrow> 0 | Some v \<Rightarrow> v)"

type_synonym mount_key = "string \<times> string \<times> string \<times> bool \<times> int"

definition mountKeys :: "EngineMount list \<Rightarrow> mount_key list" where
  "mountKeys ms =
     map (\<lambda>m. (em_Type m, em_Source m, em_Target m, em_ReadOnly m,
                case em_TmpfsSize m of None \<Rightarrow> 0 | Some n \<Rightarrow> n)) ms"

datatype mismatch =
    NoConfig | NameDiffers string string | UserDiffers string string
  | LabelDiffers string string string | ObservedPrivileged violation | FieldDiffers string

definition eq_field :: "string \<Rightarrow> 'a \<Rightarrow> 'a \<Rightarrow> mismatch list" where
  "eq_field field got want = report (got \<noteq> want) (FieldDiffers field)"

definition fieldMismatches :: "HostConfig \<Rightarrow> HostConfig \<Rightarrow> mismatch list" where
  "fieldMismatches gh wh =
     eq_field ''ReadonlyRootfs'' (hc_ReadonlyRootfs gh) (hc_ReadonlyRootfs wh)
     @ eq_field ''CapAdd'' (normalizeCaps (hc_CapAdd gh)) (normalizeCaps (hc_CapAdd wh))
     @ eq_field ''CapDrop'' (normalizeCaps (hc_CapDrop gh)) (normalizeCaps (hc_CapDrop wh))
     @ eq_field ''SecurityOpt'' (emptyNil (hc_SecurityOpt gh)) (emptyNil (hc_SecurityOpt wh))
     @ eq_field ''GroupAdd'' (emptyNil (hc_GroupAdd gh)) (emptyNil (hc_GroupAdd wh))
     @ (if hc_NetworkMode wh \<noteq> [] \<or> (hc_NetworkMode gh \<noteq> ''bridge'' \<and> hc_NetworkMode gh \<noteq> ''default'')
        then eq_field ''NetworkMode'' (hc_NetworkMode gh) (hc_NetworkMode wh) else [])
     @ (if hc_Runtime wh \<noteq> [] \<or> hc_Runtime gh = []
        then eq_field ''Runtime'' (hc_Runtime gh) (hc_Runtime wh) else [])
     @ eq_field ''PidMode'' (hc_PidMode gh) (hc_PidMode wh)
     @ eq_field ''IpcMode'' (hc_IpcMode gh) (hc_IpcMode wh)
     @ eq_field ''CgroupnsMode'' (hc_CgroupnsMode gh) (hc_CgroupnsMode wh)
     @ eq_field ''UTSMode'' (hc_UTSMode gh) (hc_UTSMode wh)
     @ eq_field ''UsernsMode'' (hc_UsernsMode gh) (hc_UsernsMode wh)
     @ eq_field ''Memory'' (hc_Memory gh) (hc_Memory wh)
     @ eq_field ''MemorySwap'' (hc_MemorySwap gh) (hc_MemorySwap wh)
     @ eq_field ''NanoCPUs'' (hc_NanoCPUs gh) (hc_NanoCPUs wh)
     @ eq_field ''PidsLimit'' (ptrValueOr0 (hc_PidsLimit gh)) (ptrValueOr0 (hc_PidsLimit wh))
     @ eq_field ''Binds'' (emptyNil (hc_Binds gh)) (emptyNil (hc_Binds wh))
     @ eq_field ''Mounts'' (mountKeys (hc_Mounts gh)) (mountKeys (hc_Mounts wh))"

definition CheckObserved :: "InspectResponse \<Rightarrow> Request \<Rightarrow> mismatch list" where
  "CheckObserved got want =
     (case (in_Config got, in_HostConfig got) of
        (Some gc, Some gh) \<Rightarrow>
          (let name = TrimPrefix (in_Name got) ''/''
           in report (name \<noteq> rq_Name want) (NameDiffers name (rq_Name want)))
          @ report (cfg_User (rq_Config want) \<noteq> [] \<and> cfg_User gc \<noteq> cfg_User (rq_Config want))
              (UserDiffers (cfg_User gc) (cfg_User (rq_Config want)))
          @ concat (map (\<lambda>(k, v). report (label (cfg_Labels gc) k \<noteq> v) (LabelDiffers k (label (cfg_Labels gc) k) v))
              (cfg_Labels (rq_Config want)))
          @ map ObservedPrivileged (neverPrivileged gh)
          @ fieldMismatches gh (rq_HostConfig want)
      | _ \<Rightarrow> [NoConfig])"

subsection \<open>The contract of a check\<close>

locale invariant_check =
  fixes check :: "'c \<Rightarrow> 'v list"
    and holds :: "'c \<Rightarrow> bool"
  assumes check_Nil_iff: "check c = [] \<longleftrightarrow> holds c"
begin

lemma reported: "check c \<noteq> [] \<longleftrightarrow> \<not> holds c"
  by (simp add: check_Nil_iff)

lemma passes_all: "concat (map check cs) = [] \<longleftrightarrow> list_all holds cs"
  by (simp add: check_Nil_iff list_all_iff)

end

locale check_pair =
  one: invariant_check check1 holds1 + two: invariant_check check2 holds2
  for check1 :: "'c \<Rightarrow> 'v list" and holds1 and check2 :: "'c \<Rightarrow> 'v list" and holds2

sublocale check_pair \<subseteq> both: invariant_check "\<lambda>c. check1 c @ check2 c" "\<lambda>c. holds1 c \<and> holds2 c"
  by unfold_locales (simp add: one.check_Nil_iff two.check_Nil_iff)

subsection \<open>The invariants, declaratively\<close>

definition socket_free :: "string \<Rightarrow> HostConfig \<Rightarrow> bool" where
  "socket_free socket hc \<longleftrightarrow> hc_Binds hc = []
     \<and> list_all (\<lambda>m. em_Type m \<noteq> TypeBind \<and> \<not> isDockerSocket (em_Source m) socket) (hc_Mounts hc)"

definition unprivileged :: "HostConfig \<Rightarrow> bool" where
  "unprivileged hc \<longleftrightarrow> \<not> hc_Privileged hc \<and> ''host'' \<notin>
     {hc_PidMode hc, hc_NetworkMode hc, hc_IpcMode hc, hc_UTSMode hc, hc_UsernsMode hc, hc_CgroupnsMode hc}"

definition lesson_owned :: "string \<Rightarrow> Config \<Rightarrow> bool" where
  "lesson_owned name cfg \<longleftrightarrow> label (cfg_Labels cfg) LabelHarness = ''1''
     \<and> label (cfg_Labels cfg) LabelLesson \<noteq> []
     \<and> HasPrefix name (''trinkets-'' @ label (cfg_Labels cfg) LabelLesson @ ''-'')"

definition swap_pinned :: "HostConfig \<Rightarrow> bool" where
  "swap_pinned hc \<longleftrightarrow> hc_Memory hc \<le> 0 \<or> hc_MemorySwap hc = hc_Memory hc"

definition seccomp_inline :: "HostConfig \<Rightarrow> bool" where
  "seccomp_inline hc \<longleftrightarrow> list_all (\<lambda>opt. fst (securityOptKV opt) \<noteq> ''seccomp''
     \<or> snd (securityOptKV opt) = ''unconfined'' \<or> isJSONObject (snd (securityOptKV opt))) (hc_SecurityOpt hc)"

interpretation nds: invariant_check "\<lambda>req. noDockerSocket socket (rq_HostConfig req)"
    "\<lambda>req. socket_free socket (rq_HostConfig req)" for socket
  by unfold_locales (auto simp: noDockerSocket_def socket_free_def list_all_iff)

interpretation priv: invariant_check neverPrivileged unprivileged
  by unfold_locales (auto simp: neverPrivileged_def unprivileged_def namespaceModes_def)

interpretation np: invariant_check "\<lambda>req. neverPrivileged (rq_HostConfig req)"
    "\<lambda>req. unprivileged (rq_HostConfig req)"
  by unfold_locales (rule priv.check_Nil_iff)

interpretation lab: invariant_check "\<lambda>req. labelled (rq_Name req) (rq_Config req)"
    "\<lambda>req. lesson_owned (rq_Name req) (rq_Config req)"
  by unfold_locales (simp add: labelled_def lesson_owned_def Let_def)

interpretation swap: invariant_check "\<lambda>req. swapPinned (rq_HostConfig req)"
    "\<lambda>req. swap_pinned (rq_HostConfig req)"
  by unfold_locales (auto simp: swapPinned_def swap_pinned_def)

interpretation sec: invariant_check "\<lambda>req. seccompInline (rq_HostConfig req)"
    "\<lambda>req. seccomp_inline (rq_HostConfig req)"
  by unfold_locales (auto simp: seccompInline_def seccomp_inline_def list_all_iff Let_def case_prod_unfold)

interpretation cc4: check_pair "\<lambda>req. swapPinned (rq_HostConfig req)"
    "\<lambda>req. swap_pinned (rq_HostConfig req)"
    "\<lambda>req. seccompInline (rq_HostConfig req)" "\<lambda>req. seccomp_inline (rq_HostConfig req)"
  by unfold_locales

interpretation cc3: check_pair "\<lambda>req. labelled (rq_Name req) (rq_Config req)"
    "\<lambda>req. lesson_owned (rq_Name req) (rq_Config req)"
    "\<lambda>req. swapPinned (rq_HostConfig req) @ seccompInline (rq_HostConfig req)"
    "\<lambda>req. swap_pinned (rq_HostConfig req) \<and> seccomp_inline (rq_HostConfig req)"
  by unfold_locales

interpretation cc2: check_pair "\<lambda>req. neverPrivileged (rq_HostConfig req)"
    "\<lambda>req. unprivileged (rq_HostConfig req)"
    "\<lambda>req. labelled (rq_Name req) (rq_Config req)
        @ swapPinned (rq_HostConfig req) @ seccompInline (rq_HostConfig req)"
    "\<lambda>req. lesson_owned (rq_Name req) (rq_Config req)
        \<and> swap_pinned (rq_HostConfig req) \<and> seccomp_inline (rq_HostConfig req)"
  by unfold_locales

interpretation cc1: check_pair "\<lambda>req. noDockerSocket socket (rq_HostConfig req)"
    "\<lambda>req. socket_free socket (rq_HostConfig req)"
    "\<lambda>req. neverPrivileged (rq_HostConfig req) @ labelled (rq_Name req) (rq_Config req)
        @ swapPinned (rq_HostConfig req) @ seccompInline (rq_HostConfig req)"
    "\<lambda>req. unprivileged (rq_HostConfig req) \<and> lesson_owned (rq_Name req) (rq_Config req)
        \<and> swap_pinned (rq_HostConfig req) \<and> seccomp_inline (rq_HostConfig req)" for socket
  by unfold_locales

definition request_safe :: "string \<Rightarrow> Request \<Rightarrow> bool" where
  "request_safe socket req \<longleftrightarrow> socket_free socket (rq_HostConfig req) \<and> unprivileged (rq_HostConfig req)
     \<and> lesson_owned (rq_Name req) (rq_Config req) \<and> swap_pinned (rq_HostConfig req)
     \<and> seccomp_inline (rq_HostConfig req)"

interpretation cc: invariant_check "\<lambda>req. CheckConfig req socket" "request_safe socket" for socket
  by unfold_locales (simp only: CheckConfig_def request_safe_def cc1.both.check_Nil_iff)

lemma label_Labels [simp]:
  "label (Labels lesson) LabelHarness = ''1''" "label (Labels lesson) LabelLesson = lesson"
  by (simp_all add: label_def Labels_def LabelHarness_def LabelLesson_def)

lemma securityOptKV_simps [simp]:
  "securityOptKV (''seccomp='' @ v) = (''seccomp'', v)"
  "securityOptKV ''no-new-privileges:true'' = (''no-new-privileges'', ''true'')"
proof -
  show "securityOptKV (''seccomp='' @ v) = (''seccomp'', v)"
    using Cut_first_char [of "CHR ''=''" "''seccomp''" v] by (simp add: securityOptKV_def)
  show "securityOptKV ''no-new-privileges:true'' = (''no-new-privileges'', ''true'')"
    using Cut_first_char [of "CHR '':''" "''no-new-privileges''" "''true''"]
      Cut_none_char [of "CHR ''=''" "''no-new-privileges:true''"]
    by (simp add: securityOptKV_def)
qed

lemma isJSONObject_Compact: "isJSONObject s \<Longrightarrow> isJSONObject (Compact s)"
  by (auto simp: isJSONObject_def isObject_Compact ValidString_Compact split: if_splits)

lemma securityOpts_inline:
  "fst (seccompOpt (sp_Seccomp s)) = [] \<Longrightarrow> opt \<in> set (securityOpts s) \<Longrightarrow>
     opt = ''no-new-privileges:true'' \<or> opt = ''seccomp='' @ ''unconfined''
     \<or> (\<exists>v. opt = ''seccomp='' @ v \<and> isJSONObject v)"
  using isJSONObject_Compact by (fastforce simp: securityOpts_def seccompOpt_def split: if_splits)

lemma Translate_seccomp_inline:
  assumes "fst (seccompOpt (sp_Seccomp s)) = []"
  shows "seccomp_inline (specHostConfig s)"
  unfolding seccomp_inline_def list_all_iff
proof
  fix opt
  assume "opt \<in> set (hc_SecurityOpt (specHostConfig s))"
  then have "opt \<in> set (securityOpts s)" by (simp add: specHostConfig_def)
  from securityOpts_inline [OF assms this] securityOptKV_simps
  show "fst (securityOptKV opt) \<noteq> ''seccomp'' \<or> snd (securityOptKV opt) = ''unconfined''
      \<or> isJSONObject (snd (securityOptKV opt))"
    by (elim disjE exE) (auto simp del: append.simps)
qed

lemma pidMode_not_host: "pidModeErrors p = [] \<Longrightarrow> p \<noteq> ''host''"
  by (auto simp: pidModeErrors_def CutPrefix_def split: if_splits)

lemma network_not_host: "networkErrors n = [] \<Longrightarrow> n \<noteq> ''host''"
  by (auto simp: networkErrors_def)

lemma Translate_safe:
  assumes "Translate s socket suf = Inr req"
  shows "request_safe socket req"
proof -
  from assms have req: "req = \<lparr>rq_Name = ContainerName (sp_Lesson s) (sp_Role s) suf,
        rq_Config = specConfig s, rq_HostConfig = specHostConfig s\<rparr>"
    and ok: "specErrors s socket suf = []" by (simp_all add: Translate_Inr)
  note ok' = ok [unfolded specErrors_Nil]
  have "socket_free socket (specHostConfig s)"
    using ok' by (auto simp: socket_free_def specHostConfig_def list_all_iff mountErrors_Nil engineMount_def
        good_mount_def MountVolume_def MountTmpfs_def TypeBind_def)
  moreover have "unprivileged (specHostConfig s)"
    using ok' pidMode_not_host [of "sp_PIDMode s"] network_not_host [of "sp_Network s"]
    by (auto simp: unprivileged_def specHostConfig_def IPCModePrivate_def CgroupnsModePrivate_def)
  moreover have "lesson_owned (ContainerName (sp_Lesson s) (sp_Role s) suf) (specConfig s)"
    using ok' lang_lessonRE HasPrefix_append [of "''trinkets-'' @ sp_Lesson s @ ''-''" "sp_Role s @ ''-'' @ suf"]
    by (auto simp: lesson_owned_def specConfig_def ContainerName_def)
  moreover have "swap_pinned (specHostConfig s)"
    by (simp add: swap_pinned_def specHostConfig_def)
  ultimately show ?thesis
    using ok' by (simp add: request_safe_def req Translate_seccomp_inline)
qed

text \<open>
  C1. Whatever the spec, a request that comes out of \<open>Translate\<close> passes every config
  invariant: no socket and no bind mount, nothing privileged or in a host namespace, labelled
  and named for its lesson, swap pinned to memory, seccomp unconfined or inline JSON.
\<close>

theorem Translate_passes_CheckConfig:
  assumes "Translate s socket suf = Inr req"
  shows "CheckConfig req socket = []"
  using Translate_safe [OF assms] cc.check_Nil_iff by blast

subsection \<open>The restricted baseline\<close>

lemma validNumericID_value:
  assumes "validNumericID s"
  shows "\<exists>n. ParseInt s = Some n \<and> validID n \<and> (n = 0 \<longrightarrow> TrimLeft s ''0'' = [])"
proof -
  from assms have digits: "s \<noteq> [] \<and> (\<forall>c \<in> set s. is_digit c)"
    by (auto simp: validNumericID_def MatchString_iff numericIDRE_def lang_Plus_Cls digit_cls_def in_cls_def
        is_digit_def split: if_splits)
  from assms obtain n where n: "ParseInt s = Some n" "validID n"
    by (auto simp: validNumericID_def split: if_splits option.splits)
  from digits have "is_digit (hd s)" by simp
  then have "hd s \<noteq> CHR ''-''" "hd s \<noteq> CHR ''+''" by (auto simp: is_digit_def less_eq_char_def)
  with n have "digits_acc 10 0 s = Some (nat n)"
    by (auto simp: ParseInt_def ParseUint_def Let_def split: if_splits option.splits)
  with n digits_acc_zero [of s] have "n = 0 \<longrightarrow> TrimLeft s ''0'' = []"
    by (auto simp: TrimLeft_Nil_iff)
  with n show ?thesis by blast
qed

lemma restrictedComplete_Nil [no_violations]:
  "restrictedComplete cfg hc = [] \<longleftrightarrow>
     validUser (cfg_User cfg) \<and> TrimLeft (fst (Cut (cfg_User cfg) '':'')) ''0'' \<noteq> []
     \<and> ''ALL'' \<in> set (caps_of (hc_CapDrop hc)) \<and> caps_of (hc_CapAdd hc) = []
     \<and> list_ex isNoNewPrivileges (hc_SecurityOpt hc) \<and> hc_ReadonlyRootfs hc
     \<and> hc_NetworkMode hc = ''none'' \<and> hc_PidMode hc = [] \<and> hc_IpcMode hc = IPCModePrivate
     \<and> hc_CgroupnsMode hc = CgroupnsModePrivate \<and> 0 < hc_Memory hc \<and> 0 < hc_NanoCPUs hc
     \<and> (\<exists>p. hc_PidsLimit hc = Some p \<and> 0 < p)"
  unfolding restrictedComplete_def
  by (cases "hc_PidsLimit hc") (simp_all add: case_prod_unfold Let_def not_le)

lemma IsRestricted_iff: "IsRestricted cfg hc \<longleftrightarrow> restrictedComplete cfg hc = []"
  by (simp add: IsRestricted_def)

text \<open>
  A restricted container runs as a numeric non-zero uid the engine accepts: the part of its
  user before the colon parses to a number strictly between 0 and 2^31.
\<close>

theorem IsRestricted_nonroot:
  assumes "IsRestricted cfg hc"
  shows "\<exists>uid rest n. cfg_User cfg = uid @ rest \<and> (rest = [] \<or> hd rest = CHR '':'')
           \<and> ParseInt uid = Some n \<and> 0 < n \<and> n < 2 ^ 31"
proof -
  obtain uid gid has where cut: "Cut (cfg_User cfg) '':'' = (uid, gid, has)"
    by (cases "Cut (cfg_User cfg) '':''") auto
  from assms cut have "validNumericID uid" and nz: "TrimLeft uid ''0'' \<noteq> []"
    by (auto simp: IsRestricted_iff restrictedComplete_Nil validUser_def)
  then obtain n where n: "ParseInt uid = Some n" "validID n" "n \<noteq> 0"
    using validNumericID_value by blast
  have "cfg_User cfg = uid @ (if has then CHR '':'' # gid else [])"
    using cut Cut_True [of "cfg_User cfg" "'':''" uid gid] Cut_False [of "cfg_User cfg" "'':''" uid gid]
    by (cases has) auto
  with n show ?thesis
    by (intro exI [of _ uid] exI [of _ "if has then CHR '':'' # gid else []"] exI [of _ n])
       (auto simp: validID_def maxID_def)
qed

lemma restricted_host: "restrictedComplete (specConfig (Restricted l r i c)) (specHostConfig (Restricted l r i c)) = []"
proof -
  have "validUser DefaultFixtureUser" "TrimLeft (fst (Cut DefaultFixtureUser '':'')) ''0'' \<noteq> []" by code_simp+
  moreover have "list_ex isNoNewPrivileges (securityOpts (Restricted l r i c))"
    by (simp add: securityOpts_def Restricted_def isNoNewPrivileges_def del: append.simps)
  moreover have "normalizeCaps (Some [''ALL'']) = Some [''ALL'']" "normalizeCaps None = None" by code_simp+
  ultimately show ?thesis
    unfolding restrictedComplete_Nil
    by (auto simp: specConfig_def specHostConfig_def Restricted_def RestrictedUser_def caps_of_def
        RestrictedMemory_def RestrictedNanoCPUs_def RestrictedPidsLimit_def)
qed

lemma Restricted_errors:
  "specErrors (Restricted l r i c) socket suf = [] \<longleftrightarrow>
     MatchString lessonRE l \<and> MatchString lessonRE r \<and> MatchString suffixRE suf \<and> i \<noteq> []"
proof -
  have user: "validUser DefaultFixtureUser" by code_simp
  have cap: "MatchString capRE ''ALL''" by code_simp
  have net: "networkErrors ''none'' = []" by code_simp
  have tmp: "good_target ''/tmp''" by code_simp
  show ?thesis
    unfolding specErrors_Nil using user cap net tmp
    by (auto simp: Restricted_def RestrictedUser_def typeErrors_def targetErrors_Nil MountTmpfs_def MountVolume_def
        isDockerSocket_def
        RestrictedTmpSize_def pidModeErrors_def caps_of_def seccompOpt_def RestrictedMemory_def
        RestrictedNanoCPUs_def RestrictedPidsLimit_def)
qed

text \<open>
  The restricted preset translates exactly when its names are valid and its image is not
  empty, whatever the daemon socket and the command; the request is then restricted and passes
  every config invariant.
\<close>

theorem Restricted_translates:
  "(case Translate (Restricted lesson role img cmd) socket suf of
      Inl _ \<Rightarrow> \<not> (MatchString lessonRE lesson \<and> MatchString lessonRE role \<and> MatchString suffixRE suf \<and> img \<noteq> [])
    | Inr req \<Rightarrow> MatchString lessonRE lesson \<and> MatchString lessonRE role \<and> MatchString suffixRE suf \<and> img \<noteq> []
        \<and> IsRestricted (rq_Config req) (rq_HostConfig req) \<and> CheckConfig req socket = [])"
proof (cases "Translate (Restricted lesson role img cmd) socket suf")
  case (Inl e)
  then show ?thesis using Restricted_errors [of lesson role img cmd socket suf]
    by (auto simp: Translate_def Let_def split: if_splits)
next
  case (Inr req)
  with Translate_safe [OF Inr] cc.check_Nil_iff have "CheckConfig req socket = []" by blast
  moreover from Inr have "IsRestricted (rq_Config req) (rq_HostConfig req)"
    by (simp add: Translate_Inr IsRestricted_iff restricted_host)
  moreover from Inr have "specErrors (Restricted lesson role img cmd) socket suf = []"
    by (simp add: Translate_Inr)
  ultimately show ?thesis using Inr by (simp add: Restricted_errors)
qed

text \<open>
  The package's start-up check never panics: the preset it translates is complete.
\<close>

theorem docker_init_loads: "docker_init = None"
  by code_simp

subsection \<open>Inspect against intent\<close>

lemma eq_field_Nil [no_violations, simp]: "eq_field f a b = [] \<longleftrightarrow> a = b"
  by (simp add: eq_field_def)

lemma emptyNil_inject [simp]: "emptyNil a = emptyNil b \<longleftrightarrow> a = b"
  by (auto simp: emptyNil_def split: if_splits)

lemma fieldMismatches_Nil [no_violations]:
  "fieldMismatches gh wh = [] \<longleftrightarrow>
     hc_ReadonlyRootfs gh = hc_ReadonlyRootfs wh
     \<and> normalizeCaps (hc_CapAdd gh) = normalizeCaps (hc_CapAdd wh)
     \<and> normalizeCaps (hc_CapDrop gh) = normalizeCaps (hc_CapDrop wh)
     \<and> hc_SecurityOpt gh = hc_SecurityOpt wh \<and> hc_GroupAdd gh = hc_GroupAdd wh
     \<and> (hc_NetworkMode gh = hc_NetworkMode wh
         \<or> hc_NetworkMode wh = [] \<and> hc_NetworkMode gh \<in> {''bridge'', ''default''})
     \<and> (hc_Runtime gh = hc_Runtime wh \<or> hc_Runtime wh = [])
     \<and> hc_PidMode gh = hc_PidMode wh \<and> hc_IpcMode gh = hc_IpcMode wh
     \<and> hc_CgroupnsMode gh = hc_CgroupnsMode wh \<and> hc_UTSMode gh = hc_UTSMode wh
     \<and> hc_UsernsMode gh = hc_UsernsMode wh \<and> hc_Memory gh = hc_Memory wh
     \<and> hc_MemorySwap gh = hc_MemorySwap wh \<and> hc_NanoCPUs gh = hc_NanoCPUs wh
     \<and> ptrValueOr0 (hc_PidsLimit gh) = ptrValueOr0 (hc_PidsLimit wh)
     \<and> hc_Binds gh = hc_Binds wh \<and> mountKeys (hc_Mounts gh) = mountKeys (hc_Mounts wh)"
proof -
  have net: "(if hc_NetworkMode wh \<noteq> [] \<or> (hc_NetworkMode gh \<noteq> ''bridge'' \<and> hc_NetworkMode gh \<noteq> ''default'')
        then eq_field ''NetworkMode'' (hc_NetworkMode gh) (hc_NetworkMode wh) else []) = []
      \<longleftrightarrow> hc_NetworkMode gh = hc_NetworkMode wh
         \<or> hc_NetworkMode wh = [] \<and> hc_NetworkMode gh \<in> {''bridge'', ''default''}"
    by auto
  have rt: "(if hc_Runtime wh \<noteq> [] \<or> hc_Runtime gh = []
        then eq_field ''Runtime'' (hc_Runtime gh) (hc_Runtime wh) else []) = []
      \<longleftrightarrow> hc_Runtime gh = hc_Runtime wh \<or> hc_Runtime wh = []"
    by auto
  show ?thesis
    by (simp only: fieldMismatches_def append_is_Nil_conv eq_field_Nil emptyNil_inject net rt)
qed

lemma CheckObserved_Nil [no_violations]:
  "CheckObserved got want = [] \<longleftrightarrow>
     (\<exists>gc gh. in_Config got = Some gc \<and> in_HostConfig got = Some gh
        \<and> TrimPrefix (in_Name got) ''/'' = rq_Name want
        \<and> (cfg_User (rq_Config want) = [] \<or> cfg_User gc = cfg_User (rq_Config want))
        \<and> (\<forall>(k, v) \<in> set (cfg_Labels (rq_Config want)). label (cfg_Labels gc) k = v)
        \<and> unprivileged gh \<and> fieldMismatches gh (rq_HostConfig want) = [])"
  by (auto simp: CheckObserved_def Let_def priv.check_Nil_iff split: option.splits)

lemma mountKeys_socket_free:
  assumes "mountKeys gs = mountKeys ws"
    and "list_all (\<lambda>m. em_Type m \<noteq> TypeBind \<and> \<not> isDockerSocket (em_Source m) socket) ws"
  shows "list_all (\<lambda>m. em_Type m \<noteq> TypeBind \<and> \<not> isDockerSocket (em_Source m) socket) gs"
proof -
  from assms(1) have "list_all2 (\<lambda>g w. em_Type g = em_Type w \<and> em_Source g = em_Source w) gs ws"
    by (auto simp: mountKeys_def list_all2_conv_all_nth list_eq_iff_nth_eq)
  then show ?thesis using assms(2) by (induction rule: list_all2_induct) auto
qed

lemma label_observed:
  assumes "\<forall>(k, v) \<in> set ws. label gs k = v" "label ws k \<noteq> []"
  shows "label gs k = label ws k"
proof -
  from assms(2) obtain v where "map_of ws k = Some v" by (auto simp: label_def split: option.splits)
  then have "(k, v) \<in> set ws" by (rule map_of_SomeD)
  with assms(1) \<open>map_of ws k = Some v\<close> show ?thesis by (auto simp: label_def)
qed

text \<open>
  C12. Inspect transfers safety from intent to the running container: when the request passed
  \<open>CheckConfig\<close> and the observed container matches it, the observed name and configs pass
  \<open>CheckConfig\<close> too.
\<close>

theorem CheckObserved_safe:
  assumes "CheckConfig want socket = []" "CheckObserved got want = []"
  shows "\<exists>gc gh. in_Config got = Some gc \<and> in_HostConfig got = Some gh
           \<and> CheckConfig \<lparr>rq_Name = TrimPrefix (in_Name got) ''/'', rq_Config = gc, rq_HostConfig = gh\<rparr> socket = []"
proof -
  from assms(1) have safe: "request_safe socket want" by (simp add: cc.check_Nil_iff)
  from assms(2) obtain gc gh where got: "in_Config got = Some gc" "in_HostConfig got = Some gh"
      "TrimPrefix (in_Name got) ''/'' = rq_Name want" "unprivileged gh"
      "\<forall>(k, v) \<in> set (cfg_Labels (rq_Config want)). label (cfg_Labels gc) k = v"
      "fieldMismatches gh (rq_HostConfig want) = []"
    unfolding CheckObserved_Nil by blast
  note same = got(6) [unfolded fieldMismatches_Nil]
  have "socket_free socket gh"
    using safe same mountKeys_socket_free by (auto simp: request_safe_def socket_free_def)
  moreover have "lesson_owned (rq_Name want) gc"
    using safe label_observed [OF got(5), of LabelHarness] label_observed [OF got(5), of LabelLesson]
    by (simp add: request_safe_def lesson_owned_def)
  moreover have "swap_pinned gh" "seccomp_inline gh"
    using safe same by (auto simp: request_safe_def swap_pinned_def seccomp_inline_def)
  ultimately show ?thesis
    using got(1-4) by (intro exI [of _ gc] exI [of _ gh]) (simp add: cc.check_Nil_iff request_safe_def)
qed

lemma normalizeCap_ALL: "''ALL'' = normalizeCap c \<Longrightarrow> ToUpper c = ''ALL''"
  by (auto simp: normalizeCap_def Let_def split: if_splits)

text \<open>
  C13. Inspect transfers restriction to the container the engine recorded: when a restricted
  request is matched by what was recorded, every point of the restricted preset holds of the
  recorded configs, with one reservation. A dropped capability is recorded that spells ALL in some
  letter case, because the comparison normalises capabilities; \<open>IsRestricted\<close> itself looks for the
  upper-case spelling, and the only thing it can then object to is that spelling. An engine that
  records capabilities in normal form leaves it nothing to object to.
\<close>

theorem CheckObserved_restricted:
  assumes "IsRestricted (rq_Config want) (rq_HostConfig want)" "CheckObserved got want = []"
  shows "\<exists>gc gh. in_Config got = Some gc \<and> in_HostConfig got = Some gh
           \<and> restrictedComplete gc gh = (if ''ALL'' \<in> set (caps_of (hc_CapDrop gh)) then []
                else [CapDropLacksAll (hc_CapDrop gh)])
           \<and> (\<exists>c \<in> set (caps_of (hc_CapDrop gh)). ToUpper c = ''ALL'')
           \<and> (normalizeCaps (hc_CapDrop gh) = hc_CapDrop gh \<longrightarrow> IsRestricted gc gh)"
proof -
  from assms(2) obtain gc gh where got: "in_Config got = Some gc" "in_HostConfig got = Some gh"
      "cfg_User (rq_Config want) = [] \<or> cfg_User gc = cfg_User (rq_Config want)"
      "fieldMismatches gh (rq_HostConfig want) = []"
    unfolding CheckObserved_Nil by blast
  note same = got(4) [unfolded fieldMismatches_Nil]
  note want = assms(1) [unfolded IsRestricted_iff restrictedComplete_Nil]
  have "validUser [] = False" by code_simp
  with want got(3) have user: "cfg_User gc = cfg_User (rq_Config want)" by auto
  have "''ALL'' \<in> normalizeCap ` set (caps_of (hc_CapDrop (rq_HostConfig want)))"
  proof -
    have "normalizeCap ''ALL'' = ''ALL''" by code_simp
    with want show ?thesis by (metis imageI)
  qed
  then have drop: "''ALL'' \<in> set (caps_of (normalizeCaps (hc_CapDrop gh)))"
    using same by (simp add: set_normalizeCaps)
  have "set (caps_of (normalizeCaps (hc_CapAdd gh))) = {}"
    using want same by (simp add: set_normalizeCaps)
  then have add: "caps_of (hc_CapAdd gh) = []" by (simp add: set_normalizeCaps)
  have pids: "\<exists>p. hc_PidsLimit gh = Some p \<and> 0 < p"
    using want same by (cases "hc_PidsLimit gh") (auto simp: ptrValueOr0_def)
  have others: "restrictedComplete gc gh = (if ''ALL'' \<in> set (caps_of (hc_CapDrop gh)) then []
      else [CapDropLacksAll (hc_CapDrop gh)])"
    using want same user add pids unfolding restrictedComplete_def
    by (auto simp: case_prod_unfold Let_def report_def not_le split: option.splits)
  moreover have "\<exists>c \<in> set (caps_of (hc_CapDrop gh)). ToUpper c = ''ALL''"
  proof -
    from drop obtain c where "c \<in> set (caps_of (hc_CapDrop gh))" "''ALL'' = normalizeCap c"
      by (auto simp: set_normalizeCaps)
    then show ?thesis using normalizeCap_ALL by blast
  qed
  moreover have "IsRestricted gc gh" if "normalizeCaps (hc_CapDrop gh) = hc_CapDrop gh"
    using that drop others by (simp add: IsRestricted_iff)
  ultimately show ?thesis using got(1,2) by blast
qed

text \<open>
  An engine that records a request as it was sent and fills in only the three documented
  defaults: the image's user, the bridge network and its default runtime.
\<close>

definition engine_records :: "string \<Rightarrow> string \<Rightarrow> Request \<Rightarrow> InspectResponse" where
  "engine_records image_user runtime req =
     \<lparr>in_Name = ''/'' @ rq_Name req,
      in_Config = Some ((rq_Config req)\<lparr>cfg_User :=
        (if cfg_User (rq_Config req) = [] then image_user else cfg_User (rq_Config req))\<rparr>),
      in_HostConfig = Some ((rq_HostConfig req)\<lparr>
        hc_NetworkMode := (if hc_NetworkMode (rq_HostConfig req) = [] then ''bridge''
                           else hc_NetworkMode (rq_HostConfig req)),
        hc_Runtime := (if hc_Runtime (rq_HostConfig req) = [] then runtime
                       else hc_Runtime (rq_HostConfig req))\<rparr>)\<rparr>"

text \<open>
  No false alarm: for every translated request, an engine that records it and fills in
  only the documented defaults passes the inspect check.
\<close>

theorem CheckObserved_no_false_alarm:
  assumes "Translate s socket suf = Inr req"
  shows "CheckObserved (engine_records image_user runtime req) req = []"
proof -
  from assms have "unprivileged (rq_HostConfig req)"
    using Translate_safe by (auto simp: request_safe_def)
  moreover from assms have "cfg_Labels (rq_Config req) = Labels (sp_Lesson s)"
    by (simp add: Translate_Inr specConfig_def)
  moreover have "\<forall>(k, v) \<in> set (Labels (sp_Lesson s)). label (Labels (sp_Lesson s)) k = v"
    using label_Labels by (auto simp: Labels_def)
  moreover have "TrimPrefix (''/'' @ rq_Name req) ''/'' = rq_Name req" by (rule TrimPrefix_append)
  ultimately show ?thesis
    by (auto simp: CheckObserved_Nil fieldMismatches_Nil engine_records_def unprivileged_def)
qed

subsection \<open>The properties on a concrete request\<close>

theorem Translate_passes_CheckConfig_witness: "CheckConfig demo_request ''/run/docker.sock'' = []"
  by (rule Translate_passes_CheckConfig [OF demo_translates])

lemma demo_restricted: "IsRestricted (rq_Config demo_request) (rq_HostConfig demo_request)"
  by code_simp

theorem IsRestricted_nonroot_witness:
  "\<exists>uid rest n. ''10001:10001'' = uid @ rest \<and> (rest = [] \<or> hd rest = CHR '':'')
     \<and> ParseInt uid = Some n \<and> 0 < n \<and> n < 2 ^ 31"
  using IsRestricted_nonroot [OF demo_restricted]
  by (simp add: demo_request_def specConfig_def demo_spec_def Restricted_def RestrictedUser_def
      DefaultFixtureUser_def)

theorem CheckObserved_no_false_alarm_witness:
  "CheckObserved (engine_records ''10001:10001'' ''runc'' demo_request) demo_request = []"
  by (rule CheckObserved_no_false_alarm [OF demo_translates])

lemma demo_observed: "CheckObserved (engine_records [] [] demo_request) demo_request = []"
  by code_simp

lemma demo_checked: "CheckConfig demo_request ''/run/docker.sock'' = []"
  by code_simp

theorem CheckObserved_safe_witness:
  "\<exists>gc gh. in_Config (engine_records [] [] demo_request) = Some gc
     \<and> in_HostConfig (engine_records [] [] demo_request) = Some gh
     \<and> CheckConfig \<lparr>rq_Name = TrimPrefix (in_Name (engine_records [] [] demo_request)) ''/'',
         rq_Config = gc, rq_HostConfig = gh\<rparr> ''/run/docker.sock'' = []"
  by (rule CheckObserved_safe [OF demo_checked demo_observed])

theorem CheckObserved_restricted_witness:
  "\<exists>gc gh. in_Config (engine_records [] [] demo_request) = Some gc
     \<and> in_HostConfig (engine_records [] [] demo_request) = Some gh \<and> IsRestricted gc gh"
proof -
  have "normalizeCaps (hc_CapDrop (the (in_HostConfig (engine_records [] [] demo_request))))
      = hc_CapDrop (the (in_HostConfig (engine_records [] [] demo_request)))" by code_simp
  with CheckObserved_restricted [OF demo_restricted demo_observed] show ?thesis by auto
qed

text \<open>
  The reservation of the theorem above is real: an engine that records the dropped capability
  as \<^verbatim>\<open>all\<close> passes the inspect check of a restricted request and is not restricted.
\<close>

definition lower_case_engine :: InspectResponse where
  "lower_case_engine = (engine_records [] [] demo_request)\<lparr>
     in_HostConfig := Some ((rq_HostConfig demo_request)\<lparr>hc_CapDrop := Some [''all'']\<rparr>)\<rparr>"

theorem lower_case_all_passes:
  "CheckObserved lower_case_engine demo_request = []
   \<and> \<not> IsRestricted (the (in_Config lower_case_engine)) (the (in_HostConfig lower_case_engine))"
proof
  show "CheckObserved lower_case_engine demo_request = []" by code_simp
  show "\<not> IsRestricted (the (in_Config lower_case_engine)) (the (in_HostConfig lower_case_engine))" by code_simp
qed

end
