(* ===== verification/Probeout.thy ===== *)
theory Probeout
  imports Go_Strings
begin

section \<open>The probe line format\<close>

text \<open>
  The package \<^verbatim>\<open>internal/lab/docker/probeout\<close>: the line format the fixture binary prints and
  the harness reads back. \<open>line\<close> is the struct \<^verbatim>\<open>Line\<close>, with \<^verbatim>\<open>Err\<close> as an optional value of
  \<open>line_err\<close>, one constructor per message of \<^verbatim>\<open>parseLine\<close>; the operations follow in the
  order of the file. The main results are the two round trips \<open>Format_Parse\<close> (any text) and
  \<open>Parse_Format\<close> (any list of lines that can occur), from which the readers of probe output
  in the harness are verified.
\<close>

datatype line_err =
    EmptyLine
  | NoSeparator
  | InvalidName string
  | OKWithoutDetail
  | ControlCharacter
  | BadStatus

record line =
  line_Name :: string
  line_OK :: bool
  line_Detail :: string
  line_Raw :: string
  line_Err :: "line_err option"

definition control_byte :: "char \<Rightarrow> bool" where
  "control_byte c \<longleftrightarrow> (of_char c :: nat) < 0x20 \<or> (of_char c :: nat) = 0x7f"

definition ValidDetail :: "string \<Rightarrow> bool" where
  "ValidDetail s \<longleftrightarrow> (\<forall>c \<in> set s. \<not> control_byte c)"

definition Sanitize :: "string \<Rightarrow> string" where
  "Sanitize s =
     (if ValidDetail s then s else map (\<lambda>c. if control_byte c then CHR '' '' else c) s)"

definition OK :: "string \<Rightarrow> string \<Rightarrow> line" where
  "OK name detail =
     \<lparr>line_Name = name, line_OK = True, line_Detail = Sanitize detail, line_Raw = [], line_Err = None\<rparr>"

definition Denied :: "string \<Rightarrow> string \<Rightarrow> line" where
  "Denied name err =
     \<lparr>line_Name = name, line_OK = False, line_Detail = Sanitize err, line_Raw = [], line_Err = None\<rparr>"

definition line_Malformed :: "line \<Rightarrow> bool" where
  "line_Malformed l \<longleftrightarrow> line_Err l \<noteq> None"

definition line_String :: "line \<Rightarrow> string" where
  "line_String l =
     (if line_Err l \<noteq> None then line_Raw l
      else if \<not> line_OK l then line_Name l @ '': DENIED ('' @ line_Detail l @ '')''
      else if line_Detail l = [] then line_Name l @ '': OK''
      else line_Name l @ '': OK '' @ line_Detail l)"

definition name_head :: "char \<Rightarrow> bool" where
  "name_head c \<longleftrightarrow> (CHR ''a'' \<le> c \<and> c \<le> CHR ''z'') \<or> (CHR ''0'' \<le> c \<and> c \<le> CHR ''9'')"

definition name_tail :: "char \<Rightarrow> bool" where
  "name_tail c \<longleftrightarrow> name_head c \<or> c = CHR ''.'' \<or> c = CHR ''_'' \<or> c = CHR ''-''"

fun ValidName :: "string \<Rightarrow> bool" where
  "ValidName [] = False"
| "ValidName (c # cs) \<longleftrightarrow> name_head c \<and> list_all name_tail cs"

definition bad_line :: "string \<Rightarrow> line_err \<Rightarrow> line" where
  "bad_line raw e =
     \<lparr>line_Name = [], line_OK = False, line_Detail = [], line_Raw = raw, line_Err = Some e\<rparr>"

definition good_line :: "string \<Rightarrow> bool \<Rightarrow> string \<Rightarrow> line" where
  "good_line name ok detail =
     \<lparr>line_Name = name, line_OK = ok, line_Detail = detail, line_Raw = [], line_Err = None\<rparr>"

text \<open>The switch on the text after the separator, then the whole function.\<close>

definition parse_status :: "string \<Rightarrow> string \<Rightarrow> string \<Rightarrow> line" where
  "parse_status raw name rest =
     (if rest = ''OK'' then good_line name True []
      else if HasPrefix rest ''OK '' then
        (let d = drop 3 rest in
         if d = [] then bad_line raw OKWithoutDetail
         else if \<not> ValidDetail d then bad_line raw ControlCharacter
         else good_line name True d)
      else if HasPrefix rest ''DENIED ('' \<and> HasSuffix rest '')'' then
        (let d = butlast (drop 8 rest) in
         if \<not> ValidDetail d then bad_line raw ControlCharacter
         else good_line name False d)
      else bad_line raw BadStatus)"

definition parseLine :: "string \<Rightarrow> line" where
  "parseLine raw =
     (if raw = [] then bad_line raw EmptyLine
      else case Index raw '': '' of
        None \<Rightarrow> bad_line raw NoSeparator
      | Some i \<Rightarrow>
          (let name = take i raw; rest = drop (i + 2) raw in
           if \<not> ValidName name then bad_line raw (InvalidName name)
           else parse_status raw name rest))"

definition newline :: string where
  "newline = [CHR 0x0A]"

definition Parse :: "string \<Rightarrow> line list" where
  "Parse s = (if s = [] then [] else map parseLine (split_on (CHR 0x0A) (TrimSuffix s newline)))"

definition Format :: "line list \<Rightarrow> string" where
  "Format ls = concat (map (\<lambda>l. line_String l @ newline) ls)"

fun Find :: "line list \<Rightarrow> string \<Rightarrow> line option" where
  "Find [] name = None"
| "Find (l # ls) name =
     (if \<not> line_Malformed l \<and> line_Name l = name then Some l else Find ls name)"

definition Malformed_lines :: "line list \<Rightarrow> line list" where
  "Malformed_lines ls = filter line_Malformed ls"

text \<open>
  The lines that can occur: a well-formed line has a valid name and a detail free of control
  bytes, a malformed one is what \<^verbatim>\<open>parseLine\<close> returns for its own text.
\<close>

definition wf_line :: "line \<Rightarrow> bool" where
  "wf_line l \<longleftrightarrow>
     (case line_Err l of
        None \<Rightarrow> ValidName (line_Name l) \<and> ValidDetail (line_Detail l) \<and> line_Raw l = []
      | Some _ \<Rightarrow> CHR 0x0A \<notin> set (line_Raw l) \<and> parseLine (line_Raw l) = l)"

subsection \<open>Names and details\<close>

lemma ValidName_chars: "ValidName s \<Longrightarrow> c \<in> set s \<Longrightarrow> name_tail c"
  by (cases s) (auto simp: name_tail_def list_all_iff)

lemma ValidName_no_colon: "ValidName s \<Longrightarrow> CHR '':'' \<notin> set s"
  by (auto dest!: ValidName_chars simp: name_tail_def name_head_def)

lemma ValidName_no_newline: "ValidName s \<Longrightarrow> CHR 0x0A \<notin> set s"
  by (auto dest!: ValidName_chars simp: name_tail_def name_head_def)

lemma ValidDetail_no_newline: "ValidDetail s \<Longrightarrow> CHR 0x0A \<notin> set s"
  by (auto simp: ValidDetail_def control_byte_def)

lemma ValidDetail_Nil [simp]: "ValidDetail []"
  by (simp add: ValidDetail_def)

lemma ValidDetail_Sanitize [simp]: "ValidDetail (Sanitize s)"
  by (auto simp: Sanitize_def ValidDetail_def control_byte_def)

lemma Sanitize_valid: "ValidDetail s \<Longrightarrow> Sanitize s = s"
  by (simp add: Sanitize_def)

lemma length_Sanitize [simp]: "length (Sanitize s) = length s"
  by (simp add: Sanitize_def)

subsection \<open>One line\<close>

lemma Index_after_name:
  "ValidName n \<Longrightarrow> Index (n @ '': '' @ r) '': '' = Some (length n)"
  using Index_first_char [of "CHR '':''" n "'' ''" r] ValidName_no_colon by simp

lemma parseLine_good:
  assumes "ValidName n" "ValidDetail d"
  shows "parseLine (line_String (good_line n b d)) = good_line n b d"
proof -
  note idx = Index_after_name [OF assms(1)]
  have ne: "n \<noteq> []" using assms(1) by auto
  show ?thesis
  proof (cases b)
    case False
    then have "line_String (good_line n b d) = n @ '': '' @ (''DENIED ('' @ d @ '')'')"
      by (simp add: line_String_def good_line_def)
    then show ?thesis
      using idx [of "''DENIED ('' @ d @ '')''"] ne assms False
      by (simp add: parseLine_def parse_status_def butlast_append HasSuffix_iff)
  next
    case True
    show ?thesis
    proof (cases "d = []")
      case dNil: True
      then have "line_String (good_line n b d) = n @ '': '' @ ''OK''"
        using True by (simp add: line_String_def good_line_def)
      then show ?thesis
        using idx [of "''OK''"] ne assms True dNil by (simp add: parseLine_def parse_status_def)
    next
      case False
      then have "line_String (good_line n b d) = n @ '': '' @ (''OK '' @ d)"
        using True by (simp add: line_String_def good_line_def)
      then show ?thesis
        using idx [of "''OK '' @ d"] ne assms True False by (simp add: parseLine_def parse_status_def)
    qed
  qed
qed

lemma denied_split:
  assumes "HasPrefix rest ''DENIED (''" "HasSuffix rest '')''"
  shows "rest = ''DENIED ('' @ butlast (drop 8 rest) @ '')''"
proof -
  from assms(1) obtain t where t: "rest = ''DENIED ('' @ t" by (auto simp: HasPrefix_iff)
  have "t \<noteq> []"
  proof
    assume "t = []"
    with t assms(2) show False by (simp add: HasSuffix_def)
  qed
  moreover from assms(2) obtain u where "rest = u @ '')''" by (auto simp: HasSuffix_iff)
  ultimately have "last t = CHR '')''" using t by (metis last_appendR last_snoc)
  with \<open>t \<noteq> []\<close> have "t = butlast t @ '')''" by (metis append_butlast_last_id)
  with t show ?thesis by simp
qed

lemma line_String_parts:
  "line_Err l = None \<Longrightarrow> line_String l =
     (if \<not> line_OK l then line_Name l @ '': '' @ ''DENIED ('' @ line_Detail l @ '')''
      else if line_Detail l = [] then line_Name l @ '': '' @ ''OK''
      else line_Name l @ '': '' @ ''OK '' @ line_Detail l)"
  by (simp add: line_String_def)

lemma line_String_bad [simp]: "line_String (bad_line raw e) = raw"
  by (simp add: line_String_def bad_line_def)

lemma line_Err_good [simp]: "line_Err (good_line n b d) = None"
  by (simp add: good_line_def)

lemma parse_status_String:
  "raw = name @ '': '' @ rest \<Longrightarrow> line_String (parse_status raw name rest) = raw"
proof -
  assume raw: "raw = name @ '': '' @ rest"
  consider "rest = ''OK''" | "rest \<noteq> ''OK''" "HasPrefix rest ''OK ''"
    | "rest \<noteq> ''OK''" "\<not> HasPrefix rest ''OK ''" "HasPrefix rest ''DENIED (''" "HasSuffix rest '')''"
    | "rest \<noteq> ''OK''" "\<not> HasPrefix rest ''OK ''" "\<not> (HasPrefix rest ''DENIED ('' \<and> HasSuffix rest '')'')"
    by blast
  then show ?thesis
  proof cases
    case 2
    then obtain d where "rest = ''OK '' @ d" by (auto simp: HasPrefix_iff)
    with 2 raw show ?thesis
      by (simp add: parse_status_def line_String_parts good_line_def)
  next
    case 3
    then obtain d where "rest = ''DENIED ('' @ d @ '')''" using denied_split by blast
    with 3 raw show ?thesis
      by (simp add: parse_status_def line_String_parts good_line_def butlast_append)
  qed (use raw in \<open>auto simp: parse_status_def line_String_parts good_line_def\<close>)
qed

lemma parseLine_String: "line_String (parseLine raw) = raw"
proof (cases "Index raw '': ''")
  case (Some i)
  have "raw = take i raw @ '': '' @ drop (i + 2) raw"
    using Index_Some_split [OF Some] by simp
  from parse_status_String [OF this] Some show ?thesis
    by (simp add: parseLine_def Let_def)
qed (simp add: parseLine_def)

lemma wf_line_good: "wf_line (good_line n b d) \<longleftrightarrow> ValidName n \<and> ValidDetail d"
  by (simp add: wf_line_def good_line_def)

lemma parse_status_cases:
  "(\<exists>b d. parse_status raw n rest = good_line n b d \<and> ValidDetail d) \<or>
   (\<exists>e. parse_status raw n rest = bad_line raw e)"
  unfolding parse_status_def Let_def
  by (simp only: split: if_split) (use ValidDetail_Nil in blast)

lemma parseLine_cases:
  obtains n b d where "parseLine raw = good_line n b d" "ValidName n" "ValidDetail d"
  | e where "parseLine raw = bad_line raw e"
proof (cases "Index raw '': ''")
  case None
  then have "\<exists>e. parseLine raw = bad_line raw e" by (auto simp: parseLine_def)
  with that(2) show ?thesis by blast
next
  case (Some i)
  have "(\<exists>e. parseLine raw = bad_line raw e) \<or>
    ValidName (take i raw) \<and> parseLine raw = parse_status raw (take i raw) (drop (i + 2) raw)"
    using Some by (auto simp: parseLine_def Let_def)
  with that parse_status_cases show ?thesis by metis
qed

lemma wf_line_parseLine: "CHR 0x0A \<notin> set raw \<Longrightarrow> wf_line (parseLine raw)"
proof (cases raw rule: parseLine_cases)
  case (2 e)
  assume "CHR 0x0A \<notin> set raw"
  with 2 show ?thesis by (simp add: wf_line_def bad_line_def)
qed (simp add: wf_line_good)

lemma wf_line_cases:
  assumes "wf_line l"
  obtains n b d where "l = good_line n b d" "ValidName n" "ValidDetail d"
  | "parseLine (line_Raw l) = l" "line_String l = line_Raw l" "CHR 0x0A \<notin> set (line_Raw l)"
proof (cases "line_Err l")
  case None
  with assms have "l = good_line (line_Name l) (line_OK l) (line_Detail l)"
    by (simp add: wf_line_def good_line_def)
  with None assms that(1) show ?thesis by (simp add: wf_line_def)
next
  case (Some e)
  with assms that(2) show ?thesis by (simp add: wf_line_def line_String_def)
qed

lemma parseLine_wf: "wf_line l \<Longrightarrow> parseLine (line_String l) = l"
  by (erule wf_line_cases) (simp_all add: parseLine_good)

lemma line_String_no_newline: "wf_line l \<Longrightarrow> CHR 0x0A \<notin> set (line_String l)"
  by (erule wf_line_cases)
    (auto simp: line_String_def good_line_def dest: ValidName_no_newline ValidDetail_no_newline)

lemma wf_OK [simp]: "ValidName n \<Longrightarrow> wf_line (OK n d)"
  and wf_Denied [simp]: "ValidName n \<Longrightarrow> wf_line (Denied n e)"
  by (simp_all add: wf_line_def OK_def Denied_def)

subsection \<open>Whole outputs\<close>

lemma Format_Cons [simp]: "Format (l # ls) = line_String l @ newline @ Format ls"
  by (simp add: Format_def)

lemma Format_Nil [simp]: "Format [] = []"
  by (simp add: Format_def)

lemma Format_append: "Format (ls @ ls') = Format ls @ Format ls'"
  by (simp add: Format_def)

lemma Format_join: "ls \<noteq> [] \<Longrightarrow> Format ls = join_with newline (map line_String ls) @ newline"
proof (induction ls)
  case (Cons l ls)
  then show ?case by (cases "ls = []") (simp_all add: join_with_Cons)
qed simp

lemma Parse_no_newline: "l \<in> set (Parse s) \<Longrightarrow> wf_line l"
  by (auto simp: Parse_def split: if_splits dest: split_on_pieces intro: wf_line_parseLine)

text \<open>
  Formatting what was parsed gives the text back, whatever the text is: nothing is dropped,
  malformed lines included, and a newline is added exactly when the last line lacked one.
\<close>

theorem Format_Parse:
  "Format (Parse s) = (if s = [] \<or> HasSuffix s newline then s else s @ newline)"
proof (cases "s = []")
  case False
  let ?t = "TrimSuffix s newline"
  have "Format (Parse s) = join_with newline (split_on (CHR 0x0A) ?t) @ newline"
    using False by (simp add: Format_join Parse_def comp_def parseLine_String)
  also have "\<dots> = ?t @ newline" by (simp add: newline_def join_split)
  also have "\<dots> = (if HasSuffix s newline then s else s @ newline)"
    by (auto simp: HasSuffix_iff TrimSuffix_none)
  finally show ?thesis using False by simp
qed (simp add: Parse_def)

lemma Parse_formatted:
  assumes "\<forall>l \<in> set ls. wf_line l"
  shows "Parse (Format ls) = ls"
proof (cases "ls = []")
  case False
  have pieces: "\<forall>p \<in> set (map line_String ls). CHR 0x0A \<notin> set p"
    using assms by (auto dest: line_String_no_newline)
  have "Parse (Format ls) = map parseLine (map line_String ls)"
    using False split_join [OF _ pieces] by (simp add: Parse_def Format_join newline_def)
  also have "\<dots> = ls" using assms by (simp add: map_idI parseLine_wf)
  finally show ?thesis .
qed (simp add: Parse_def)

text \<open>
  C32. Parsing what was formatted gives the same lines back, for every list of lines that can
  occur: names, verdicts and details survive byte for byte, also next to malformed lines.
\<close>

theorem Parse_Format:
  assumes "\<forall>l \<in> set ls. wf_line l"
  shows "Parse (Format ls) = ls"
  using assms by (rule Parse_formatted)

theorem Parse_Format_witness:
  "Parse (Format [OK ''cap-eff'' ''0000'', Denied ''mount'' ''no'', parseLine ''junk''])
     = [OK ''cap-eff'' ''0000'', Denied ''mount'' ''no'', parseLine ''junk'']"
  by (rule Parse_Format)
    (simp add: name_head_def name_tail_def wf_line_parseLine)

text \<open>Searching printed output is searching the lines that were printed.\<close>

lemma Find_Some:
  "Find ls n = Some l \<Longrightarrow> l \<in> set ls \<and> \<not> line_Malformed l \<and> line_Name l = n"
  by (induction ls) (auto split: if_splits)

lemma Find_None: "Find ls n = None \<longleftrightarrow> (\<forall>l \<in> set ls. line_Malformed l \<or> line_Name l \<noteq> n)"
  by (induction ls) auto

lemma Find_append:
  "Find (ls @ ls') n = (case Find ls n of None \<Rightarrow> Find ls' n | Some l \<Rightarrow> Some l)"
  by (induction ls) auto

lemma Find_Parse_wf: "Find (Parse s) n = Some l \<Longrightarrow> ValidName n \<and> ValidDetail (line_Detail l)"
proof -
  assume "Find (Parse s) n = Some l"
  then have "wf_line l" "\<not> line_Malformed l" "line_Name l = n"
    by (auto dest!: Find_Some intro: Parse_no_newline)
  then show ?thesis by (auto simp: wf_line_def line_Malformed_def)
qed

end
