(* ===== verification/Effects.thy ===== *)
theory Effects
  imports Prelude "HOL-Library.State_Monad"
begin

section \<open>Programs that record their effects\<close>

text \<open>
  The harness talks to the Docker Engine, and the fixture binary to the kernel. Both are outside
  the repository. A program is a computation in the state monad over the list of everything that
  happened so far, its calls with their answers; it can only append to it. Whoever answers is a
  function of that list, so it can behave in any way, including failing every call.
\<close>

text \<open>\<open>ask f ev\<close> makes one call: the answer is \<open>f\<close> of the history, and the call is recorded.\<close>

definition ask :: "('e list \<Rightarrow> 'a) \<Rightarrow> ('a \<Rightarrow> 'e) \<Rightarrow> ('e list, 'a) state" where
  "ask f ev = State (\<lambda>h. (f h, h @ [ev (f h)]))"

text \<open>\<open>peek f\<close> asks without leaving a trace.\<close>

definition peek :: "('e list \<Rightarrow> 'a) \<Rightarrow> ('e list, 'a) state" where
  "peek f = State (\<lambda>h. (f h, h))"

abbreviation ret :: "'a \<Rightarrow> ('e list, 'a) state" where
  "ret \<equiv> State_Monad.return"

text \<open>Evaluating a program, its continuations are looked at only once they run.\<close>

lemma bind_weak_cong: "m = m' \<Longrightarrow> State_Monad.bind m f = State_Monad.bind m' f"
  by simp

subsection \<open>Reasoning about programs\<close>

text \<open>
  \<open>triple m Q\<close>: from every history, the program appends events \<open>new\<close> and returns \<open>r\<close> with
  \<open>Q r new\<close>. The rules below take a program apart along its structure, whatever the environment
  answers.
\<close>

named_theorems triple_rules \<open>decomposition rules for programs\<close>

definition triple :: "('e list, 'a) state \<Rightarrow> ('a \<Rightarrow> 'e list \<Rightarrow> bool) \<Rightarrow> bool" where
  "triple m Q \<longleftrightarrow> (\<forall>h. \<exists>new. snd (run_state m h) = h @ new \<and> Q (fst (run_state m h)) new)"

lemma triple_return [triple_rules]: "Q x [] \<Longrightarrow> triple (ret x) Q"
  by (simp add: triple_def)

lemma triple_ask [triple_rules]: "(\<And>r. Q r [ev r]) \<Longrightarrow> triple (ask f ev) Q"
  by (simp add: triple_def ask_def)

lemma triple_bind:
  assumes "triple m Q" "\<And>r n. Q r n \<Longrightarrow> triple (f r) (\<lambda>r' n'. R r' (n @ n'))"
  shows "triple (State_Monad.bind m f) R"
  unfolding triple_def
proof
  fix h
  from assms(1) obtain n where n: "snd (run_state m h) = h @ n" "Q (fst (run_state m h)) n"
    unfolding triple_def by blast
  from assms(2) [OF n(2)] obtain n' where
    "snd (run_state (f (fst (run_state m h))) (h @ n)) = (h @ n) @ n'"
    "R (fst (run_state (f (fst (run_state m h))) (h @ n))) (n @ n')"
    unfolding triple_def by blast
  with n(1) show "\<exists>new. snd (run_state (State_Monad.bind m f) h) = h @ new
      \<and> R (fst (run_state (State_Monad.bind m f) h)) new"
    by (intro exI [of _ "n @ n'"]) (simp add: case_prod_unfold)
qed

lemma triple_ask_bind [triple_rules]:
  assumes "\<And>r. triple (g r) (\<lambda>r' n'. R r' (ev r # n'))"
  shows "triple (State_Monad.bind (ask f ev) g) R"
  using assms by (intro triple_bind [where Q = "\<lambda>r n. n = [ev r]"] triple_ask) simp_all

lemma triple_peek [triple_rules]: "(\<And>r. Q r []) \<Longrightarrow> triple (peek f) Q"
  by (simp add: triple_def peek_def)

lemma triple_peek_bind [triple_rules]: "(\<And>r. triple (g r) R) \<Longrightarrow> triple (State_Monad.bind (peek f) g) R"
  by (rule triple_bind [where Q = "\<lambda>r n. n = []"], rule triple_peek) simp_all

lemma triple_mono: "triple m Q \<Longrightarrow> (\<And>r n. Q r n \<Longrightarrow> R r n) \<Longrightarrow> triple m R"
  unfolding triple_def by blast

lemma triple_conj: "triple m Q \<Longrightarrow> triple m R \<Longrightarrow> triple m (\<lambda>r n. Q r n \<and> R r n)"
  unfolding triple_def by (metis same_append_eq)

lemma triple_run:
  assumes "triple m Q" "run_state m h = (r, h')"
  obtains new where "h' = h @ new" "Q r new"
proof -
  from assms(1) obtain new where "snd (run_state m h) = h @ new" "Q (fst (run_state m h)) new"
    unfolding triple_def by blast
  with assms(2) that show thesis by simp
qed

lemma triple_if [triple_rules]:
  "(b \<Longrightarrow> triple m Q) \<Longrightarrow> (\<not> b \<Longrightarrow> triple n Q) \<Longrightarrow> triple (if b then m else n) Q"
  by simp

lemma triple_option [triple_rules]:
  "(x = None \<Longrightarrow> triple m Q) \<Longrightarrow> (\<And>y. x = Some y \<Longrightarrow> triple (n y) Q) \<Longrightarrow>
   triple (case x of None \<Rightarrow> m | Some y \<Rightarrow> n y) Q"
  by (cases x) simp_all

lemma triple_sum [triple_rules]:
  "(\<And>e. x = Inl e \<Longrightarrow> triple (m e) Q) \<Longrightarrow> (\<And>y. x = Inr y \<Longrightarrow> triple (n y) Q) \<Longrightarrow>
   triple (case x of Inl e \<Rightarrow> m e | Inr y \<Rightarrow> n y) Q"
  by (cases x) simp_all

lemma triple_prod [triple_rules]:
  "(\<And>a b. x = (a, b) \<Longrightarrow> triple (m a b) Q) \<Longrightarrow> triple (case x of (a, b) \<Rightarrow> m a b) Q"
  by (cases x) simp_all

lemma triple_let [triple_rules]: "triple (f x) Q \<Longrightarrow> triple (let y = x in f y) Q"
  by simp

subsection \<open>What a program may do\<close>

text \<open>\<open>emits P m\<close>: every event of \<open>m\<close> satisfies \<open>P\<close>, whatever the environment answers.\<close>

named_theorems emits_rules \<open>decomposition rules for the events of a program\<close>

definition emits :: "('e \<Rightarrow> bool) \<Rightarrow> ('e list, 'a) state \<Rightarrow> bool" where
  "emits P m \<longleftrightarrow> triple m (\<lambda>_ n. list_all P n)"

lemma emits_ret [emits_rules]: "emits P (ret x)"
  by (simp add: emits_def triple_return)

lemma emits_ask [emits_rules]: "(\<And>r. P (ev r)) \<Longrightarrow> emits P (ask f ev)"
  by (simp add: emits_def triple_ask)

lemma emits_peek [emits_rules]: "emits P (peek f)"
  by (simp add: emits_def triple_peek)

lemma emits_bind [emits_rules]: "emits P m \<Longrightarrow> (\<And>r. emits P (f r)) \<Longrightarrow> emits P (State_Monad.bind m f)"
  unfolding emits_def by (rule triple_bind, assumption) (auto elim: triple_mono)

lemma emits_if [emits_rules]: "(b \<Longrightarrow> emits P m) \<Longrightarrow> (\<not> b \<Longrightarrow> emits P n) \<Longrightarrow> emits P (if b then m else n)"
  by simp

lemma emits_option [emits_rules]:
  "emits P m \<Longrightarrow> (\<And>y. x = Some y \<Longrightarrow> emits P (n y)) \<Longrightarrow> emits P (case x of None \<Rightarrow> m | Some y \<Rightarrow> n y)"
  by (cases x) simp_all

lemma emits_sum [emits_rules]:
  "(\<And>e. x = Inl e \<Longrightarrow> emits P (m e)) \<Longrightarrow> (\<And>y. x = Inr y \<Longrightarrow> emits P (n y)) \<Longrightarrow> emits P (case x of Inl e \<Rightarrow> m e | Inr y \<Rightarrow> n y)"
  by (cases x) simp_all

lemma emits_prod [emits_rules]: "(\<And>a b. x = (a, b) \<Longrightarrow> emits P (m a b)) \<Longrightarrow> emits P (case x of (a, b) \<Rightarrow> m a b)"
  by (cases x) simp_all

lemma emits_let [emits_rules]: "emits P (f x) \<Longrightarrow> emits P (let y = x in f y)"
  by simp

lemma emits_mono: "emits P m \<Longrightarrow> (\<And>e. P e \<Longrightarrow> Q e) \<Longrightarrow> emits Q m"
  unfolding emits_def by (erule triple_mono) (auto simp: list_all_iff)

lemma emits_run: "emits P m \<Longrightarrow> run_state m h = (r, h') \<Longrightarrow> \<exists>new. h' = h @ new \<and> list_all P new"
  unfolding emits_def by (erule triple_run) auto

end
