(* ===== verification/Engine.thy ===== *)
theory Engine
  imports Invariants Probeout Effects
begin

section \<open>The engine client\<close>

text \<open>
  The Docker Engine client (moby) and the daemon behind it are not part of the repository. The
  model takes them as a value of the record \<open>client\<close>: one function per client method the source
  calls, and one for each thing a build does on the host, which answers from the history of everything that happened so far. A history is the
  list of all calls with their answers, so a \<open>client\<close> can behave in any way a daemon, another
  process, a clock or a context that is cancelled at any moment can behave, including failing
  every call. No theorem assumes anything of it unless a hypothesis says so.

  \<open>ctx\<close> records whether a call ran on the caller's context or on one detached from it.
\<close>

type_synonym err = string

datatype ctx = Caller | Detached

datatype list_filter = ByLesson string | ByID string

datatype wait_condition = NextExit | NotRunning

datatype wait_outcome = WaitResult int "string option" | WaitError err | CtxDone err

record ContainerSummary =
  cs_ID :: string
  cs_Names :: "string list"
  cs_Labels :: labels

record NamedObject =
  no_Name :: string
  no_Labels :: labels

datatype event =
    RandomRead string
  | ContainerCreated string Config HostConfig "(err, string) result"
  | ContainerStarted string "err option"
  | ContainerWaited string wait_condition
  | ContainerAwaited string wait_outcome
  | ContainerLogged string
  | ContainerInspected string
  | ContainerRemoved ctx string "err option"
  | ContainersListed ctx list_filter "(err, ContainerSummary list) result"
  | ContainerStopped string int "err option"
  | VolumesListed list_filter "(err, NamedObject list) result"
  | VolumeCreated string labels "err option"
  | VolumeRemoved ctx string "err option"
  | NetworksListed list_filter "(err, NamedObject list) result"
  | NetworkCreated string string bool labels "err option"
  | NetworkRemoved string "err option"
  | ExecCreated string "string list" "(err, string) result"
  | ExecAttached string "err option"
  | ExecRead string
  | ExecInspected string
  | ImageBuilt string labels "(tar_header \<times> string) list" "(err, string \<times> err option) result"
  | BuildBodyClosed
  | ImageInspected ctx string "err option"
  | ImageRemoved ctx string "err option"
  | InfoAsked
  | Pinged "err option"
  | ClientClosed
  | TempDirMade "(err, string) result"
  | TempDirRemoved string
  | CommandRun "string list" "string list" "(err \<times> string) option"
  | HostFileRead string
  | ContextAsked "err option"
  | ClockRead int

type_synonym history = "event list"

type_synonym 'a prog = "(history, 'a) state"

record Observed = InspectResponse +
  in_OOMKilled :: "bool option"

record client =
  cl_DaemonHost :: string
  cl_ParseHostURL :: "string \<Rightarrow> (string \<times> string) option"
  cl_random :: "history \<Rightarrow> string"
  cl_create :: "history \<Rightarrow> string \<Rightarrow> Config \<Rightarrow> HostConfig \<Rightarrow> (err, string) result"
  cl_start :: "history \<Rightarrow> string \<Rightarrow> err option"
  cl_await :: "history \<Rightarrow> string \<Rightarrow> wait_outcome"
  cl_logs :: "history \<Rightarrow> string \<Rightarrow> (err, string \<times> string) result"
  cl_inspect :: "history \<Rightarrow> string \<Rightarrow> (err, Observed) result"
  cl_remove :: "history \<Rightarrow> ctx \<Rightarrow> string \<Rightarrow> err option"
  cl_list :: "history \<Rightarrow> ctx \<Rightarrow> list_filter \<Rightarrow> (err, ContainerSummary list) result"
  cl_stop :: "history \<Rightarrow> string \<Rightarrow> int \<Rightarrow> err option"
  cl_volume_list :: "history \<Rightarrow> list_filter \<Rightarrow> (err, NamedObject list) result"
  cl_volume_create :: "history \<Rightarrow> string \<Rightarrow> labels \<Rightarrow> err option"
  cl_volume_remove :: "history \<Rightarrow> ctx \<Rightarrow> string \<Rightarrow> err option"
  cl_network_list :: "history \<Rightarrow> list_filter \<Rightarrow> (err, NamedObject list) result"
  cl_network_create :: "history \<Rightarrow> string \<Rightarrow> string \<Rightarrow> bool \<Rightarrow> labels \<Rightarrow> err option"
  cl_network_remove :: "history \<Rightarrow> string \<Rightarrow> err option"
  cl_exec_create :: "history \<Rightarrow> string \<Rightarrow> string list \<Rightarrow> (err, string) result"
  cl_exec_attach :: "history \<Rightarrow> string \<Rightarrow> err option"
  cl_exec_read :: "history \<Rightarrow> string \<Rightarrow> string \<times> string \<times> err option"
  cl_exec_inspect :: "history \<Rightarrow> string \<Rightarrow> (err, bool \<times> int) result"
  cl_image_build :: "history \<Rightarrow> string \<Rightarrow> labels \<Rightarrow> (tar_header \<times> string) list \<Rightarrow> (err, string \<times> err option) result"
  cl_image_inspect :: "history \<Rightarrow> ctx \<Rightarrow> string \<Rightarrow> err option"
  cl_image_remove :: "history \<Rightarrow> ctx \<Rightarrow> string \<Rightarrow> err option"
  cl_info :: "history \<Rightarrow> (err, string) result"
  cl_ping :: "history \<Rightarrow> err option"
  cl_temp_dir :: "history \<Rightarrow> (err, string) result"
  cl_command :: "history \<Rightarrow> string list \<Rightarrow> string list \<Rightarrow> (err \<times> string) option"
  cl_read_file :: "history \<Rightarrow> string \<Rightarrow> (err, string) result"
  cl_ctx_err :: "history \<Rightarrow> err option"
  cl_now :: "history \<Rightarrow> int"

subsection \<open>Calls\<close>

definition randomSuffix :: "client \<Rightarrow> string prog" where
  "randomSuffix cl = do { b \<leftarrow> ask (cl_random cl) RandomRead; ret (NameSuffix b) }"

definition containerCreate :: "client \<Rightarrow> string \<Rightarrow> Config \<Rightarrow> HostConfig \<Rightarrow> (err, string) result prog" where
  "containerCreate cl name cfg hc = ask (\<lambda>h. cl_create cl h name cfg hc) (ContainerCreated name cfg hc)"

definition containerStart :: "client \<Rightarrow> string \<Rightarrow> err option prog" where
  "containerStart cl cid = ask (\<lambda>h. cl_start cl h cid) (ContainerStarted cid)"

definition containerWait :: "client \<Rightarrow> string \<Rightarrow> wait_condition \<Rightarrow> unit prog" where
  "containerWait cl cid cond = ask (\<lambda>h. ()) (\<lambda>_. ContainerWaited cid cond)"

definition awaitExit :: "client \<Rightarrow> string \<Rightarrow> wait_outcome prog" where
  "awaitExit cl cid = ask (\<lambda>h. cl_await cl h cid) (ContainerAwaited cid)"

definition containerLogs :: "client \<Rightarrow> string \<Rightarrow> (err, string \<times> string) result prog" where
  "containerLogs cl cid = ask (\<lambda>h. cl_logs cl h cid) (\<lambda>_. ContainerLogged cid)"

definition containerInspect :: "client \<Rightarrow> string \<Rightarrow> (err, Observed) result prog" where
  "containerInspect cl cid = ask (\<lambda>h. cl_inspect cl h cid) (\<lambda>_. ContainerInspected cid)"

definition containerRemove :: "client \<Rightarrow> ctx \<Rightarrow> string \<Rightarrow> err option prog" where
  "containerRemove cl ctx cid = ask (\<lambda>h. cl_remove cl h ctx cid) (ContainerRemoved ctx cid)"

definition containerList :: "client \<Rightarrow> ctx \<Rightarrow> list_filter \<Rightarrow> (err, ContainerSummary list) result prog" where
  "containerList cl ctx f = ask (\<lambda>h. cl_list cl h ctx f) (ContainersListed ctx f)"

definition containerStop :: "client \<Rightarrow> string \<Rightarrow> int \<Rightarrow> err option prog" where
  "containerStop cl cid secs = ask (\<lambda>h. cl_stop cl h cid secs) (ContainerStopped cid secs)"

definition volumeList :: "client \<Rightarrow> list_filter \<Rightarrow> (err, NamedObject list) result prog" where
  "volumeList cl f = ask (\<lambda>h. cl_volume_list cl h f) (VolumesListed f)"

definition volumeCreate :: "client \<Rightarrow> string \<Rightarrow> labels \<Rightarrow> err option prog" where
  "volumeCreate cl name ls = ask (\<lambda>h. cl_volume_create cl h name ls) (VolumeCreated name ls)"

definition volumeRemove :: "client \<Rightarrow> ctx \<Rightarrow> string \<Rightarrow> err option prog" where
  "volumeRemove cl ctx name = ask (\<lambda>h. cl_volume_remove cl h ctx name) (VolumeRemoved ctx name)"

definition networkList :: "client \<Rightarrow> list_filter \<Rightarrow> (err, NamedObject list) result prog" where
  "networkList cl f = ask (\<lambda>h. cl_network_list cl h f) (NetworksListed f)"

definition networkCreate :: "client \<Rightarrow> string \<Rightarrow> string \<Rightarrow> bool \<Rightarrow> labels \<Rightarrow> err option prog" where
  "networkCreate cl name driver internal ls =
     ask (\<lambda>h. cl_network_create cl h name driver internal ls) (NetworkCreated name driver internal ls)"

definition networkRemove :: "client \<Rightarrow> string \<Rightarrow> err option prog" where
  "networkRemove cl name = ask (\<lambda>h. cl_network_remove cl h name) (NetworkRemoved name)"

definition execCreate :: "client \<Rightarrow> string \<Rightarrow> string list \<Rightarrow> (err, string) result prog" where
  "execCreate cl cid cmd = ask (\<lambda>h. cl_exec_create cl h cid cmd) (ExecCreated cid cmd)"

definition execAttach :: "client \<Rightarrow> string \<Rightarrow> err option prog" where
  "execAttach cl eid = ask (\<lambda>h. cl_exec_attach cl h eid) (ExecAttached eid)"

definition execRead :: "client \<Rightarrow> string \<Rightarrow> (string \<times> string \<times> err option) prog" where
  "execRead cl eid = ask (\<lambda>h. cl_exec_read cl h eid) (\<lambda>_. ExecRead eid)"

definition execInspect :: "client \<Rightarrow> string \<Rightarrow> (err, bool \<times> int) result prog" where
  "execInspect cl eid = ask (\<lambda>h. cl_exec_inspect cl h eid) (\<lambda>_. ExecInspected eid)"

definition imageBuild :: "client \<Rightarrow> string \<Rightarrow> labels \<Rightarrow> (tar_header \<times> string) list \<Rightarrow> (err, string \<times> err option) result prog" where
  "imageBuild cl tag ls tar = ask (\<lambda>h. cl_image_build cl h tag ls tar) (ImageBuilt tag ls tar)"

definition imageInspect :: "client \<Rightarrow> ctx \<Rightarrow> string \<Rightarrow> err option prog" where
  "imageInspect cl ctx tag = ask (\<lambda>h. cl_image_inspect cl h ctx tag) (ImageInspected ctx tag)"

definition imageRemove :: "client \<Rightarrow> ctx \<Rightarrow> string \<Rightarrow> err option prog" where
  "imageRemove cl ctx tag = ask (\<lambda>h. cl_image_remove cl h ctx tag) (ImageRemoved ctx tag)"

definition ctxErr :: "client \<Rightarrow> err option prog" where
  "ctxErr cl = ask (cl_ctx_err cl) ContextAsked"

definition now :: "client \<Rightarrow> int prog" where
  "now cl = ask (cl_now cl) ClockRead"

lemmas call_defs = containerCreate_def containerStart_def containerWait_def awaitExit_def
  containerLogs_def containerInspect_def containerRemove_def containerList_def containerStop_def
  volumeList_def volumeCreate_def volumeRemove_def networkList_def networkCreate_def
  networkRemove_def execCreate_def execAttach_def execRead_def execInspect_def ctxErr_def now_def
  imageBuild_def imageInspect_def imageRemove_def

lemma triple_wait_outcome [triple_rules]:
  "(\<And>c m. x = WaitResult c m \<Longrightarrow> triple (f c m) Q) \<Longrightarrow> (\<And>e. x = WaitError e \<Longrightarrow> triple (g e) Q) \<Longrightarrow>
   (\<And>e. x = CtxDone e \<Longrightarrow> triple (k e) Q) \<Longrightarrow>
   triple (case x of WaitResult c m \<Rightarrow> f c m | WaitError e \<Rightarrow> g e | CtxDone e \<Rightarrow> k e) Q"
  by (cases x) simp_all

end
