(* ===== verification/Peers.thy ===== *)
theory Peers
  imports Probeout Invariants
begin

section \<open>Peer identity and egress checks (topology.go, egress.go, invariants.go)\<close>

text \<open>
  The pure half of the socket topology: the specs of the broker and its workers, the identities
  assigned to them, and the checks that read the probe's output. \<^verbatim>\<open>int\<close> is 64 bits wide.
\<close>

subsection \<open>Specs of a socket topology\<close>

definition SocketDir :: string where
  "SocketDir = ''/sock''"

definition PeerSocket :: string where
  "PeerSocket = SocketDir @ ''/peer.sock''"

definition socketDirMode :: string where
  "socketDirMode = ''2750''"

definition owner :: "int \<Rightarrow> int \<Rightarrow> string" where
  "owner uid gid = Itoa uid @ '':'' @ Itoa gid"

definition BrokerSpec :: "string \<Rightarrow> string \<Rightarrow> int \<Rightarrow> int \<Rightarrow> Mount \<Rightarrow> string list \<Rightarrow> Spec" where
  "BrokerSpec lesson img brokerUID socketGID sock cmd =
     (let s = Restricted lesson ''broker'' img cmd
      in s\<lparr>sp_User := owner brokerUID socketGID, sp_Mounts := sp_Mounts s @ [sock]\<rparr>)"

definition WorkerSpec :: "string \<Rightarrow> string \<Rightarrow> string \<Rightarrow> int \<Rightarrow> int \<Rightarrow> int \<Rightarrow> Mount \<Rightarrow> string list \<Rightarrow> Spec" where
  "WorkerSpec lesson role img uid gid socketGID sock cmd =
     (let s = Restricted lesson role img cmd
      in s\<lparr>sp_User := owner uid gid, sp_Groups := [Itoa socketGID], sp_Mounts := sp_Mounts s @ [sock]\<rparr>)"

record PeerIdentities =
  pi_BrokerUID :: int
  pi_SocketGID :: int
  pi_Workers :: "int \<times> int"
  pi_Outsider :: int

definition DefaultPeerIdentities :: PeerIdentities where
  "DefaultPeerIdentities =
     \<lparr>pi_BrokerUID = 20000, pi_SocketGID = 30000, pi_Workers = (20001, 20002), pi_Outsider = 20003\<rparr>"

fun validate_ids :: "int list \<Rightarrow> int list \<Rightarrow> bool" where
  "validate_ids seen [] = True"
| "validate_ids seen (i # is) =
     (if i = 0 \<or> \<not> validID i \<or> i \<in> set seen then False else validate_ids (i # seen) is)"

definition identity_list :: "PeerIdentities \<Rightarrow> int list" where
  "identity_list p =
     [pi_BrokerUID p, pi_SocketGID p, fst (pi_Workers p), snd (pi_Workers p), pi_Outsider p]"

definition identities_valid :: "PeerIdentities \<Rightarrow> bool" where
  "identities_valid p = validate_ids [] (identity_list p)"

record PeerDial =
  pd_Role :: string
  pd_UID :: int
  pd_GID :: int
  pd_InGroup :: bool
  pd_Stdout :: string

subsection \<open>Reading the broker's report\<close>

text \<open>
  \<open>scan_int\<close> is the \<^verbatim>\<open>%d\<close> verb of \<^verbatim>\<open>fmt.Sscanf\<close> without its skipping of blanks: a text with more
  blanks than the format scans in Go, and then fails the comparison with the formatted numbers,
  so \<open>parsePeerCred\<close> refuses it either way.
\<close>

definition scan_int :: "string \<Rightarrow> (int \<times> string) option" where
  "scan_int s =
     (let sign = (if s \<noteq> [] \<and> (hd s = CHR ''-'' \<or> hd s = CHR ''+'') then [hd s] else []);
          rest = drop (length sign) s
      in if takeWhile is_digit rest = [] then None
         else case ParseInt (sign @ takeWhile is_digit rest) of
                None \<Rightarrow> None
              | Some n \<Rightarrow> Some (n, dropWhile is_digit rest))"

definition scan_field :: "string \<Rightarrow> string \<Rightarrow> (int \<times> string) option" where
  "scan_field key s = (case CutPrefix s key of (rest, ok) \<Rightarrow> if ok then scan_int rest else None)"

definition format_cred :: "int \<Rightarrow> int \<Rightarrow> int \<Rightarrow> string" where
  "format_cred uid gid pid =
     ''uid='' @ Itoa uid @ '' gid='' @ Itoa gid @ '' pid='' @ Itoa pid"

definition parsePeerCred :: "string \<Rightarrow> (int \<times> int \<times> int) option" where
  "parsePeerCred s =
     (case scan_field ''uid='' s of None \<Rightarrow> None | Some (uid, s1) \<Rightarrow>
      case scan_field '' gid='' s1 of None \<Rightarrow> None | Some (gid, s2) \<Rightarrow>
      case scan_field '' pid='' s2 of None \<Rightarrow> None | Some (pid, _) \<Rightarrow>
      if format_cred uid gid pid \<noteq> s then None else Some (uid, gid, pid))"

subsection \<open>The checks\<close>

datatype peer_violation =
    NoReply string int string
  | BadCredentials string string
  | UidDiffers string int int
  | NoDialLine string int string
  | ConnectedWithoutGroup string int
  | RefusedForAnotherReason string int string
  | TooFewDials nat nat

definition peerUIDIsAssignedUID :: "PeerDial \<Rightarrow> peer_violation list" where
  "peerUIDIsAssignedUID d =
     (case Find (Parse (pd_Stdout d)) ''reply'' of
        None \<Rightarrow> [NoReply (pd_Role d) (pd_UID d) (pd_Stdout d)]
      | Some l \<Rightarrow>
          (if \<not> line_OK l then [NoReply (pd_Role d) (pd_UID d) (pd_Stdout d)]
           else case parsePeerCred (line_Detail l) of
                  None \<Rightarrow> [BadCredentials (pd_Role d) (line_Detail l)]
                | Some (uid, gid, pid) \<Rightarrow>
                    report (uid \<noteq> pd_UID d) (UidDiffers (pd_Role d) uid (pd_UID d))))"

definition socketGroupGatesConnect :: "PeerDial \<Rightarrow> peer_violation list" where
  "socketGroupGatesConnect d =
     (case Find (Parse (pd_Stdout d)) ''dial'' of
        None \<Rightarrow> [NoDialLine (pd_Role d) (pd_UID d) (pd_Stdout d)]
      | Some l \<Rightarrow>
          (if line_OK l then [ConnectedWithoutGroup (pd_Role d) (pd_UID d)]
           else if \<not> Contains (line_Detail l) ''permission denied''
           then [RefusedForAnotherReason (pd_Role d) (pd_UID d) (line_Detail l)]
           else []))"

fun checkDials :: "int list \<Rightarrow> nat \<Rightarrow> PeerDial list \<Rightarrow> peer_violation list" where
  "checkDials uids outsiders [] =
     report (length uids < 2 \<or> outsiders = 0) (TooFewDials (length uids) outsiders)"
| "checkDials uids outsiders (d # ds) =
     (if pd_InGroup d
      then peerUIDIsAssignedUID d @ checkDials (List.insert (pd_UID d) uids) outsiders ds
      else socketGroupGatesConnect d @ checkDials uids (Suc outsiders) ds)"

definition checkPeerIdentity :: "PeerDial list \<Rightarrow> peer_violation list" where
  "checkPeerIdentity dials = checkDials [] 0 dials"

datatype egress_violation = OtherInterfaces "string list" | BlockedFixtureTouched int

definition workerHasNoRoute :: "string list \<Rightarrow> egress_violation list" where
  "workerHasNoRoute interfaces =
     (if length interfaces = 1 \<and> interfaces ! 0 = ''lo'' then [] else [OtherInterfaces interfaces])"

definition blockedFixtureUntouched :: "int \<Rightarrow> egress_violation list" where
  "blockedFixtureUntouched requests = (if requests = 0 then [] else [BlockedFixtureTouched requests])"

subsection \<open>Formatting and scanning\<close>

lemma Itoa_scan_parts:
  "\<exists>sign ds. Itoa i = sign @ ds \<and> ds \<noteq> [] \<and> (\<forall>c \<in> set ds. is_digit c)
     \<and> sign = (if hd (Itoa i) = CHR ''-'' then ''-'' else []) \<and> hd (Itoa i) \<noteq> CHR ''+''
     \<and> \<not> is_digit (CHR ''-'')"
proof (cases "i < 0")
  case True
  then show ?thesis using decimal_digits
    by (intro exI [of _ "''-''"] exI [of _ "decimal (nat (- i))"]) (auto simp: Itoa_def is_digit_def)
next
  case False
  then show ?thesis using decimal_digits decimal_no_sign [of "nat i"]
    by (intro exI [of _ "[]"] exI [of _ "decimal (nat i)"]) (auto simp: Itoa_def is_digit_def)
qed

lemma scan_int_Itoa:
  assumes "is_int64 i" "t = [] \<or> \<not> is_digit (hd t)"
  shows "scan_int (Itoa i @ t) = Some (i, t)"
proof -
  obtain sign ds where I: "Itoa i = sign @ ds" "ds \<noteq> []" "\<forall>c \<in> set ds. is_digit c"
    "sign = (if hd (Itoa i) = CHR ''-'' then ''-'' else [])" "hd (Itoa i) \<noteq> CHR ''+''"
    using Itoa_scan_parts by blast
  have tw: "takeWhile is_digit (ds @ t) = ds" "dropWhile is_digit (ds @ t) = t"
    using I(3) assms(2) by (cases t; simp add: takeWhile_append2 dropWhile_append2)+
  have sg: "(if Itoa i @ t \<noteq> [] \<and> (hd (Itoa i @ t) = CHR ''-'' \<or> hd (Itoa i @ t) = CHR ''+'')
      then [hd (Itoa i @ t)] else []) = sign"
    using I(4,5) by (simp add: hd_append)
  have "drop (length sign) (Itoa i @ t) = ds @ t" by (simp add: I(1))
  then show ?thesis
    unfolding scan_int_def Let_def sg using tw I(2) ParseInt_Itoa [OF assms(1)] by (simp flip: I(1))
qed

lemma scan_field_format:
  "is_int64 i \<Longrightarrow> t = [] \<or> \<not> is_digit (hd t) \<Longrightarrow> scan_field key (key @ Itoa i @ t) = Some (i, t)"
  by (simp add: scan_field_def scan_int_Itoa)

lemma scan_int_range: "scan_int s = Some (i, t) \<Longrightarrow> is_int64 i"
  by (auto simp: scan_int_def Let_def dest: ParseInt_range split: if_splits option.splits)

lemma scan_field_range: "scan_field key s = Some (i, t) \<Longrightarrow> is_int64 i"
  by (auto simp: scan_field_def dest: scan_int_range split: if_splits prod.splits)

lemma parsePeerCred_Some:
  "parsePeerCred s = Some (uid, gid, pid) \<longleftrightarrow>
     is_int64 uid \<and> is_int64 gid \<and> is_int64 pid
     \<and> s = ''uid='' @ Itoa uid @ '' gid='' @ Itoa gid @ '' pid='' @ Itoa pid"
proof
  assume "parsePeerCred s = Some (uid, gid, pid)"
  then show "is_int64 uid \<and> is_int64 gid \<and> is_int64 pid
     \<and> s = ''uid='' @ Itoa uid @ '' gid='' @ Itoa gid @ '' pid='' @ Itoa pid"
    using scan_field_range
    by (auto simp: parsePeerCred_def format_cred_def split: option.splits prod.splits if_splits)
next
  assume r: "is_int64 uid \<and> is_int64 gid \<and> is_int64 pid
     \<and> s = ''uid='' @ Itoa uid @ '' gid='' @ Itoa gid @ '' pid='' @ Itoa pid"
  let ?s1 = "'' gid='' @ Itoa gid @ '' pid='' @ Itoa pid" and ?s2 = "'' pid='' @ Itoa pid"
  have nd: "\<not> is_digit (CHR '' '')" by (simp add: is_digit_def less_eq_char_def)
  have "scan_field ''uid='' s = Some (uid, ?s1)"
    using r scan_field_format [of uid ?s1 "''uid=''"] nd by simp
  moreover have "scan_field '' gid='' ?s1 = Some (gid, ?s2)"
    using r scan_field_format [of gid ?s2 "'' gid=''"] nd by simp
  moreover have "scan_field '' pid='' ?s2 = Some (pid, [])"
    using r scan_field_format [of pid "[]" "'' pid=''"] by simp
  moreover have "format_cred uid gid pid = s" using r by (simp add: format_cred_def)
  ultimately show "parsePeerCred s = Some (uid, gid, pid)" by (simp add: parsePeerCred_def)
qed

text \<open>
  \<open>parsePeerCred\<close> accepts exactly the canonical reports: it returns three numbers if and only
  if they fit 64 bits and the text is what formatting them gives, so a sign, a leading zero,
  extra blanks or trailing text is refused and nothing is read loosely.
\<close>

theorem parsePeerCred_exact:
  "parsePeerCred s = Some (uid, gid, pid) \<longleftrightarrow>
     is_int64 uid \<and> is_int64 gid \<and> is_int64 pid
     \<and> s = ''uid='' @ Itoa uid @ '' gid='' @ Itoa gid @ '' pid='' @ Itoa pid"
  by (rule parsePeerCred_Some)

subsection \<open>What the checks establish\<close>

definition reply_of :: "PeerDial \<Rightarrow> string option" where
  "reply_of d = (case Find (Parse (pd_Stdout d)) ''reply'' of
     None \<Rightarrow> None | Some l \<Rightarrow> if line_OK l then Some (line_Detail l) else None)"

definition refusal_of :: "PeerDial \<Rightarrow> string option" where
  "refusal_of d = (case Find (Parse (pd_Stdout d)) ''dial'' of
     None \<Rightarrow> None | Some l \<Rightarrow> if line_OK l then None else Some (line_Detail l))"

definition identified :: "PeerDial \<Rightarrow> bool" where
  "identified d \<longleftrightarrow> (\<exists>gid pid. is_int64 gid \<and> is_int64 pid \<and> is_int64 (pd_UID d)
     \<and> reply_of d = Some (format_cred (pd_UID d) gid pid))"

definition shut_out :: "PeerDial \<Rightarrow> bool" where
  "shut_out d \<longleftrightarrow> (\<exists>e. refusal_of d = Some e \<and> Contains e ''permission denied'')"

interpretation assigned_uid: invariant_check peerUIDIsAssignedUID identified
proof
  fix d
  show "peerUIDIsAssignedUID d = [] \<longleftrightarrow> identified d"
  proof (cases "reply_of d")
    case None
    then show ?thesis
      by (auto simp: identified_def reply_of_def peerUIDIsAssignedUID_def split: option.splits if_splits)
  next
    case (Some detail)
    then have "peerUIDIsAssignedUID d = [] \<longleftrightarrow> (\<exists>gid pid. parsePeerCred detail = Some (pd_UID d, gid, pid))"
      by (auto simp: reply_of_def peerUIDIsAssignedUID_def split: option.splits if_splits)
    with Some show ?thesis by (auto simp: parsePeerCred_Some identified_def format_cred_def)
  qed
qed

interpretation group_gates: invariant_check socketGroupGatesConnect shut_out
  by unfold_locales (auto simp: shut_out_def refusal_of_def socketGroupGatesConnect_def split: option.splits)

lemma checkDials_Nil:
  "checkDials uids n ds = [] \<longleftrightarrow>
     (\<forall>d \<in> set ds. if pd_InGroup d then identified d else shut_out d)
     \<and> 2 \<le> length (fold List.insert (map pd_UID (filter pd_InGroup ds)) uids)
     \<and> 0 < n + length (filter (\<lambda>d. \<not> pd_InGroup d) ds)"
  by (induction ds arbitrary: uids n) (auto simp: assigned_uid.check_Nil_iff group_gates.check_Nil_iff not_less)

lemma length_fold_insert:
  "distinct ys \<Longrightarrow> length (fold List.insert xs ys) = card (set xs \<union> set ys)"
proof (induction xs arbitrary: ys)
  case (Cons x xs)
  from Cons.IH [of "List.insert x ys"] Cons.prems show ?case by simp
qed (simp add: distinct_card)

text \<open>
  C35. \<open>checkPeerIdentity\<close> passes exactly when every dial from inside the socket group was answered
  by the broker with the UID the launcher assigned, every dial from outside was refused for
  permission, there are two insiders with different UIDs and there is an outsider: a set of
  dials too small to show anything never passes.
\<close>

theorem checkPeerIdentity_iff:
  "checkPeerIdentity dials = [] \<longleftrightarrow>
     list_all (\<lambda>d. if pd_InGroup d then identified d else shut_out d) dials
     \<and> 2 \<le> card (pd_UID ` {d \<in> set dials. pd_InGroup d})
     \<and> filter (\<lambda>d. \<not> pd_InGroup d) dials \<noteq> []"
  by (simp add: checkPeerIdentity_def checkDials_Nil length_fold_insert list_all_iff)

lemma validate_ids_iff:
  "validate_ids seen is \<longleftrightarrow> distinct is \<and> set seen \<inter> set is = {} \<and> (\<forall>i \<in> set is. 0 < i \<and> i < 2 ^ 31)"
  by (induction "is" arbitrary: seen) (auto simp: validID_def maxID_def)

text \<open>
  The identities are accepted exactly when all five are different and between 1 and
  2^31 - 1, so no worker is root and none has the socket group as its primary group.
\<close>

theorem identities_valid_iff:
  "identities_valid p \<longleftrightarrow> distinct (identity_list p) \<and> set (identity_list p) \<subseteq> {0 <..< 2 ^ 31}"
  by (auto simp: identities_valid_def validate_ids_iff)

subsection \<open>The specs are restricted\<close>

lemma validNumericID_Itoa: "validID n \<Longrightarrow> validNumericID (Itoa n)"
proof -
  assume n: "validID n"
  then have "\<forall>c \<in> set (Itoa n). in_cls digit_cls c"
    using decimal_digits by (auto simp: validID_def in_cls_def digit_cls_def is_digit_def)
  moreover have "is_int64 n" using n by (simp add: validID_def maxID_def is_int64_def)
  ultimately show ?thesis
    using n ParseInt_Itoa by (simp add: validNumericID_def MatchString_iff numericIDRE_def lang_Plus_Cls)
qed

lemma Itoa_no_colon: "validID n \<Longrightarrow> CHR '':'' \<notin> set (Itoa n)"
  using decimal_digits by (fastforce simp: validID_def is_digit_def less_eq_char_def)

lemma Cut_owner: "validID uid \<Longrightarrow> Cut (owner uid gid) '':'' = (Itoa uid, Itoa gid, True)"
  using Cut_first_char [of "CHR '':''" "Itoa uid" "Itoa gid"] Itoa_no_colon by (simp add: owner_def)

lemma validUser_owner: "validID uid \<Longrightarrow> validID gid \<Longrightarrow> validUser (owner uid gid)"
  by (simp add: validUser_def Cut_owner validNumericID_Itoa)

lemma Itoa_nonzero: "validID n \<Longrightarrow> n \<noteq> 0 \<Longrightarrow> TrimLeft (Itoa n) ''0'' \<noteq> []"
proof
  assume n: "validID n" "n \<noteq> 0" and "TrimLeft (Itoa n) ''0'' = []"
  then have "set (decimal (nat n)) \<subseteq> {CHR ''0''}" by (simp add: TrimLeft_Nil_iff validID_def)
  then have "digits_acc 10 0 (decimal (nat n)) = Some 0"
    by (rule digits_acc_zeros)
  with n show False by (simp add: digits_acc_decimal validID_def)
qed

definition sock_mount :: "Mount \<Rightarrow> bool" where
  "sock_mount m \<longleftrightarrow> mt_Type m = MountVolume \<and> MatchString volumeNameRE (mt_Source m)
     \<and> mt_TmpfsSize m = 0 \<and> mt_Target m = SocketDir"

lemma restricted_variant:
  assumes names: "MatchString lessonRE lesson" "MatchString lessonRE role" "MatchString suffixRE suf" "img \<noteq> []"
    and ids: "validID uid" "validID gid" "uid \<noteq> 0" "\<forall>g \<in> set groups. validNumericID g"
    and sock: "sock_mount sock" "\<not> isDockerSocket (mt_Source sock) socket"
    and s: "s = (Restricted lesson role img cmd)\<lparr>sp_User := owner uid gid, sp_Groups := groups,
             sp_Mounts := sp_Mounts (Restricted lesson role img cmd) @ [sock]\<rparr>"
  shows "Translate s socket suf = Inr \<lparr>rq_Name = ContainerName lesson role suf, rq_Config = specConfig s,
           rq_HostConfig = specHostConfig s\<rparr>
         \<and> IsRestricted (specConfig s) (specHostConfig s)"
proof
  have tmp: "good_target ''/tmp''" "good_target SocketDir" by code_simp+
  have base: "specErrors (Restricted lesson role img cmd) socket suf = []"
    using names by (simp add: Restricted_errors)
  have mounts: "mountErrors socket 0 [] (sp_Mounts s) = []"
    using sock tmp unfolding s mountErrors_Nil
    by (auto simp: Restricted_def good_mount_def sock_mount_def isDockerSocket_def MountTmpfs_def
        MountVolume_def RestrictedTmpSize_def SocketDir_def)
  have "specErrors s socket suf = []"
    using base mounts ids validUser_owner [OF ids(1,2)] unfolding specErrors_Nil s
    by (simp add: Restricted_def)
  then show "Translate s socket suf = Inr \<lparr>rq_Name = ContainerName lesson role suf,
      rq_Config = specConfig s, rq_HostConfig = specHostConfig s\<rparr>"
    by (simp add: Translate_Inr) (simp add: s Restricted_def)
  show "IsRestricted (specConfig s) (specHostConfig s)"
    using restricted_host [of lesson role img cmd] validUser_owner [OF ids(1,2)] Cut_owner [OF ids(1), of gid]
      Itoa_nonzero [OF ids(1,3)]
    unfolding IsRestricted_iff restrictedComplete_Nil s
    by (simp add: specConfig_def specHostConfig_def Restricted_def securityOpts_def RestrictedPidsLimit_def)
qed

text \<open>
  A worker of the socket topology always translates for valid names and ids, is restricted,
  runs as the uid and gid it was assigned, and has the socket group as its only
  supplementary group.
\<close>

theorem WorkerSpec_restricted:
  assumes "MatchString lessonRE lesson" "MatchString lessonRE role" "MatchString suffixRE suf" "img \<noteq> []"
    and "validID uid" "validID gid" "validID socketGID" "uid \<noteq> 0"
    and "sock_mount sock" "\<not> isDockerSocket (mt_Source sock) socket"
  shows "\<exists>req. Translate (WorkerSpec lesson role img uid gid socketGID sock cmd) socket suf = Inr req
           \<and> IsRestricted (rq_Config req) (rq_HostConfig req)
           \<and> cfg_User (rq_Config req) = Itoa uid @ '':'' @ Itoa gid
           \<and> hc_GroupAdd (rq_HostConfig req) = [Itoa socketGID]"
proof -
  have "\<forall>g \<in> set [Itoa socketGID]. validNumericID g" using assms(7) by (simp add: validNumericID_Itoa)
  from restricted_variant [OF assms(1-6,8) this assms(9,10), of
      "WorkerSpec lesson role img uid gid socketGID sock cmd" cmd]
  show ?thesis
    by (simp add: WorkerSpec_def Let_def specConfig_def specHostConfig_def owner_def)
qed

text \<open>
  The broker of the socket topology always translates for valid names and ids, is
  restricted, runs as its uid with the socket group as primary group, and has no
  supplementary group.
\<close>

theorem BrokerSpec_restricted:
  assumes "MatchString lessonRE lesson" "MatchString suffixRE suf" "img \<noteq> []"
    and "validID brokerUID" "validID socketGID" "brokerUID \<noteq> 0"
    and "sock_mount sock" "\<not> isDockerSocket (mt_Source sock) socket"
  shows "\<exists>req. Translate (BrokerSpec lesson img brokerUID socketGID sock cmd) socket suf = Inr req
           \<and> IsRestricted (rq_Config req) (rq_HostConfig req)
           \<and> cfg_User (rq_Config req) = Itoa brokerUID @ '':'' @ Itoa socketGID
           \<and> hc_GroupAdd (rq_HostConfig req) = []"
proof -
  have "MatchString lessonRE ''broker''" by code_simp
  from restricted_variant [OF assms(1) this assms(2-6) _ assms(7,8), of "[]"
      "BrokerSpec lesson img brokerUID socketGID sock cmd" cmd]
  show ?thesis
    by (simp add: BrokerSpec_def Let_def specConfig_def specHostConfig_def owner_def Restricted_def)
qed

definition demo_sock :: Mount where
  "demo_sock = \<lparr>mt_Type = MountVolume, mt_Source = ''trinkets-demo-sock-0a1b'', mt_Target = SocketDir,
     mt_ReadOnly = True, mt_TmpfsSize = 0\<rparr>"

lemma demo_names: "MatchString lessonRE ''demo''" "MatchString lessonRE ''worker1''" "MatchString suffixRE ''0a1b''"
  by code_simp+

lemma demo_ids: "validID 20001" "validID 30000"
  by (simp_all add: validID_def maxID_def)

lemma demo_sock_ok: "sock_mount demo_sock" "\<not> isDockerSocket (mt_Source demo_sock) ''/run/docker.sock''"
  by code_simp+

theorem WorkerSpec_restricted_witness:
  "\<exists>req. Translate (WorkerSpec ''demo'' ''worker1'' ''probe:dev'' 20001 20001 30000 demo_sock [''dial''])
       ''/run/docker.sock'' ''0a1b'' = Inr req
     \<and> IsRestricted (rq_Config req) (rq_HostConfig req)
     \<and> cfg_User (rq_Config req) = Itoa 20001 @ '':'' @ Itoa 20001
     \<and> hc_GroupAdd (rq_HostConfig req) = [Itoa 30000]"
  by (rule WorkerSpec_restricted [OF demo_names _ demo_ids(1,1,2) _ demo_sock_ok]) simp_all

theorem BrokerSpec_restricted_witness:
  "\<exists>req. Translate (BrokerSpec ''demo'' ''probe:dev'' 20001 30000 demo_sock [''peer-echo''])
       ''/run/docker.sock'' ''0a1b'' = Inr req
     \<and> IsRestricted (rq_Config req) (rq_HostConfig req)
     \<and> cfg_User (rq_Config req) = Itoa 20001 @ '':'' @ Itoa 30000
     \<and> hc_GroupAdd (rq_HostConfig req) = []"
  by (rule BrokerSpec_restricted [OF demo_names(1,3) _ demo_ids _ demo_sock_ok]) simp_all

end
