(* ===== verification/Lifecycle.thy ===== *)
theory Lifecycle
  imports Engine Peers
begin

section \<open>The life of a container (internal/lab/docker/run.go)\<close>

text \<open>
  Creating, starting, running and removing containers. A Go function that returns a value and an
  error both of which callers read returns the pair here, with \<^term>\<open>None\<close> for a nil error.
  \<^verbatim>\<open>defer\<close> is written out: the deferred call follows the body on every path. Durations are
  differences of clock readings. \<^verbatim>\<open>stdcopy.StdCopy\<close> and the streams it reads belong to the client:
  \<open>containerLogs\<close> and \<open>execRead\<close> answer with what it copied and its error. A create call that
  reports an error counts as having made no container; run.go does not look for one whose answer was lost.
\<close>

datatype build_err = ReportedFailure string | NotJSONObject nat | StreamUnreadable err

datatype docker_err =
    SpecRejected "spec_err list"
  | RefusingToCreate string "violation list"
  | InspectMismatch string "mismatch list"
  | CreateFailed string err
  | StartFailed string err
  | InspectFailed string err
  | LogsFailed string err
  | RemoveFailed string err
  | StopFailed string err
  | WaitMessage string string
  | WaitFailed string err
  | RunInterrupted string err
  | ExecFailed string err
  | ExecInterrupted string err
  | ExecReadFailed string err
  | ExecInspectFailed string err
  | Joined "docker_err list"
  | LessonInvalid string
  | RoleInvalid string
  | ListFailed string string err
  | VolumeFailed string err
  | NetworkFailed string err
  | SweepListFailed string docker_err
  | SweepFailed string docker_err
  | StillPresent string string err
  | OwnerOutOfRange int int
  | InitFailed string docker_err
  | ExitNonZero int string string
  | NoProbeLine string string string err
  | BrokerCannotListen string string
  | IdentitiesInvalid
  | PeerUntrusted "peer_violation list"
  | UnreadableOutput string int string
  | ImageInvalid image_err
  | TempDirFailed err
  | GoBuildFailed string string err string
  | BinaryUnreadable err
  | ContextFailed context_err
  | BuildRefused string err
  | BuildFailed string build_err
  | ImageMissing string err
  | ImageRemoveFailed string err
  | UnreadableCounts string int string

text \<open>\<^verbatim>\<open>errors.Join\<close> drops nil errors and is nil when nothing is left.\<close>

definition errors_Join :: "docker_err option list \<Rightarrow> docker_err option" where
  "errors_Join es =
     (case List.map_filter (\<lambda>e. e) es of [] \<Rightarrow> None | xs \<Rightarrow> Some (Joined xs))"

record Result =
  res_ExitCode :: int
  res_Stdout :: string
  res_Stderr :: string
  res_OOMKilled :: bool
  res_Duration :: int

definition zeroResult :: Result where
  "zeroResult = \<lparr>res_ExitCode = 0, res_Stdout = [], res_Stderr = [], res_OOMKilled = False, res_Duration = 0\<rparr>"

record Container =
  c_ID :: string
  c_Name :: string
  c_Request :: Request

definition Inspect :: "client \<Rightarrow> Container \<Rightarrow> (docker_err, Observed) result prog" where
  "Inspect cl c = do {
     r \<leftarrow> containerInspect cl (c_ID c);
     case r of Inl e \<Rightarrow> ret (Inl (InspectFailed (c_Name c) e)) | Inr i \<Rightarrow> ret (Inr i) }"

definition Logs :: "client \<Rightarrow> Container \<Rightarrow> (docker_err, string \<times> string) result prog" where
  "Logs cl c = do {
     r \<leftarrow> containerLogs cl (c_ID c);
     case r of Inl e \<Rightarrow> ret (Inl (LogsFailed (c_Name c) e)) | Inr l \<Rightarrow> ret (Inr l) }"

definition containerGone :: "client \<Rightarrow> ctx \<Rightarrow> string \<Rightarrow> bool prog" where
  "containerGone cl ctx cid = do {
     r \<leftarrow> containerList cl ctx (ByID cid);
     ret (case r of Inl e \<Rightarrow> False | Inr items \<Rightarrow> length items = 0) }"

definition Remove :: "client \<Rightarrow> Container \<Rightarrow> docker_err option prog" where
  "Remove cl c = do {
     r \<leftarrow> containerRemove cl Detached (c_ID c);
     case r of
       None \<Rightarrow> ret None
     | Some e \<Rightarrow> do {
         gone \<leftarrow> containerGone cl Detached (c_ID c);
         if \<not> gone then ret (Some (RemoveFailed (c_Name c) e)) else ret None } }"

definition socket_of :: "client \<Rightarrow> string" where
  "socket_of cl = SocketPath (cl_ParseHostURL cl) (cl_DaemonHost cl)"

definition checkCreated :: "client \<Rightarrow> Container \<Rightarrow> docker_err option prog" where
  "checkCreated cl c = do {
     r \<leftarrow> Inspect cl c;
     ret (case r of
            Inl e \<Rightarrow> Some e
          | Inr insp \<Rightarrow>
              (let bad = CheckObserved (InspectResponse.truncate insp) (c_Request c)
               in if length bad > 0 then Some (InspectMismatch (c_Name c) bad) else None)) }"

definition Create :: "client \<Rightarrow> Spec \<Rightarrow> (docker_err, Container) result prog" where
  "Create cl spec = do {
     suf \<leftarrow> randomSuffix cl;
     case Translate spec (socket_of cl) suf of
       Inl errs \<Rightarrow> ret (Inl (SpecRejected errs))
     | Inr req \<Rightarrow>
         (let bad = CheckConfig req (socket_of cl)
          in if length bad > 0 then ret (Inl (RefusingToCreate (rq_Name req) bad))
             else do {
               res \<leftarrow> containerCreate cl (rq_Name req) (rq_Config req) (rq_HostConfig req);
               case res of
                 Inl e \<Rightarrow> ret (Inl (CreateFailed (rq_Name req) e))
               | Inr cid \<Rightarrow>
                   (let c = \<lparr>c_ID = cid, c_Name = rq_Name req, c_Request = req\<rparr>
                    in do {
                      err \<leftarrow> checkCreated cl c;
                      case err of
                        None \<Rightarrow> ret (Inr c)
                      | Some e \<Rightarrow> do {
                          rm \<leftarrow> Remove cl c;
                          ret (Inl (the (errors_Join [Some e, rm]))) } }) }) }"

definition Start :: "client \<Rightarrow> Spec \<Rightarrow> (docker_err, Container) result prog" where
  "Start cl spec = do {
     r \<leftarrow> Create cl spec;
     case r of
       Inl e \<Rightarrow> ret (Inl e)
     | Inr c \<Rightarrow> do {
         s \<leftarrow> containerStart cl (c_ID c);
         case s of
           None \<Rightarrow> ret (Inr c)
         | Some e \<Rightarrow> do {
             rm \<leftarrow> Remove cl c;
             ret (Inl (the (errors_Join [Some (StartFailed (c_Name c) e), rm]))) } } }"

definition collect :: "client \<Rightarrow> Container \<Rightarrow> Result \<Rightarrow> (Result \<times> docker_err option) prog" where
  "collect cl c res = do {
     l \<leftarrow> Logs cl c;
     case l of
       Inl e \<Rightarrow> ret (res, Some e)
     | Inr (so, se) \<Rightarrow>
         (let res = res\<lparr>res_Stdout := so, res_Stderr := se\<rparr>
          in do {
            i \<leftarrow> Inspect cl c;
            case i of
              Inl e \<Rightarrow> ret (res, Some e)
            | Inr insp \<Rightarrow>
                ret (res\<lparr>res_OOMKilled :=
                       (case in_OOMKilled insp of None \<Rightarrow> False | Some b \<Rightarrow> b)\<rparr>, None) }) }"

definition runBody :: "client \<Rightarrow> Container \<Rightarrow> (Result \<times> docker_err option) prog" where
  "runBody cl c = do {
     _ \<leftarrow> containerWait cl (c_ID c) NextExit;
     start \<leftarrow> now cl;
     s \<leftarrow> containerStart cl (c_ID c);
     case s of
       Some e \<Rightarrow> ret (zeroResult, Some (StartFailed (c_Name c) e))
     | None \<Rightarrow> do {
         w \<leftarrow> awaitExit cl (c_ID c);
         case w of
           WaitResult code msg \<Rightarrow>
             (let res = zeroResult\<lparr>res_ExitCode := code\<rparr>
              in if msg \<noteq> None \<and> the msg \<noteq> []
                 then ret (res, Some (WaitMessage (c_Name c) (the msg)))
                 else do {
                   t \<leftarrow> now cl;
                   collect cl c (res\<lparr>res_Duration := t - start\<rparr>) })
         | WaitError e \<Rightarrow> ret (zeroResult, Some (WaitFailed (c_Name c) e))
         | CtxDone e \<Rightarrow> ret (zeroResult, Some (RunInterrupted (c_Name c) e)) } }"

definition Run :: "client \<Rightarrow> Spec \<Rightarrow> (Result \<times> docker_err option) prog" where
  "Run cl spec = do {
     r \<leftarrow> Create cl spec;
     case r of
       Inl e \<Rightarrow> ret (zeroResult, Some e)
     | Inr c \<Rightarrow> do {
         b \<leftarrow> runBody cl c;
         rm \<leftarrow> Remove cl c;
         ret (fst b, errors_Join [snd b, rm]) } }"

text \<open>
  The polling loop of \<open>Exec\<close> runs for as long as the engine says the process is running: \<open>execPoll\<close>
  carries fuel and gives \<^term>\<open>None\<close> when it is used up.
\<close>

fun execPoll :: "nat \<Rightarrow> client \<Rightarrow> Container \<Rightarrow> string \<Rightarrow> int \<Rightarrow> Result
    \<Rightarrow> (Result \<times> docker_err option) option prog" where
  "execPoll 0 cl c eid start res = ret None"
| "execPoll (Suc n) cl c eid start res = do {
     i \<leftarrow> execInspect cl eid;
     case i of
       Inl e \<Rightarrow> ret (Some (res, Some (ExecInspectFailed (c_Name c) e)))
     | Inr (running, code) \<Rightarrow>
         (if \<not> running
          then do { t \<leftarrow> now cl; ret (Some (res\<lparr>res_ExitCode := code, res_Duration := t - start\<rparr>, None)) }
          else do {
            d \<leftarrow> ctxErr cl;
            case d of
              Some e \<Rightarrow> ret (Some (res, Some (ExecInterrupted (c_Name c) e)))
            | None \<Rightarrow> execPoll n cl c eid start res }) }"

definition execResult :: Result where
  "execResult = zeroResult\<lparr>res_ExitCode := - 1\<rparr>"

definition Exec :: "nat \<Rightarrow> client \<Rightarrow> Container \<Rightarrow> string list \<Rightarrow> (Result \<times> docker_err option) option prog" where
  "Exec fuel cl c cmd = do {
     start \<leftarrow> now cl;
     ex \<leftarrow> execCreate cl (c_ID c) cmd;
     case ex of
       Inl e \<Rightarrow> ret (Some (execResult, Some (ExecFailed (c_Name c) e)))
     | Inr eid \<Rightarrow> do {
         att \<leftarrow> execAttach cl eid;
         case att of
           Some e \<Rightarrow> ret (Some (execResult, Some (ExecFailed (c_Name c) e)))
         | None \<Rightarrow> do {
             out \<leftarrow> execRead cl eid;
             case out of (so, se, copyErr) \<Rightarrow>
               (let res = execResult\<lparr>res_Stdout := so, res_Stderr := se\<rparr>
                in do {
                  d \<leftarrow> ctxErr cl;
                  case d of
                    Some e \<Rightarrow> do {
                      t \<leftarrow> now cl;
                      ret (Some (res\<lparr>res_Duration := t - start\<rparr>, Some (ExecInterrupted (c_Name c) e))) }
                  | None \<Rightarrow>
                      (case copyErr of
                         Some e \<Rightarrow> ret (Some (res, Some (ExecReadFailed (c_Name c) e)))
                       | None \<Rightarrow> execPoll fuel cl c eid start res) }) } } }"

text \<open>
  \<open>graceSeconds\<close> is \<^verbatim>\<open>max(0, int(math.Ceil(grace.Seconds())))\<close> for a duration in nanoseconds.
\<close>

definition graceSeconds :: "int \<Rightarrow> int" where
  "graceSeconds grace = max 0 (- ((- grace) div 1000000000))"

definition Stop :: "client \<Rightarrow> Container \<Rightarrow> int \<Rightarrow> docker_err option prog" where
  "Stop cl c grace = do {
     r \<leftarrow> containerStop cl (c_ID c) (graceSeconds grace);
     ret (map_option (StopFailed (c_Name c)) r) }"

definition Wait :: "client \<Rightarrow> Container \<Rightarrow> (int \<times> docker_err option) prog" where
  "Wait cl c = do {
     _ \<leftarrow> containerWait cl (c_ID c) NotRunning;
     w \<leftarrow> awaitExit cl (c_ID c);
     case w of
       WaitResult code msg \<Rightarrow>
         (if msg \<noteq> None \<and> the msg \<noteq> [] then ret (code, Some (WaitMessage (c_Name c) (the msg)))
          else ret (code, None))
     | WaitError e \<Rightarrow> ret (0, Some (WaitFailed (c_Name c) e))
     | CtxDone e \<Rightarrow> ret (0, Some (WaitFailed (c_Name c) e)) }"

subsection \<open>Resources\<close>

datatype resource = AContainer string | AVolume string | AImage string

fun made :: "event \<Rightarrow> resource set" where
  "made (ContainerCreated name cfg hc (Inr cid)) = {AContainer cid}"
| "made (VolumeCreated name ls None) = {AVolume name}"
| "made (ImageBuilt tag ls tar r) = {AImage tag}"
| "made _ = {}"

fun attempted :: "event \<Rightarrow> resource set" where
  "attempted (ContainerRemoved ctx cid r) = {AContainer cid}"
| "attempted (VolumeRemoved ctx name r) = {AVolume name}"
| "attempted (ImageRemoved ctx tag r) = {AImage tag}"
| "attempted _ = {}"

fun confirmed :: "event \<Rightarrow> resource set" where
  "confirmed (ContainerRemoved ctx cid None) = {AContainer cid}"
| "confirmed (ContainersListed ctx (ByID cid) (Inr [])) = {AContainer cid}"
| "confirmed (VolumeRemoved ctx name None) = {AVolume name}"
| "confirmed (ImageRemoved ctx tag None) = {AImage tag}"
| "confirmed (ImageInspected ctx tag (Some e)) = {AImage tag}"
| "confirmed _ = {}"

definition owed :: "(event \<Rightarrow> resource set) \<Rightarrow> history \<Rightarrow> resource set \<Rightarrow> resource set" where
  "owed gone n S = fold (\<lambda>e S. (S - gone e) \<union> made e) n S"

definition bounds :: "(event \<Rightarrow> resource set) \<Rightarrow> history \<Rightarrow> resource set \<Rightarrow> resource set \<Rightarrow> bool" where
  "bounds gone n A B \<longleftrightarrow> (\<forall>S. owed gone n S \<subseteq> (S - A) \<union> B)"

lemma owed_simps [simp]:
  "owed gone [] S = S" "owed gone (e # n) S = owed gone n ((S - gone e) \<union> made e)"
  "owed gone (n @ n') S = owed gone n' (owed gone n S)"
  by (simp_all add: owed_def)

lemma bounds_append:
  "bounds gone n A B \<Longrightarrow> bounds gone n' A' B' \<Longrightarrow> bounds gone (n @ n') (A \<union> A') ((B - A') \<union> B')"
  unfolding bounds_def owed_simps by blast

lemma bounds_weaken: "bounds gone n A B \<Longrightarrow> A' \<subseteq> A \<Longrightarrow> B \<subseteq> B' \<Longrightarrow> bounds gone n A' B'"
  unfolding bounds_def by blast

lemma bounds_Cons:
  "bounds gone n A B \<Longrightarrow> bounds gone (e # n) (gone e \<union> A) ((made e - A) \<union> B)"
  using bounds_append [of gone "[e]" "gone e" "made e" n A B] by (simp add: bounds_def)

lemma bounds_seq:
  assumes "bounds gone n A B" "bounds gone n' A' B'" "A'' \<subseteq> A \<union> A'" "(B - A') \<union> B' \<subseteq> B''"
  shows "bounds gone (n @ n') A'' B''"
  using bounds_weaken [OF bounds_append [OF assms(1,2)] assms(3,4)] .

lemma bounds_owed: "bounds gone n A {} \<Longrightarrow> owed gone n {} = {}"
  unfolding bounds_def by blast

fun quiet :: "event \<Rightarrow> bool" where
  "quiet (ContainerCreated _ _ _ _) = False"
| "quiet (VolumeCreated _ _ _) = False"
| "quiet (ContainerRemoved _ _ _) = False"
| "quiet (VolumeRemoved _ _ _) = False"
| "quiet (NetworkCreated _ _ _ _ _) = False"
| "quiet (NetworkRemoved _ _) = False"
| "quiet (ImageBuilt _ _ _ _) = False"
| "quiet (ImageRemoved _ _ _) = False"
| "quiet _ = True"

text \<open>
  A volume, network or image is named and labelled for its lesson, so that cleanup finds it.
\<close>

definition owned_object :: "string \<Rightarrow> labels \<Rightarrow> bool" where
  "owned_object name ls \<longleftrightarrow> MatchString lessonRE (label ls LabelLesson)
     \<and> label ls LabelHarness = ''1''
     \<and> HasPrefix name (''trinkets-'' @ label ls LabelLesson @ ''-'')"

fun safe_event :: "client \<Rightarrow> event \<Rightarrow> bool" where
  "safe_event cl (ContainerCreated name cfg hc r) =
     (CheckConfig \<lparr>rq_Name = name, rq_Config = cfg, rq_HostConfig = hc\<rparr> (socket_of cl) = [])"
| "safe_event cl (ContainerRemoved ctx cid r) = (ctx = Detached)"
| "safe_event cl (VolumeRemoved ctx name r) = (ctx = Detached)"
| "safe_event cl (NetworkRemoved name r) = False"
| "safe_event cl (VolumeCreated name ls r) = owned_object name ls"
| "safe_event cl (ImageBuilt tag ls tar r) = owned_object tag ls"
| "safe_event cl (ImageRemoved ctx tag r) = (ctx = Detached)"
| "safe_event cl (NetworkCreated name driver internal ls r) = (internal \<and> owned_object name ls)"
| "safe_event cl _ = True"

text \<open>
  \<open>settles\<close> is the contract of every operation below: all its calls are safe; whatever it creates
  beyond \<open>B\<close> it tries to remove and it tries to remove all of \<open>A\<close>; and when it reports no error (\<open>ok\<close>)
  those removals are confirmed.
\<close>

definition settles :: "client \<Rightarrow> bool \<Rightarrow> resource set \<Rightarrow> resource set \<Rightarrow> history \<Rightarrow> bool" where
  "settles cl ok A B n \<longleftrightarrow> list_all (safe_event cl) n \<and> bounds attempted n A B
     \<and> (ok \<longrightarrow> bounds confirmed n A B)"

lemma settles_seq:
  assumes "settles cl ok A B n" "settles cl ok' A' B' n'" "ok'' \<Longrightarrow> ok \<and> ok'"
    "A'' \<subseteq> A \<union> A'" "(B - A') \<union> B' \<subseteq> B''"
  shows "settles cl ok'' A'' B'' (n @ n')"
  using assms bounds_seq [of attempted n A B n' A' B' A'' B''] bounds_seq [of confirmed n A B n' A' B' A'' B'']
  unfolding settles_def by auto

lemma settles_Nil [simp]: "settles cl ok {} B []"
  by (simp add: settles_def bounds_def)

lemma settles_weaken:
  "settles cl ok A B n \<Longrightarrow> (ok' \<Longrightarrow> ok) \<Longrightarrow> A' \<subseteq> A \<Longrightarrow> B \<subseteq> B' \<Longrightarrow> settles cl ok' A' B' n"
  unfolding settles_def using bounds_weaken by blast

lemma quiet_event: "quiet e \<Longrightarrow> made e = {}" "quiet e \<Longrightarrow> safe_event cl e"
  by (cases e rule: quiet.cases; simp)+

lemma settles_quiet: "list_all quiet n \<Longrightarrow> settles cl ok {} {} n"
proof (induction n)
  case (Cons e n)
  then have "settles cl ok {} {} [e]"
    using quiet_event [of e] by (auto simp: settles_def bounds_def)
  with Cons settles_seq [of cl ok "{}" "{}" "[e]" ok "{}" "{}" n ok "{}" "{}"] show ?case by simp
qed simp

subsection \<open>The operations settle what they create\<close>

lemma Inspect_quiet: "triple (Inspect cl c) (\<lambda>r n. list_all quiet n)"
  unfolding Inspect_def call_defs by (intro triple_rules) auto

lemma Logs_quiet: "triple (Logs cl c) (\<lambda>r n. list_all quiet n)"
  unfolding Logs_def call_defs by (intro triple_rules) auto

lemma Remove_settles:
  "triple (Remove cl c) (\<lambda>r n. settles cl (r = None) {AContainer (c_ID c)} {} n)"
  unfolding Remove_def containerGone_def call_defs State_Monad.bind_assoc State_Monad.bind_left_identity
  by (intro triple_rules) (auto simp: settles_def bounds_def split: sum.splits)

lemma checkCreated_quiet:
  "triple (checkCreated cl c) (\<lambda>r n. list_all quiet n)"
  unfolding checkCreated_def
  by (rule triple_bind [OF Inspect_quiet]) (auto intro!: triple_rules)

lemma request_eta [simp]:
  "\<lparr>rq_Name = rq_Name r, rq_Config = rq_Config r, rq_HostConfig = rq_HostConfig r\<rparr> = (r :: Request)"
  by (cases r) simp

lemma settles_created:
  "CheckConfig \<lparr>rq_Name = name, rq_Config = cfg, rq_HostConfig = hc\<rparr> (socket_of cl) = [] \<Longrightarrow>
   settles cl ok {} {AContainer cid} [RandomRead b, ContainerCreated name cfg hc (Inr cid)]"
  by (auto simp: settles_def bounds_def)

lemma Create_settles:
  "triple (Create cl spec) (\<lambda>r n. settles cl (is_ok r) {} (case r of Inl _ \<Rightarrow> {} | Inr c \<Rightarrow> {AContainer (c_ID c)}) n)"
  unfolding Create_def randomSuffix_def containerCreate_def State_Monad.bind_assoc State_Monad.bind_left_identity
proof (intro triple_rules, goal_cases)
  case (3 b req res e)
  then show ?case by (auto simp: settles_def bounds_def)
next
  case (4 b req res cid)
  let ?c = "\<lparr>c_ID = cid, c_Name = rq_Name req, c_Request = req\<rparr>"
  let ?pre = "[RandomRead b, ContainerCreated (rq_Name req) (rq_Config req) (rq_HostConfig req) res]"
  from 4 have pre: "settles cl ok {} {AContainer cid} ?pre" for ok
    by (auto intro!: settles_created)
  show ?case
  proof (rule triple_bind [OF checkCreated_quiet], intro triple_rules, goal_cases)
    case (1 err n)
    then show ?case
      using settles_seq [OF pre settles_quiet [OF 1(1)], of True True True "{}" "{AContainer cid}"] by simp
  next
    case (2 err n e)
    show ?case
    proof (rule triple_bind [OF Remove_settles], intro triple_rules, goal_cases)
      case (1 rm m)
      have "settles cl False {} {AContainer cid} (?pre @ n)"
        using settles_seq [OF pre settles_quiet [OF 2(1)], of False False False "{}" "{AContainer cid}"] by simp
      then show ?case
        using settles_seq [OF _ 1, of False "{}" "{AContainer cid}" "?pre @ n" False "{}" "{}"] by simp
    qed
  qed
qed (simp_all add: settles_quiet)

lemma collect_quiet: "triple (collect cl c res) (\<lambda>r n. list_all quiet n)"
  unfolding collect_def
  apply (rule triple_bind [OF Logs_quiet])
  apply (intro triple_rules)
   apply simp
  apply (rule triple_bind [OF Inspect_quiet])
  apply (intro triple_rules)
   apply auto
  done

lemma runBody_quiet: "triple (runBody cl c) (\<lambda>r n. list_all quiet n)"
  unfolding runBody_def call_defs
  by (intro triple_rules) (auto intro: triple_mono [OF collect_quiet])

lemma Start_settles:
  "triple (Start cl spec) (\<lambda>r n. settles cl (is_ok r) {} (case r of Inl _ \<Rightarrow> {} | Inr c \<Rightarrow> {AContainer (c_ID c)}) n)"
  unfolding Start_def call_defs
proof (rule triple_bind [OF Create_settles], intro triple_rules, goal_cases)
  case (1 r n e)
  then show ?case by simp
next
  case (2 r n c s)
  then show ?case
    using settles_seq [OF 2(1) settles_quiet [of "[ContainerStarted (c_ID c) None]" cl True]] by simp
next
  case (3 r n c s e)
  show ?case
  proof (rule triple_bind [OF Remove_settles], intro triple_rules, goal_cases)
    case (1 rm m)
    have "settles cl False {} {AContainer (c_ID c)} (n @ [ContainerStarted (c_ID c) s])"
      using settles_seq [OF 3(1) settles_quiet [of "[ContainerStarted (c_ID c) s]" cl False], of False] 3(2) by simp
    then show ?case
      using settles_seq [OF _ 1, of False "{}" "{AContainer (c_ID c)}" "n @ [ContainerStarted (c_ID c) s]" False "{}" "{}"]
      by simp
  qed
qed

lemma errors_Join_None [simp]: "errors_Join [a, b] = None \<longleftrightarrow> a = None \<and> b = None"
  by (cases a; cases b) (simp_all add: errors_Join_def map_filter_simps)

lemma Run_settles: "triple (Run cl spec) (\<lambda>r n. settles cl (snd r = None) {} {} n)"
  unfolding Run_def
proof (rule triple_bind [OF Create_settles], intro triple_rules, goal_cases)
  case (1 r n e)
  then show ?case by (auto intro: settles_weaken)
next
  case (2 r n c)
  then have n: "settles cl True {} {AContainer (c_ID c)} n" by simp
  show ?case
  proof (rule triple_bind [OF runBody_quiet], goal_cases)
    case (1 b m)
    have nm: "settles cl True {} {AContainer (c_ID c)} (n @ m)"
      using settles_seq [OF n settles_quiet [OF 1]] by simp
    show ?case
    proof (rule triple_bind [OF Remove_settles], intro triple_rules, goal_cases)
      case (1 rm k)
      then show ?case using settles_seq [OF nm 1, of "snd b = None \<and> rm = None" "{}" "{}"] by simp
    qed
  qed
qed

subsection \<open>Properties\<close>

text \<open>
  C3. Whatever the engine answers and whenever the caller's context ends, a one-shot run leaves
  nothing behind: every container it created is removed again (the removal is at least tried
  on every path), and when the run reports no error the removal is confirmed, by the engine's
  success or by the container no longer being listed.
\<close>

theorem Run_leaves_nothing:
  assumes "run_state (Run cl spec) h = ((res, err), h')"
  shows "\<exists>new. h' = h @ new \<and> owed attempted new {} = {} \<and> (err = None \<longrightarrow> owed confirmed new {} = {})"
  using assms Run_settles [of cl spec]
  by (elim triple_run) (auto simp: settles_def bounds_owed)

text \<open>
  Starting a container leaves at most the returned one: on every error path what was
  created is removed again before the error is returned.
\<close>

theorem Start_owes_its_container:
  assumes "run_state (Start cl spec) h = (r, h')"
  shows "\<exists>new. h' = h @ new
           \<and> owed attempted new {} \<subseteq> (case r of Inl _ \<Rightarrow> {} | Inr c \<Rightarrow> {AContainer (c_ID c)})"
  using assms Start_settles [of cl spec]
  by (elim triple_run) (auto simp: settles_def bounds_def split: sum.splits)

fun waited_first :: "string set \<Rightarrow> history \<Rightarrow> bool" where
  "waited_first W [] = True"
| "waited_first W (ContainerWaited cid NextExit # n) = waited_first (insert cid W) n"
| "waited_first W (ContainerStarted cid r # n) = (cid \<in> W \<and> waited_first W n)"
| "waited_first W (_ # n) = waited_first W n"

fun no_start :: "event \<Rightarrow> bool" where
  "no_start (ContainerStarted _ _) = False"
| "no_start (ContainerWaited _ _) = False"
| "no_start _ = True"

lemma waited_first_skip: "no_start e \<Longrightarrow> waited_first W (e # n) = waited_first W n"
  by (cases e) auto

lemma waited_first_append: "list_all no_start n \<Longrightarrow> waited_first W (n @ n') = waited_first W n'"
  by (induction n) (simp_all add: waited_first_skip)

lemma waited_first_no_start: "list_all no_start n \<Longrightarrow> waited_first W n"
  by (induction n) (simp_all add: waited_first_skip)

lemma Inspect_no_start: "triple (Inspect cl c) (\<lambda>r n. list_all no_start n)"
  unfolding Inspect_def call_defs by (intro triple_rules) auto

lemma Logs_no_start: "triple (Logs cl c) (\<lambda>r n. list_all no_start n)"
  unfolding Logs_def call_defs by (intro triple_rules) auto

lemma Remove_no_start: "triple (Remove cl c) (\<lambda>r n. list_all no_start n)"
  unfolding Remove_def containerGone_def call_defs State_Monad.bind_assoc State_Monad.bind_left_identity
  by (intro triple_rules) auto

lemma checkCreated_no_start: "triple (checkCreated cl c) (\<lambda>r n. list_all no_start n)"
  unfolding checkCreated_def by (rule triple_bind [OF Inspect_no_start]) (auto intro!: triple_rules)

lemma Create_no_start: "triple (Create cl spec) (\<lambda>r n. list_all no_start n)"
  unfolding Create_def randomSuffix_def containerCreate_def State_Monad.bind_assoc State_Monad.bind_left_identity
proof (intro triple_rules, goal_cases)
  case (4 b req res cid)
  show ?case
  proof (rule triple_bind [OF checkCreated_no_start], intro triple_rules, goal_cases)
    case (2 err n e)
    then show ?case by (intro triple_bind [OF Remove_no_start] triple_rules) simp
  qed simp
qed simp_all

lemma collect_no_start: "triple (collect cl c res) (\<lambda>r n. list_all no_start n)"
  unfolding collect_def
proof (rule triple_bind [OF Logs_no_start], intro triple_rules, goal_cases)
  case (2 l n x so se)
  then show ?case
    by (intro triple_bind [OF Inspect_no_start] triple_rules) simp_all
qed simp

lemma runBody_waited_first: "triple (runBody cl c) (\<lambda>r n. waited_first {} n)"
  unfolding runBody_def call_defs
  by (intro triple_rules) (auto intro!: triple_mono [OF collect_no_start] waited_first_no_start)

lemma waited_first_append': "waited_first W n \<Longrightarrow> list_all no_start n' \<Longrightarrow> waited_first W (n @ n')"
  by (induction W n rule: waited_first.induct) (auto simp: waited_first_no_start)

text \<open>
  A one-shot run registers its wait for the next exit before it starts the container, so an
  exit within milliseconds is never missed.
\<close>

theorem Run_waits_before_start:
  assumes "run_state (Run cl spec) h = (r, h')"
  shows "\<exists>new. h' = h @ new \<and> waited_first {} new"
proof -
  have "triple (Run cl spec) (\<lambda>r n. waited_first {} n)"
    unfolding Run_def
  proof (rule triple_bind [OF Create_no_start], intro triple_rules, goal_cases)
    case (2 r n c)
    show ?case
    proof (rule triple_bind [OF runBody_waited_first], goal_cases)
      case (1 b m)
      with 2 show ?case
        by (intro triple_bind [OF Remove_no_start] triple_rules)
           (simp add: waited_first_append waited_first_append')
    qed
  qed (simp add: waited_first_no_start)
  with assms show ?thesis by (elim triple_run) auto
qed

text \<open>
  A handle is returned only for a container whose request came from \<open>Translate\<close>, passed
  every config invariant before the create call, and whose recorded config, in the inspection
  that is the last call made, matches the request.
\<close>

theorem Create_returns_checked:
  assumes "run_state (Create cl spec) h = (Inr c, h')"
  shows "\<exists>suf insp. Translate spec (socket_of cl) suf = Inr (c_Request c)
           \<and> CheckConfig (c_Request c) (socket_of cl) = [] \<and> c_Name c = rq_Name (c_Request c)
           \<and> last h' = ContainerInspected (c_ID c)
           \<and> cl_inspect cl (butlast h') (c_ID c) = Inr insp
           \<and> CheckObserved (InspectResponse.truncate insp) (c_Request c) = []"
  using assms
  by (auto simp: Create_def randomSuffix_def checkCreated_def Inspect_def call_defs ask_def Let_def butlast_append
      split: sum.splits if_splits option.splits prod.splits)

subsection \<open>Polling ends\<close>

definition polls :: "history \<Rightarrow> nat" where
  "polls h = length (filter (\<lambda>e. case e of ExecInspected _ \<Rightarrow> True | _ \<Rightarrow> False) h)"

lemma polls_simps [simp]: "polls [] = 0" "polls (h @ h') = polls h + polls h'"
  "polls (e # h) = (case e of ExecInspected _ \<Rightarrow> Suc (polls h) | _ \<Rightarrow> polls h)"
  by (simp_all add: polls_def split: event.splits)

text \<open>The engine records the exit of every exec by its \<open>k\<close>-th inspection at the latest.\<close>

definition exits_by :: "client \<Rightarrow> nat \<Rightarrow> bool" where
  "exits_by cl k \<longleftrightarrow> (\<forall>h eid. k \<le> polls h \<longrightarrow>
     (case cl_exec_inspect cl h eid of Inl _ \<Rightarrow> True | Inr (running, _) \<Rightarrow> \<not> running))"

lemma execPoll_more_fuel:
  "run_state (execPoll n cl c eid start res) h = (Some r, h') \<Longrightarrow>
   run_state (execPoll (n + m) cl c eid start res) h = (Some r, h')"
  by (induction n arbitrary: h) (auto split: sum.splits prod.splits if_splits option.splits)

lemma execPoll_returns:
  "exits_by cl k \<Longrightarrow> k < n + polls h \<Longrightarrow> 0 < n \<Longrightarrow> \<exists>r h'. run_state (execPoll n cl c eid start res) h = (Some r, h')"
proof (induction n arbitrary: h)
  case (Suc n)
  obtain i where i: "cl_exec_inspect cl h eid = i" by blast
  show ?case
  proof (cases "\<exists>code. i = Inr (True, code)")
    case True
    then obtain code where run: "i = Inr (True, code)" by blast
    have "polls h < k"
    proof (rule ccontr)
      assume "\<not> polls h < k"
      with Suc.prems(1) have "case cl_exec_inspect cl h eid of Inl _ \<Rightarrow> True | Inr (running, _) \<Rightarrow> \<not> running"
        by (simp add: exits_by_def)
      with i run show False by simp
    qed
    with Suc.prems(2) have n: "0 < n" "k < n + polls (h @ [ExecInspected eid, ContextAsked None])" by simp_all
    from Suc.IH [OF Suc.prems(1) n(2,1)] run i show ?thesis
      by (auto simp: call_defs ask_def split: option.splits)
  next
    case False
    then show ?thesis using i
      by (auto simp: call_defs ask_def split: sum.splits prod.splits)
  qed
qed simp

text \<open>
  Exec returns: if the engine records the exit of every exec by its k-th inspection, more
  than k polls are enough, and any larger bound gives the same result and the same calls.
\<close>

theorem Exec_returns:
  assumes "exits_by cl k"
  shows "\<exists>r h'. \<forall>fuel > k. run_state (Exec fuel cl c cmd) h = (Some r, h')"
proof -
  have "\<exists>r h'. run_state (Exec (Suc k) cl c cmd) h = (Some r, h')"
    using execPoll_returns [OF assms, of "Suc k"]
    by (auto simp: Exec_def Let_def ask_def call_defs simp del: execPoll.simps split: sum.splits option.splits prod.splits)
  then obtain a b h' where r: "run_state (Exec (Suc k) cl c cmd) h = (Some (a, b), h')" by auto
  have "run_state (Exec fuel cl c cmd) h = (Some (a, b), h')" if "k < fuel" for fuel
  proof -
    from that obtain m where "fuel = Suc k + m" by (metis Suc_leI le_Suc_ex)
    with r execPoll_more_fuel [of "Suc k"] show ?thesis
      by (auto simp: Exec_def Let_def simp del: execPoll.simps split: sum.splits option.splits prod.splits)
  qed
  then show ?thesis by blast
qed

subsection \<open>A concrete engine\<close>

text \<open>
  A well-behaved engine: ids are unique, inspect gives back what was created, every container
  exits with status 0, logs hold the lines of a listening probe, and nothing fails.
\<close>

definition created_as :: "string \<Rightarrow> event \<Rightarrow> Request option" where
  "created_as cid e = (case e of
     ContainerCreated name cfg hc (Inr i) \<Rightarrow>
       if i = cid then Some \<lparr>rq_Name = name, rq_Config = cfg, rq_HostConfig = hc\<rparr> else None
   | _ \<Rightarrow> None)"

definition demo_inspect :: "history \<Rightarrow> string \<Rightarrow> (err, Observed) result" where
  "demo_inspect h cid = (case List.map_filter (created_as cid) h of
     [] \<Rightarrow> Inl ''no such container''
   | req # _ \<Rightarrow> Inr (InspectResponse.extend (engine_records ''10001:10001'' ''runc'' req)
                     (Observed.fields (Some False))))"

definition demo_client :: client where
  "demo_client = \<lparr>cl_DaemonHost = ''unix:///run/docker.sock'',
     cl_ParseHostURL = (\<lambda>_. Some (''unix'', ''/run/docker.sock'')),
     cl_random = (\<lambda>h. [CHR 0x0A, CHR 0x1B, CHR 0x2C, CHR 0x3D]),
     cl_create = (\<lambda>h name cfg hc. Inr (''c'' @ decimal (length h))),
     cl_start = (\<lambda>h cid. None),
     cl_await = (\<lambda>h cid. WaitResult 0 None),
     cl_logs = (\<lambda>h cid. Inr (''listen: OK'' @ [CHR 0x0A], [])),
     cl_inspect = demo_inspect,
     cl_remove = (\<lambda>h ctx cid. None),
     cl_list = (\<lambda>h ctx f. Inr []),
     cl_stop = (\<lambda>h cid secs. None),
     cl_volume_list = (\<lambda>h f. Inr []),
     cl_volume_create = (\<lambda>h name ls. None),
     cl_volume_remove = (\<lambda>h ctx name. None),
     cl_network_list = (\<lambda>h f. Inr []),
     cl_network_create = (\<lambda>h name driver internal ls. None),
     cl_network_remove = (\<lambda>h name. None),
     cl_exec_create = (\<lambda>h cid cmd. Inr ''e1''),
     cl_exec_attach = (\<lambda>h eid. None),
     cl_exec_read = (\<lambda>h eid. (''interfaces: OK lo'', [], None)),
     cl_exec_inspect = (\<lambda>h eid. Inr (polls h < 2, 0)),
     cl_image_build = (\<lambda>h tag ls tar. Inr ([], None)),
     cl_image_inspect = (\<lambda>h ctx tag. None),
     cl_image_remove = (\<lambda>h ctx tag. None),
     cl_info = (\<lambda>h. Inr ''x86_64''),
     cl_ping = (\<lambda>h. None),
     cl_temp_dir = (\<lambda>h. Inr ''/tmp/d''),
     cl_command = (\<lambda>h argv env. None),
     cl_read_file = (\<lambda>h p. Inr ''ELF''),
     cl_ctx_err = (\<lambda>h. None),
     cl_now = (\<lambda>h. int (length h))\<rparr>"

definition demo_run :: "(Result \<times> docker_err option) \<times> history" where
  "demo_run = run_state (Run demo_client demo_spec) []"

lemma demo_run_ok: "snd (fst demo_run) = None"
  by code_simp

theorem Run_leaves_nothing_witness:
  "\<exists>new. snd demo_run = new \<and> owed attempted new {} = {} \<and> owed confirmed new {} = {}"
  using Run_leaves_nothing [of demo_client demo_spec "[]" "fst (fst demo_run)" "snd (fst demo_run)" "snd demo_run"]
    demo_run_ok by (simp add: demo_run_def)

theorem Run_waits_before_start_witness: "waited_first {} (snd demo_run)"
  using Run_waits_before_start [of demo_client demo_spec "[]" "fst demo_run" "snd demo_run"]
  by (simp add: demo_run_def)

definition demo_start :: "(docker_err, Container) result \<times> history" where
  "demo_start = run_state (Start demo_client demo_spec) []"

theorem Start_owes_its_container_witness:
  "owed attempted (snd demo_start) {} \<subseteq> (case fst demo_start of Inl _ \<Rightarrow> {} | Inr c \<Rightarrow> {AContainer (c_ID c)})"
  using Start_owes_its_container [of demo_client demo_spec "[]" "fst demo_start" "snd demo_start"]
  by (simp add: demo_start_def)

lemma demo_created: "\<exists>c. fst (run_state (Create demo_client demo_spec) []) = Inr c"
proof -
  have "is_ok (fst (run_state (Create demo_client demo_spec) []))" by code_simp
  then show ?thesis by (simp add: is_ok_iff)
qed

theorem Create_returns_checked_witness:
  "\<exists>c :: Container. CheckConfig (c_Request c) ''/run/docker.sock'' = [] \<and> c_Name c = rq_Name (c_Request c)"
proof -
  obtain c where "fst (run_state (Create demo_client demo_spec) []) = Inr c" using demo_created by blast
  then have run: "run_state (Create demo_client demo_spec) [] = (Inr c, snd (run_state (Create demo_client demo_spec) []))"
    by (simp add: prod_eq_iff)
  have "socket_of demo_client = ''/run/docker.sock''"
    by (simp add: socket_of_def SocketPath_def demo_client_def)
  with Create_returns_checked [OF run] show ?thesis by (intro exI [of _ c]) auto
qed

theorem Exec_returns_witness:
  "\<exists>r h'. \<forall>fuel > 2. run_state (Exec fuel demo_client \<lparr>c_ID = ''c1'', c_Name = ''n'', c_Request = demo_request\<rparr>
      [FixtureBinary, ''pids'']) [] = (Some r, h')"
proof -
  have "exits_by demo_client 2" by (simp add: exits_by_def demo_client_def)
  from Exec_returns [OF this] show ?thesis .
qed

end
