(* ===== verification/Cleanup.thy ===== *)
theory Cleanup
  imports Lifecycle
begin

section \<open>Listing and sweeping a lesson's objects (cleanup.go, egress.go)\<close>

text \<open>
  Everything a lesson leaves behind is found by its labels. The map of failed removals is an
  association list under the source's keys, the kind and the name with a space between; Go's
  iteration order over the final map of kinds is unspecified, and the model takes containers,
  then volumes, then networks.
\<close>

record Leftovers =
  lo_Containers :: "string list"
  lo_Volumes :: "string list"
  lo_Networks :: "string list"

definition noLeftovers :: Leftovers where
  "noLeftovers = \<lparr>lo_Containers = [], lo_Volumes = [], lo_Networks = []\<rparr>"

definition Empty :: "Leftovers \<Rightarrow> bool" where
  "Empty l \<longleftrightarrow> length (lo_Containers l) + length (lo_Volumes l) + length (lo_Networks l) = 0"

definition ownedBy :: "labels \<Rightarrow> string \<Rightarrow> bool" where
  "ownedBy ls lesson \<longleftrightarrow> label ls LabelHarness = ''1'' \<and> label ls LabelLesson = lesson"

definition validLesson :: "string \<Rightarrow> docker_err option" where
  "validLesson lesson = (if \<not> MatchString lessonRE lesson then Some (LessonInvalid lesson) else None)"

definition containerName :: "string list \<Rightarrow> string \<Rightarrow> string" where
  "containerName names cid =
     (if length names > 0 \<and> length (names ! 0) > 1 then drop 1 (names ! 0) else cid)"

definition ownedContainers :: "string \<Rightarrow> ContainerSummary list \<Rightarrow> string list" where
  "ownedContainers lesson items =
     map (\<lambda>c. containerName (cs_Names c) (cs_ID c)) (filter (\<lambda>c. ownedBy (cs_Labels c) lesson) items)"

definition ownedObjects :: "string \<Rightarrow> NamedObject list \<Rightarrow> string list" where
  "ownedObjects lesson items = map no_Name (filter (\<lambda>x. ownedBy (no_Labels x) lesson) items)"

definition ListLesson :: "client \<Rightarrow> string \<Rightarrow> (docker_err, Leftovers) result prog" where
  "ListLesson cl lesson =
     (case validLesson lesson of
        Some e \<Rightarrow> ret (Inl e)
      | None \<Rightarrow> do {
          cs \<leftarrow> containerList cl Caller (ByLesson lesson);
          case cs of
            Inl e \<Rightarrow> ret (Inl (ListFailed ''containers'' lesson e))
          | Inr cs \<Rightarrow> do {
              vs \<leftarrow> volumeList cl (ByLesson lesson);
              case vs of
                Inl e \<Rightarrow> ret (Inl (ListFailed ''volumes'' lesson e))
              | Inr vs \<Rightarrow> do {
                  ns \<leftarrow> networkList cl (ByLesson lesson);
                  case ns of
                    Inl e \<Rightarrow> ret (Inl (ListFailed ''networks'' lesson e))
                  | Inr ns \<Rightarrow>
                      ret (Inr \<lparr>lo_Containers = ownedContainers lesson cs,
                                lo_Volumes = ownedObjects lesson vs,
                                lo_Networks = ownedObjects lesson ns\<rparr>) } } })"

datatype leak = StillCarries string string string

definition noLeak :: "string \<Rightarrow> Leftovers \<Rightarrow> leak list" where
  "noLeak lesson left =
     concat (map (\<lambda>(kind, names). map (\<lambda>n. StillCarries kind n lesson) names)
       [(''container'', lo_Containers left), (''volume'', lo_Volumes left), (''network'', lo_Networks left)])"

definition CheckNoLeak :: "client \<Rightarrow> string \<Rightarrow> (docker_err, leak list) result prog" where
  "CheckNoLeak cl lesson = do {
     l \<leftarrow> ListLesson cl lesson;
     case l of Inl e \<Rightarrow> ret (Inl e) | Inr left \<Rightarrow> ret (Inr (noLeak lesson left)) }"

type_synonym failures = "(string \<times> err) list"

text \<open>
  \<open>removeEach kind rm names\<close> is one loop of \<open>Sweep\<close>: it gives the names that were removed and the
  failures, newest first.
\<close>

fun removeEach :: "string \<Rightarrow> (string \<Rightarrow> err option prog) \<Rightarrow> string list \<Rightarrow> failures
    \<Rightarrow> (string list \<times> failures) prog" where
  "removeEach kind rm [] failed = ret ([], failed)"
| "removeEach kind rm (n # ns) failed = do {
     r \<leftarrow> rm n;
     case r of
       Some e \<Rightarrow> removeEach kind rm ns ((kind @ '' '' @ n, e) # failed)
     | None \<Rightarrow> do {
         rest \<leftarrow> removeEach kind rm ns failed;
         ret (n # fst rest, snd rest) } }"

definition stillFailed :: "failures \<Rightarrow> string \<Rightarrow> string list \<Rightarrow> docker_err list" where
  "stillFailed failed kind names =
     List.map_filter (\<lambda>n. map_option (StillPresent kind n) (map_of failed (kind @ '' '' @ n))) names"

definition Sweep :: "client \<Rightarrow> string \<Rightarrow> (Leftovers \<times> docker_err option) prog" where
  "Sweep cl lesson = do {
     l \<leftarrow> ListLesson cl lesson;
     case l of
       Inl e \<Rightarrow> ret (noLeftovers, Some e)
     | Inr left \<Rightarrow> do {
         cs \<leftarrow> removeEach ''container'' (containerRemove cl Caller) (lo_Containers left) [];
         vs \<leftarrow> removeEach ''volume'' (volumeRemove cl Caller) (lo_Volumes left) (snd cs);
         ns \<leftarrow> removeEach ''network'' (networkRemove cl) (lo_Networks left) (snd vs);
         let removed = \<lparr>lo_Containers = fst cs, lo_Volumes = fst vs, lo_Networks = fst ns\<rparr>;
         let failed = snd ns;
         if length failed = 0 then ret (removed, None)
         else do {
           s \<leftarrow> ListLesson cl lesson;
           case s of
             Inl e \<Rightarrow> ret (removed, Some (SweepListFailed lesson e))
           | Inr still \<Rightarrow>
               (let errs = stillFailed failed ''container'' (lo_Containers still)
                         @ stillFailed failed ''volume'' (lo_Volumes still)
                         @ stillFailed failed ''network'' (lo_Networks still)
                in if length errs > 0 then ret (removed, Some (SweepFailed lesson (Joined errs)))
                   else ret (removed, None)) } } }"

definition CreateVolume :: "client \<Rightarrow> string \<Rightarrow> string \<Rightarrow> (docker_err, string) result prog" where
  "CreateVolume cl lesson role =
     (case validLesson lesson of
        Some e \<Rightarrow> ret (Inl e)
      | None \<Rightarrow>
          (if \<not> MatchString lessonRE role then ret (Inl (RoleInvalid role))
           else do {
             suf \<leftarrow> randomSuffix cl;
             let name = ContainerName lesson role suf;
             r \<leftarrow> volumeCreate cl name (Labels lesson);
             case r of Some e \<Rightarrow> ret (Inl (VolumeFailed name e)) | None \<Rightarrow> ret (Inr name) }))"

definition FixtureNetwork :: "client \<Rightarrow> string \<Rightarrow> (docker_err, string) result prog" where
  "FixtureNetwork cl lesson =
     (case validLesson lesson of
        Some e \<Rightarrow> ret (Inl e)
      | None \<Rightarrow> do {
          suf \<leftarrow> randomSuffix cl;
          let name = ContainerName lesson ''net'' suf;
          r \<leftarrow> networkCreate cl name ''bridge'' True (Labels lesson);
          case r of Some e \<Rightarrow> ret (Inl (NetworkFailed name e)) | None \<Rightarrow> ret (Inr name) })"

definition CheckWorkerHasNoRoute ::
    "nat \<Rightarrow> client \<Rightarrow> Container \<Rightarrow> (docker_err, egress_violation list) result option prog" where
  "CheckWorkerHasNoRoute fuel cl worker = do {
     x \<leftarrow> Exec fuel cl worker [FixtureBinary, ''interfaces''];
     case x of
       None \<Rightarrow> ret None
     | Some (res, Some e) \<Rightarrow> ret (Some (Inl e))
     | Some (res, None) \<Rightarrow>
         (case Find (Parse (res_Stdout res)) ''interfaces'' of
            None \<Rightarrow> ret (Some (Inl (UnreadableOutput (c_Name worker) (res_ExitCode res) (res_Stdout res))))
          | Some l \<Rightarrow>
              (if \<not> line_OK l
               then ret (Some (Inl (UnreadableOutput (c_Name worker) (res_ExitCode res) (res_Stdout res))))
               else ret (Some (Inr (workerHasNoRoute (Fields (line_Detail l))))))) }"

subsection \<open>What listing returns\<close>

definition listing :: "string \<Rightarrow> ContainerSummary list \<Rightarrow> NamedObject list \<Rightarrow> NamedObject list \<Rightarrow> history" where
  "listing lesson cs vs ns = [ContainersListed Caller (ByLesson lesson) (Inr cs),
     VolumesListed (ByLesson lesson) (Inr vs), NetworksListed (ByLesson lesson) (Inr ns)]"

definition owned_of :: "string \<Rightarrow> ContainerSummary list \<Rightarrow> NamedObject list \<Rightarrow> NamedObject list \<Rightarrow> Leftovers" where
  "owned_of lesson cs vs ns = \<lparr>lo_Containers = ownedContainers lesson cs,
     lo_Volumes = ownedObjects lesson vs, lo_Networks = ownedObjects lesson ns\<rparr>"

text \<open>
  The ways a listing fails: the lesson's name is refused before any call, or one of the three
  list calls, the ones before it answered, reports an error and is the last call made.
\<close>

definition listing_failed :: "string \<Rightarrow> docker_err \<Rightarrow> history \<Rightarrow> bool" where
  "listing_failed lesson e n \<longleftrightarrow>
     (\<not> MatchString lessonRE lesson \<and> n = [] \<and> e = LessonInvalid lesson)
     \<or> (\<exists>x. n = [ContainersListed Caller (ByLesson lesson) (Inl x)] \<and> e = ListFailed ''containers'' lesson x)
     \<or> (\<exists>cs x. n = [ContainersListed Caller (ByLesson lesson) (Inr cs), VolumesListed (ByLesson lesson) (Inl x)]
          \<and> e = ListFailed ''volumes'' lesson x)
     \<or> (\<exists>cs vs x. n = [ContainersListed Caller (ByLesson lesson) (Inr cs), VolumesListed (ByLesson lesson) (Inr vs),
            NetworksListed (ByLesson lesson) (Inl x)] \<and> e = ListFailed ''networks'' lesson x)"

lemma ListLesson_triple:
  "triple (ListLesson cl lesson) (\<lambda>r n. list_all quiet n \<and> (case r of Inl e \<Rightarrow> listing_failed lesson e n
     | Inr left \<Rightarrow> MatchString lessonRE lesson
         \<and> (\<exists>cs vs ns. n = listing lesson cs vs ns \<and> left = owned_of lesson cs vs ns)))"
  unfolding ListLesson_def call_defs
  by (intro triple_rules)
     (auto simp: listing_def owned_of_def listing_failed_def validLesson_def split: if_splits)

fun removal :: "event \<Rightarrow> (string \<times> string) option" where
  "removal (ContainerRemoved ctx name r) = Some (''container'', name)"
| "removal (VolumeRemoved ctx name r) = Some (''volume'', name)"
| "removal (NetworkRemoved name r) = Some (''network'', name)"
| "removal _ = None"

definition removals :: "history \<Rightarrow> (string \<times> string) list" where
  "removals n = List.map_filter removal n"

lemma removals_simps [simp]: "removals [] = []" "removals (n @ n') = removals n @ removals n'"
  "removals (e # n) = (case removal e of None \<Rightarrow> removals n | Some x \<Rightarrow> x # removals n)"
  by (simp_all add: removals_def List.map_filter_def split: option.splits)

lemma removals_quiet: "list_all quiet n \<Longrightarrow> removals n = []"
proof (induction n)
  case (Cons e n)
  then have "removal e = None" by (cases e rule: quiet.cases) simp_all
  with Cons show ?case by simp
qed simp

text \<open>
  One loop of \<open>Sweep\<close>, for a removal call that records the removal it makes.
\<close>

lemma removeEach_triple:
  assumes rm: "\<And>n. triple (rm n) (\<lambda>r e. removals e = [(kind, n)])"
  shows "triple (removeEach kind rm names failed) (\<lambda>r n. removals n = map (Pair kind) names
           \<and> (\<forall>k. map_of failed k \<noteq> None \<longrightarrow> map_of (snd r) k \<noteq> None)
           \<and> (snd r = [] \<longrightarrow> failed = [] \<and> fst r = names)
           \<and> (\<forall>x \<in> set names. x \<in> set (fst r) \<or> map_of (snd r) (kind @ '' '' @ x) \<noteq> None))"
proof (induction names arbitrary: failed)
  case Nil
  show ?case by (auto intro!: triple_rules)
next
  case (Cons x xs)
  show ?case
    unfolding removeEach.simps
  proof (rule triple_bind [OF rm], intro triple_rules, goal_cases)
    case (1 r n)
    show ?case
      by (rule triple_bind [OF Cons.IH], intro triple_rules) (use 1 in auto)
  next
    case (2 r n e)
    show ?case
      by (rule triple_mono [OF Cons.IH]) (use 2 in \<open>auto split: if_splits\<close>)
  qed
qed

lemma stillFailed_Nil:
  "stillFailed failed kind names = [] \<longleftrightarrow> (\<forall>x \<in> set names. map_of failed (kind @ '' '' @ x) = None)"
  by (induction names) (auto simp: stillFailed_def map_filter_simps split: option.splits)

definition gone_after :: "string list \<Rightarrow> string list \<Rightarrow> string list \<Rightarrow> bool" where
  "gone_after names done still \<longleftrightarrow> (\<forall>x \<in> set names. x \<in> set done \<or> x \<notin> set still)"

definition swept :: "Leftovers \<Rightarrow> Leftovers \<Rightarrow> Leftovers \<Rightarrow> bool" where
  "swept left removed still \<longleftrightarrow> gone_after (lo_Containers left) (lo_Containers removed) (lo_Containers still)
     \<and> gone_after (lo_Volumes left) (lo_Volumes removed) (lo_Volumes still)
     \<and> gone_after (lo_Networks left) (lo_Networks removed) (lo_Networks still)"

definition sweep_post :: "string \<Rightarrow> Leftovers \<Rightarrow> docker_err option \<Rightarrow> history \<Rightarrow> bool" where
  "sweep_post lesson removed err n \<longleftrightarrow>
     (\<exists>e. listing_failed lesson e n \<and> err = Some e \<and> removed = noLeftovers)
     \<or> (\<exists>cs vs ns rest. MatchString lessonRE lesson \<and> n = listing lesson cs vs ns @ rest
         \<and> removals n = map (Pair ''container'') (ownedContainers lesson cs)
             @ map (Pair ''volume'') (ownedObjects lesson vs) @ map (Pair ''network'') (ownedObjects lesson ns)
         \<and> (err = None \<longrightarrow> removed = owned_of lesson cs vs ns
             \<or> (\<exists>rest' cs' vs' ns'. rest = rest' @ listing lesson cs' vs' ns'
                  \<and> swept (owned_of lesson cs vs ns) removed (owned_of lesson cs' vs' ns'))))"

lemma remove_records:
  "triple (containerRemove cl ctx x) (\<lambda>r e. removals e = [(''container'', x)])"
  "triple (volumeRemove cl ctx x) (\<lambda>r e. removals e = [(''volume'', x)])"
  "triple (networkRemove cl x) (\<lambda>r e. removals e = [(''network'', x)])"
  unfolding call_defs by (intro triple_rules; simp)+

text \<open>What it means to carry the harness labels of a lesson.\<close>

definition carries :: "labels \<Rightarrow> string \<Rightarrow> bool" where
  "carries ls lesson \<longleftrightarrow> label ls ''trinkets.harness'' = ''1'' \<and> label ls ''trinkets.lesson'' = lesson"

lemma ownedBy_carries: "ownedBy ls lesson \<longleftrightarrow> carries ls lesson"
  by (simp add: ownedBy_def carries_def LabelHarness_def LabelLesson_def)

lemma gone_afterI:
  "\<forall>x \<in> set names. x \<in> set done \<or> map_of failed (kind @ '' '' @ x) \<noteq> None \<Longrightarrow>
   stillFailed failed' kind still = [] \<Longrightarrow>
   (\<forall>k. map_of failed k \<noteq> None \<longrightarrow> map_of failed' k \<noteq> None) \<Longrightarrow> gone_after names done still"
  unfolding gone_after_def stillFailed_Nil by metis

lemma Sweep_triple: "triple (Sweep cl lesson) (\<lambda>r n. sweep_post lesson (fst r) (snd r) n)"
  unfolding Sweep_def
proof (rule triple_bind [OF ListLesson_triple], intro triple_rules, goal_cases)
  case (1 l n e)
  then show ?case by (simp add: sweep_post_def)
next
  case (2 l n left)
  then obtain cs vs ns where l: "MatchString lessonRE lesson" "n = listing lesson cs vs ns"
      "left = owned_of lesson cs vs ns" and q: "removals n = []"
    by (auto simp: removals_quiet)
  have left: "lo_Containers left = ownedContainers lesson cs" "lo_Volumes left = ownedObjects lesson vs"
    "lo_Networks left = ownedObjects lesson ns" by (simp_all add: l owned_of_def)
  show ?case
  proof (rule triple_bind [OF removeEach_triple [OF remove_records(1)]],
      rule triple_bind [OF removeEach_triple [OF remove_records(2)]],
      rule triple_bind [OF removeEach_triple [OF remove_records(3)]], goal_cases)
    case (1 c nc v nv w nw)
    note loops = 1
    let ?removed = "\<lparr>lo_Containers = fst c, lo_Volumes = fst v, lo_Networks = fst w\<rparr>"
    have rem: "removals (n @ nc @ nv @ nw) = map (Pair ''container'') (ownedContainers lesson cs)
         @ map (Pair ''volume'') (ownedObjects lesson vs) @ map (Pair ''network'') (ownedObjects lesson ns)"
      using loops q left by simp
    have post: "sweep_post lesson ?removed err (n @ nc @ nv @ nw @ m)"
      if "list_all quiet m" and "err = None \<Longrightarrow> ?removed = owned_of lesson cs vs ns
            \<or> (\<exists>cs' vs' ns'. m = listing lesson cs' vs' ns'
                 \<and> swept (owned_of lesson cs vs ns) ?removed (owned_of lesson cs' vs' ns'))" for err m
      unfolding sweep_post_def using that l rem
      by (intro disjI2 exI [of _ cs] exI [of _ vs] exI [of _ ns] exI [of _ "nc @ nv @ nw @ m"])
         (auto simp: removals_quiet)
    show ?case
    proof (intro triple_rules, goal_cases)
      case 1
      then have "snd w = []" by simp
      with loops left have "?removed = owned_of lesson cs vs ns" by (simp add: owned_of_def)
      with post [of "[]" None] show ?case by simp
    next
      case 2
      show ?case
      proof (rule triple_bind [OF ListLesson_triple], intro triple_rules, goal_cases)
        case (3 s m still)
        then obtain cs' vs' ns' where m: "m = listing lesson cs' vs' ns'" "still = owned_of lesson cs' vs' ns'"
          and "list_all quiet m" by auto
        moreover have "swept (owned_of lesson cs vs ns) ?removed still"
        proof -
          from 3 have none: "stillFailed (snd w) ''container'' (lo_Containers still) = []"
            "stillFailed (snd w) ''volume'' (lo_Volumes still) = []"
            "stillFailed (snd w) ''network'' (lo_Networks still) = []" by simp_all
          have grow: "\<forall>k. map_of (snd v) k \<noteq> None \<longrightarrow> map_of (snd w) k \<noteq> None"
            "\<forall>k. map_of (snd c) k \<noteq> None \<longrightarrow> map_of (snd w) k \<noteq> None" using loops by blast+
          have "gone_after (lo_Containers left) (fst c) (lo_Containers still)"
            using loops(1) by (intro gone_afterI [OF _ none(1) grow(2)]) blast
          moreover have "gone_after (lo_Volumes left) (fst v) (lo_Volumes still)"
            using loops(2) by (intro gone_afterI [OF _ none(2) grow(1)]) blast
          moreover have "gone_after (lo_Networks left) (fst w) (lo_Networks still)"
            using loops(3) by (intro gone_afterI [where failed = "snd w", OF _ none(3)]) (blast, simp)
          ultimately show ?thesis unfolding swept_def l(3) [symmetric] by simp
        qed
        ultimately show ?case using post [of m None] by auto
      qed (use post in auto)
    qed
  qed
qed

text \<open>
  C4. Sweep removes the lesson's objects and nothing else. Either its listing fails, as
  \<open>listing_failed\<close> states from the calls made, and then no other call is made, the error of the
  listing is returned and nothing is reported as removed; or the lesson name is valid, the three
  list calls answer, and Sweep's removal calls are exactly, in this order, one per container, then
  one per volume, then one per network that this listing returned with both harness labels set to
  this lesson.
\<close>

theorem Sweep_removes_only_owned:
  assumes "run_state (Sweep cl lesson) h = ((removed, err), h')"
  shows "\<exists>new. h' = h @ new \<and>
    ((\<exists>e. listing_failed lesson e new \<and> err = Some e \<and> removed = noLeftovers)
     \<or> (\<exists>cs vs ns rest. MatchString lessonRE lesson \<and> new = listing lesson cs vs ns @ rest
         \<and> removals new
             = map (\<lambda>c. (''container'', containerName (cs_Names c) (cs_ID c))) (filter (\<lambda>c. carries (cs_Labels c) lesson) cs)
               @ map (\<lambda>v. (''volume'', no_Name v)) (filter (\<lambda>v. carries (no_Labels v) lesson) vs)
               @ map (\<lambda>n. (''network'', no_Name n)) (filter (\<lambda>n. carries (no_Labels n) lesson) ns)))"
proof -
  obtain new where new: "h' = h @ new" "sweep_post lesson removed err new"
    by (rule triple_run [OF Sweep_triple assms]) simp
  from new(2) show ?thesis
    unfolding sweep_post_def
  proof
    assume "\<exists>e. listing_failed lesson e new \<and> err = Some e \<and> removed = noLeftovers"
    with new(1) show ?thesis by blast
  next
    assume "\<exists>cs vs ns rest. MatchString lessonRE lesson \<and> new = listing lesson cs vs ns @ rest
         \<and> removals new = map (Pair ''container'') (ownedContainers lesson cs)
             @ map (Pair ''volume'') (ownedObjects lesson vs) @ map (Pair ''network'') (ownedObjects lesson ns)
         \<and> (err = None \<longrightarrow> removed = owned_of lesson cs vs ns
             \<or> (\<exists>rest' cs' vs' ns'. rest = rest' @ listing lesson cs' vs' ns'
                  \<and> swept (owned_of lesson cs vs ns) removed (owned_of lesson cs' vs' ns')))"
    then obtain cs vs ns rest where "MatchString lessonRE lesson" "new = listing lesson cs vs ns @ rest"
      "removals new = map (Pair ''container'') (ownedContainers lesson cs)
             @ map (Pair ''volume'') (ownedObjects lesson vs) @ map (Pair ''network'') (ownedObjects lesson ns)"
      by blast
    with new(1) show ?thesis
      by (intro exI [of _ new] conjI disjI2 exI [of _ cs] exI [of _ vs] exI [of _ ns] exI [of _ rest])
         (simp_all add: ownedContainers_def ownedObjects_def ownedBy_carries comp_def)
  qed
qed

text \<open>
  When Sweep reports no error, everything it listed is gone: all of it was removed, or a second
  listing at the very end no longer has any object whose removal failed.
\<close>

theorem Sweep_success_means_gone:
  assumes "run_state (Sweep cl lesson) h = ((removed, None), h')"
  shows "\<exists>cs vs ns rest. h' = h @ listing lesson cs vs ns @ rest
     \<and> (removed = owned_of lesson cs vs ns
        \<or> (\<exists>rest' cs' vs' ns'. rest = rest' @ listing lesson cs' vs' ns'
             \<and> swept (owned_of lesson cs vs ns) removed (owned_of lesson cs' vs' ns')))"
proof -
  obtain new where "h' = h @ new" "sweep_post lesson removed None new"
    by (rule triple_run [OF Sweep_triple assms]) simp
  then show ?thesis unfolding sweep_post_def by blast
qed

lemma noLeak_Nil: "noLeak lesson left = [] \<longleftrightarrow> Empty left"
  by (simp add: noLeak_def Empty_def)

lemma owned_of_Empty:
  "Empty (owned_of lesson cs vs ns) \<longleftrightarrow> (\<forall>c \<in> set cs. \<not> ownedBy (cs_Labels c) lesson)
     \<and> (\<forall>v \<in> set (vs @ ns). \<not> ownedBy (no_Labels v) lesson)"
  by (auto simp: Empty_def owned_of_def ownedContainers_def ownedObjects_def filter_empty_conv)

text \<open>
  The no-leak check reports nothing exactly when no object it listed carries both harness
  labels of the lesson.
\<close>

theorem CheckNoLeak_nothing_owned:
  assumes "run_state (CheckNoLeak cl lesson) h = (Inr bad, h')"
  shows "\<exists>cs vs ns. h' = h @ listing lesson cs vs ns
     \<and> (bad = [] \<longleftrightarrow> (\<forall>c \<in> set cs. \<not> carries (cs_Labels c) lesson)
          \<and> (\<forall>v \<in> set (vs @ ns). \<not> carries (no_Labels v) lesson))"
proof -
  have "triple (CheckNoLeak cl lesson) (\<lambda>r n. case r of Inl _ \<Rightarrow> True
      | Inr bad \<Rightarrow> \<exists>cs vs ns. n = listing lesson cs vs ns \<and> bad = noLeak lesson (owned_of lesson cs vs ns))"
    unfolding CheckNoLeak_def
  proof (rule triple_bind [OF ListLesson_triple], intro triple_rules, goal_cases)
    case (2 l n left)
    then show ?case by auto
  qed simp
  from this assms obtain cs vs ns where "h' = h @ listing lesson cs vs ns"
      "bad = noLeak lesson (owned_of lesson cs vs ns)" by (rule triple_run) auto
  then show ?thesis
    by (intro exI [of _ cs] exI [of _ vs] exI [of _ ns]) (simp add: noLeak_Nil owned_of_Empty ownedBy_carries)
qed

subsection \<open>What is created is owned\<close>

lemma owned_Labels:
  "MatchString lessonRE lesson \<Longrightarrow> owned_object (ContainerName lesson role suf) (Labels lesson)"
  using HasPrefix_append [of "''trinkets-'' @ lesson @ ''-''" "role @ ''-'' @ suf"]
  by (simp add: owned_object_def ContainerName_def)

lemma CreateVolume_settles:
  "triple (CreateVolume cl lesson role)
     (\<lambda>r n. settles cl (is_ok r) {} (case r of Inl _ \<Rightarrow> {} | Inr name \<Rightarrow> {AVolume name}) n)"
  unfolding CreateVolume_def randomSuffix_def call_defs State_Monad.bind_assoc State_Monad.bind_left_identity
  by (intro triple_rules) (auto simp: settles_def bounds_def owned_Labels validLesson_def split: if_splits)

text \<open>
  A fixture network is created as an internal bridge, under the lesson's name prefix and
  with labels that make Sweep find it.
\<close>

theorem FixtureNetwork_internal_and_owned:
  assumes "run_state (FixtureNetwork cl lesson) h = (Inr name, h')"
  shows "last h' = NetworkCreated name ''bridge'' True (Labels lesson) None
     \<and> HasPrefix name (''trinkets-'' @ lesson @ ''-net-'') \<and> ownedBy (Labels lesson) lesson"
proof -
  have "HasPrefix (ContainerName lesson ''net'' suf) (''trinkets-'' @ lesson @ ''-net-'')" for suf
    using HasPrefix_append [of "''trinkets-'' @ lesson @ ''-net-''" suf] by (simp add: ContainerName_def)
  with assms show ?thesis
    by (auto simp: FixtureNetwork_def randomSuffix_def call_defs ask_def Let_def ownedBy_def
        split: option.splits)
qed

text \<open>
  The worker-has-no-route check passes only when the probe ran without error and reported
  lo as its single interface; a missing or refused report never passes.
\<close>

theorem CheckWorkerHasNoRoute_sound:
  assumes "run_state (CheckWorkerHasNoRoute fuel cl worker) h = (Some (Inr []), h')"
  shows "\<exists>res l h1. run_state (Exec fuel cl worker [FixtureBinary, ''interfaces'']) h = (Some (res, None), h1)
     \<and> Find (Parse (res_Stdout res)) ''interfaces'' = Some l \<and> line_OK l \<and> Fields (line_Detail l) = [''lo'']"
proof -
  have "workerHasNoRoute xs = [] \<longleftrightarrow> xs = [''lo'']" for xs
    by (cases xs rule: remdups_adj.cases) (auto simp: workerHasNoRoute_def)
  with assms show ?thesis
    by (auto simp: CheckWorkerHasNoRoute_def split: option.splits prod.splits if_splits)
qed

subsection \<open>The properties on concrete engines\<close>

text \<open>An engine with one leftover of each kind of lesson \<^verbatim>\<open>demo\<close>, and one container of another lesson.\<close>

definition leftover_client :: client where
  "leftover_client = demo_client\<lparr>
     cl_list := (\<lambda>h ctx f. Inr (if removals h = [] then
       [\<lparr>cs_ID = ''i1'', cs_Names = [''/trinkets-demo-worker-0a1b''], cs_Labels = Labels ''demo''\<rparr>,
        \<lparr>cs_ID = ''i2'', cs_Names = [''/other''], cs_Labels = Labels ''other''\<rparr>] else [])),
     cl_volume_list := (\<lambda>h f. Inr [\<lparr>no_Name = ''trinkets-demo-sock-0a1b'', no_Labels = Labels ''demo''\<rparr>]),
     cl_network_list := (\<lambda>h f. Inr [])\<rparr>"

definition demo_sweep :: "(Leftovers \<times> docker_err option) \<times> history" where
  "demo_sweep = run_state (Sweep leftover_client ''demo'') []"

lemma demo_sweep_run: "run_state (Sweep leftover_client ''demo'') [] = ((fst (fst demo_sweep), None), snd demo_sweep)"
proof -
  have "snd (fst demo_sweep) = None" by code_simp
  then show ?thesis by (simp add: demo_sweep_def prod_eq_iff)
qed

lemma demo_sweep_removals:
  "removals (snd demo_sweep) = [(''container'', ''trinkets-demo-worker-0a1b''), (''volume'', ''trinkets-demo-sock-0a1b'')]"
  by code_simp

theorem Sweep_removes_only_owned_witness:
  "(\<exists>new. snd demo_sweep = [] @ new \<and>
    ((\<exists>e. listing_failed ''demo'' e new \<and> None = Some e \<and> fst (fst demo_sweep) = noLeftovers)
     \<or> (\<exists>cs vs ns rest. MatchString lessonRE ''demo'' \<and> new = listing ''demo'' cs vs ns @ rest
         \<and> removals new
             = map (\<lambda>c. (''container'', containerName (cs_Names c) (cs_ID c))) (filter (\<lambda>c. carries (cs_Labels c) ''demo'') cs)
               @ map (\<lambda>v. (''volume'', no_Name v)) (filter (\<lambda>v. carries (no_Labels v) ''demo'') vs)
               @ map (\<lambda>n. (''network'', no_Name n)) (filter (\<lambda>n. carries (no_Labels n) ''demo'') ns))))
   \<and> removals (snd demo_sweep)
       = [(''container'', ''trinkets-demo-worker-0a1b''), (''volume'', ''trinkets-demo-sock-0a1b'')]"
  by (rule conjI [OF Sweep_removes_only_owned [OF demo_sweep_run] demo_sweep_removals])

theorem Sweep_success_means_gone_witness:
  "\<exists>cs vs ns rest. snd demo_sweep = listing ''demo'' cs vs ns @ rest
     \<and> (fst (fst demo_sweep) = owned_of ''demo'' cs vs ns
        \<or> (\<exists>rest' cs' vs' ns'. rest = rest' @ listing ''demo'' cs' vs' ns'
             \<and> swept (owned_of ''demo'' cs vs ns) (fst (fst demo_sweep)) (owned_of ''demo'' cs' vs' ns')))"
  using Sweep_success_means_gone [OF demo_sweep_run] by simp

theorem CheckNoLeak_nothing_owned_witness:
  "\<exists>cs vs ns. snd (run_state (CheckNoLeak demo_client ''demo'') []) = listing ''demo'' cs vs ns
     \<and> (\<forall>c \<in> set cs. \<not> carries (cs_Labels c) ''demo'')"
proof -
  have "fst (run_state (CheckNoLeak demo_client ''demo'') []) = Inr []" by code_simp
  then have run: "run_state (CheckNoLeak demo_client ''demo'') []
      = (Inr [], snd (run_state (CheckNoLeak demo_client ''demo'') []))"
    by (simp add: prod_eq_iff)
  from CheckNoLeak_nothing_owned [OF run] show ?thesis by auto
qed

theorem FixtureNetwork_internal_and_owned_witness:
  "last (snd (run_state (FixtureNetwork demo_client ''demo'') []))
     = NetworkCreated ''trinkets-demo-net-0a1b2c3d'' ''bridge'' True (Labels ''demo'') None"
proof -
  have "fst (run_state (FixtureNetwork demo_client ''demo'') []) = Inr ''trinkets-demo-net-0a1b2c3d''" by code_simp
  then have run: "run_state (FixtureNetwork demo_client ''demo'') []
      = (Inr ''trinkets-demo-net-0a1b2c3d'', snd (run_state (FixtureNetwork demo_client ''demo'') []))"
    by (simp add: prod_eq_iff)
  from FixtureNetwork_internal_and_owned [OF run] show ?thesis by blast
qed

definition demo_worker :: Container where
  "demo_worker = \<lparr>c_ID = ''c1'', c_Name = ''w'', c_Request = demo_request\<rparr>"

theorem CheckWorkerHasNoRoute_sound_witness:
  "\<exists>res l h1. run_state (Exec 5 demo_client demo_worker [FixtureBinary, ''interfaces'']) [] = (Some (res, None), h1)
     \<and> Find (Parse (res_Stdout res)) ''interfaces'' = Some l \<and> line_OK l \<and> Fields (line_Detail l) = [''lo'']"
proof -
  have "fst (run_state (CheckWorkerHasNoRoute 5 demo_client demo_worker) []) = Some (Inr [])" by code_simp
  then have run: "run_state (CheckWorkerHasNoRoute 5 demo_client demo_worker) []
      = (Some (Inr []), snd (run_state (CheckWorkerHasNoRoute 5 demo_client demo_worker) []))"
    by (simp add: prod_eq_iff)
  from CheckWorkerHasNoRoute_sound [OF run] show ?thesis by blast
qed

end
