(* ===== verification/Topology.thy ===== *)
theory Topology
  imports Cleanup
begin

section \<open>The socket topology (internal/lab/docker/topology.go)\<close>

text \<open>
  Preparing a socket volume, waiting for a probe line, and the check that a broker can trust the
  kernel's peer credentials. The two functions that build the probe image first
  (\<^verbatim>\<open>SocketVolume\<close>, \<^verbatim>\<open>VerifyPeerIdentity\<close>) call the ones below with its tag. \<open>WaitLine\<close> polls until its
  context ends, so it carries fuel and gives \<^term>\<open>None\<close> when that is used up.
\<close>

definition removeVolume :: "client \<Rightarrow> string \<Rightarrow> docker_err option prog" where
  "removeVolume cl name = do {
     r \<leftarrow> volumeRemove cl Detached name;
     ret (map_option (VolumeFailed name) r) }"

definition sockMount :: "string \<Rightarrow> bool \<Rightarrow> Mount" where
  "sockMount name ro =
     \<lparr>mt_Type = MountVolume, mt_Source = name, mt_Target = SocketDir, mt_ReadOnly = ro, mt_TmpfsSize = 0\<rparr>"

definition prepSpec :: "string \<Rightarrow> string \<Rightarrow> string \<Rightarrow> int \<Rightarrow> int \<Rightarrow> Spec" where
  "prepSpec lesson img name brokerUID socketGID =
     (let s = Restricted lesson ''sockinit'' img
                [''initdir'', SocketDir, owner brokerUID socketGID, socketDirMode]
      in s\<lparr>sp_User := owner 0 socketGID, sp_CapAdd := Some [''CHOWN'', ''FOWNER''],
           sp_Mounts := sp_Mounts s @ [sockMount name False]\<rparr>)"

definition socketVolume ::
    "client \<Rightarrow> string \<Rightarrow> string \<Rightarrow> int \<Rightarrow> int \<Rightarrow> (docker_err, Mount \<times> Mount) result prog" where
  "socketVolume cl lesson img brokerUID socketGID =
     (if \<not> validID brokerUID \<or> \<not> validID socketGID then ret (Inl (OwnerOutOfRange brokerUID socketGID))
      else do {
        v \<leftarrow> CreateVolume cl lesson ''sock'';
        case v of
          Inl e \<Rightarrow> ret (Inl e)
        | Inr name \<Rightarrow> do {
            r \<leftarrow> Run cl (prepSpec lesson img name brokerUID socketGID);
            let res = fst r;
            let err = (if snd r = None \<and> res_ExitCode res \<noteq> 0
                       then Some (ExitNonZero (res_ExitCode res) (res_Stdout res) (res_Stderr res))
                       else snd r);
            case err of
              Some e \<Rightarrow> do {
                rv \<leftarrow> removeVolume cl name;
                ret (Inl (the (errors_Join [Some (InitFailed name e), rv]))) }
            | None \<Rightarrow> ret (Inr (sockMount name False, sockMount name True)) } })"

fun WaitLine :: "nat \<Rightarrow> client \<Rightarrow> Container \<Rightarrow> string \<Rightarrow> (docker_err, line) result option prog" where
  "WaitLine 0 cl c name = ret None"
| "WaitLine (Suc n) cl c name = do {
     l \<leftarrow> Logs cl c;
     case l of
       Inl e \<Rightarrow> ret (Some (Inl e))
     | Inr (stdout, _) \<Rightarrow>
         (case Find (Parse stdout) name of
            Some l \<Rightarrow> ret (Some (Inr l))
          | None \<Rightarrow> do {
              d \<leftarrow> ctxErr cl;
              case d of
                Some e \<Rightarrow> ret (Some (Inl (NoProbeLine (c_Name c) name stdout e)))
              | None \<Rightarrow> WaitLine n cl c name }) }"

definition dialSpec :: "string \<Rightarrow> string \<Rightarrow> PeerIdentities \<Rightarrow> Mount \<Rightarrow> string \<Rightarrow> int \<Rightarrow> bool \<Rightarrow> Spec" where
  "dialSpec lesson img ids workerMount role uid inGroup =
     (let s = WorkerSpec lesson role img uid uid (pi_SocketGID ids) workerMount
                [''dial'', ''unix'', PeerSocket, ''peer'' @ [CHR 0x0A]]
      in if \<not> inGroup then s\<lparr>sp_Groups := []\<rparr> else s)"

fun dialAll :: "client \<Rightarrow> string \<Rightarrow> string \<Rightarrow> PeerIdentities \<Rightarrow> Mount \<Rightarrow> PeerDial list
    \<Rightarrow> (string \<times> int \<times> bool) list \<Rightarrow> (PeerDial list \<times> docker_err option) prog" where
  "dialAll cl lesson img ids workerMount dials [] =
     ret (let bad = checkPeerIdentity dials
          in if length bad > 0 then (dials, Some (PeerUntrusted bad)) else (dials, None))"
| "dialAll cl lesson img ids workerMount dials ((role, uid, inGroup) # ds) = do {
     r \<leftarrow> Run cl (dialSpec lesson img ids workerMount role uid inGroup);
     case snd r of
       Some e \<Rightarrow> ret (dials, Some e)
     | None \<Rightarrow> dialAll cl lesson img ids workerMount
         (dials @ [\<lparr>pd_Role = role, pd_UID = uid, pd_GID = uid, pd_InGroup = inGroup,
                    pd_Stdout = res_Stdout (fst r)\<rparr>]) ds }"

definition plannedDials :: "PeerIdentities \<Rightarrow> (string \<times> int \<times> bool) list" where
  "plannedDials ids =
     [(''worker'' @ Itoa 1, fst (pi_Workers ids), True), (''worker'' @ Itoa 2, snd (pi_Workers ids), True),
      (''outsider'', pi_Outsider ids, False)]"

definition brokerBody :: "nat \<Rightarrow> client \<Rightarrow> string \<Rightarrow> string \<Rightarrow> PeerIdentities \<Rightarrow> Mount \<Rightarrow> Container
    \<Rightarrow> (PeerDial list \<times> docker_err option) option prog" where
  "brokerBody fuel cl lesson img ids workerMount b = do {
     w \<leftarrow> WaitLine fuel cl b ''listen'';
     case w of
       None \<Rightarrow> ret None
     | Some (Inl e) \<Rightarrow> ret (Some ([], Some e))
     | Some (Inr l) \<Rightarrow>
         (if \<not> line_OK l then ret (Some ([], Some (BrokerCannotListen (c_Name b) (line_Detail l))))
          else do { r \<leftarrow> dialAll cl lesson img ids workerMount [] (plannedDials ids); ret (Some r) }) }"

definition withBroker :: "nat \<Rightarrow> client \<Rightarrow> string \<Rightarrow> string \<Rightarrow> PeerIdentities \<Rightarrow> Mount \<Rightarrow> Mount
    \<Rightarrow> (PeerDial list \<times> docker_err option) option prog" where
  "withBroker fuel cl lesson img ids brokerMount workerMount = do {
     s \<leftarrow> Start cl (BrokerSpec lesson img (pi_BrokerUID ids) (pi_SocketGID ids) brokerMount
           [''peer-echo'', PeerSocket]);
     case s of
       Inl e \<Rightarrow> ret (Some ([], Some e))
     | Inr b \<Rightarrow> do {
         r \<leftarrow> brokerBody fuel cl lesson img ids workerMount b;
         case r of
           None \<Rightarrow> ret None
         | Some (dials, err) \<Rightarrow> do {
             rm \<leftarrow> Remove cl b;
             ret (Some (dials, errors_Join [err, rm])) } } }"

definition verifyPeerIdentity :: "nat \<Rightarrow> client \<Rightarrow> string \<Rightarrow> string \<Rightarrow> PeerIdentities
    \<Rightarrow> (PeerDial list \<times> docker_err option) option prog" where
  "verifyPeerIdentity fuel cl lesson img ids =
     (if \<not> identities_valid ids then ret (Some ([], Some IdentitiesInvalid))
      else do {
        v \<leftarrow> socketVolume cl lesson img (pi_BrokerUID ids) (pi_SocketGID ids);
        case v of
          Inl e \<Rightarrow> ret (Some ([], Some e))
        | Inr (brokerMount, workerMount) \<Rightarrow> do {
            r \<leftarrow> withBroker fuel cl lesson img ids brokerMount workerMount;
            case r of
              None \<Rightarrow> ret None
            | Some (dials, err) \<Rightarrow> do {
                rv \<leftarrow> removeVolume cl (mt_Source brokerMount);
                ret (Some (dials, errors_Join [err, rv])) } } })"

subsection \<open>The topology settles what it creates\<close>

lemma removeVolume_settles:
  "triple (removeVolume cl name) (\<lambda>r n. settles cl (r = None) {AVolume name} {} n)"
  unfolding removeVolume_def call_defs
  by (intro triple_rules) (auto simp: settles_def bounds_def)

lemma settles_then:
  assumes "settles cl ok A B n" "settles cl ok' {} {} n'" "ok'' \<Longrightarrow> ok \<and> ok'"
  shows "settles cl ok'' A B (n @ n')"
  using settles_seq [OF assms(1,2), of ok'' A B] assms(3) by simp

lemma socketVolume_settles:
  "triple (socketVolume cl lesson img u g) (\<lambda>r n. settles cl (is_ok r) {}
     (case r of Inl _ \<Rightarrow> {} | Inr ms \<Rightarrow> {AVolume (mt_Source (fst ms))}) n)"
  unfolding socketVolume_def
proof (intro triple_rules, goal_cases)
  case 1
  then show ?case by simp
next
  case 2
  show ?case
  proof (rule triple_bind [OF CreateVolume_settles], intro triple_rules, goal_cases)
    case (1 v n e)
    then show ?case by simp
  next
    case (2 v n name)
    then have n: "settles cl True {} {AVolume name} n" by simp
    show ?case
    proof (rule triple_bind [OF Run_settles], intro triple_rules, goal_cases)
      case (1 r m)
      then have "snd r = None" by (auto split: if_splits)
      with settles_then [OF n 1(1), of True] show ?case by (simp add: sockMount_def)
    next
      case (2 r m e)
      have nm: "settles cl False {} {AVolume name} (n @ m)" using settles_then [OF n 2(1), of False] by simp
      show ?case
      proof (rule triple_bind [OF removeVolume_settles], intro triple_rules, goal_cases)
        case (1 rv k)
        then show ?case using settles_seq [OF nm 1, of False "{}" "{}"] by simp
      qed
    qed
  qed
qed

lemma WaitLine_quiet: "triple (WaitLine fuel cl c name) (\<lambda>r n. list_all quiet n)"
proof (induction fuel)
  case (Suc fuel)
  show ?case
    unfolding WaitLine.simps call_defs
  proof (rule triple_bind [OF Logs_quiet], intro triple_rules, goal_cases)
    case (3 l n y so se x)
    then show ?case by (auto intro!: triple_rules triple_mono [OF Suc.IH] simp: ctxErr_def)
  qed (auto intro!: triple_mono [OF Suc.IH])
qed (auto intro: triple_rules)

lemma dialAll_settles:
  "triple (dialAll cl lesson img ids wm dials ds) (\<lambda>r n. settles cl (snd r = None) {} {} n)"
proof (induction ds arbitrary: dials)
  case Nil
  show ?case by (auto intro: triple_rules)
next
  case (Cons d ds)
  obtain role uid g where d: "d = (role, uid, g)" by (cases d) auto
  show ?case
    unfolding d dialAll.simps
  proof (rule triple_bind [OF Run_settles], intro triple_rules, goal_cases)
    case (1 r n)
    then show ?case
      by (intro triple_mono [OF Cons.IH]) (auto intro: settles_then)
  next
    case (2 r n e)
    then show ?case by (auto intro: settles_weaken)
  qed
qed

definition done_ok :: "('a \<times> docker_err option) option \<Rightarrow> bool" where
  "done_ok r \<longleftrightarrow> (\<exists>x. r = Some (x, None))"

lemma brokerBody_settles:
  "triple (brokerBody fuel cl lesson img ids wm b) (\<lambda>r n. settles cl (done_ok r) {} {} n)"
  unfolding brokerBody_def
proof (rule triple_bind [OF WaitLine_quiet], intro triple_rules, goal_cases)
  case (4 w n y l)
  then show ?case
    by (intro triple_bind [OF dialAll_settles] triple_rules)
       (auto intro!: settles_then [OF settles_quiet [of n cl True]] simp: done_ok_def)
qed (simp_all add: settles_quiet)

lemma withBroker_settles:
  "triple (withBroker fuel cl lesson img ids bm wm)
     (\<lambda>r n. r \<noteq> None \<longrightarrow> settles cl (done_ok r) {} {} n)"
  unfolding withBroker_def
proof (rule triple_bind [OF Start_settles], intro triple_rules, goal_cases)
  case (1 s n e)
  then show ?case by (auto simp: done_ok_def)
next
  case (2 s n b)
  then have n: "settles cl True {} {AContainer (c_ID b)} n" by simp
  show ?case
  proof (rule triple_bind [OF brokerBody_settles], intro triple_rules, goal_cases)
    case (2 r m y dials err)
    have nm: "settles cl (err = None) {} {AContainer (c_ID b)} (n @ m)"
      by (rule settles_then [OF n 2(1)]) (use 2 in \<open>simp add: done_ok_def\<close>)
    show ?case
    proof (rule triple_bind [OF Remove_settles], intro triple_rules impI, goal_cases)
      case (1 rm k)
      then show ?case
        using settles_seq [OF nm 1(1), of "err = None \<and> rm = None" "{}" "{}"] by (simp add: done_ok_def)
    qed
  qed simp
qed

lemma verifyPeerIdentity_settles:
  "triple (verifyPeerIdentity fuel cl lesson img ids)
     (\<lambda>r n. r \<noteq> None \<longrightarrow> settles cl (done_ok r) {} {} n)"
  unfolding verifyPeerIdentity_def
proof (intro triple_rules, goal_cases)
  case 1
  then show ?case by (simp add: done_ok_def)
next
  case 2
  show ?case
  proof (rule triple_bind [OF socketVolume_settles], intro triple_rules, goal_cases)
    case (1 v n e)
    then show ?case by (simp add: done_ok_def)
  next
    case (2 v n y bm wm)
    then have n: "settles cl True {} {AVolume (mt_Source bm)} n" by simp
    show ?case
    proof (rule triple_bind [OF withBroker_settles], intro triple_rules, goal_cases)
      case (2 r m y dials err)
      have nm: "settles cl (err = None) {} {AVolume (mt_Source bm)} (n @ m)"
        by (rule settles_then [OF n, of "done_ok r"]) (use 2 in \<open>auto simp: done_ok_def\<close>)
      show ?case
      proof (rule triple_bind [OF removeVolume_settles], intro triple_rules impI, goal_cases)
        case (1 rv k)
        then show ?case
          using settles_seq [OF nm 1(1), of "err = None \<and> rv = None" "{}" "{}"] by (simp add: done_ok_def)
      qed
    qed simp
  qed
qed

text \<open>
  The peer-identity check cleans up after itself on every path that returns: each container
  and volume it created is removed (at least tried, and confirmed when it reports no error), every
  container it created passed the config invariants first, every volume is labelled for the
  lesson, and all removals run on a context detached from the caller's.
\<close>

theorem verifyPeerIdentity_leaves_nothing:
  assumes "run_state (verifyPeerIdentity fuel cl lesson img ids) h = (Some (dials, err), h')"
  shows "\<exists>new. h' = h @ new \<and> list_all (safe_event cl) new \<and> owed attempted new {} = {}
           \<and> (err = None \<longrightarrow> owed confirmed new {} = {})"
proof -
  obtain new where "h' = h @ new" "settles cl (done_ok (Some (dials, err))) {} {} new"
    by (rule triple_run [OF verifyPeerIdentity_settles assms]) simp
  then show ?thesis by (auto simp: settles_def done_ok_def bounds_owed)
qed

definition demo_verify :: "(PeerDial list \<times> docker_err option) option \<times> history" where
  "demo_verify = run_state (verifyPeerIdentity 3 demo_client ''demo'' ''probe:dev'' DefaultPeerIdentities) []"

theorem verifyPeerIdentity_leaves_nothing_witness:
  "\<exists>dials err. fst demo_verify = Some (dials, err) \<and> owed attempted (snd demo_verify) {} = {}
     \<and> list_all (safe_event demo_client) (snd demo_verify)"
proof -
  have "fst demo_verify \<noteq> None" by code_simp
  then obtain dials err where "fst demo_verify = Some (dials, err)" by auto
  moreover from this have run: "run_state (verifyPeerIdentity 3 demo_client ''demo'' ''probe:dev'' DefaultPeerIdentities) []
      = (Some (dials, err), snd demo_verify)"
    by (simp add: demo_verify_def prod_eq_iff)
  ultimately show ?thesis using verifyPeerIdentity_leaves_nothing [OF run] by auto
qed

end
