(* ===== verification/Threads.thy ===== *)
theory Threads
  imports Prelude
begin

section \<open>Goroutines that share services\<close>

text \<open>
  The lesson programs run the same operation from many goroutines, each of which talks to a
  shared service (Postgres, a cache, a SQLite file) in several calls. A \<open>thread\<close> is such a
  goroutine seen as the sequence of its service calls: it is finished with a result, or its
  next call takes an input \<open>i\<close> of the environment (which fault the service answers with, what
  the clock shows) and the shared world, and gives the rest of the thread and the new world.
  A call that has to wait, such as a row lock held by another transaction, gives \<^term>\<open>None\<close>:
  the thread cannot move in that world.

  One definition of an operation as a thread serves both readings: \<open>run\<close> executes it alone,
  and a \<open>system\<close> of threads interleaves the calls of all of them in any order.
\<close>

datatype ('i, 'w, 'a) thread =
  Done 'a
| Step "'i \<Rightarrow> 'w \<Rightarrow> (('i, 'w, 'a) thread \<times> 'w) option"

text \<open>
  The input of one call: how the service answers and what the clock shows. A service that
  reports an error has normally not done the work; a commit whose acknowledgement is lost has.
\<close>

datatype fault = Fine | Fails string | FailsApplied string

record tick =
  tick_fault :: fault
  tick_clock :: int

definition fault_err :: "fault \<Rightarrow> string option" where
  "fault_err f = (case f of Fine \<Rightarrow> None | Fails e \<Rightarrow> Some e | FailsApplied e \<Rightarrow> Some e)"

definition calm :: "tick \<Rightarrow> bool" where
  "calm i \<longleftrightarrow> tick_fault i = Fine"

definition time_Now :: "tick \<Rightarrow> 'w \<Rightarrow> int \<times> 'w" where
  "time_Now i w = (tick_clock i, w)"

definition time_Sleep :: "int \<Rightarrow> tick \<Rightarrow> 'w \<Rightarrow> unit \<times> 'w" where
  "time_Sleep d i w = ((), w)"

definition atomically :: "('i \<Rightarrow> 'w \<Rightarrow> 'b \<times> 'w) \<Rightarrow> ('b \<Rightarrow> ('i, 'w, 'a) thread) \<Rightarrow> ('i, 'w, 'a) thread" where
  "atomically f k = Step (\<lambda>i w. let (b, w') = f i w in Some (k b, w'))"

definition waiting :: "('i \<Rightarrow> 'w \<Rightarrow> ('b \<times> 'w) option) \<Rightarrow> ('b \<Rightarrow> ('i, 'w, 'a) thread) \<Rightarrow> ('i, 'w, 'a) thread" where
  "waiting f k = Step (\<lambda>i w. case f i w of None \<Rightarrow> None | Some (b, w') \<Rightarrow> Some (k b, w'))"

primrec and_then :: "('i, 'w, 'a) thread \<Rightarrow> ('a \<Rightarrow> ('i, 'w, 'b) thread) \<Rightarrow> ('i, 'w, 'b) thread" where
  "and_then (Done a) k = k a"
| "and_then (Step f) k = Step (\<lambda>i w. map_option (map_prod (\<lambda>t. and_then t k) id) (f i w))"

text \<open>\<open>load f\<close> reads one shared variable.\<close>

definition load :: "('w \<Rightarrow> 'v) \<Rightarrow> 'i \<Rightarrow> 'w \<Rightarrow> 'v \<times> 'w" where
  "load f i w = (f w, w)"

text \<open>\<open>zoom\<close> runs a thread of one part of a larger world.\<close>

primrec zoom :: "('s \<Rightarrow> 'w) \<Rightarrow> ('w \<Rightarrow> 's \<Rightarrow> 's) \<Rightarrow> ('i, 'w, 'a) thread \<Rightarrow> ('i, 's, 'a) thread" where
  "zoom get put (Done a) = Done a"
| "zoom get put (Step f) = Step (\<lambda>i s. map_option (\<lambda>(t, w). (t, put w s))
     (map_option (map_prod (zoom get put) id) (f i (get s))))"

text \<open>\<open>only P\<close> is the thread whose environment gives it inputs of \<open>P\<close> alone.\<close>

primrec only :: "('i \<Rightarrow> bool) \<Rightarrow> ('i, 'w, 'a) thread \<Rightarrow> ('i, 'w, 'a) thread" where
  "only P (Done a) = Done a"
| "only P (Step f) = Step (\<lambda>i w. if P i then map_option (map_prod (only P) id) (f i w) else None)"

fun result_of :: "('i, 'w, 'a) thread \<Rightarrow> 'a option" where
  "result_of (Done a) = Some a"
| "result_of (Step f) = None"

fun run :: "('i, 'w, 'a) thread \<Rightarrow> 'i list \<Rightarrow> 'w \<Rightarrow> ('i, 'w, 'a) thread \<times> 'w" where
  "run (Done a) is w = (Done a, w)"
| "run (Step f) [] w = (Step f, w)"
| "run (Step f) (i # is) w = (case f i w of None \<Rightarrow> run (Step f) is w | Some (t, w') \<Rightarrow> run t is w')"

type_synonym ('i, 'w, 'a) system = "'w \<times> ('i, 'w, 'a) thread list"

inductive sys_step :: "('i, 'w, 'a) system \<Rightarrow> nat \<Rightarrow> ('i, 'w, 'a) system \<Rightarrow> bool" where
  sys_step: "n < length ts \<Longrightarrow> ts ! n = Step f \<Longrightarrow> f i w = Some (t, w')
    \<Longrightarrow> sys_step (w, ts) n (w', ts[n := t])"

inductive_cases sys_stepE: "sys_step (w, ts) n c"

inductive reaches :: "('i, 'w, 'a) system \<Rightarrow> ('i, 'w, 'a) system \<Rightarrow> bool" where
  reaches_refl: "reaches c c"
| reaches_step: "reaches c c' \<Longrightarrow> sys_step c' n c'' \<Longrightarrow> reaches c c''"

fun schedule :: "(nat \<times> 'i) list \<Rightarrow> ('i, 'w, 'a) system \<Rightarrow> ('i, 'w, 'a) system" where
  "schedule [] c = c"
| "schedule ((n, i) # s) (w, ts) =
     (if n < length ts
      then case ts ! n of Done a \<Rightarrow> schedule s (w, ts)
        | Step f \<Rightarrow> (case f i w of None \<Rightarrow> schedule s (w, ts)
            | Some (t, w') \<Rightarrow> schedule s (w', ts[n := t]))
      else schedule s (w, ts))"

definition finished :: "('i, 'w, 'a) system \<Rightarrow> bool" where
  "finished c \<longleftrightarrow> list_all (\<lambda>t. result_of t \<noteq> None) (snd c)"

definition results :: "('i, 'w, 'a) system \<Rightarrow> 'a list" where
  "results c = List.map_filter result_of (snd c)"

lemma reaches_trans: "reaches c' c'' \<Longrightarrow> reaches c c' \<Longrightarrow> reaches c c''"
  by (induction rule: reaches.induct) (auto intro: reaches_step)

text \<open>Whatever the executable scheduler computes is an interleaving of the step relation.\<close>

lemma schedule_reaches: "reaches c (schedule s c)"
proof (induction s c rule: schedule.induct)
  case (2 n i s w ts)
  show ?case
  proof (cases "\<exists>f t w'. n < length ts \<and> ts ! n = Step f \<and> f i w = Some (t, w')")
    case True
    then obtain f t w' where f: "n < length ts" "ts ! n = Step f" "f i w = Some (t, w')"
      by blast
    then have "reaches (w, ts) (w', ts[n := t])"
      by (blast intro: reaches_step reaches_refl sys_step)
    moreover from f 2 have "reaches (w', ts[n := t]) (schedule s (w', ts[n := t]))" by auto
    ultimately show ?thesis using f by (auto intro: reaches_trans)
  next
    case False
    with 2 show ?thesis by (auto split: thread.splits option.splits)
  qed
qed (simp add: reaches_refl)

lemma reaches_length: "reaches c c' \<Longrightarrow> length (snd c') = length (snd c)"
  by (induction rule: reaches.induct) (auto elim: sys_step.cases)

lemma reaches_finished: "reaches c c' \<Longrightarrow> finished c \<Longrightarrow> c' = c"
proof (induction rule: reaches.induct)
  case (reaches_step c c' n c'')
  then have "c' = c" "finished c'" by auto
  with reaches_step.hyps(2) show ?case
    by (auto elim!: sys_step.cases simp: finished_def list_all_length)
qed simp

lemma result_of_only [simp]: "result_of (only P t) = result_of t"
  by (cases t) simp_all

lemma schedule_only:
  "list_all (\<lambda>s. P (snd s)) s
   \<Longrightarrow> schedule s (w, map (only P) ts) = map_prod id (map (only P)) (schedule s (w, ts))"
proof (induction s arbitrary: w ts)
  case (Cons e s)
  obtain n i where e: "e = (n, i)" by (cases e)
  show ?case
  proof (cases "n < length ts")
    case True
    with Cons e show ?thesis
      by (cases "ts ! n") (auto split: option.splits simp flip: map_update)
  qed (use Cons e in simp)
qed simp

subsection \<open>Termination\<close>

text \<open>
  A thread is a well-founded tree of calls, so no interleaving goes on for ever; and where some
  thread can always move, every system can be run to its end.
\<close>

definition subthread :: "(('i, 'w, 'a) thread \<times> ('i, 'w, 'a) thread) set" where
  "subthread = {(t, u). \<exists>f i w w'. u = Step f \<and> f i w = Some (t, w')}"

lemma wf_subthread: "wf (subthread :: (('i, 'w, 'a) thread \<times> _) set)"
proof (rule wfUNIVI)
  fix P :: "('i, 'w, 'a) thread \<Rightarrow> bool" and t :: "('i, 'w, 'a) thread"
  assume step: "\<forall>u. (\<forall>t. (t, u) \<in> subthread \<longrightarrow> P t) \<longrightarrow> P u"
  show "P t"
  proof (induction t)
    case (Done a)
    show ?case by (rule step [rule_format]) (simp add: subthread_def)
  next
    case (Step f)
    show ?case
    proof (rule step [rule_format])
      fix t
      assume "(t, Step f) \<in> subthread"
      then obtain i w w' where "f i w = Some (t, w')" by (auto simp: subthread_def)
      with Step [of "f i" "f i w" "(t, w')" t] rangeI [of "f i" w] show "P t" by auto
    qed
  qed
qed

lemma sys_step_listrel1: "sys_step c n c' \<Longrightarrow> (snd c', snd c) \<in> listrel1 subthread"
proof (induction rule: sys_step.induct)
  case (sys_step n ts f i w t w')
  then have "ts[n := t] = take n ts @ t # drop (Suc n) ts" "ts = take n ts @ Step f # drop (Suc n) ts"
    by (simp_all add: upd_conv_take_nth_drop id_take_nth_drop [of n ts, symmetric]) (metis id_take_nth_drop)
  moreover have "(t, Step f) \<in> subthread" using sys_step by (auto simp: subthread_def)
  ultimately show ?case by (metis listrel1I snd_conv)
qed

lemma sys_step_wf: "wf {(c', c). \<exists>n. sys_step c n c'}"
  by (rule wf_subset [OF wf_inv_image [where f = snd, OF wf_listrel1_iff [THEN iffD2, OF wf_subthread]]])
    (auto simp: in_inv_image dest: sys_step_listrel1)

lemma schedule_append: "schedule (s @ s') c = schedule s' (schedule s c)"
proof (induction s c rule: schedule.induct)
  case (2 n i s w ts)
  then show ?case by (auto split: thread.splits option.splits)
qed simp

lemma can_reach:
  assumes "\<And>w' ts'. reaches c (w', ts') \<Longrightarrow> \<not> E (w', ts') \<Longrightarrow> \<exists>n f. n < length ts' \<and> ts' ! n = Step f \<and> f i w' \<noteq> None"
  shows "\<exists>s. list_all (\<lambda>e. snd e = i) s \<and> E (schedule s c)"
  using assms
proof (induction c rule: wf_induct_rule [OF sys_step_wf])
  case (1 c)
  show ?case
  proof (cases "E c")
    case True
    then show ?thesis by (intro exI [of _ "[]"]) simp
  next
    case False
    obtain w ts where c: "c = (w, ts)" by (cases c)
    with 1(2) [of w ts] False obtain n f t w' where s: "n < length ts" "ts ! n = Step f" "f i w = Some (t, w')"
      by (auto intro: reaches_refl)
    then have step: "sys_step c n (w', ts[n := t])" unfolding c by (rule sys_step)
    then have r: "reaches c (w', ts[n := t])" by (blast intro: reaches_step reaches_refl)
    have "\<exists>s. list_all (\<lambda>e. snd e = i) s \<and> E (schedule s (w', ts[n := t]))"
      by (rule 1(1)) (use step 1(2) reaches_trans [OF _ r] in auto)
    then obtain s' where "list_all (\<lambda>e. snd e = i) s'" "E (schedule s' (w', ts[n := t]))" by blast
    with s c show ?thesis by (intro exI [of _ "(n, i) # s'"]) simp
  qed
qed

lemma can_finish:
  assumes "\<And>w' ts'. reaches c (w', ts') \<Longrightarrow> \<not> finished (w', ts') \<Longrightarrow>
    \<exists>n f. n < length ts' \<and> ts' ! n = Step f \<and> f i w' \<noteq> None"
  shows "\<exists>s. list_all (\<lambda>e. snd e = i) s \<and> finished (schedule s c)"
  using assms by (rule can_reach)

subsection \<open>A thread that runs alone\<close>

text \<open>
  \<open>within P d t w Q\<close>: run alone from the world \<open>w\<close>, with inputs of \<open>P\<close>, the thread \<open>t\<close> never waits,
  returns after at most \<open>d\<close> calls, and its result and the world it leaves satisfy \<open>Q\<close>.
\<close>

fun within :: "('i \<Rightarrow> bool) \<Rightarrow> nat \<Rightarrow> ('i, 'w, 'a) thread \<Rightarrow> 'w \<Rightarrow> ('a \<Rightarrow> 'w \<Rightarrow> bool) \<Rightarrow> bool" where
  "within P d (Done a) w Q = Q a w"
| "within P 0 (Step f) w Q = False"
| "within P (Suc d) (Step f) w Q = (\<forall>i. P i \<longrightarrow> (\<exists>t w'. f i w = Some (t, w') \<and> within P d t w' Q))"

named_theorems within_rules \<open>decomposition rules for threads that run alone\<close>

lemma within_atomically [within_rules]:
  "(\<And>i b w'. P i \<Longrightarrow> f i w = (b, w') \<Longrightarrow> within P d (k b) w' Q) \<Longrightarrow> within P (Suc d) (atomically f k) w Q"
  by (auto simp: atomically_def split: prod.splits)

lemma within_more: "within P d t w Q \<Longrightarrow> d \<le> e \<Longrightarrow> within P e t w Q"
proof (induction P d t w Q arbitrary: e rule: within.induct)
  case (3 P d f w Q)
  then show ?case by (cases e) fastforce+
qed simp_all

lemma within_mono: "within P d t w Q \<Longrightarrow> (\<And>a w. Q a w \<Longrightarrow> R a w) \<Longrightarrow> within P d t w R"
  by (induction P d t w Q rule: within.induct) fastforce+

lemma within_and_then:
  assumes "within P d t w Q" "\<And>a w. Q a w \<Longrightarrow> within P e (k a) w R"
  shows "within P (d + e) (and_then t k) w R"
  using assms
proof (induction P d t w Q rule: within.induct)
  case (1 P d a w Q)
  then have "within P e (k a) w R" by simp
  then show ?case by (simp add: within_more)
next
  case (3 P d f w Q)
  then show ?case by fastforce
qed simp

lemma within_zoom_snd:
  "within P d t w Q \<Longrightarrow> within P d (zoom snd (\<lambda>w s. (fst s, w)) t) (c, w) (\<lambda>a s. fst s = c \<and> Q a (snd s))"
proof (induction P d t w Q rule: within.induct)
  case (3 P d f w Q)
  show ?case
    unfolding zoom.simps within.simps
  proof (intro allI impI)
    fix i
    assume i: "P i"
    with "3.prems" obtain t w' where t: "f i w = Some (t, w')" "within P d t w' Q" by auto
    from "3.IH" [OF i this(2)] t(1) show "\<exists>t w'. map_option (\<lambda>(t, w'). (t, fst (c, w), w'))
        (map_option (map_prod (zoom snd (\<lambda>w s. (fst s, w))) id) (f i (snd (c, w)))) = Some (t, w')
        \<and> within P d t w' (\<lambda>a s. fst s = c \<and> Q a (snd s))"
      by auto
  qed
qed simp_all

lemma within_run:
  "within P d t w Q \<Longrightarrow> list_all P is \<Longrightarrow> d \<le> length is \<Longrightarrow> \<exists>a w'. run t is w = (Done a, w') \<and> Q a w'"
proof (induction P d t w Q arbitrary: "is" rule: within.induct)
  case (3 P d f w Q)
  then show ?case by (cases "is") fastforce+
qed auto

subsection \<open>Rely and guarantee\<close>

text \<open>
  \<open>safe R G M Q t w\<close>: from the world \<open>w\<close>, while the other threads change the world only
  within the rely \<open>R\<close>, every call of \<open>t\<close> changes it within the guarantee \<open>G\<close>, every call of
  \<open>t\<close> goes through at once for an input and a world of \<open>M\<close>, and when \<open>t\<close> returns \<open>a\<close> the
  postcondition \<open>Q a\<close> holds and stays.
\<close>

inductive safe :: "('w \<Rightarrow> 'w \<Rightarrow> bool) \<Rightarrow> ('w \<Rightarrow> 'w \<Rightarrow> bool) \<Rightarrow> ('i \<Rightarrow> 'w \<Rightarrow> bool) \<Rightarrow> ('a \<Rightarrow> 'w \<Rightarrow> bool)
    \<Rightarrow> ('i, 'w, 'a) thread \<Rightarrow> 'w \<Rightarrow> bool" for R G M Q where
  safe_Done: "(\<And>w'. R w w' \<Longrightarrow> Q a w') \<Longrightarrow> safe R G M Q (Done a) w"
| safe_Step: "(\<And>w' i t w''. R w w' \<Longrightarrow> f i w' = Some (t, w'') \<Longrightarrow> G w' w'' \<and> safe R G M Q t w'')
    \<Longrightarrow> (\<And>w' i. R w w' \<Longrightarrow> M i w' \<Longrightarrow> f i w' \<noteq> None) \<Longrightarrow> safe R G M Q (Step f) w"

inductive_cases safe_DoneE: "safe R G M Q (Done a) w"
inductive_cases safe_StepE: "safe R G M Q (Step f) w"

lemma safe_StepD:
  "safe R G M Q (Step f) w \<Longrightarrow> R w w' \<Longrightarrow> f i w' = Some (t, w'') \<Longrightarrow> G w' w'' \<and> safe R G M Q t w''"
  by (blast elim: safe_StepE)

lemma safe_StepM: "safe R G M Q (Step f) w \<Longrightarrow> R w w' \<Longrightarrow> M i w' \<Longrightarrow> f i w' \<noteq> None"
  by (blast elim: safe_StepE)

lemma safe_atomically:
  assumes "\<And>w' i b w''. R w w' \<Longrightarrow> f i w' = (b, w'') \<Longrightarrow> G w' w'' \<and> safe R G M Q (k b) w''"
  shows "safe R G M Q (atomically f k) w"
  unfolding atomically_def using assms by (intro safe_Step) (auto split: prod.splits)

lemma safe_waiting:
  assumes "\<And>w' i b w''. R w w' \<Longrightarrow> f i w' = Some (b, w'') \<Longrightarrow> G w' w'' \<and> safe R G M Q (k b) w''"
    and "\<And>w' i. R w w' \<Longrightarrow> M i w' \<Longrightarrow> f i w' \<noteq> None"
  shows "safe R G M Q (waiting f k) w"
  unfolding waiting_def using assms by (intro safe_Step) (auto split: option.splits)

lemma safe_only_atomically:
  assumes "\<And>w' i b w''. R w w' \<Longrightarrow> P i \<Longrightarrow> f i w' = (b, w'') \<Longrightarrow>
    G w' w'' \<and> safe R G (\<lambda>_ _. False) Q (only P (k b)) w''"
  shows "safe R G (\<lambda>_ _. False) Q (only P (atomically f k)) w"
  unfolding atomically_def only.simps using assms
  by (intro safe_Step) (auto split: prod.splits if_splits)

lemma safe_only_waiting:
  assumes "\<And>w' i b w''. R w w' \<Longrightarrow> P i \<Longrightarrow> f i w' = Some (b, w'') \<Longrightarrow>
    G w' w'' \<and> safe R G (\<lambda>_ _. False) Q (only P (k b)) w''"
  shows "safe R G (\<lambda>_ _. False) Q (only P (waiting f k)) w"
  unfolding waiting_def only.simps using assms
  by (intro safe_Step) (auto split: option.splits if_splits)

lemma safe_and_then:
  assumes "safe R G M Q t w" "R w w" "\<And>a w. Q a w \<Longrightarrow> R w w \<Longrightarrow> safe R G M Q' (k a) w"
    and "\<And>w. R w w"
  shows "safe R G M Q' (and_then t k) w"
  using assms(1,2)
proof (induction rule: safe.induct)
  case (safe_Done w a)
  then show ?case using assms(3) by simp
next
  case (safe_Step w f)
  show ?case
    unfolding and_then.simps
  proof (rule safe.safe_Step)
    fix w' i t w''
    assume "R w w'" "map_option (map_prod (\<lambda>t. and_then t k) id) (f i w') = Some (t, w'')"
    then show "G w' w'' \<and> safe R G M Q' t w''"
      using safe_Step.IH assms(4) by auto
  next
    fix w' i
    assume "R w w'" "M i w'"
    then show "map_option (map_prod (\<lambda>t. and_then t k) id) (f i w') \<noteq> None"
      using safe_Step.hyps by simp
  qed
qed

lemma safe_weaken:
  assumes "safe R G M Q t w" "\<And>w w'. R' w w' \<Longrightarrow> R w w'" "\<And>w w'. G w w' \<Longrightarrow> G' w w'"
    "\<And>i w. M' i w \<Longrightarrow> M i w" "\<And>a w. Q a w \<Longrightarrow> Q' a w"
  shows "safe R' G' M' Q' t w"
  using assms(1)
proof (induction rule: safe.induct)
  case (safe_Done w a)
  then show ?case using assms(2,5) by (blast intro: safe.safe_Done)
next
  case (safe_Step w f)
  then show ?case using assms(2-4) by (intro safe.safe_Step) metis+
qed

lemma safe_frame:
  assumes "safe R G M Q t w" "P w"
    "\<And>w w'. R w w' \<Longrightarrow> P w \<Longrightarrow> P w'" "\<And>w w'. G w w' \<Longrightarrow> P w \<Longrightarrow> P w'"
  shows "safe R G M (\<lambda>a w. Q a w \<and> P w) t w"
  using assms(1,2)
proof (induction rule: safe.induct)
  case (safe_Done w a)
  then show ?case using assms(3) by (blast intro: safe.safe_Done)
next
  case (safe_Step w f)
  show ?case
  proof (rule safe.safe_Step)
    fix w' i t w''
    assume "R w w'" "f i w' = Some (t, w'')"
    then show "G w' w'' \<and> safe R G M (\<lambda>a w. Q a w \<and> P w) t w''"
      using safe_Step.IH safe_Step.prems assms(3,4) by blast
  qed (use safe_Step.hyps in blast)
qed

lemma safe_zoom:
  assumes "safe R G M Q t (get s)"
    and "\<And>s s'. R' s s' \<Longrightarrow> R (get s) (get s')"
    and "\<And>s w. G (get s) w \<Longrightarrow> G' s (put w s)"
    and "\<And>i s. M' i s \<Longrightarrow> M i (get s)"
    and "\<And>w s. get (put w s) = w"
  shows "safe R' G' M' (\<lambda>a s. Q a (get s)) (zoom get put t) s"
  using assms(1)
proof (induction "get s" arbitrary: s rule: safe.induct)
  case (safe_Done a)
  then show ?case by (auto intro!: safe.safe_Done assms(2))
next
  case (safe_Step f)
  show ?case
    unfolding zoom.simps
  proof (rule safe.safe_Step)
    fix s' i t s''
    assume "R' s s'" "map_option (\<lambda>(t, w). (t, put w s'))
      (map_option (map_prod (zoom get put) id) (f i (get s'))) = Some (t, s'')"
    then show "G' s' s'' \<and> safe R' G' M' (\<lambda>a s. Q a (get s)) t s''"
      using safe_Step(1) [OF assms(2)] assms(3,5) by fastforce
  next
    fix s' i
    assume "R' s s'" "M' i s'"
    then show "map_option (\<lambda>(t, w). (t, put w s'))
      (map_option (map_prod (zoom get put) id) (f i (get s'))) \<noteq> None"
      using safe_Step(2) [OF assms(2)] assms(4) by simp
  qed
qed

text \<open>
  The interface between the threads of one system: what thread \<open>n\<close> may rely on, what it
  guarantees and when its next call must go through. The laws are that doing nothing and doing several things are within every rely,
  and that one thread's guarantee is within the rely of every other thread.
\<close>

locale rely_guarantee =
  fixes rely guar :: "nat \<Rightarrow> 'w \<Rightarrow> 'w \<Rightarrow> bool"
    and must :: "nat \<Rightarrow> 'i \<Rightarrow> 'w \<Rightarrow> bool"
  assumes rely_refl: "rely n w w"
    and rely_trans: "rely n w w' \<Longrightarrow> rely n w' w'' \<Longrightarrow> rely n w w''"
    and guar_rely: "m \<noteq> n \<Longrightarrow> guar m w w' \<Longrightarrow> rely n w w'"
begin

lemma safe_rely: "safe (rely n) G M Q t w \<Longrightarrow> rely n w w' \<Longrightarrow> safe (rely n) G M Q t w'"
proof (induction rule: safe.induct)
  case (safe_Done w a)
  then show ?case by (blast intro: safe.safe_Done rely_trans)
next
  case (safe_Step w f)
  show ?case
  proof (rule safe.safe_Step)
    fix v i t v'
    assume "rely n w' v" "f i v = Some (t, v')"
    then show "G v v' \<and> safe (rely n) G M Q t v'"
      using safe_Step.IH [OF rely_trans [OF safe_Step.prems]] rely_refl by blast
  next
    fix v i
    assume "rely n w' v" "M i v"
    then show "f i v \<noteq> None" by (rule safe_Step.hyps [OF rely_trans [OF safe_Step.prems]])
  qed
qed

lemma safe_move:
  "safe (rely n) G M Q (Step f) w \<Longrightarrow> f i w = Some (t, w') \<Longrightarrow> G w w' \<and> safe (rely n) G M Q t w'"
  by (erule safe_StepD, rule rely_refl)

lemma safe_must: "safe (rely n) G M Q (Step f) w \<Longrightarrow> M i w \<Longrightarrow> f i w \<noteq> None"
  by (erule safe_StepM, rule rely_refl)

definition all_safe :: "(nat \<Rightarrow> 'a \<Rightarrow> 'w \<Rightarrow> bool) \<Rightarrow> ('i, 'w, 'a) system \<Rightarrow> bool" where
  "all_safe Q c \<longleftrightarrow> (\<forall>n < length (snd c). safe (rely n) (guar n) (must n) (Q n) (snd c ! n) (fst c))"

lemma all_safeD:
  "all_safe Q c \<Longrightarrow> n < length (snd c) \<Longrightarrow> safe (rely n) (guar n) (must n) (Q n) (snd c ! n) (fst c)"
  by (simp add: all_safe_def)

lemma step_guar:
  assumes "all_safe Q c" "sys_step c n c'"
  shows "guar n (fst c) (fst c')"
  using assms(2,1)
  by cases (fastforce simp: all_safe_def rely_refl elim: safe_StepE)

lemma all_safe_step:
  assumes "all_safe Q c" "sys_step c n c'"
  shows "all_safe Q c'"
  unfolding all_safe_def
proof safe
  fix m
  assume m: "m < length (snd c')"
  from step_guar [OF assms] have guar: "guar n (fst c) (fst c')" .
  from assms(2) show "safe (rely m) (guar m) (must m) (Q m) (snd c' ! m) (fst c')"
  proof cases
    case (sys_step ts f i w t w')
    with assms(1) m have "safe (rely n) (guar n) (must n) (Q n) (Step f) w"
      "m \<noteq> n \<Longrightarrow> safe (rely m) (guar m) (must m) (Q m) (ts ! m) w"
      by (auto simp: all_safe_def dest: spec [of _ n])
    with sys_step guar m show ?thesis
      by (cases "m = n") (auto dest: safe_move intro: safe_rely guar_rely)
  qed
qed

lemma must_move:
  assumes "all_safe Q c" "n < length (snd c)" "snd c ! n = Step f" "must n i (fst c)"
  shows "\<exists>c'. sys_step c n c'"
proof -
  have "f i (fst c) \<noteq> None"
    using all_safeD [OF assms(1,2)] assms(4) unfolding assms(3) by (rule safe_must)
  with assms show ?thesis by (cases c) (auto intro: sys_step)
qed

lemma all_safe_reaches: "reaches c c' \<Longrightarrow> all_safe Q c \<Longrightarrow> all_safe Q c'"
  by (induction rule: reaches.induct) (auto intro: all_safe_step)

text \<open>What every guarantee keeps is an invariant of every interleaving of safe threads.\<close>

lemma invariant_within:
  assumes "reaches c c'" "all_safe Q c" "I (fst c)"
    and "\<And>n w w'. n < length (snd c) \<Longrightarrow> guar n w w' \<Longrightarrow> I w \<Longrightarrow> I w'"
  shows "I (fst c')"
  using assms
proof (induction rule: reaches.induct)
  case (reaches_step c c' n c'')
  have "n < length (snd c)"
    using reaches_step.hyps(2) reaches_length [OF reaches_step.hyps(1)] by (auto elim: sys_step.cases)
  with reaches_step show ?case using all_safe_reaches step_guar by blast
qed simp

lemma invariant:
  assumes "reaches c c'" "all_safe Q c" "I (fst c)" "\<And>n w w'. guar n w w' \<Longrightarrow> I w \<Longrightarrow> I w'"
  shows "I (fst c')"
  using invariant_within [where I = I, OF assms(1-3)] assms(4) by blast

lemma post:
  assumes "reaches c c'" "all_safe Q c" "n < length (snd c')" "snd c' ! n = Done a"
  shows "Q n a (fst c')"
  using all_safeD [OF all_safe_reaches [OF assms(1,2)] assms(3)]
  unfolding assms(4) by (auto elim: safe_DoneE simp: rely_refl)

end

end
