(* ===== verification/Perf.thy ===== *)
theory Perf
  imports Go_Strconv Go_JSON Threads "HOL-Library.Word"
begin

section \<open>The lab and perf packages\<close>

text \<open>
  \<^verbatim>\<open>internal/lab/lab.go\<close> and \<^verbatim>\<open>internal/lab/perf/perf.go\<close>: the environment defaults, the
  fail-fast check, the bounded settings every adapter reads before it listens, the random
  tokens that name schemas and keys, the JSON responses and the request limit. \<^verbatim>\<open>Database\<close> and \<^verbatim>\<open>Warm\<close>
  are in \<open>Adapters\<close>, \<^verbatim>\<open>Serve\<close> in \<open>Perf_Serve\<close>. The process environment and the random source are
  arguments. A Go panic is a value of \<open>panic\<close>.
\<close>

datatype panic = PanicMessage string | PanicError string | PanicIndex

definition Env :: "(string \<Rightarrow> string) \<Rightarrow> string \<Rightarrow> string \<Rightarrow> string" where
  "Env getenv key def = (if getenv key \<noteq> [] then getenv key else def)"

definition Check :: "string option \<Rightarrow> (panic, unit) result" where
  "Check err = (case err of None \<Rightarrow> Inr () | Some e \<Rightarrow> Inl (PanicError e))"

datatype setting = SettingInt int | SettingString string

type_synonym settings = "string \<rightharpoonup> setting"

definition Int_setting :: "(string \<Rightarrow> string) \<Rightarrow> string \<Rightarrow> int \<Rightarrow> int \<Rightarrow> int \<Rightarrow> settings
    \<Rightarrow> (panic, int \<times> settings) result" where
  "Int_setting getenv name fallback lo hi settings =
     (let refuse = Inl (PanicMessage (name @ '' must be '' @ Itoa lo @ ''..'' @ Itoa hi)) in
      case Atoi (Env getenv name (Itoa fallback)) of
        None \<Rightarrow> refuse
      | Some n \<Rightarrow> if n < lo \<or> n > hi then refuse else Inr (n, settings(name \<mapsto> SettingInt n)))"

definition Choice :: "(string \<Rightarrow> string) \<Rightarrow> string \<Rightarrow> string list \<Rightarrow> settings
    \<Rightarrow> (panic, string \<times> settings) result" where
  "Choice getenv name allowed settings =
     (if allowed = [] then Inl PanicIndex
      else let v = Env getenv name (allowed ! 0) in
        if v \<notin> set allowed
        then Inl (PanicMessage (name @ '' must be one of '' @ join_with '', '' allowed))
        else Inr (v, settings(name \<mapsto> SettingString v)))"

text \<open>\<^verbatim>\<open>hex.EncodeToString\<close>, and the token made of eight random bytes.\<close>

definition EncodeToString :: "string \<Rightarrow> string" where
  "EncodeToString bs = concat (map (\<lambda>b. [hex_digit (of_char b div 16), hex_digit (of_char b mod 16)]) bs)"

definition Token :: "(string, string) result \<Rightarrow> (panic, string) result" where
  "Token random = (case random of Inl e \<Rightarrow> Inl (PanicError e) | Inr b \<Rightarrow> Inr (EncodeToString b))"

text \<open>
  A response as the handlers write it. \<open>JMs d\<close> is the number \<^verbatim>\<open>lab.Ms(d)\<close>, a duration of \<open>d\<close>
  nanoseconds shown in milliseconds.
\<close>

datatype jvalue =
  JString string | JInt int | JBool bool | JMs int
| JNull | JArray "jvalue list" | JObject "(string \<times> jvalue) list"

record Response =
  resp_type :: string
  resp_status :: int
  resp_body :: jvalue

definition JSON :: "int \<Rightarrow> jvalue \<Rightarrow> Response" where
  "JSON status value =
     \<lparr>resp_type = ''application/json'', resp_status = status, resp_body = value\<rparr>"

definition Fail :: "int \<Rightarrow> string \<Rightarrow> Response" where
  "Fail status message = JSON status (JObject [(''error'', JString message)])"

text \<open>
  \<^verbatim>\<open>Limit\<close> wraps a handler. Its counter is an \<^verbatim>\<open>atomic.Int64\<close>, a 64-bit word that wraps; the
  world of the wrapped handler is the second component.
\<close>

definition served_Add :: "tick \<Rightarrow> 64 word \<times> 'w \<Rightarrow> int \<times> (64 word \<times> 'w)" where
  "served_Add i s = (sint (fst s + 1), (fst s + 1, snd s))"

definition Limit :: "int \<Rightarrow> (tick, 'w, Response) thread \<Rightarrow> (tick, 64 word \<times> 'w, Response) thread" where
  "Limit hi next = atomically served_Add (\<lambda>n.
     if n > hi then Done (Fail 429 ''run limit reached'')
     else zoom snd (\<lambda>w s. (fst s, w)) next)"

text \<open>A server that answers one request after the other with the same handler.\<close>

fun serve :: "(tick, 'w, 'a) thread \<Rightarrow> tick list list \<Rightarrow> 'w \<Rightarrow> 'w" where
  "serve t [] w = w"
| "serve t (is # rest) w = serve t rest (snd (run t is w))"

subsection \<open>Settings\<close>

text \<open>
  A setting that \<^verbatim>\<open>Int\<close> returns is within its bounds and is the one reported by
  \<^verbatim>\<open>GET /health\<close>; every other setting is kept. With the variable unset or empty and a default
  within the bounds and the range of a Go int, \<^verbatim>\<open>Int\<close> returns the default: printing and reading
  the default back never fails.
\<close>

theorem Int_within_bounds:
  "(Int_setting getenv name fallback lo hi st = Inr (n, st') \<longrightarrow>
      lo \<le> n \<and> n \<le> hi \<and> is_int64 n \<and> st' = st(name \<mapsto> SettingInt n))
   \<and> (getenv name = [] \<and> lo \<le> fallback \<and> fallback \<le> hi \<and> is_int64 fallback \<longrightarrow>
      Int_setting getenv name fallback lo hi st = Inr (fallback, st(name \<mapsto> SettingInt fallback)))"
  by (auto simp: Int_setting_def Let_def Env_def Atoi_def ParseInt_Itoa dest: ParseInt_range
      split: option.splits if_splits)

theorem Int_within_bounds_witness:
  "Int_setting (\<lambda>_. ''12'') ''POOL_SIZE'' 8 1 64 Map.empty = Inr (12, [''POOL_SIZE'' \<mapsto> SettingInt 12])
   \<and> 1 \<le> (12 :: int) \<and> (12 :: int) \<le> 64 \<and> is_int64 12
   \<and> Int_setting (\<lambda>_. []) ''POOL_SIZE'' 8 1 64 Map.empty = Inr (8, [''POOL_SIZE'' \<mapsto> SettingInt 8])"
proof -
  have "Int_setting (\<lambda>_. ''12'') ''POOL_SIZE'' 8 1 64 Map.empty = Inr (12, [''POOL_SIZE'' \<mapsto> SettingInt 12])"
    by (simp add: Int_setting_def Env_def Atoi_def ParseInt_def ParseUint_def digit_value_def)
  moreover from this have "1 \<le> (12 :: int) \<and> (12 :: int) \<le> 64 \<and> is_int64 12"
    using conjunct1 [OF Int_within_bounds] by blast
  moreover have "Int_setting (\<lambda>_. []) ''POOL_SIZE'' 8 1 64 Map.empty = Inr (8, [''POOL_SIZE'' \<mapsto> SettingInt 8])"
    by (rule mp [OF conjunct2 [OF Int_within_bounds]]) (simp add: is_int64_def)
  ultimately show ?thesis by blast
qed

lemma Choice_allowed:
  "Choice getenv name allowed st = Inr (v, st') \<Longrightarrow> v \<in> set allowed \<and> st' = st(name \<mapsto> SettingString v)"
  by (auto simp: Choice_def Let_def split: if_splits)

lemma Choice_default:
  "getenv name = [] \<Longrightarrow> allowed \<noteq> [] \<Longrightarrow> fst (projr (Choice getenv name allowed st)) = allowed ! 0"
  by (auto simp: Choice_def Let_def Env_def)

subsection \<open>The request limit\<close>

lemma run_zoom_snd:
  "run (zoom snd (\<lambda>w s. (fst s, w)) t) is (c, w)
   = map_prod (zoom snd (\<lambda>w s. (fst s, w))) (Pair c) (run t is w)"
proof (induction t "is" w rule: run.induct)
  case (3 f i "is" w)
  then show ?case by (cases "f i w") auto
qed simp_all

lemma sint_of_nat: "Suc k < 2 ^ 63 \<Longrightarrow> sint (word_of_nat k + 1 :: 64 word) = int k + 1"
proof -
  assume a: "Suc k < 2 ^ 63"
  have "(word_of_nat k + 1 :: 64 word) = word_of_int (int k + 1)" by simp
  then show ?thesis using a by (simp only: sint_sbintrunc') (simp add: signed_take_bit_int_eq_self)
qed

lemma run_Limit:
  assumes "Suc k < 2 ^ 63"
  shows "run (Limit hi next) (i # is) (word_of_nat k, w) =
    (if int k + 1 > hi then (Done (Fail 429 ''run limit reached''), (word_of_nat (Suc k), w))
     else map_prod (zoom snd (\<lambda>w s. (fst s, w))) (Pair (word_of_nat (Suc k))) (run next is w))"
  using sint_of_nat [OF assms]
  by (simp add: Limit_def atomically_def served_Add_def run_zoom_snd add.commute)

lemma serve_Limit:
  "k + length reqs < 2 ^ 63 \<Longrightarrow> [] \<notin> set reqs \<Longrightarrow>
   snd (serve (Limit hi next) reqs (word_of_nat k, w))
   = serve next (map tl (take (nat (hi - int k)) reqs)) w"
proof (induction reqs arbitrary: k w)
  case (Cons r reqs)
  then obtain i "is" where r: "r = i # is" by (cases r) auto
  have "Suc k < 2 ^ 63" using Cons.prems(1) by simp
  note run = run_Limit [OF this, of hi "next" i "is" w]
  show ?case
  proof (cases "int k + 1 > hi")
    case True
    then show ?thesis using Cons.IH [of "Suc k" w] Cons.prems r run by simp
  next
    case False
    then have "nat (hi - int k) = Suc (nat (hi - int (Suc k)))" by simp
    then show ?thesis
      using False Cons.IH [of "Suc k" "snd (run next is w)"] Cons.prems r run by simp
  qed
qed simp

text \<open>
  C40. \<^verbatim>\<open>Limit\<close> keeps a long run from growing the fixtures without bound: after any number of
  requests (short of the 2^63 at which the counter itself would wrap) the world of the wrapped
  handler is what the first \<open>hi\<close> requests made of it; every later request was answered 429 and
  never reached the handler. The inputs of a request are those of its own calls, the first of
  which is the counter's.
\<close>

theorem Limit_bounds_work:
  assumes "length reqs < 2 ^ 63" "[] \<notin> set reqs"
  shows "snd (serve (Limit hi next) reqs (0, w)) = serve next (map tl (take (nat hi) reqs)) w"
  using serve_Limit [of 0 reqs hi "next" w] assms by simp

theorem Limit_bounds_work_witness:
  "snd (serve (Limit 1 (atomically (\<lambda>i n. (Fail 200 [], Suc n)) Done))
      [[\<lparr>tick_fault = Fine, tick_clock = 0\<rparr>, \<lparr>tick_fault = Fine, tick_clock = 1\<rparr>],
       [\<lparr>tick_fault = Fine, tick_clock = 2\<rparr>, \<lparr>tick_fault = Fine, tick_clock = 3\<rparr>]] (0, 0 :: nat)) = 1"
  by (subst Limit_bounds_work) (simp_all add: atomically_def)
end
