(* ===== verification/Go_Decode.thy ===== *)
theory Go_Decode
  imports Go_JSON Go_Strconv
begin

section \<open>The encoding/json decoder\<close>

text \<open>
  What the sources decode with \<^verbatim>\<open>json.Unmarshal\<close>: an object into a map of raw messages, a string,
  and structs with a string, an integer or a map of integers. The decoder runs the scanner of
  \<^verbatim>\<open>Go_JSON\<close> again over a text that is valid, and cuts the members of the outermost object at the
  opcodes of depth one. Strings are unquoted byte by byte: escapes are replaced, surrogate pairs
  joined, bytes that are no UTF-8 become the replacement character.
\<close>

subsection \<open>Strings\<close>

definition nibble :: "char \<Rightarrow> nat" where
  "nibble c = (if digit09 c then of_char c - 48
     else if CHR ''a'' \<le> c \<and> c \<le> CHR ''f'' then of_char c - 87 else of_char c - 55)"

text \<open>\<^verbatim>\<open>getu4\<close>: the code unit of an escape with four hexadecimal digits at the start of the text.\<close>

definition getu4 :: "string \<Rightarrow> nat option" where
  "getu4 s = (if length s < 6 \<or> s ! 0 \<noteq> CHR 0x5C \<or> s ! 1 \<noteq> CHR ''u'' \<or> \<not> list_all hexdigit (take 4 (drop 2 s))
     then None
     else Some (foldl (\<lambda>n c. n * 16 + nibble c) 0 (take 4 (drop 2 s))))"

definition replacement :: string where
  "replacement = [CHR 0xEF, CHR 0xBF, CHR 0xBD]"

definition EncodeRune :: "nat \<Rightarrow> string" where
  "EncodeRune r =
     (if r < 0x80 then [char_of r]
      else if r < 0x800 then [char_of (0xC0 + r div 64), char_of (0x80 + r mod 64)]
      else if r > 0x10FFFF \<or> (0xD800 \<le> r \<and> r < 0xE000) then replacement
      else if r < 0x10000 then [char_of (0xE0 + r div 4096), char_of (0x80 + r div 64 mod 64), char_of (0x80 + r mod 64)]
      else [char_of (0xF0 + r div 262144), char_of (0x80 + r div 4096 mod 64), char_of (0x80 + r div 64 mod 64),
            char_of (0x80 + r mod 64)])"

text \<open>\<^verbatim>\<open>utf16.DecodeRune\<close>: a surrogate pair, or nothing.\<close>

definition surrogates :: "nat \<Rightarrow> nat option \<Rightarrow> nat option" where
  "surrogates r1 r2 = (case r2 of None \<Rightarrow> None | Some r2 \<Rightarrow>
     if 0xD800 \<le> r1 \<and> r1 < 0xDC00 \<and> 0xDC00 \<le> r2 \<and> r2 < 0xE000
     then Some ((r1 - 0xD800) * 1024 + (r2 - 0xDC00) + 0x10000) else None)"

definition escaped :: "char \<Rightarrow> char" where
  "escaped c = (if c = CHR ''b'' then CHR 0x08 else if c = CHR ''f'' then CHR 0x0C else if c = CHR ''n'' then CHR 0x0A
     else if c = CHR ''r'' then CHR 0x0D else if c = CHR ''t'' then CHR 0x09 else c)"

function unquoteBytes :: "string \<Rightarrow> string" where
  "unquoteBytes s =
     (if s = [] then []
      else if hd s = CHR 0x5C then
        (case getu4 s of
           Some r \<Rightarrow>
             (if 0xD800 \<le> r \<and> r < 0xE000
              then case surrogates r (getu4 (drop 6 s)) of
                  Some dec \<Rightarrow> EncodeRune dec @ unquoteBytes (drop 12 s)
                | None \<Rightarrow> replacement @ unquoteBytes (drop 6 s)
              else EncodeRune r @ unquoteBytes (drop 6 s))
         | None \<Rightarrow> escaped (s ! 1) # unquoteBytes (drop 2 s))
      else if rune_len s = 0 then replacement @ unquoteBytes (tl s)
      else take (rune_len s) s @ unquoteBytes (drop (rune_len s) s))"
  by pat_completeness auto
termination
  by (relation "measure length") auto

declare unquoteBytes.simps [simp del]

text \<open>A string literal, with its quotes.\<close>

definition unquote :: "string \<Rightarrow> string" where
  "unquote lit = unquoteBytes (butlast (tl lit))"

subsection \<open>Objects\<close>

fun members_from :: "scanner \<Rightarrow> bool \<Rightarrow> string \<Rightarrow> string \<Rightarrow> string \<Rightarrow> (string \<times> string) list" where
  "members_from s inValue k v [] = []"
| "members_from s inValue k v (c # cs) =
     (case scan_step s c of (s', op) \<Rightarrow>
        if sc_stack s = [] then members_from s' False [] [] cs
        else if length (sc_stack s) = 1 \<and> op = ObjectKey then members_from s' True k [] cs
        else if length (sc_stack s) = 1 \<and> op = ObjectValue then (rev k, rev v) # members_from s' False [] [] cs
        else if length (sc_stack s) = 1 \<and> op = EndObject then (if k = [] then [] else [(rev k, rev v)])
        else if length (sc_stack s) = 1 \<and> op = SkipSpace then members_from s' inValue k v cs
        else if inValue then members_from s' inValue k (c # v) cs
        else members_from s' inValue (c # k) v cs)"

text \<open>The members of an object, keys unquoted, values as raw texts, in the order of the text.\<close>

definition members :: "string \<Rightarrow> (string \<times> string) list" where
  "members text = map (\<lambda>(k, v). (unquote k, v)) (members_from newScanner False [] [] text)"

datatype json_kind = KObject | KArray | KString | KNull | KBool | KNumber

definition kind_of :: "string \<Rightarrow> json_kind" where
  "kind_of text = (case first_byte text of
       Some c \<Rightarrow> if c = CHR ''{'' then KObject else if c = CHR ''['' then KArray else if c = CHR 0x22 then KString
         else if c = CHR ''n'' then KNull else if c = CHR ''t'' \<or> c = CHR ''f'' then KBool else KNumber
     | None \<Rightarrow> KNumber)"

text \<open>
  Into a \<^verbatim>\<open>map[string]json.RawMessage\<close>: \<^term>\<open>None\<close> is an error, \<^term>\<open>Some None\<close> the nil map that
  \<^verbatim>\<open>null\<close> leaves. A later member replaces an earlier one of the same name.
\<close>

definition unmarshalRaw :: "string \<Rightarrow> (string \<rightharpoonup> string) option option" where
  "unmarshalRaw text =
     (if \<not> checkValid text then None
      else case kind_of text of
        KObject \<Rightarrow> Some (Some (map_of (rev (members text))))
      | KNull \<Rightarrow> Some None
      | _ \<Rightarrow> None)"

text \<open>A value of a member, decoded into a string or an integer that has the value \<open>old\<close> before: \<^verbatim>\<open>null\<close> keeps it.\<close>

definition string_value :: "string \<Rightarrow> string \<Rightarrow> string option" where
  "string_value old raw = (case kind_of raw of KString \<Rightarrow> Some (unquote raw) | KNull \<Rightarrow> Some old | _ \<Rightarrow> None)"

definition int_value :: "int \<Rightarrow> string \<Rightarrow> int option" where
  "int_value old raw = (case kind_of raw of KNumber \<Rightarrow> ParseInt raw | KNull \<Rightarrow> Some old | _ \<Rightarrow> None)"

text \<open>Into a string variable; the text is absent when the member is.\<close>

definition unmarshalString :: "string option \<Rightarrow> string option" where
  "unmarshalString text = (case text of None \<Rightarrow> None
     | Some raw \<Rightarrow> if checkValid raw then string_value [] raw else None)"

text \<open>
  Field names match up to case folding. \<open>folded\<close> folds the letters of ASCII and the two other
  letters whose fold is one of them, the long s and the Kelvin sign; that decides equality with
  a name in capital ASCII letters.
\<close>

fun folded :: "string \<Rightarrow> string" where
  "folded [] = []"
| "folded (c # cs) =
     (if CHR ''a'' \<le> c \<and> c \<le> CHR ''z'' then char_of (of_char c - 32 :: nat) # folded cs
      else if c = CHR 0xC5 \<and> cs \<noteq> [] \<and> hd cs = CHR 0xBF then CHR ''S'' # folded (tl cs)
      else if c = CHR 0xE2 \<and> take 2 cs = [CHR 0x84, CHR 0xAA] then CHR ''K'' # folded (drop 2 cs)
      else c # folded cs)"

end
