(* ===== verification/Build.thy ===== *)
theory Build
  imports Topology Perf Go_Decode
begin

section \<open>Connecting, building fixture images and the topology on top of them\<close>

text \<open>
  \<^verbatim>\<open>docker.go\<close>, the second half of \<^verbatim>\<open>image.go\<close> (compiling the binary, sending the build context,
  reading the daemon's build output), the functions of \<^verbatim>\<open>topology.go\<close> that build the probe image for
  themselves, and the request counts of \<^verbatim>\<open>egress.go\<close>. The Docker command line tool, the URL parser and
  the default host of the client library are arguments; the compiler and the files of the host
  answer through the \<open>client\<close> record. The quotes that \<^verbatim>\<open>%q\<close> adds are left out of error texts.
\<close>

subsection \<open>docker.go\<close>

definition dockerContextHost :: "(err, string) result \<Rightarrow> string" where
  "dockerContextHost out = (case out of Inl e \<Rightarrow> [] | Inr out \<Rightarrow> TrimSpace out)"

definition Host :: "(string \<Rightarrow> string) \<Rightarrow> (err, string) result \<Rightarrow> (string \<Rightarrow> 'u option) \<Rightarrow> string \<Rightarrow> string" where
  "Host getenv cli ParseHostURL DefaultDockerHost =
     (let h = Env getenv ''DOCKER_HOST'' [] in
      if h \<noteq> [] then h
      else let h = dockerContextHost cli in
        if h \<noteq> [] \<and> ParseHostURL h \<noteq> None then h else DefaultDockerHost)"

text \<open>\<open>newErr\<close> is the error of \<^verbatim>\<open>client.New\<close>, which contacts nobody.\<close>

definition Connect :: "client \<Rightarrow> string \<Rightarrow> err option \<Rightarrow> (panic, unit) result prog" where
  "Connect cl host newErr = (case newErr of
       Some e \<Rightarrow> ret (Inl (PanicError e))
     | None \<Rightarrow> do {
         r \<leftarrow> ask (cl_ping cl) Pinged;
         case r of
           Some e \<Rightarrow> do {
             ask (\<lambda>h. ()) (\<lambda>_. ClientClosed);
             ret (Inl (PanicError (''docker: ping '' @ host @ '': '' @ e))) }
         | None \<Rightarrow> ret (Inr ()) })"

definition archToGOARCH :: "string \<Rightarrow> (err, string) result" where
  "archToGOARCH machine =
     (if machine = ''x86_64'' then Inr ''amd64''
      else if machine = ''aarch64'' then Inr ''arm64''
      else Inl (''docker: unsupported engine architecture '' @ machine))"

definition EngineArch :: "client \<Rightarrow> (panic, string) result prog" where
  "EngineArch cl = do {
     r \<leftarrow> ask (cl_info cl) (\<lambda>_. InfoAsked);
     ret (case r of
            Inl e \<Rightarrow> Inl (PanicError e)
          | Inr machine \<Rightarrow> (case archToGOARCH machine of Inl e \<Rightarrow> Inl (PanicError e) | Inr arch \<Rightarrow> Inr arch)) }"

subsection \<open>The build output\<close>

text \<open>\<^verbatim>\<open>json.Unmarshal\<close> into \<^verbatim>\<open>struct{ Message string }\<close>: a member of another kind is an error, but the rest is read.\<close>

fun message_members :: "(string \<times> string) list \<Rightarrow> bool \<Rightarrow> string \<Rightarrow> string option" where
  "message_members [] ok m = (if ok then Some m else None)"
| "message_members ((k, v) # ms) ok m =
     (if folded k = ''MESSAGE''
      then case string_value m v of None \<Rightarrow> message_members ms False m | Some m \<Rightarrow> message_members ms ok m
      else message_members ms ok m)"

definition unmarshalMessage :: "string option \<Rightarrow> string option" where
  "unmarshalMessage text = (case text of None \<Rightarrow> None
     | Some raw \<Rightarrow>
         (if \<not> checkValid raw then None
          else case kind_of raw of KObject \<Rightarrow> message_members (members raw) True [] | KNull \<Rightarrow> Some [] | _ \<Rightarrow> None))"

definition buildFailure :: "(string \<rightharpoonup> string) \<Rightarrow> string \<Rightarrow> build_err option" where
  "buildFailure obj text =
     (if obj ''errorDetail'' = None \<and> obj ''error'' = None then None
      else Some (ReportedFailure
        (case unmarshalMessage (obj ''errorDetail'') of
           Some m \<Rightarrow> if m \<noteq> [] then m
             else (case unmarshalString (obj ''error'') of Some m \<Rightarrow> if m \<noteq> [] then m else text | None \<Rightarrow> text)
         | None \<Rightarrow> (case unmarshalString (obj ''error'') of Some m \<Rightarrow> if m \<noteq> [] then m else text | None \<Rightarrow> text))))"

definition line_text :: "string \<Rightarrow> string" where
  "line_text line = Trim line [CHR '' '', CHR 0x09, CHR 0x0D, CHR 0x0A]"

text \<open>One line, number \<open>n\<close>, and what is known so far of a failure and of a malformed line.\<close>

definition stream_line :: "nat \<Rightarrow> string \<Rightarrow> build_err option \<times> build_err option \<Rightarrow> build_err option \<times> build_err option" where
  "stream_line n line acc = (case acc of (failure, malformed) \<Rightarrow>
     if line_text line = [] then (failure, malformed)
     else case unmarshalRaw (line_text line) of
       Some (Some obj) \<Rightarrow> (if failure = None then (buildFailure obj (line_text line), malformed) else (failure, malformed))
     | _ \<Rightarrow> (if malformed = None then (failure, Some (NotJSONObject n)) else (failure, malformed)))"

fun stream_lines :: "nat \<Rightarrow> string list \<Rightarrow> build_err option \<times> build_err option \<Rightarrow> build_err option \<times> build_err option" where
  "stream_lines n [] acc = acc"
| "stream_lines n (line # lines) acc = stream_lines (Suc n) lines (stream_line n line acc)"

text \<open>The body is what could be read; \<open>readErr\<close> is the error that ended it, if it was not the end of the stream.\<close>

definition parseBuildStream :: "string \<Rightarrow> err option \<Rightarrow> build_err option" where
  "parseBuildStream body readErr =
     (case stream_lines 1 (split_on (CHR 0x0A) body) (None, None) of (failure, malformed) \<Rightarrow>
        let malformed = (case readErr of
              Some e \<Rightarrow> if malformed = None then Some (StreamUnreadable e) else malformed
            | None \<Rightarrow> malformed)
        in if failure \<noteq> None then failure else malformed)"

subsection \<open>Building\<close>

definition buildContext :: "client \<Rightarrow> (tar_header \<times> string) list \<Rightarrow> string \<Rightarrow> string \<Rightarrow> docker_err option prog" where
  "buildContext cl tarCtx tag lesson = do {
     res \<leftarrow> imageBuild cl tag (Labels lesson) tarCtx;
     case res of
       Inl e \<Rightarrow> ret (Some (BuildRefused tag e))
     | Inr (body, readErr) \<Rightarrow> do {
         err \<leftarrow> (case parseBuildStream body readErr of
             Some e \<Rightarrow> ret (Some (BuildFailed tag e))
           | None \<Rightarrow> do {
               i \<leftarrow> imageInspect cl Caller tag;
               ret (map_option (ImageMissing tag) i) });
         ask (\<lambda>h. ()) (\<lambda>_. BuildBodyClosed);
         ret err } }"

definition goBuild :: "string \<Rightarrow> string \<Rightarrow> string list" where
  "goBuild out pkg = [''go'', ''build'', ''-buildvcs=false'', ''-trimpath'', ''-ldflags'', ''-s -w'', ''-o'', out, pkg]"

definition goEnv :: "string \<Rightarrow> string list" where
  "goEnv goarch = [''CGO_ENABLED=0'', ''GOOS=linux'', ''GOARCH='' @ goarch]"

definition buildBinary :: "client \<Rightarrow> string \<Rightarrow> string \<Rightarrow> (docker_err, string) result prog" where
  "buildBinary cl pkg goarch = do {
     d \<leftarrow> ask (cl_temp_dir cl) TempDirMade;
     case d of
       Inl e \<Rightarrow> ret (Inl (TempDirFailed e))
     | Inr dir \<Rightarrow> do {
         (let out = Clean (dir @ ''/fixture'') in do {
            r \<leftarrow> ask (\<lambda>h. cl_command cl h (goBuild out pkg) (goEnv goarch)) (CommandRun (goBuild out pkg) (goEnv goarch));
            res \<leftarrow> (case r of
                Some (e, output) \<Rightarrow> ret (Inl (GoBuildFailed pkg goarch e output))
              | None \<Rightarrow> do {
                  f \<leftarrow> ask (\<lambda>h. cl_read_file cl h out) (\<lambda>_. HostFileRead out);
                  ret (case f of Inl e \<Rightarrow> Inl (BinaryUnreadable e) | Inr b \<Rightarrow> Inr b) });
            ask (\<lambda>h. ()) (\<lambda>_. TempDirRemoved dir);
            ret res }) } }"

text \<open>The left result is the panic of \<^verbatim>\<open>EngineArch\<close>; \<^verbatim>\<open>Inr None\<close> is success.\<close>

definition BuildFixture :: "client \<Rightarrow> FixtureImage \<Rightarrow> (panic, docker_err option) result prog" where
  "BuildFixture cl img = (case validate img of
       Some e \<Rightarrow> ret (Inr (Some (ImageInvalid e)))
     | None \<Rightarrow> do {
         a \<leftarrow> EngineArch cl;
         case a of
           Inl p \<Rightarrow> ret (Inl p)
         | Inr arch \<Rightarrow> do {
             b \<leftarrow> buildBinary cl (img_Package img) arch;
             case b of
               Inl e \<Rightarrow> ret (Inr (Some e))
             | Inr binary \<Rightarrow> (case fixtureContextTar img binary of
                 Inl e \<Rightarrow> ret (Inr (Some (ContextFailed e)))
               | Inr tarCtx \<Rightarrow> do {
                   r \<leftarrow> buildContext cl tarCtx (img_Tag img) (img_Lesson img);
                   ret (Inr r) }) } })"

subsection \<open>The topology that builds its own probe\<close>

definition ProbePackage :: string where
  "ProbePackage = ''github.com/nickstrad/systems-trinkets/internal/lab/docker/probe''"

definition removeImage :: "client \<Rightarrow> string \<Rightarrow> docker_err option prog" where
  "removeImage cl tag = do {
     r \<leftarrow> imageRemove cl Detached tag;
     case r of
       None \<Rightarrow> ret None
     | Some e \<Rightarrow> do {
         i \<leftarrow> imageInspect cl Detached tag;
         ret (case i of Some _ \<Rightarrow> None | None \<Rightarrow> Some (ImageRemoveFailed tag e)) } }"

definition probeImage :: "string \<Rightarrow> string \<Rightarrow> FixtureImage" where
  "probeImage lesson tag = \<lparr>img_Lesson = lesson, img_Tag = tag, img_Package = ProbePackage, img_User = [], img_Dirs = []\<rparr>"

definition buildProbe :: "client \<Rightarrow> string \<Rightarrow> (panic, (docker_err, string) result) result prog" where
  "buildProbe cl lesson = do {
     suffix \<leftarrow> randomSuffix cl;
     (let tag = ''trinkets-'' @ lesson @ ''-probe-'' @ suffix @ '':dev'' in do {
        r \<leftarrow> BuildFixture cl (probeImage lesson tag);
        case r of
          Inl p \<Rightarrow> ret (Inl p)
        | Inr (Some e) \<Rightarrow> do {
            rm \<leftarrow> removeImage cl tag;
            ret (Inr (Inl (the (errors_Join [Some e, rm])))) }
        | Inr None \<Rightarrow> ret (Inr (Inr tag)) }) }"

definition noMount :: Mount where
  "noMount = \<lparr>mt_Type = [], mt_Source = [], mt_Target = [], mt_ReadOnly = False, mt_TmpfsSize = 0\<rparr>"

text \<open>The named results \<^verbatim>\<open>broker\<close>, \<^verbatim>\<open>worker\<close> and \<^verbatim>\<open>err\<close>: a failing removal of the image leaves the mounts.\<close>

definition SocketVolume :: "client \<Rightarrow> string \<Rightarrow> int \<Rightarrow> int \<Rightarrow> (panic, Mount \<times> Mount \<times> docker_err option) result prog" where
  "SocketVolume cl lesson brokerUID socketGID = do {
     b \<leftarrow> buildProbe cl lesson;
     case b of
       Inl p \<Rightarrow> ret (Inl p)
     | Inr (Inl e) \<Rightarrow> ret (Inr (noMount, noMount, Some e))
     | Inr (Inr img) \<Rightarrow> do {
         v \<leftarrow> socketVolume cl lesson img brokerUID socketGID;
         rm \<leftarrow> removeImage cl img;
         ret (Inr (case v of
                Inl e \<Rightarrow> (noMount, noMount, errors_Join [Some e, rm])
              | Inr (broker, worker) \<Rightarrow> (broker, worker, errors_Join [None, rm]))) } }"

definition VerifyPeerIdentity :: "nat \<Rightarrow> client \<Rightarrow> string \<Rightarrow> PeerIdentities
    \<Rightarrow> (panic, PeerDial list \<times> docker_err option) result option prog" where
  "VerifyPeerIdentity fuel cl lesson ids =
     (if \<not> identities_valid ids then ret (Some (Inr ([], Some IdentitiesInvalid)))
      else do {
        b \<leftarrow> buildProbe cl lesson;
        case b of
          Inl p \<Rightarrow> ret (Some (Inl p))
        | Inr (Inl e) \<Rightarrow> ret (Some (Inr ([], Some e)))
        | Inr (Inr img) \<Rightarrow> do {
            r \<leftarrow> verifyPeerIdentity fuel cl lesson img ids;
            case r of
              None \<Rightarrow> ret None
            | Some (dials, err) \<Rightarrow> do {
                rm \<leftarrow> removeImage cl img;
                ret (Some (Inr (dials, errors_Join [err, rm]))) } } })"

subsection \<open>The request counts of a fixture\<close>

record requestCounts =
  rc_Total :: int
  rc_Paths :: "string \<rightharpoonup> int"

definition noCounts :: requestCounts where
  "noCounts = \<lparr>rc_Total = 0, rc_Paths = Map.empty\<rparr>"

text \<open>
  \<^verbatim>\<open>json.Unmarshal\<close> into a \<^verbatim>\<open>map[string]int\<close> that may hold entries already, and into the struct.
  A value of another kind is an error, and the rest is still read.
\<close>

fun int_members :: "(string \<times> string) list \<Rightarrow> (string \<rightharpoonup> int) \<Rightarrow> (string \<rightharpoonup> int) option" where
  "int_members [] m = Some m"
| "int_members ((k, v) # ms) m =
     (case int_value 0 v of None \<Rightarrow> None | Some n \<Rightarrow> int_members ms (m(k \<mapsto> n)))"

definition map_value :: "(string \<rightharpoonup> int) \<Rightarrow> string \<Rightarrow> (string \<rightharpoonup> int) option" where
  "map_value old raw = (case kind_of raw of
       KObject \<Rightarrow> int_members (members raw) old
     | KNull \<Rightarrow> Some Map.empty
     | _ \<Rightarrow> None)"

fun count_members :: "(string \<times> string) list \<Rightarrow> requestCounts \<Rightarrow> requestCounts option" where
  "count_members [] c = Some c"
| "count_members ((k, v) # ms) c =
     (if folded k = ''TOTAL''
      then case int_value (rc_Total c) v of None \<Rightarrow> None | Some n \<Rightarrow> count_members ms (c\<lparr>rc_Total := n\<rparr>)
      else if folded k = ''PATHS''
      then case map_value (rc_Paths c) v of None \<Rightarrow> None | Some m \<Rightarrow> count_members ms (c\<lparr>rc_Paths := m\<rparr>)
      else count_members ms c)"

definition unmarshalCounts :: "string \<Rightarrow> requestCounts option" where
  "unmarshalCounts text =
     (if \<not> checkValid text then None
      else case kind_of text of
        KObject \<Rightarrow> count_members (members text) noCounts
      | KNull \<Rightarrow> Some noCounts
      | _ \<Rightarrow> None)"

definition countsURL :: "int \<Rightarrow> string" where
  "countsURL port = ''http://127.0.0.1:'' @ Itoa port @ ''/__counts''"

text \<open>The counts in the output of a run of \<^verbatim>\<open>http-get\<close>.\<close>

definition counts_of_output :: "string \<Rightarrow> requestCounts option" where
  "counts_of_output stdout = (case Find (Parse stdout) ''http-get'' of
       None \<Rightarrow> None
     | Some l \<Rightarrow>
         (case CutPrefix (line_Detail l) ''200 '' of (body, isOK) \<Rightarrow>
            if \<not> line_OK l \<or> \<not> isOK then None else unmarshalCounts body))"

definition fixtureCounts :: "nat \<Rightarrow> client \<Rightarrow> Container \<Rightarrow> int \<Rightarrow> (docker_err, requestCounts) result option prog" where
  "fixtureCounts fuel cl fixture port = do {
     x \<leftarrow> Exec fuel cl fixture [FixtureBinary, ''http-get'', countsURL port];
     ret (case x of
            None \<Rightarrow> None
          | Some (res, Some e) \<Rightarrow> Some (Inl e)
          | Some (res, None) \<Rightarrow>
              (case counts_of_output (res_Stdout res) of
                 None \<Rightarrow> Some (Inl (UnreadableCounts (c_Name fixture) (res_ExitCode res) (res_Stdout res)))
               | Some c \<Rightarrow> Some (Inr c))) }"

definition CheckBlockedFixtureUntouched ::
    "nat \<Rightarrow> client \<Rightarrow> Container \<Rightarrow> int \<Rightarrow> (docker_err, egress_violation list) result option prog" where
  "CheckBlockedFixtureUntouched fuel cl blocked port = do {
     x \<leftarrow> fixtureCounts fuel cl blocked port;
     ret (case x of
            None \<Rightarrow> None
          | Some (Inl e) \<Rightarrow> Some (Inl e)
          | Some (Inr counts) \<Rightarrow> Some (Inr (blockedFixtureUntouched (rc_Total counts)))) }"

subsection \<open>What the build output says\<close>

definition reports_failure :: "string \<Rightarrow> bool" where
  "reports_failure line \<longleftrightarrow> (case unmarshalRaw (line_text line) of
     Some (Some obj) \<Rightarrow> obj ''errorDetail'' \<noteq> None \<or> obj ''error'' \<noteq> None | _ \<Rightarrow> False)"

definition progress_line :: "string \<Rightarrow> bool" where
  "progress_line line \<longleftrightarrow> line_text line = [] \<or> (case unmarshalRaw (line_text line) of
     Some (Some obj) \<Rightarrow> obj ''errorDetail'' = None \<and> obj ''error'' = None | _ \<Rightarrow> False)"

lemma buildFailure_None: "buildFailure obj t = None \<longleftrightarrow> obj ''errorDetail'' = None \<and> obj ''error'' = None"
  by (simp add: buildFailure_def)

lemma buildFailure_reported: "buildFailure obj t = Some e \<Longrightarrow> \<exists>m. e = ReportedFailure m"
  by (auto simp: buildFailure_def split: if_splits)

lemma unmarshalRaw_Nil [simp]: "unmarshalRaw [] = None"
  by (simp add: unmarshalRaw_def checkValid_def scan_eof_def newScanner_def scan_defs isSpace_def)

lemma reports_failure_text: "reports_failure line \<Longrightarrow> line_text line \<noteq> []"
  by (auto simp: reports_failure_def)

lemma stream_line_failure:
  "fst (stream_line n line (f, m)) = None \<longleftrightarrow> f = None \<and> \<not> reports_failure line"
  by (auto simp: stream_line_def reports_failure_def buildFailure_None split: option.splits if_splits)

lemma stream_line_malformed:
  "snd (stream_line n line (f, m)) = None \<longleftrightarrow> m = None \<and> (progress_line line \<or> reports_failure line)"
  by (auto simp: stream_line_def reports_failure_def progress_line_def split: option.splits if_splits)

text \<open>What is kept while the lines are read: failures are reported ones, malformed lines are not.\<close>

fun sorted_errors :: "build_err option \<times> build_err option \<Rightarrow> bool" where
  "sorted_errors (f, m) \<longleftrightarrow> pred_option (\<lambda>e. \<exists>t. e = ReportedFailure t) f \<and> pred_option (\<lambda>e. \<nexists>t. e = ReportedFailure t) m"

lemma stream_line_sorted: "sorted_errors acc \<Longrightarrow> sorted_errors (stream_line n line acc)"
  by (cases acc) (auto simp: stream_line_def option.pred_set dest: buildFailure_reported split: option.splits if_splits)

lemma stream_lines_sorted: "sorted_errors acc \<Longrightarrow> sorted_errors (stream_lines n lines acc)"
  by (induction lines arbitrary: n acc) (simp_all add: stream_line_sorted)

lemma stream_lines_failure:
  "fst (stream_lines n lines acc) = None \<longleftrightarrow> fst acc = None \<and> \<not> list_ex reports_failure lines"
  by (induction lines arbitrary: n acc) (auto simp: stream_line_failure [of _ _ "fst a" "snd a" for a, simplified])

lemma stream_lines_malformed:
  "snd (stream_lines n lines acc) = None
     \<longleftrightarrow> snd acc = None \<and> list_all (\<lambda>l. progress_line l \<or> reports_failure l) lines"
  by (induction lines arbitrary: n acc) (auto simp: stream_line_malformed [of _ _ "fst a" "snd a" for a, simplified])

text \<open>
  C28. Reading the daemon's build output gives no error exactly when the stream could be read to its
  end and every line is blank or a JSON object with neither an "error" nor an "errorDetail" key;
  and it gives a reported build failure exactly when some line is an object with one of these
  keys, whatever else is malformed or cut short.
\<close>

theorem parseBuildStream_exact:
  "(parseBuildStream body readErr = None
      \<longleftrightarrow> readErr = None \<and> list_all progress_line (split_on (CHR 0x0A) body))
   \<and> ((\<exists>m. parseBuildStream body readErr = Some (ReportedFailure m))
      \<longleftrightarrow> list_ex reports_failure (split_on (CHR 0x0A) body))"
proof -
  obtain f m where fm: "stream_lines 1 (split_on (CHR 0x0A) body) (None, None) = (f, m)" by fastforce
  have excl: "list_all progress_line ls \<longleftrightarrow> list_all (\<lambda>l. progress_line l \<or> reports_failure l) ls \<and> \<not> list_ex reports_failure ls" for ls
  proof -
    have "\<not> (progress_line l \<and> reports_failure l)" for l
      using reports_failure_text [of l] by (auto simp: progress_line_def reports_failure_def split: option.splits)
    then show ?thesis by (induction ls) auto
  qed
  have srt: "sorted_errors (f, m)" using stream_lines_sorted [of "(None, None)" 1] fm by (metis option.pred_inject(1) sorted_errors.simps)
  have "f = None \<longleftrightarrow> \<not> list_ex reports_failure (split_on (CHR 0x0A) body)"
    using stream_lines_failure [of 1 "split_on (CHR 0x0A) body" "(None, None)"] fm by simp
  moreover have "m = None \<longleftrightarrow> list_all (\<lambda>l. progress_line l \<or> reports_failure l) (split_on (CHR 0x0A) body)"
    using stream_lines_malformed [of 1 "split_on (CHR 0x0A) body" "(None, None)"] fm by simp
  ultimately show ?thesis using srt
    unfolding parseBuildStream_def fm excl by (cases f; cases m; cases readErr) auto
qed

lemma parseBuildStream_runs:
  "parseBuildStream (''{\"stream\":\"Step 1\"}'' @ [CHR 0x0D, CHR 0x0A, CHR 0x0A]) None = None"
  by code_simp

subsection \<open>Building settles what it creates\<close>

lemma EngineArch_quiet: "emits quiet (EngineArch cl)"
  unfolding EngineArch_def by (intro emits_rules) simp

lemma buildBinary_quiet: "emits quiet (buildBinary cl pkg goarch)"
  unfolding buildBinary_def by (intro emits_rules) simp_all

lemma randomSuffix_quiet: "emits quiet (randomSuffix cl)"
  unfolding randomSuffix_def by (intro emits_rules) simp

lemma emits_settles: "emits quiet m \<Longrightarrow> triple m (\<lambda>r n. settles cl True {} {} n)"
  unfolding emits_def by (erule triple_mono) (rule settles_quiet)

lemma settles_bind_quiet:
  assumes "emits quiet m" "\<And>r. triple (f r) (\<lambda>r' n. settles cl (ok r') A (B r') n)"
  shows "triple (State_Monad.bind m f) (\<lambda>r' n. settles cl (ok r') A (B r') n)"
proof (rule triple_bind [OF emits_settles [OF assms(1), of cl]], rule triple_mono [OF assms(2)])
  fix n r' n'
  assume "settles cl True {} {} n" "settles cl (ok r') A (B r') n'"
  then show "settles cl (ok r') A (B r') (n @ n')" by (rule settles_seq) auto
qed

lemma validate_owned: "validate img = None \<Longrightarrow> owned_object (img_Tag img) (Labels (img_Lesson img))"
  by (auto simp: validate_def owned_object_def Labels_def label_def LabelLesson_def LabelHarness_def CutPrefix_def Let_def
      split: if_splits prod.splits)

lemma settles_built:
  "owned_object tag (Labels lesson) \<Longrightarrow> settles cl True {} {} n \<Longrightarrow>
   settles cl True {} {AImage tag} (ImageBuilt tag (Labels lesson) tar r # n)"
  using settles_then [of cl True "{}" "{AImage tag}" "[ImageBuilt tag (Labels lesson) tar r]" True n True]
  by (simp add: settles_def bounds_def)

lemma buildContext_settles:
  "owned_object tag (Labels lesson) \<Longrightarrow>
   triple (buildContext cl tarCtx tag lesson) (\<lambda>r n. settles cl True {} {AImage tag} n)"
  unfolding buildContext_def imageBuild_def
proof (rule triple_ask_bind, rule triple_mono, rule emits_settles [of _ cl], goal_cases)
  case (1 res)
  show ?case unfolding call_defs by (intro emits_rules) simp_all
qed (rule settles_built)

lemma removeImage_settles: "triple (removeImage cl tag) (\<lambda>r n. settles cl (r = None) {AImage tag} {} n)"
  unfolding removeImage_def call_defs
  by (intro triple_rules) (auto simp: settles_def bounds_def split: option.splits)

definition left_image :: "string \<Rightarrow> (panic, 'a) result \<Rightarrow> resource set" where
  "left_image tag r = (case r of Inl _ \<Rightarrow> {} | Inr _ \<Rightarrow> {AImage tag})"

lemma BuildFixture_settles:
  "triple (BuildFixture cl img) (\<lambda>r n. settles cl True {} (left_image (img_Tag img) r) n)"
  unfolding BuildFixture_def
proof (rule triple_option)
  assume v: "validate img = None"
  have built: "triple (do { r \<leftarrow> buildContext cl tarCtx (img_Tag img) (img_Lesson img); ret (Inr r) })
      (\<lambda>(r :: (panic, docker_err option) result) n. settles cl True {} (left_image (img_Tag img) r) n)" for tarCtx
    by (rule triple_bind [OF buildContext_settles [OF validate_owned [OF v]]]) (simp add: triple_return left_image_def)
  show "triple (do { a \<leftarrow> EngineArch cl;
         case a of
           Inl p \<Rightarrow> ret (Inl p)
         | Inr arch \<Rightarrow> do {
             b \<leftarrow> buildBinary cl (img_Package img) arch;
             case b of
               Inl e \<Rightarrow> ret (Inr (Some e))
             | Inr binary \<Rightarrow> (case fixtureContextTar img binary of
                 Inl e \<Rightarrow> ret (Inr (Some (ContextFailed e)))
               | Inr tarCtx \<Rightarrow> do {
                   r \<leftarrow> buildContext cl tarCtx (img_Tag img) (img_Lesson img);
                   ret (Inr r) }) } }) (\<lambda>r n. settles cl True {} (left_image (img_Tag img) r) n)"
    by (rule settles_bind_quiet [OF EngineArch_quiet], rule triple_sum, (rule triple_return, simp),
        rule settles_bind_quiet [OF buildBinary_quiet]) (intro triple_rules built; simp)
qed (simp add: triple_return)

text \<open>A panic ends the program before anything was made, an error after it was removed again.\<close>

definition probe_left :: "(panic, (docker_err, string) result) result \<Rightarrow> resource set" where
  "probe_left r = (case r of Inr (Inr tag) \<Rightarrow> {AImage tag} | _ \<Rightarrow> {})"

lemma buildProbe_settles:
  "triple (buildProbe cl lesson) (\<lambda>r n. settles cl (\<nexists>e. r = Inr (Inl e)) {} (probe_left r) n)"
  unfolding buildProbe_def Let_def
proof (rule settles_bind_quiet [OF randomSuffix_quiet], rule triple_bind [OF BuildFixture_settles], intro triple_rules, goal_cases)
  case (1 suffix r n p)
  then show ?case by (simp add: left_image_def probe_left_def settles_weaken)
next
  case (2 suffix r n y)
  then show ?case by (simp add: left_image_def probe_left_def probeImage_def settles_weaken)
next
  case (3 suffix r n y e)
  let ?tag = "''trinkets-'' @ lesson @ ''-probe-'' @ suffix @ '':dev''"
  show ?case
  proof (rule triple_bind [OF removeImage_settles], rule triple_return, goal_cases)
    case (1 rm m)
    with 3 show ?case
      using settles_seq [of cl True "{}" "{AImage ?tag}" n "rm = None" "{AImage ?tag}" "{}" m False "{}" "{}"]
      by (simp add: left_image_def probe_left_def probeImage_def)
  qed
qed

lemma settles_removed:
  assumes "settles cl ok {} {AImage tag} n" "settles cl ok' {AImage tag} {} n'" "ok'' \<Longrightarrow> ok \<and> ok'"
  shows "settles cl ok'' {} {} (n @ n')"
  by (rule settles_seq [OF assms]) auto

lemma VerifyPeerIdentity_settles:
  "triple (VerifyPeerIdentity fuel cl lesson ids)
     (\<lambda>r n. r \<noteq> None \<longrightarrow> settles cl (\<nexists>dials e. r = Some (Inr (dials, Some e))) {} {} n)"
  unfolding VerifyPeerIdentity_def
proof (rule triple_if, simp add: triple_return,
    rule triple_bind [OF buildProbe_settles], intro triple_rules, goal_cases)
  case (3 b n y img)
  then have n: "settles cl True {} {AImage img} n" by (simp add: probe_left_def)
  show ?case
  proof (rule triple_bind [OF verifyPeerIdentity_settles], intro triple_rules, goal_cases)
    case (2 r m x dials err)
    then have nm: "settles cl (err = None) {} {AImage img} (n @ m)"
      using settles_then [OF n, of "done_ok r" m "err = None"] by (auto simp: done_ok_def)
    show ?case
    proof (rule triple_bind [OF removeImage_settles], rule triple_return, goal_cases)
      case (1 rm k)
      have "settles cl (err = None \<and> rm = None) {} {} ((n @ m) @ k)" by (rule settles_removed [OF nm 1]) simp
      then show ?case by (auto elim!: settles_weaken)
    qed
  qed simp
qed (auto simp: probe_left_def)

lemma SocketVolume_settles:
  "triple (SocketVolume cl lesson u g) (\<lambda>r n. settles cl (\<nexists>bm wm e. r = Inr (bm, wm, Some e)) {}
     (case r of Inr (bm, _, _) \<Rightarrow> {AVolume (mt_Source bm)} | _ \<Rightarrow> {}) n)"
  unfolding SocketVolume_def
proof (rule triple_bind [OF buildProbe_settles], intro triple_rules, goal_cases)
  case (3 b n y img)
  then have n: "settles cl True {} {AImage img} n" by (simp add: probe_left_def)
  show ?case
  proof (rule triple_bind [OF socketVolume_settles], rule triple_bind [OF removeImage_settles], rule triple_return, goal_cases)
    case (1 v m rm k)
    have nm: "settles cl (is_ok v) {} (insert (AImage img) (case v of Inl _ \<Rightarrow> {} | Inr ms \<Rightarrow> {AVolume (mt_Source (fst ms))})) (n @ m)"
      by (rule settles_seq [OF n 1(1)]) auto
    have "settles cl (is_ok v \<and> rm = None) {} (case v of Inl _ \<Rightarrow> {} | Inr ms \<Rightarrow> {AVolume (mt_Source (fst ms))}) ((n @ m) @ k)"
      by (rule settles_seq [OF nm 1(2)]) (auto split: sum.splits)
    then show ?case by (cases v) (auto elim!: settles_weaken)
  qed
qed (auto simp: probe_left_def intro: settles_weaken)

subsection \<open>The check returns\<close>

fun asks :: "event \<Rightarrow> nat" where
  "asks (ContextAsked r) = 1"
| "asks _ = 0"

definition asked :: "history \<Rightarrow> nat" where
  "asked h = sum_list (map asks h)"

text \<open>The deadline of the caller's context passes: from its \<open>k\<close>-th asking on it has ended.\<close>

definition ctx_ends_by :: "client \<Rightarrow> nat \<Rightarrow> bool" where
  "ctx_ends_by cl k \<longleftrightarrow> (\<forall>h. k \<le> asked h \<longrightarrow> cl_ctx_err cl h \<noteq> None)"

lemma WaitLine_returns:
  "ctx_ends_by cl k \<Longrightarrow> k < n + asked h \<Longrightarrow> 0 < n \<Longrightarrow> fst (run_state (WaitLine n cl c name) h) \<noteq> None"
proof (induction n arbitrary: h)
  case (Suc n)
  note asked_def [simp]
  have "fst (run_state (WaitLine n cl c name) (h @ [ContainerLogged (c_ID c), ContextAsked None])) \<noteq> None"
    if "cl_ctx_err cl (h @ [ContainerLogged (c_ID c)]) = None"
  proof -
    from Suc.prems(1) that have "\<not> k \<le> asked (h @ [ContainerLogged (c_ID c)])" unfolding ctx_ends_by_def by metis
    with Suc.prems show ?thesis by (intro Suc.IH) auto
  qed
  then show ?case
    by (auto simp: Logs_def call_defs ask_def split: sum.splits option.splits prod.splits)
qed simp

lemma WaitLine_answers:
  assumes "ctx_ends_by cl k" "k < fuel"
  shows "triple (WaitLine fuel cl c name) (\<lambda>r n. r \<noteq> None)"
  unfolding triple_def
proof
  fix h
  have "\<exists>new. snd (run_state (WaitLine fuel cl c name) h) = h @ new"
    using WaitLine_quiet [of fuel cl c name] unfolding triple_def by blast
  with WaitLine_returns [OF assms(1), of fuel h c name] assms(2)
  show "\<exists>new. snd (run_state (WaitLine fuel cl c name) h) = h @ new \<and> fst (run_state (WaitLine fuel cl c name) h) \<noteq> None"
    by auto
qed

lemma verifyPeerIdentity_answers:
  assumes "ctx_ends_by cl k" "k < fuel"
  shows "triple (verifyPeerIdentity fuel cl lesson img ids) (\<lambda>r n. r \<noteq> None)"
proof -
  have body: "triple (brokerBody fuel cl lesson img ids wm b) (\<lambda>r n. r \<noteq> None)" for wm b
    unfolding brokerBody_def
    by (rule triple_bind [OF WaitLine_answers [OF assms]], intro triple_rules, simp_all)
       (rule triple_bind [OF dialAll_settles], simp add: triple_return)
  have broker: "triple (withBroker fuel cl lesson img ids bm wm) (\<lambda>r n. r \<noteq> None)" for bm wm
    unfolding withBroker_def
    by (rule triple_bind [OF Start_settles], intro triple_rules, simp)
       (rule triple_bind [OF body], intro triple_rules, simp,
        rule triple_bind [OF Remove_settles], simp add: triple_return)
  show ?thesis
    unfolding verifyPeerIdentity_def
    by (intro triple_rules, simp)
       (rule triple_bind [OF socketVolume_settles], intro triple_rules, simp,
        rule triple_bind [OF broker], intro triple_rules, simp,
        rule triple_bind [OF removeVolume_settles], simp add: triple_return)
qed

lemma VerifyPeerIdentity_answers:
  assumes "ctx_ends_by cl k" "k < fuel"
  shows "triple (VerifyPeerIdentity fuel cl lesson ids) (\<lambda>r n. r \<noteq> None)"
  unfolding VerifyPeerIdentity_def
  by (intro triple_rules, simp)
     (rule triple_bind [OF buildProbe_settles], intro triple_rules, simp, simp,
      rule triple_bind [OF verifyPeerIdentity_answers [OF assms]], intro triple_rules, simp,
      rule triple_bind [OF removeImage_settles], simp add: triple_return)

subsection \<open>Properties\<close>

text \<open>
  C2. The peer-identity check, with the probe image it builds for itself, always returns and leaves
  nothing behind: once the caller's context ends, polls enough for that are enough; every image,
  container and volume it made is removed again on every path, panics of the build included (at
  least tried, and confirmed unless an error is returned); all containers passed the
  config invariants first, all images and volumes carry the lesson's name and labels, and all
  removals run on a context detached from the caller's.
\<close>

theorem VerifyPeerIdentity_leaves_nothing:
  assumes "ctx_ends_by cl k" "k < fuel"
  shows "\<exists>r new. run_state (VerifyPeerIdentity fuel cl lesson ids) h = (Some r, h @ new)
     \<and> list_all (safe_event cl) new \<and> owed attempted new {} = {}
     \<and> ((\<exists>dials e. r = Inr (dials, Some e)) \<or> owed confirmed new {} = {})"
proof -
  obtain r h' where run: "run_state (VerifyPeerIdentity fuel cl lesson ids) h = (r, h')" by fastforce
  obtain y where r: "r = Some y"
    by (rule triple_run [OF VerifyPeerIdentity_answers [OF assms] run]) auto
  obtain new where "h' = h @ new" "settles cl (\<nexists>dials e. r = Some (Inr (dials, Some e))) {} {} new"
    by (rule triple_run [OF VerifyPeerIdentity_settles run]) (use r in auto)
  with r run show ?thesis by (intro exI [of _ y] exI [of _ new]) (auto simp: settles_def bounds_owed)
qed

definition deadline_client :: client where
  "deadline_client = demo_client\<lparr>cl_ctx_err := (\<lambda>h. if 3 \<le> asked h then Some ''deadline exceeded'' else None)\<rparr>"

theorem VerifyPeerIdentity_leaves_nothing_witness:
  "\<exists>r new. run_state (VerifyPeerIdentity 4 deadline_client ''demo'' DefaultPeerIdentities) [] = (Some r, new)
     \<and> list_all (safe_event deadline_client) new \<and> owed attempted new {} = {}"
proof -
  have "ctx_ends_by deadline_client 3" by (simp add: ctx_ends_by_def deadline_client_def)
  from VerifyPeerIdentity_leaves_nothing [OF this, of 4 "''demo''" DefaultPeerIdentities "[]"] show ?thesis by auto
qed

text \<open>
  Preparing a socket volume leaves the volume it returns and nothing else: the probe image and the
  initialising container are removed again, and on an error the volume too.
\<close>

theorem SocketVolume_leaves_the_volume:
  assumes "run_state (SocketVolume cl lesson u g) h = (r, h')"
  shows "\<exists>new. h' = h @ new \<and> list_all (safe_event cl) new
     \<and> owed attempted new {} \<subseteq> (case r of Inr (bm, _, _) \<Rightarrow> {AVolume (mt_Source bm)} | _ \<Rightarrow> {})"
  using assms SocketVolume_settles [of cl lesson u g]
  by (elim triple_run) (auto simp: settles_def bounds_def)

subsection \<open>The temporary directory of a build\<close>

fun temp_dirs :: "string list \<Rightarrow> history \<Rightarrow> string list" where
  "temp_dirs ds [] = ds"
| "temp_dirs ds (TempDirMade (Inr d) # n) = temp_dirs (d # ds) n"
| "temp_dirs ds (TempDirRemoved d # n) = temp_dirs (remove1 d ds) n"
| "temp_dirs ds (_ # n) = temp_dirs ds n"

text \<open>
  Compiling a fixture removes the temporary directory it made on every path, and reads the binary
  only after the compiler reported success, from the file it was told to write.
\<close>

theorem buildBinary_cleans_up:
  "triple (buildBinary cl pkg goarch) (\<lambda>r n. temp_dirs [] n = []
     \<and> (is_ok r \<longrightarrow> (\<exists>dir. let out = Clean (dir @ ''/fixture'') in
          n = [TempDirMade (Inr dir), CommandRun (goBuild out pkg) (goEnv goarch) None, HostFileRead out, TempDirRemoved dir])))"
  unfolding buildBinary_def Let_def
proof (rule triple_ask_bind, rule triple_sum, goal_cases)
  case (2 d dir)
  show ?case
  proof (rule triple_ask_bind, goal_cases)
    case (1 c)
    let ?read = "[HostFileRead (Clean (dir @ ''/fixture''))]"
    show ?case
      by (rule triple_bind [where Q = "\<lambda>r n. (n = [] \<or> n = ?read) \<and> (is_ok r \<longrightarrow> c = None \<and> n = ?read)"])
         (auto intro!: triple_rules simp: 2 split: sum.splits)
  qed
qed (auto intro!: triple_rules)

subsection \<open>The endpoint\<close>

text \<open>
  The endpoint is never empty, and it is the one of \<^verbatim>\<open>DOCKER_HOST\<close> when that is set; the answer of
  the command line tool counts only when the client can parse it.
\<close>

theorem Host_usable:
  assumes "DefaultDockerHost \<noteq> []" "ParseHostURL DefaultDockerHost \<noteq> None"
  shows "Host getenv cli ParseHostURL DefaultDockerHost \<noteq> []"
    and "Env getenv ''DOCKER_HOST'' [] = [] \<Longrightarrow> ParseHostURL (Host getenv cli ParseHostURL DefaultDockerHost) \<noteq> None"
  using assms by (auto simp: Host_def Let_def)

end
