(* ===== verification/Go_Flag.thy ===== *)
theory Go_Flag
  imports Go_Strconv
begin

section \<open>The flag package\<close>

text \<open>
  \<^verbatim>\<open>flag.FlagSet.Parse\<close> with \<^verbatim>\<open>ContinueOnError\<close>, as the fixture binary uses it: string, integer
  and boolean flags before the positional arguments. \<open>parseOne\<close> of the package is one equation
  of \<open>flag_parse\<close>; a flag that is given twice keeps its last value. The messages are
  constructors of \<open>flag_err\<close>.
\<close>

datatype flag_kind = StringFlag | IntFlag | BoolFlag

datatype flag_value = FString string | FInt int | FBool bool

datatype flag_err =
    BadFlagSyntax string
  | FlagNotDefined string
  | HelpRequested
  | InvalidBool string string
  | FlagNeedsArgument string
  | InvalidFlagValue string string

definition lower_char :: "char \<Rightarrow> char" where
  "lower_char c = (if CHR ''A'' \<le> c \<and> c \<le> CHR ''Z'' then char_of (of_char c + 32 :: nat) else c)"

text \<open>\<^verbatim>\<open>strconv.ParseInt(s, 0, 64)\<close>: the base is read from the text, and underscores may separate digits.\<close>

definition digit36 :: "char \<Rightarrow> nat option" where
  "digit36 c = (let v = (of_char c :: nat); l = (of_char (lower_char c) :: nat) in
     if 48 \<le> v \<and> v \<le> 57 then Some (v - 48)
     else if 97 \<le> l \<and> l \<le> 122 then Some (l - 87) else None)"

fun digits_in :: "nat \<Rightarrow> nat \<Rightarrow> string \<Rightarrow> nat option" where
  "digits_in base acc [] = Some acc"
| "digits_in base acc (c # cs) =
     (if c = CHR ''_'' then digits_in base acc cs
      else case digit36 c of
        None \<Rightarrow> None
      | Some d \<Rightarrow> if d \<ge> base then None else digits_in base (acc * base + d) cs)"

datatype seen = SeenStart | SeenDigit | SeenUnderscore | SeenOther

fun underscores_ok :: "bool \<Rightarrow> seen \<Rightarrow> string \<Rightarrow> bool" where
  "underscores_ok hex i [] \<longleftrightarrow> i \<noteq> SeenUnderscore"
| "underscores_ok hex i (c # cs) \<longleftrightarrow>
     (if is_digit c \<or> hex \<and> CHR ''a'' \<le> lower_char c \<and> lower_char c \<le> CHR ''f''
      then underscores_ok hex SeenDigit cs
      else if c = CHR ''_'' then i = SeenDigit \<and> underscores_ok hex SeenUnderscore cs
      else i \<noteq> SeenUnderscore \<and> underscores_ok hex SeenOther cs)"

definition base_prefix :: "string \<Rightarrow> nat option" where
  "base_prefix s = (case s of
       c # d # _ \<Rightarrow> (if c \<noteq> CHR ''0'' then None
         else if lower_char d = CHR ''b'' then Some 2
         else if lower_char d = CHR ''o'' then Some 8
         else if lower_char d = CHR ''x'' then Some 16 else None)
     | _ \<Rightarrow> None)"

definition underscoreOK :: "string \<Rightarrow> bool" where
  "underscoreOK s = (case base_prefix s of
       None \<Rightarrow> underscores_ok False SeenStart s
     | Some b \<Rightarrow> underscores_ok (b = 16) SeenDigit (drop 2 s))"

definition ParseUint0 :: "string \<Rightarrow> nat option" where
  "ParseUint0 s =
     (if s = [] then None
      else let (base, ds) =
          (if hd s \<noteq> CHR ''0'' then (10, s)
           else case base_prefix s of
             Some b \<Rightarrow> if length s \<ge> 3 then (b, drop 2 s) else (8, tl s)
           | None \<Rightarrow> (8, tl s))
        in case digits_in base 0 ds of
          None \<Rightarrow> None
        | Some n \<Rightarrow> if n < 2 ^ 64 \<and> (CHR ''_'' \<in> set s \<longrightarrow> underscoreOK s) then Some n else None)"

definition ParseInt0 :: "string \<Rightarrow> int option" where
  "ParseInt0 s =
     (let neg = (s \<noteq> [] \<and> hd s = CHR ''-'');
          rest = (if s \<noteq> [] \<and> (hd s = CHR ''-'' \<or> hd s = CHR ''+'') then tl s else s)
      in case ParseUint0 rest of
           None \<Rightarrow> None
         | Some n \<Rightarrow>
             (if neg then (if n \<le> 2 ^ 63 then Some (- int n) else None)
              else (if n < 2 ^ 63 then Some (int n) else None)))"

definition ParseBool :: "string \<Rightarrow> bool option" where
  "ParseBool s =
     (if s \<in> set [''1'', ''t'', ''T'', ''TRUE'', ''true'', ''True''] then Some True
      else if s \<in> set [''0'', ''f'', ''F'', ''FALSE'', ''false'', ''False''] then Some False
      else None)"

definition flag_Set :: "flag_kind \<Rightarrow> string \<Rightarrow> flag_value option" where
  "flag_Set k v = (case k of
       StringFlag \<Rightarrow> Some (FString v)
     | IntFlag \<Rightarrow> map_option FInt (ParseInt0 v)
     | BoolFlag \<Rightarrow> map_option FBool (ParseBool v))"

text \<open>The name of a flag and its value after the first equals sign past the first byte.\<close>

definition split_flag :: "string \<Rightarrow> string \<times> string option" where
  "split_flag name = (case name of
       [] \<Rightarrow> ([], None)
     | c # cs \<Rightarrow> (case Cut cs ''='' of (a, v, found) \<Rightarrow> (c # a, if found then Some v else None)))"

definition flag_name :: "string \<Rightarrow> string" where
  "flag_name s = (if length s > 1 \<and> s ! 1 = CHR ''-'' then drop 2 s else drop 1 s)"

fun flag_parse :: "(string \<times> flag_kind) list \<Rightarrow> (string \<times> flag_value) list \<Rightarrow> string list
    \<Rightarrow> (flag_err, (string \<times> flag_value) list \<times> string list) result" where
  "flag_parse fs vs [] = Inr (vs, [])"
| "flag_parse fs vs (s # args) =
     (if length s < 2 \<or> hd s \<noteq> CHR ''-'' then Inr (vs, s # args)
      else if s = ''--'' then Inr (vs, args)
      else let name = flag_name s in
        if name = [] \<or> hd name = CHR ''-'' \<or> hd name = CHR ''='' then Inl (BadFlagSyntax s)
        else (case split_flag name of (n, value) \<Rightarrow>
          (case map_of fs n of
             None \<Rightarrow> Inl (if n = ''help'' \<or> n = ''h'' then HelpRequested else FlagNotDefined n)
           | Some k \<Rightarrow>
               (case value of
                  Some v \<Rightarrow> (case flag_Set k v of
                      None \<Rightarrow> Inl (if k = BoolFlag then InvalidBool v n else InvalidFlagValue v n)
                    | Some x \<Rightarrow> flag_parse fs ((n, x) # vs) args)
                | None \<Rightarrow>
                    (if k = BoolFlag then flag_parse fs ((n, FBool True) # vs) args
                     else (case args of
                         [] \<Rightarrow> Inl (FlagNeedsArgument n)
                       | v # args' \<Rightarrow> (case flag_Set k v of
                           None \<Rightarrow> Inl (InvalidFlagValue v n)
                         | Some x \<Rightarrow> flag_parse fs ((n, x) # vs) args')))))))"

text \<open>Positional arguments that do not look like flags are taken as they are.\<close>

definition plain_arg :: "string \<Rightarrow> bool" where
  "plain_arg s \<longleftrightarrow> length s < 2 \<or> hd s \<noteq> CHR ''-''"

lemma flag_parse_plain: "(args \<noteq> [] \<Longrightarrow> plain_arg (hd args)) \<Longrightarrow> flag_parse fs vs args = Inr (vs, args)"
  by (cases args) (simp_all add: plain_arg_def)

text \<open>The positional arguments are an end piece of the command line.\<close>

lemma flag_parse_suffix: "flag_parse fs vs args = Inr (vs', rest) \<Longrightarrow> \<exists>pre. args = pre @ rest"
proof (induction fs vs args arbitrary: vs' rest rule: flag_parse.induct)
  case (2 fs vs s args)
  then show ?case
    by (auto simp: Let_def split: if_splits prod.splits option.splits list.splits)
      (metis append_Cons append_Nil)+
qed simp

end
