(* ===== verification/Probe.thy ===== *)
theory Probe
  imports Go_Flag Go_Path Probeout Effects "HOL-Library.Word"
begin

unbundle bit_operations_syntax

section \<open>The fixture binary\<close>

text \<open>
  \<^verbatim>\<open>internal/lab/docker/probe\<close>: the static program that reports what it can see and do inside a
  container. This theory has the reporter and the flags of \<^verbatim>\<open>main.go\<close> and the checks of
  \<^verbatim>\<open>checks.go\<close>; the commands that serve or dial are in \<open>Probe_Serve\<close>, the command table and
  \<^verbatim>\<open>run\<close> in \<open>Probe_Main\<close>.

  The kernel is a value of the record \<open>os\<close>: one function per system or library call the source
  makes, which answers from the list of all calls so far. The printed lines are in that list
  too, so the order of calls and lines is part of the model. The reporter's counter is the number
  of denied lines printed: only \<open>line\<close> prints, and it counts when it prints.
\<close>

type_synonym msg = string

datatype usage =
    FlagProblem flag_err
  | ArgumentCount nat nat nat
  | BadUid string
  | BadOwner string
  | BadGid string
  | BadMode string
  | BadNetwork string
  | BadCount int
  | BadSeconds string
  | BadBytes string
  | BadForks string
  | BadDestination string
  | BadURL string

datatype probe_err = Usage usage | PlainError msg

datatype complaint =
    UsageShown
  | Refused string
  | UsageProblem string probe_err
  | UnknownCommand string

record Stat_t =
  st_Mode :: "32 word"
  st_Uid :: "32 word"
  st_Gid :: "32 word"

datatype oscall =
    Printed line
  | HelpPrinted string
  | Complained complaint
  | GroupsRead
  | IdsRead
  | FileRead string
  | DirRead string
  | InterfacesRead
  | Lstatted string
  | TempCreated string "(msg, string) result"
  | TempWritten string
  | TempClosed string
  | TempRemoved string
  | SetuidCalled int
  | Chowned string int int "msg option"
  | Chmodded string "32 word" "msg option"
  | Unlinked string
  | Renamed string string
  | Mounted string "msg option"
  | Unmounted string
  | ChildCloned
  | KeyringAsked
  | Dialed string string "(msg, nat) result"
  | ConnWritten nat string
  | ConnRead nat
  | ConnClosed nat
  | Copied nat nat
  | WriteClosed nat
  | UmaskSet int
  | Listened string string "(msg, nat) result"
  | ListenerClosed nat
  | Accepted nat "(msg, nat) result"
  | PeerAsked nat
  | HTTPGot string
  | HTTPServed nat
  | PidRead
  | SignalAwaited
  | PageTouched int
  | ChildStarted "(msg, nat) result"
  | ChildKilled nat
  | ChildWaited nat

type_synonym calls = "oscall list"

type_synonym 'a probe = "(calls, 'a) state"

datatype signal = SigTerm | TimedOut

record os =
  os_Getgroups :: "calls \<Rightarrow> (msg, int list) result"
  os_Getids :: "calls \<Rightarrow> int \<times> int \<times> int \<times> int"
  os_ReadFile :: "calls \<Rightarrow> string \<Rightarrow> (msg, string) result"
  os_ReadDir :: "calls \<Rightarrow> string \<Rightarrow> (msg, string list) result"
  os_Interfaces :: "calls \<Rightarrow> (msg, string list) result"
  os_Lstat :: "calls \<Rightarrow> string \<Rightarrow> (msg, Stat_t) result"
  os_CreateTemp :: "calls \<Rightarrow> string \<Rightarrow> string \<Rightarrow> (msg, string) result"
  os_WriteTemp :: "calls \<Rightarrow> string \<Rightarrow> string \<Rightarrow> msg option"
  os_CloseTemp :: "calls \<Rightarrow> string \<Rightarrow> msg option"
  os_Setuid :: "calls \<Rightarrow> int \<Rightarrow> msg option"
  os_Chown :: "calls \<Rightarrow> string \<Rightarrow> int \<Rightarrow> int \<Rightarrow> msg option"
  os_Chmod :: "calls \<Rightarrow> string \<Rightarrow> 32 word \<Rightarrow> msg option"
  os_Unlink :: "calls \<Rightarrow> string \<Rightarrow> msg option"
  os_Rename :: "calls \<Rightarrow> string \<Rightarrow> string \<Rightarrow> msg option"
  os_Mount :: "calls \<Rightarrow> string \<Rightarrow> msg option"
  os_CloneUser :: "calls \<Rightarrow> msg option"
  os_Keyctl :: "calls \<Rightarrow> msg option"
  os_Dial :: "calls \<Rightarrow> string \<Rightarrow> string \<Rightarrow> (msg, nat) result"
  os_ConnWrite :: "calls \<Rightarrow> nat \<Rightarrow> string \<Rightarrow> msg option"
  os_ReadString :: "calls \<Rightarrow> nat \<Rightarrow> string \<times> msg option"
  os_Umask :: "calls \<Rightarrow> int \<Rightarrow> int"
  os_Listen :: "calls \<Rightarrow> string \<Rightarrow> string \<Rightarrow> (msg, nat) result"
  os_Accept :: "calls \<Rightarrow> nat \<Rightarrow> (msg, nat) result"
  os_AcceptForward :: "calls \<Rightarrow> nat \<Rightarrow> (msg option, nat) result"
  os_Pick :: "calls \<Rightarrow> nat"
  os_PeerCred :: "calls \<Rightarrow> nat \<Rightarrow> (msg, int \<times> int \<times> int) result"
  os_Addr :: "calls \<Rightarrow> nat \<Rightarrow> string"
  os_Serve :: "calls \<Rightarrow> nat \<Rightarrow> msg option"
  os_Get :: "calls \<Rightarrow> string \<Rightarrow> (msg, int \<times> string) result"
  os_Getpid :: "calls \<Rightarrow> int"
  os_Signal :: "calls \<Rightarrow> bool \<Rightarrow> signal"
  os_Getpagesize :: int
  os_StartChild :: "calls \<Rightarrow> (msg, nat) result"

subsection \<open>The reporter\<close>

definition report_line :: "line \<Rightarrow> unit probe" where
  "report_line l = ask (\<lambda>h. ()) (\<lambda>_. Printed l)"

definition report_ok :: "string \<Rightarrow> string \<Rightarrow> unit probe" where
  "report_ok name detail = report_line (OK name detail)"

definition deny :: "string \<Rightarrow> msg \<Rightarrow> unit probe" where
  "deny name err = report_line (Denied name err)"

definition report_result :: "string \<Rightarrow> string \<Rightarrow> msg option \<Rightarrow> unit probe" where
  "report_result name detail err = (case err of Some e \<Rightarrow> deny name e | None \<Rightarrow> report_ok name detail)"

fun printed_line :: "oscall \<Rightarrow> line option" where
  "printed_line (Printed l) = Some l"
| "printed_line _ = None"

definition printed :: "calls \<Rightarrow> line list" where
  "printed h = List.map_filter printed_line h"

definition denied_lines :: "calls \<Rightarrow> nat" where
  "denied_lines h = length (filter (\<lambda>l. \<not> line_OK l) (printed h))"

text \<open>What reaches the standard output: \<^verbatim>\<open>fmt.Fprintln\<close> of every line, or the usage text.\<close>

fun stdout_of :: "oscall \<Rightarrow> string" where
  "stdout_of (Printed l) = line_String l @ newline"
| "stdout_of (HelpPrinted s) = s"
| "stdout_of _ = []"

definition stdout :: "calls \<Rightarrow> string" where
  "stdout h = concat (map stdout_of h)"

subsection \<open>Flags\<close>

definition parseFlags :: "(string \<times> flag_kind) list \<Rightarrow> string list \<Rightarrow> nat \<Rightarrow> nat
    \<Rightarrow> (probe_err, (string \<times> flag_value) list \<times> string list) result" where
  "parseFlags fs args lo hi = (case flag_parse fs [] args of
       Inl e \<Rightarrow> Inl (Usage (FlagProblem e))
     | Inr (vs, rest) \<Rightarrow>
         (if length rest < lo \<or> length rest > hi
          then Inl (Usage (ArgumentCount (length rest) lo hi))
          else Inr (vs, rest)))"

subsection \<open>The checks\<close>

definition cmdID :: "os \<Rightarrow> string list \<Rightarrow> probe_err option probe" where
  "cmdID os args = (case parseFlags [] args 0 0 of
       Inl e \<Rightarrow> ret (Some e)
     | Inr _ \<Rightarrow> do {
         groups \<leftarrow> ask (os_Getgroups os) (\<lambda>_. GroupsRead);
         case groups of
           Inl e \<Rightarrow> do { deny ''identity'' e; ret None }
         | Inr gs \<Rightarrow> do {
             ids \<leftarrow> ask (os_Getids os) (\<lambda>_. IdsRead);
             case ids of (uid, gid, euid, egid) \<Rightarrow> do {
               report_ok ''identity'' (''uid='' @ Itoa uid @ '' gid='' @ Itoa gid @ '' euid='' @ Itoa euid
                 @ '' egid='' @ Itoa egid @ '' groups='' @ join_with '','' (map Itoa gs));
               ret None } } })"

definition statusFields :: "(string \<times> string) list" where
  "statusFields = [(''CapEff'', ''cap-eff''), (''NoNewPrivs'', ''no-new-privs''), (''Seccomp'', ''seccomp'')]"

fun deny_fields :: "(string \<times> string) list \<Rightarrow> msg \<Rightarrow> unit probe" where
  "deny_fields [] e = ret ()"
| "deny_fields (f # fs) e = do { deny (snd f) e; deny_fields fs e }"

fun status_values :: "string list \<Rightarrow> (string \<rightharpoonup> string)" where
  "status_values [] = Map.empty"
| "status_values (l # ls) = (case Cut l '':'' of
       (k, v, True) \<Rightarrow> (\<lambda>m. if m k = None then m(k \<mapsto> TrimSpace v) else m) (status_values ls)
     | (_, _, False) \<Rightarrow> status_values ls)"

fun report_fields :: "(string \<rightharpoonup> string) \<Rightarrow> (string \<times> string) list \<Rightarrow> unit probe" where
  "report_fields values [] = ret ()"
| "report_fields values (f # fs) = do {
     (case values (fst f) of
        Some v \<Rightarrow> report_ok (snd f) v
      | None \<Rightarrow> deny (snd f) (''no '' @ fst f @ '' field in /proc/self/status''));
     report_fields values fs }"

definition cmdStatus :: "os \<Rightarrow> string list \<Rightarrow> probe_err option probe" where
  "cmdStatus os args = (case parseFlags [] args 0 0 of
       Inl e \<Rightarrow> ret (Some e)
     | Inr _ \<Rightarrow> do {
         file \<leftarrow> ask (\<lambda>h. os_ReadFile os h ''/proc/self/status'') (\<lambda>_. FileRead ''/proc/self/status'');
         case file of
           Inl e \<Rightarrow> do { deny_fields statusFields e; ret None }
         | Inr content \<Rightarrow> do {
             report_fields (status_values (split_on (CHR 0x0A) content)) statusFields;
             ret None } })"

definition cmdPIDs :: "os \<Rightarrow> string list \<Rightarrow> probe_err option probe" where
  "cmdPIDs os args = (case parseFlags [] args 0 0 of
       Inl e \<Rightarrow> ret (Some e)
     | Inr _ \<Rightarrow> do {
         entries \<leftarrow> ask (\<lambda>h. os_ReadDir os h ''/proc'') (\<lambda>_. DirRead ''/proc'');
         case entries of
           Inl e \<Rightarrow> do { deny ''pids'' e; ret None }
         | Inr es \<Rightarrow> do {
             report_ok ''pids'' (join_with '' '' (map Itoa (sort (List.map_filter Atoi es))));
             ret None } })"

definition cmdInterfaces :: "os \<Rightarrow> string list \<Rightarrow> probe_err option probe" where
  "cmdInterfaces os args = (case parseFlags [] args 0 0 of
       Inl e \<Rightarrow> ret (Some e)
     | Inr _ \<Rightarrow> do {
         ifs \<leftarrow> ask (os_Interfaces os) (\<lambda>_. InterfacesRead);
         case ifs of
           Inl e \<Rightarrow> do { deny ''interfaces'' e; ret None }
         | Inr names \<Rightarrow> do { report_ok ''interfaces'' (join_with '' '' names); ret None } })"

definition writeTemp :: "os \<Rightarrow> string \<Rightarrow> msg option probe" where
  "writeTemp os f = do {
     werr \<leftarrow> ask (\<lambda>h. os_WriteTemp os h f (''probe'' @ newline)) (\<lambda>_. TempWritten f);
     cerr \<leftarrow> ask (\<lambda>h. os_CloseTemp os h f) (\<lambda>_. TempClosed f);
     ask (\<lambda>h. ()) (\<lambda>_. TempRemoved f);
     ret (if werr = None then cerr else werr) }"

definition checkWrite :: "os \<Rightarrow> string \<Rightarrow> string \<Rightarrow> unit probe" where
  "checkWrite os name dir = do {
     f \<leftarrow> ask (\<lambda>h. os_CreateTemp os h dir ''.probe-write-'') (TempCreated dir);
     err \<leftarrow> (case f of Inl e \<Rightarrow> ret (Some e) | Inr f \<Rightarrow> writeTemp os f);
     report_result name dir err }"

definition cmdWrite :: "os \<Rightarrow> string list \<Rightarrow> probe_err option probe" where
  "cmdWrite os args = (case parseFlags [] args 1 1 of
       Inl e \<Rightarrow> ret (Some e)
     | Inr (_, rest) \<Rightarrow> do { checkWrite os ''write'' (Clean (rest ! 0)); ret None })"

definition checkSetuid :: "os \<Rightarrow> int \<Rightarrow> unit probe" where
  "checkSetuid os uid = do {
     err \<leftarrow> ask (\<lambda>h. os_Setuid os h uid) (\<lambda>_. SetuidCalled uid);
     report_result ''setuid'' (''uid='' @ Itoa uid) err }"

definition non_negative :: "string \<Rightarrow> int option" where
  "non_negative s = (case Atoi s of None \<Rightarrow> None | Some n \<Rightarrow> if n < 0 then None else Some n)"

definition cmdSetuid :: "os \<Rightarrow> string list \<Rightarrow> probe_err option probe" where
  "cmdSetuid os args = (case parseFlags [] args 0 1 of
       Inl e \<Rightarrow> ret (Some e)
     | Inr (_, rest) \<Rightarrow>
         (if length rest = 1 then (case non_negative (rest ! 0) of
              None \<Rightarrow> ret (Some (Usage (BadUid (rest ! 0))))
            | Some uid \<Rightarrow> do { checkSetuid os uid; ret None })
          else do { checkSetuid os 0; ret None }))"

definition parseOwner :: "string \<Rightarrow> (probe_err, int \<times> int) result" where
  "parseOwner s = (case Cut s '':'' of (u, g, ok) \<Rightarrow>
     (if \<not> ok then Inl (Usage (BadOwner s))
      else case non_negative u of
        None \<Rightarrow> Inl (Usage (BadUid u))
      | Some uid \<Rightarrow> (case non_negative g of
          None \<Rightarrow> Inl (Usage (BadGid g))
        | Some gid \<Rightarrow> Inr (uid, gid))))"

definition parseMode :: "string \<Rightarrow> (probe_err, 32 word) result" where
  "parseMode s = (case ParseUint s 8 32 of
       None \<Rightarrow> Inl (Usage (BadMode s))
     | Some m \<Rightarrow> if m > 4095 then Inl (Usage (BadMode s)) else Inr (word_of_nat m))"

definition pathErr :: "string \<Rightarrow> string \<Rightarrow> msg option \<Rightarrow> msg option" where
  "pathErr op path err = map_option (\<lambda>e. op @ '' '' @ path @ '': '' @ e) err"

definition cmdChown :: "os \<Rightarrow> string list \<Rightarrow> probe_err option probe" where
  "cmdChown os args = (case parseFlags [] args 2 2 of
       Inl e \<Rightarrow> ret (Some e)
     | Inr (_, rest) \<Rightarrow> (case parseOwner (rest ! 1) of
         Inl e \<Rightarrow> ret (Some e)
       | Inr (uid, gid) \<Rightarrow> do {
           err \<leftarrow> ask (\<lambda>h. os_Chown os h (rest ! 0) uid gid) (Chowned (rest ! 0) uid gid);
           report_result ''chown'' (rest ! 0 @ '' '' @ rest ! 1) err;
           ret None }))"

definition cmdChmod :: "os \<Rightarrow> string list \<Rightarrow> probe_err option probe" where
  "cmdChmod os args = (case parseFlags [] args 2 2 of
       Inl e \<Rightarrow> ret (Some e)
     | Inr (_, rest) \<Rightarrow> (case parseMode (rest ! 1) of
         Inl e \<Rightarrow> ret (Some e)
       | Inr mode \<Rightarrow> do {
           err \<leftarrow> ask (\<lambda>h. os_Chmod os h (rest ! 0) mode) (Chmodded (rest ! 0) mode);
           report_result ''chmod'' (rest ! 0 @ '' '' @ rest ! 1) (pathErr ''chmod'' (rest ! 0) err);
           ret None }))"

definition cmdUnlink :: "os \<Rightarrow> string list \<Rightarrow> probe_err option probe" where
  "cmdUnlink os args = (case parseFlags [] args 1 1 of
       Inl e \<Rightarrow> ret (Some e)
     | Inr (_, rest) \<Rightarrow> do {
         err \<leftarrow> ask (\<lambda>h. os_Unlink os h (rest ! 0)) (\<lambda>_. Unlinked (rest ! 0));
         report_result ''unlink'' (rest ! 0) (pathErr ''unlink'' (rest ! 0) err);
         ret None })"

subsection \<open>Modes\<close>

text \<open>\<^verbatim>\<open>%04o\<close>: octal digits, at least four of them.\<close>

fun octal :: "nat \<Rightarrow> string" where
  "octal n = (if n < 8 then [digit_char n] else octal (n div 8) @ [digit_char (n mod 8)])"

declare octal.simps [simp del]

definition perm_text :: "32 word \<Rightarrow> string" where
  "perm_text m = (let s = octal (unat m) in replicate (4 - length s) (CHR ''0'') @ s)"

definition type_char :: "32 word \<Rightarrow> char" where
  "type_char mode = (let t = mode AND 0xF000 in
     if t = 0xC000 then CHR ''s'' else if t = 0x4000 then CHR ''d'' else if t = 0xA000 then CHR ''l''
     else if t = 0x1000 then CHR ''p'' else if t = 0x2000 then CHR ''c'' else if t = 0x6000 then CHR ''b''
     else CHR ''-'')"

definition rwx_char :: "32 word \<Rightarrow> nat \<Rightarrow> char" where
  "rwx_char mode i = (if mode AND push_bit (8 - i) 1 = 0 then CHR ''-'' else ''rwxrwxrwx'' ! i)"

definition special_slot :: "32 word \<Rightarrow> 32 word \<times> nat \<times> char \<Rightarrow> string \<Rightarrow> string" where
  "special_slot mode f b = (case f of (flag, slot, on) \<Rightarrow>
     (if mode AND flag \<noteq> 0
      then b[slot := (if mode AND push_bit (8 - slot) 1 = 0 then char_of (of_char on - 32 :: nat) else on)]
      else b))"

definition fileMode :: "32 word \<Rightarrow> string" where
  "fileMode mode =
     (let b = map (rwx_char mode) [0..<9];
          b = fold (special_slot mode) [(0x800, 2, CHR ''s''), (0x400, 5, CHR ''s''), (0x200, 8, CHR ''t'')] b
      in type_char mode # b)"

definition cmdStat :: "os \<Rightarrow> string list \<Rightarrow> probe_err option probe" where
  "cmdStat os args = (case parseFlags [] args 1 1 of
       Inl e \<Rightarrow> ret (Some e)
     | Inr (_, rest) \<Rightarrow> do {
         st \<leftarrow> ask (\<lambda>h. os_Lstat os h (rest ! 0)) (\<lambda>_. Lstatted (rest ! 0));
         case st of
           Inl e \<Rightarrow> do { deny ''stat'' (''lstat '' @ rest ! 0 @ '': '' @ e); ret None }
         | Inr st \<Rightarrow> do {
             report_ok ''stat'' (rest ! 0 @ '' mode='' @ fileMode (st_Mode st) @ '' perm='' @ perm_text (st_Mode st AND 0xFFF)
               @ '' uid='' @ Itoa (uint (st_Uid st)) @ '' gid='' @ Itoa (uint (st_Gid st)));
             ret None } })"

subsection \<open>Privileges\<close>

definition checkMount :: "os \<Rightarrow> unit probe" where
  "checkMount os = do {
     err \<leftarrow> ask (\<lambda>h. os_Mount os h ''/dev/shm'') (Mounted ''/dev/shm'');
     (case err of None \<Rightarrow> ask (\<lambda>h. ()) (\<lambda>_. Unmounted ''/dev/shm'') | Some _ \<Rightarrow> ret ());
     report_result ''mount'' ''/dev/shm'' (pathErr ''mount'' ''/dev/shm'' err) }"

definition cmdMount :: "os \<Rightarrow> string list \<Rightarrow> probe_err option probe" where
  "cmdMount os args = (case parseFlags [] args 0 0 of
       Inl e \<Rightarrow> ret (Some e) | Inr _ \<Rightarrow> do { checkMount os; ret None })"

definition checkUnshareUser :: "os \<Rightarrow> unit probe" where
  "checkUnshareUser os = do {
     err \<leftarrow> ask (os_CloneUser os) (\<lambda>_. ChildCloned);
     report_result ''unshare-user'' ''CLONE_NEWUSER'' err }"

definition cmdUnshareUser :: "os \<Rightarrow> string list \<Rightarrow> probe_err option probe" where
  "cmdUnshareUser os args = (case parseFlags [] args 0 0 of
       Inl e \<Rightarrow> ret (Some e) | Inr _ \<Rightarrow> do { checkUnshareUser os; ret None })"

definition checkKeyctl :: "os \<Rightarrow> unit probe" where
  "checkKeyctl os = do {
     errno \<leftarrow> ask (os_Keyctl os) (\<lambda>_. KeyringAsked);
     case errno of Some e \<Rightarrow> deny ''keyctl'' e | None \<Rightarrow> report_ok ''keyctl'' ''GET_KEYRING_ID'' }"

definition cmdKeyctl :: "os \<Rightarrow> string list \<Rightarrow> probe_err option probe" where
  "cmdKeyctl os args = (case parseFlags [] args 0 0 of
       Inl e \<Rightarrow> ret (Some e) | Inr _ \<Rightarrow> do { checkKeyctl os; ret None })"

fun cgroup_files :: "os \<Rightarrow> string list \<Rightarrow> unit probe" where
  "cgroup_files os [] = ret ()"
| "cgroup_files os (f # fs) = do {
     file \<leftarrow> ask (\<lambda>h. os_ReadFile os h (''/sys/fs/cgroup/'' @ f)) (\<lambda>_. FileRead (''/sys/fs/cgroup/'' @ f));
     (case file of Inl e \<Rightarrow> report_result f [] (Some e) | Inr content \<Rightarrow> report_result f (TrimSpace content) None);
     cgroup_files os fs }"

definition checkCgroup :: "os \<Rightarrow> unit probe" where
  "checkCgroup os = cgroup_files os [''memory.max'', ''pids.max'', ''cpu.max'']"

definition cmdCgroup :: "os \<Rightarrow> string list \<Rightarrow> probe_err option probe" where
  "cmdCgroup os args = (case parseFlags [] args 0 0 of
       Inl e \<Rightarrow> ret (Some e) | Inr _ \<Rightarrow> do { checkCgroup os; ret None })"

fun survey :: "(string list \<Rightarrow> probe_err option probe) list \<Rightarrow> probe_err option probe" where
  "survey [] = ret None"
| "survey (c # cs) = do {
     err \<leftarrow> c [];
     case err of Some e \<Rightarrow> ret (Some e) | None \<Rightarrow> survey cs }"

definition cmdBattery :: "os \<Rightarrow> string list \<Rightarrow> probe_err option probe" where
  "cmdBattery os args = (case parseFlags [] args 0 0 of
       Inl e \<Rightarrow> ret (Some e)
     | Inr _ \<Rightarrow> do {
         err \<leftarrow> survey [cmdID os, cmdStatus os, cmdPIDs os, cmdInterfaces os];
         case err of
           Some e \<Rightarrow> ret (Some e)
         | None \<Rightarrow> do {
             checkWrite os ''write-root'' ''/'';
             checkMount os;
             checkUnshareUser os;
             checkKeyctl os;
             checkCgroup os;
             checkSetuid os 0;
             ret None } })"

end
