(* ===== verification/Probe_Serve.thy ===== *)
theory Probe_Serve
  imports Probe
begin

section \<open>The commands that dial, serve and start processes\<close>

text \<open>
  \<^verbatim>\<open>net.go\<close> and \<^verbatim>\<open>proc.go\<close> of the fixture binary, and the forwarder and HTTP client of \<^verbatim>\<open>egress.go\<close>. A
  command that may serve for ever takes fuel, one unit per connection or signal: \<^term>\<open>None\<close> is
  a command that is still running when the fuel is used up. Deadlines do not occur: a call that
  runs into one is a call that fails. The grammar of floating point numbers, of URLs and of host:port pairs is left
  to the arguments \<open>seconds_ok\<close>, \<open>url_Parse\<close> and \<open>hostport_ok\<close>.
\<close>

fun trimEOL_rev :: "string \<Rightarrow> string" where
  "trimEOL_rev [] = []"
| "trimEOL_rev (c # cs) = (if c = CHR 0x0A \<or> c = CHR 0x0D then trimEOL_rev cs else c # cs)"

definition trimEOL :: "string \<Rightarrow> string" where
  "trimEOL s = rev (trimEOL_rev (rev s))"

definition close_conn :: "nat \<Rightarrow> unit probe" where
  "close_conn c = ask (\<lambda>h. ()) (\<lambda>_. ConnClosed c)"

definition dial_reply :: "os \<Rightarrow> nat \<Rightarrow> string \<Rightarrow> unit probe" where
  "dial_reply os conn message = do {
     err \<leftarrow> ask (\<lambda>h. os_ConnWrite os h conn message) (\<lambda>_. ConnWritten conn message);
     case err of
       Some e \<Rightarrow> deny ''reply'' e
     | None \<Rightarrow> do {
         r \<leftarrow> ask (\<lambda>h. os_ReadString os h conn) (\<lambda>_. ConnRead conn);
         case r of (reply, err) \<Rightarrow>
           (case err of
              Some e \<Rightarrow> if reply = [] then deny ''reply'' e else report_ok ''reply'' (trimEOL reply)
            | None \<Rightarrow> report_ok ''reply'' (trimEOL reply)) } }"

definition cmdDial :: "os \<Rightarrow> string list \<Rightarrow> probe_err option probe" where
  "cmdDial os args = (case parseFlags [] args 2 3 of
       Inl e \<Rightarrow> ret (Some e)
     | Inr (_, rest) \<Rightarrow>
         (let network = rest ! 0; addr = rest ! 1 in
          if network \<noteq> ''unix'' \<and> network \<noteq> ''tcp'' then ret (Some (Usage (BadNetwork network)))
          else do {
            conn \<leftarrow> ask (\<lambda>h. os_Dial os h network addr) (Dialed network addr);
            case conn of
              Inl e \<Rightarrow> do { deny ''dial'' e; ret None }
            | Inr conn \<Rightarrow> do {
                report_ok ''dial'' (network @ '' '' @ addr);
                (if length rest < 3 then ret () else dial_reply os conn (rest ! 2));
                close_conn conn;
                ret None } }))"

definition flag_string :: "(string \<times> flag_value) list \<Rightarrow> string \<Rightarrow> string \<Rightarrow> string" where
  "flag_string vs name def = (case map_of vs name of Some (FString v) \<Rightarrow> v | _ \<Rightarrow> def)"

definition flag_int :: "(string \<times> flag_value) list \<Rightarrow> string \<Rightarrow> int \<Rightarrow> int" where
  "flag_int vs name def = (case map_of vs name of Some (FInt v) \<Rightarrow> v | _ \<Rightarrow> def)"

definition flag_bool :: "(string \<times> flag_value) list \<Rightarrow> string \<Rightarrow> bool \<Rightarrow> bool" where
  "flag_bool vs name def = (case map_of vs name of Some (FBool v) \<Rightarrow> v | _ \<Rightarrow> def)"

definition listenUmask :: "os \<Rightarrow> 32 word \<Rightarrow> string \<Rightarrow> (msg, nat) result probe" where
  "listenUmask os umask socket = do {
     old \<leftarrow> ask (\<lambda>h. os_Umask os h (uint umask)) (\<lambda>_. UmaskSet (uint umask));
     ln \<leftarrow> ask (\<lambda>h. os_Listen os h ''unix'' socket) (Listened ''unix'' socket);
     ask (\<lambda>h. os_Umask os h old) (\<lambda>_. UmaskSet old);
     ret ln }"

text \<open>One connection of \<^verbatim>\<open>peer-echo\<close>: the request is read before the answer is written.\<close>

definition peerDetail :: "int \<times> int \<times> int \<Rightarrow> string" where
  "peerDetail cred = (case cred of (uid, gid, pid) \<Rightarrow>
     ''uid='' @ Itoa uid @ '' gid='' @ Itoa gid @ '' pid='' @ Itoa pid)"

definition echoPeer :: "os \<Rightarrow> nat \<Rightarrow> unit probe" where
  "echoPeer os conn = do {
     cred \<leftarrow> ask (\<lambda>h. os_PeerCred os h conn) (\<lambda>_. PeerAsked conn);
     (case cred of
        Inl e \<Rightarrow> deny ''peer'' e
      | Inr cred \<Rightarrow> do {
          report_ok ''peer'' (peerDetail cred);
          ask (\<lambda>h. os_ReadString os h conn) (\<lambda>_. ConnRead conn);
          ask (\<lambda>h. os_ConnWrite os h conn (peerDetail cred @ newline)) (\<lambda>_. ConnWritten conn (peerDetail cred @ newline));
          ret () });
     close_conn conn }"

fun echoLoop :: "nat \<Rightarrow> os \<Rightarrow> nat \<Rightarrow> int \<Rightarrow> int \<Rightarrow> unit option probe" where
  "echoLoop fuel os ln count served =
     (if count = 0 \<or> served < count
      then case fuel of
          0 \<Rightarrow> ret None
        | Suc fuel \<Rightarrow> do {
            conn \<leftarrow> ask (\<lambda>h. os_Accept os h ln) (Accepted ln);
            case conn of
              Inl e \<Rightarrow> do { deny ''accept'' e; ret (Some ()) }
            | Inr conn \<Rightarrow> do { echoPeer os conn; echoLoop fuel os ln count (served + 1) } }
      else ret (Some ()))"

declare echoLoop.simps [simp del]

definition closed_after :: "unit option \<Rightarrow> nat \<Rightarrow> probe_err option option probe" where
  "closed_after r ln = (case r of
       None \<Rightarrow> ret None
     | Some _ \<Rightarrow> do { ask (\<lambda>h. ()) (\<lambda>_. ListenerClosed ln); ret (Some None) })"

definition cmdPeerEcho :: "nat \<Rightarrow> os \<Rightarrow> string list \<Rightarrow> probe_err option option probe" where
  "cmdPeerEcho fuel os args =
     (case parseFlags [(''umask'', StringFlag), (''count'', IntFlag)] args 1 1 of
        Inl e \<Rightarrow> ret (Some (Some e))
      | Inr (vs, rest) \<Rightarrow> (case parseMode (flag_string vs ''umask'' ''007'') of
          Inl e \<Rightarrow> ret (Some (Some e))
        | Inr umask \<Rightarrow>
            (let count = flag_int vs ''count'' 0 in
             if count < 0 then ret (Some (Some (Usage (BadCount count))))
             else do {
               ln \<leftarrow> listenUmask os umask (rest ! 0);
               case ln of
                 Inl e \<Rightarrow> do { deny ''listen'' e; ret (Some None) }
               | Inr ln \<Rightarrow> do {
                   report_ok ''listen'' (rest ! 0);
                   r \<leftarrow> echoLoop fuel os ln count 0;
                   closed_after r ln } })))"

definition cmdReplace :: "os \<Rightarrow> string list \<Rightarrow> probe_err option probe" where
  "cmdReplace os args = (case parseFlags [] args 1 1 of
       Inl e \<Rightarrow> ret (Some e)
     | Inr (_, rest) \<Rightarrow> do {
         ln \<leftarrow> ask (\<lambda>h. os_Listen os h ''unix'' (rest ! 0 @ ''.replace'')) (Listened ''unix'' (rest ! 0 @ ''.replace''));
         case ln of
           Inl e \<Rightarrow> do { deny ''replace'' e; ret None }
         | Inr ln \<Rightarrow> do {
             err \<leftarrow> ask (\<lambda>h. os_Rename os h (rest ! 0 @ ''.replace'') (rest ! 0))
               (\<lambda>_. Renamed (rest ! 0 @ ''.replace'') (rest ! 0));
             report_result ''replace'' (rest ! 0) err;
             ask (\<lambda>h. ()) (\<lambda>_. ListenerClosed ln);
             ret None } })"

subsection \<open>The counting server\<close>

text \<open>
  \<^verbatim>\<open>counter\<close> with its two critical sections, and the handlers of \<^verbatim>\<open>newCountHandler\<close> on a request
  that the multiplexer has routed. The requests are served concurrently; what they do to the
  counter is one critical section each, so a run is a list of routed requests.
\<close>

record counter =
  ct_paths :: "string \<rightharpoonup> int"
  ct_total :: int

definition new_counter :: counter where
  "new_counter = \<lparr>ct_paths = Map.empty, ct_total = 0\<rparr>"

definition hit :: "string \<Rightarrow> counter \<Rightarrow> counter" where
  "hit path c = c\<lparr>ct_paths := (ct_paths c)(path \<mapsto> (case ct_paths c path of None \<Rightarrow> 0 | Some n \<Rightarrow> n) + 1),
     ct_total := ct_total c + 1\<rparr>"

datatype routed = CountsRequest | OtherRequest string

datatype count_answer = Counts int "string \<rightharpoonup> int" | Greeting string

definition count_handler :: "string \<Rightarrow> routed \<Rightarrow> counter \<Rightarrow> count_answer \<times> counter" where
  "count_handler name r c = (case r of
       CountsRequest \<Rightarrow> (Counts (ct_total c) (ct_paths c), c)
     | OtherRequest path \<Rightarrow> (Greeting (''name='' @ name @ '' path='' @ path @ newline), hit path c))"

fun serve_counts :: "string \<Rightarrow> routed list \<Rightarrow> counter \<Rightarrow> count_answer list \<times> counter" where
  "serve_counts name [] c = ([], c)"
| "serve_counts name (r # rs) c =
     (let (a, c) = count_handler name r c; (as, c) = serve_counts name rs c in (a # as, c))"

definition cmdHTTPCount :: "os \<Rightarrow> string list \<Rightarrow> probe_err option probe" where
  "cmdHTTPCount os args = (case parseFlags [(''name'', StringFlag)] args 1 1 of
       Inl e \<Rightarrow> ret (Some e)
     | Inr (vs, rest) \<Rightarrow> do {
         ln \<leftarrow> ask (\<lambda>h. os_Listen os h ''tcp'' (rest ! 0)) (Listened ''tcp'' (rest ! 0));
         case ln of
           Inl e \<Rightarrow> do { deny ''listen'' e; ret None }
         | Inr ln \<Rightarrow> do {
             addr \<leftarrow> peek (\<lambda>h. os_Addr os h ln);
             report_ok ''listen'' addr;
             err \<leftarrow> ask (\<lambda>h. os_Serve os h ln) (\<lambda>_. HTTPServed ln);
             (case err of Some e \<Rightarrow> deny ''serve'' e | None \<Rightarrow> ret ());
             ret None } })"

definition cmdHTTPGet :: "(string \<Rightarrow> (string \<times> string \<times> string) option) \<Rightarrow> os \<Rightarrow> string list \<Rightarrow> probe_err option probe" where
  "cmdHTTPGet url_Parse os args = (case parseFlags [] args 1 1 of
       Inl e \<Rightarrow> ret (Some e)
     | Inr (_, rest) \<Rightarrow> (case url_Parse (rest ! 0) of
         None \<Rightarrow> ret (Some (Usage (BadURL (rest ! 0))))
       | Some (scheme, host, url) \<Rightarrow>
           (if scheme \<noteq> ''http'' \<or> host = [] then ret (Some (Usage (BadURL (rest ! 0))))
            else do {
              resp \<leftarrow> ask (\<lambda>h. os_Get os h url) (\<lambda>_. HTTPGot url);
              case resp of
                Inl e \<Rightarrow> do { deny ''http-get'' e; ret None }
              | Inr (status, body) \<Rightarrow> do {
                  report_ok ''http-get'' (Itoa status @ '' '' @ trimEOL (fst (Cut (take 4096 body) newline)));
                  ret None } })))"

subsection \<open>Processes\<close>

fun sleepLoop :: "nat \<Rightarrow> os \<Rightarrow> bool \<Rightarrow> bool \<Rightarrow> unit option probe" where
  "sleepLoop 0 os ignore timed = ret None"
| "sleepLoop (Suc fuel) os ignore timed = do {
     s \<leftarrow> ask (\<lambda>h. os_Signal os h timed) (\<lambda>_. SignalAwaited);
     case s of
       SigTerm \<Rightarrow> if ignore then sleepLoop fuel os ignore timed
         else do { report_ok ''signal'' ''SIGTERM''; ret (Some ()) }
     | TimedOut \<Rightarrow> if timed then do { report_ok ''sleep'' ''done''; ret (Some ()) }
         else sleepLoop fuel os ignore timed }"

definition cmdSleep :: "(string \<Rightarrow> bool) \<Rightarrow> nat \<Rightarrow> os \<Rightarrow> string list \<Rightarrow> probe_err option option probe" where
  "cmdSleep seconds_ok fuel os args = (case parseFlags [(''ignore-term'', BoolFlag)] args 0 1 of
       Inl e \<Rightarrow> ret (Some (Some e))
     | Inr (vs, rest) \<Rightarrow>
         (if length rest = 1 \<and> \<not> seconds_ok (rest ! 0)
          then ret (Some (Some (Usage (BadSeconds (rest ! 0)))))
          else do {
            pid \<leftarrow> ask (os_Getpid os) (\<lambda>_. PidRead);
            (let ignore = flag_bool vs ''ignore-term'' False in do {
               report_ok ''sleep'' (''pid='' @ Itoa pid @ '' ignore-term='' @ (if ignore then ''true'' else ''false''));
               r \<leftarrow> sleepLoop fuel os ignore (length rest = 1);
               ret (map_option (\<lambda>_. None) r) }) }))"

function touchPages :: "int \<Rightarrow> int \<Rightarrow> int \<Rightarrow> unit probe" where
  "touchPages pagesize n i =
     (if i < n \<and> 0 < pagesize
      then do { ask (\<lambda>h. ()) (\<lambda>_. PageTouched i); touchPages pagesize n (i + pagesize) }
      else ret ())"
  by pat_completeness auto
termination
  by (relation "measure (\<lambda>(pagesize, n, i). nat (n - i))") auto

declare touchPages.simps [simp del]

definition cmdAlloc :: "os \<Rightarrow> string list \<Rightarrow> probe_err option probe" where
  "cmdAlloc os args = (case parseFlags [] args 1 1 of
       Inl e \<Rightarrow> ret (Some e)
     | Inr (_, rest) \<Rightarrow> (case ParseInt (rest ! 0) of
         None \<Rightarrow> ret (Some (Usage (BadBytes (rest ! 0))))
       | Some n \<Rightarrow>
           (if n < 0 \<or> n > 2 ^ 40 then ret (Some (Usage (BadBytes (rest ! 0))))
            else do {
              touchPages (os_Getpagesize os) n 0;
              report_ok ''alloc'' (Itoa n);
              ret None })))"

definition maxFork :: int where
  "maxFork = 1024"

fun startChildren :: "os \<Rightarrow> nat \<Rightarrow> (nat list \<times> msg option) probe" where
  "startChildren os 0 = ret ([], None)"
| "startChildren os (Suc n) = do {
     c \<leftarrow> ask (os_StartChild os) ChildStarted;
     case c of
       Inl e \<Rightarrow> ret ([], Some e)
     | Inr c \<Rightarrow> do {
         r \<leftarrow> startChildren os n;
         ret (c # fst r, snd r) } }"

fun stopChildren :: "nat list \<Rightarrow> unit probe" where
  "stopChildren [] = ret ()"
| "stopChildren (c # cs) = do {
     ask (\<lambda>h. ()) (\<lambda>_. ChildKilled c);
     ask (\<lambda>h. ()) (\<lambda>_. ChildWaited c);
     stopChildren cs }"

definition cmdFork :: "os \<Rightarrow> string list \<Rightarrow> probe_err option probe" where
  "cmdFork os args = (case parseFlags [] args 1 1 of
       Inl e \<Rightarrow> ret (Some e)
     | Inr (_, rest) \<Rightarrow> (case Atoi (rest ! 0) of
         None \<Rightarrow> ret (Some (Usage (BadForks (rest ! 0))))
       | Some n \<Rightarrow>
           (if n < 1 \<or> n > maxFork then ret (Some (Usage (BadForks (rest ! 0))))
            else do {
              r \<leftarrow> startChildren os (nat n);
              stopChildren (fst r);
              report_ok ''fork-started'' (Itoa (int (length (fst r))));
              report_result ''fork'' (Itoa n @ '' requested'') (snd r);
              ret None })))"

definition cmdInitDir :: "os \<Rightarrow> string list \<Rightarrow> probe_err option probe" where
  "cmdInitDir os args = (case parseFlags [] args 3 3 of
       Inl e \<Rightarrow> ret (Some e)
     | Inr (_, rest) \<Rightarrow> (case parseOwner (rest ! 1) of
         Inl e \<Rightarrow> ret (Some e)
       | Inr (uid, gid) \<Rightarrow> (case parseMode (rest ! 2) of
           Inl e \<Rightarrow> ret (Some e)
         | Inr mode \<Rightarrow> do {
             cerr \<leftarrow> ask (\<lambda>h. os_Chown os h (rest ! 0) uid gid) (Chowned (rest ! 0) uid gid);
             case cerr of
               Some e \<Rightarrow> do { deny ''initdir'' e; ret None }
             | None \<Rightarrow> do {
                 err \<leftarrow> ask (\<lambda>h. os_Chmod os h (rest ! 0) mode) (Chmodded (rest ! 0) mode);
                 report_result ''initdir'' (rest ! 0 @ '' '' @ rest ! 1 @ '' '' @ rest ! 2) (pathErr ''chmod'' (rest ! 0) err);
                 ret None } })))"

subsection \<open>The forwarder\<close>

text \<open>
  \<^verbatim>\<open>cmdForward\<close> starts a goroutine per connection. \<open>conn_task\<close> is where such a goroutine is;
  before every step the scheduler, \<open>os_Pick\<close>, chooses between the accept loop and one of the
  connections, and for a connection being piped between its two directions. When the listener is
  closed, as the signal handler does, or \<^verbatim>\<open>Accept\<close> fails, the command waits for the connections
  that are left.
\<close>

datatype conn_task =
    Dialing nat
  | Failing nat msg
  | Connected nat nat
  | Piping nat nat nat nat
  | Closing nat nat
  | Leaving nat

definition pipe_step :: "os \<Rightarrow> nat \<Rightarrow> nat \<Rightarrow> nat \<Rightarrow> nat \<Rightarrow> conn_task probe" where
  "pipe_step os client up sent received = do {
     k \<leftarrow> peek (os_Pick os);
     (if sent < 2 \<and> (even k \<or> received = 2)
      then do {
        ask (\<lambda>h. ()) (\<lambda>_. if sent = 0 then Copied up client else WriteClosed up);
        ret (Piping client up (sent + 1) received) }
      else if received < 2
      then do {
        ask (\<lambda>h. ()) (\<lambda>_. if received = 0 then Copied client up else WriteClosed client);
        ret (Piping client up sent (received + 1)) }
      else ret (Closing client up)) }"

definition conn_step :: "os \<Rightarrow> string \<Rightarrow> conn_task \<Rightarrow> conn_task option probe" where
  "conn_step os dest t = (case t of
       Dialing c \<Rightarrow> do {
         up \<leftarrow> ask (\<lambda>h. os_Dial os h ''tcp'' dest) (Dialed ''tcp'' dest);
         ret (Some (case up of Inl e \<Rightarrow> Failing c e | Inr up \<Rightarrow> Connected c up)) }
     | Failing c e \<Rightarrow> do { deny ''forward'' e; ret (Some (Leaving c)) }
     | Connected c up \<Rightarrow> do { report_ok ''forward'' dest; ret (Some (Piping c up 0 0)) }
     | Piping c up s r \<Rightarrow> do { t \<leftarrow> pipe_step os c up s r; ret (Some t) }
     | Closing c up \<Rightarrow> do { close_conn up; ret (Some (Leaving c)) }
     | Leaving c \<Rightarrow> do { close_conn c; ret None })"

fun forwardLoop :: "nat \<Rightarrow> os \<Rightarrow> nat \<Rightarrow> string \<Rightarrow> bool \<Rightarrow> conn_task list \<Rightarrow> unit option probe" where
  "forwardLoop 0 os ln dest accepting ts = ret None"
| "forwardLoop (Suc fuel) os ln dest accepting ts =
     (if \<not> accepting \<and> ts = [] then ret (Some ())
      else do {
        k \<leftarrow> peek (os_Pick os);
        (if accepting \<and> (k = 0 \<or> ts = [])
         then do {
           conn \<leftarrow> ask (\<lambda>h. os_AcceptForward os h ln)
             (\<lambda>r. Accepted ln (case r of Inl None \<Rightarrow> Inl ''use of closed network connection''
               | Inl (Some e) \<Rightarrow> Inl e | Inr c \<Rightarrow> Inr c));
           (case conn of
              Inl None \<Rightarrow> forwardLoop fuel os ln dest False ts
            | Inl (Some e) \<Rightarrow> do { deny ''accept'' e; forwardLoop fuel os ln dest False ts }
            | Inr c \<Rightarrow> forwardLoop fuel os ln dest True (ts @ [Dialing c])) }
         else (let j = (if accepting then k - 1 else k) mod length ts in do {
           t \<leftarrow> conn_step os dest (ts ! j);
           forwardLoop fuel os ln dest accepting
             (case t of None \<Rightarrow> take j ts @ drop (Suc j) ts | Some t \<Rightarrow> ts[j := t]) })) })"

definition cmdForward :: "(string \<Rightarrow> bool) \<Rightarrow> nat \<Rightarrow> os \<Rightarrow> string list \<Rightarrow> probe_err option option probe" where
  "cmdForward hostport_ok fuel os args = (case parseFlags [(''umask'', StringFlag)] args 2 2 of
       Inl e \<Rightarrow> ret (Some (Some e))
     | Inr (vs, rest) \<Rightarrow>
         (let socket = rest ! 0; dest = rest ! 1 in
          if \<not> hostport_ok dest then ret (Some (Some (Usage (BadDestination dest))))
          else case parseMode (flag_string vs ''umask'' ''007'') of
            Inl e \<Rightarrow> ret (Some (Some e))
          | Inr umask \<Rightarrow> do {
              ln \<leftarrow> listenUmask os umask socket;
              case ln of
                Inl e \<Rightarrow> do { deny ''listen'' e; ret (Some None) }
              | Inr ln \<Rightarrow> do {
                  report_ok ''listen'' (socket @ '' -> '' @ dest);
                  r \<leftarrow> forwardLoop fuel os ln dest True [];
                  ret (map_option (\<lambda>_. None) r) } }))"

end
