(* ===== verification/Probe_Main.thy ===== *)
theory Probe_Main
  imports Probe_Serve
begin

section \<open>The command table of the fixture binary\<close>

text \<open>
  The table \<^verbatim>\<open>commands\<close> and \<^verbatim>\<open>run\<close> of \<^verbatim>\<open>main.go\<close>. \<open>parsers\<close> holds the accepted texts of the
  library grammars the commands rely on; \<open>getenv\<close> is the process environment.
\<close>

record parsers =
  pr_seconds :: "string \<Rightarrow> bool"
  pr_url :: "string \<Rightarrow> (string \<times> string \<times> string) option"
  pr_hostport :: "string \<Rightarrow> bool"

record command =
  cm_name :: string
  cm_args :: string
  cm_doc :: string
  cm_survey :: bool
  cm_mutates :: bool
  cm_fn :: "string list \<Rightarrow> probe_err option option probe"

definition markerEnv :: string where
  "markerEnv = ''TRINKETS_PROBE''"

definition returns :: "('a \<Rightarrow> 'b probe) \<Rightarrow> 'a \<Rightarrow> 'b option probe" where
  "returns f args = do { r \<leftarrow> f args; ret (Some r) }"

definition reading :: "string \<Rightarrow> string \<Rightarrow> string \<Rightarrow> (string list \<Rightarrow> probe_err option option probe) \<Rightarrow> command" where
  "reading name args doc fn = \<lparr>cm_name = name, cm_args = args, cm_doc = doc, cm_survey = False, cm_mutates = False, cm_fn = fn\<rparr>"

definition mutating :: "string \<Rightarrow> string \<Rightarrow> string \<Rightarrow> (string list \<Rightarrow> probe_err option option probe) \<Rightarrow> command" where
  "mutating name args doc fn = \<lparr>cm_name = name, cm_args = args, cm_doc = doc, cm_survey = False, cm_mutates = True, cm_fn = fn\<rparr>"

definition commands :: "parsers \<Rightarrow> nat \<Rightarrow> os \<Rightarrow> command list" where
  "commands pr fuel os =
    [reading ''id'' [] ''uid, gid, effective ids and supplementary groups'' (returns (cmdID os)),
     reading ''status'' [] ''CapEff, NoNewPrivs and Seccomp from /proc/self/status'' (returns (cmdStatus os)),
     reading ''pids'' [] ''process IDs visible in /proc'' (returns (cmdPIDs os)),
     reading ''interfaces'' [] ''network interface names'' (returns (cmdInterfaces os)),
     mutating ''write'' ''<dir>'' ''create and remove a file in dir'' (returns (cmdWrite os)),
     mutating ''setuid'' ''[uid]'' ''setuid(uid), default 0'' (returns (cmdSetuid os)),
     mutating ''chown'' ''<path> <uid:gid>'' ''chown path'' (returns (cmdChown os)),
     mutating ''chmod'' ''<path> <octal>'' ''chmod path, setgid and sticky bits included'' (returns (cmdChmod os)),
     mutating ''unlink'' ''<path>'' ''unlink path'' (returns (cmdUnlink os)),
     mutating ''replace'' ''<path>'' ''bind a unix socket beside path and rename it over path'' (returns (cmdReplace os)),
     reading ''stat'' ''<path>'' ''mode, owner and group of path (no symlink follow)'' (returns (cmdStat os)),
     mutating ''mount'' [] ''mount a tmpfs on /dev/shm, then unmount it'' (returns (cmdMount os)),
     mutating ''unshare-user'' [] ''start a child in a new user namespace (clone, not unshare: a Go process is multi-threaded)'' (returns (cmdUnshareUser os)),
     mutating ''keyctl'' [] ''keyctl(GET_KEYRING_ID) for the thread keyring'' (returns (cmdKeyctl os)),
     reading ''cgroup'' [] ''memory.max, pids.max and cpu.max from /sys/fs/cgroup'' (returns (cmdCgroup os)),
     (mutating ''battery'' [] ''id, status, pids, interfaces, write-root, mount, unshare-user, keyctl, cgroup, then setuid'' (returns (cmdBattery os)))\<lparr>cm_survey := True\<rparr>,
     reading ''dial'' ''<unix|tcp> <addr> [message]'' ''connect; with a message send it and report the first reply line'' (returns (cmdDial os)),
     reading ''peer-echo'' ''[--umask 007] [--count n] <socket>'' ''listen on a unix socket and report each peer's SO_PEERCRED'' (cmdPeerEcho fuel os),
     reading ''http-count'' ''[--name n] <addr>'' ''HTTP server counting requests per path; GET /__counts returns JSON'' (returns (cmdHTTPCount os)),
     reading ''http-get'' ''<url>'' ''one GET (honours HTTP_PROXY, follows no redirect); report status and first body line'' (returns (cmdHTTPGet (pr_url pr) os)),
     reading ''forward'' ''[--umask 007] <socket> <host:port>'' ''copy every unix socket connection to one fixed TCP destination'' (cmdForward (pr_hostport pr) fuel os),
     reading ''sleep'' ''[--ignore-term] [seconds]'' ''wait; exit 0 on SIGTERM unless --ignore-term'' (cmdSleep (pr_seconds pr) fuel os),
     mutating ''alloc'' ''<bytes>'' ''allocate and touch memory, then exit'' (returns (cmdAlloc os)),
     mutating ''fork'' ''<n>'' ''start up to n child processes and report how many started'' (returns (cmdFork os)),
     mutating ''initdir'' ''<path> <uid:gid> <octal mode>'' ''chown then chmod a directory (the volume init step)'' (returns (cmdInitDir os)),
     reading ''noop'' [] ''exit 0 (used as a child process)'' (\<lambda>_. ret (Some None))]"

definition usageText :: "command list \<Rightarrow> string" where
  "usageText cs = ''usage: probe <command> [args]'' @ newline @
     concat (map (\<lambda>c. ''  '' @ cm_name c @ replicate (12 - length (cm_name c)) (CHR '' '') @ '' ''
       @ TrimSpace (cm_args c @ ''  '' @ cm_doc c) @ newline) cs)"

definition complain :: "complaint \<Rightarrow> unit probe" where
  "complain c = ask (\<lambda>h. ()) (\<lambda>_. Complained c)"

text \<open>
  One command: \<open>denied\<close> is the number of denied lines since the command started, the counter
  of its reporter.
\<close>

definition run_command :: "(string \<Rightarrow> string) \<Rightarrow> command \<Rightarrow> string list \<Rightarrow> int option probe" where
  "run_command getenv c args =
     (if cm_mutates c \<and> getenv markerEnv \<noteq> ''1''
      then do { complain (Refused (cm_name c)); ret (Some 3) }
      else do {
        before \<leftarrow> peek denied_lines;
        r \<leftarrow> cm_fn c args;
        case r of
          None \<Rightarrow> ret None
        | Some (Some (Usage u)) \<Rightarrow> do { complain (UsageProblem (cm_name c) (Usage u)); ret (Some 2) }
        | Some err \<Rightarrow> do {
            (case err of Some (PlainError e) \<Rightarrow> deny (cm_name c) e | _ \<Rightarrow> ret ());
            denied \<leftarrow> peek (\<lambda>h. denied_lines h - before);
            ret (Some (if denied > 0 \<and> \<not> cm_survey c then 1 else 0)) } })"

definition probe_run :: "parsers \<Rightarrow> nat \<Rightarrow> (string \<Rightarrow> string) \<Rightarrow> os \<Rightarrow> string list \<Rightarrow> int option probe" where
  "probe_run pr fuel getenv os args = (case args of
       [] \<Rightarrow> do { complain UsageShown; ret (Some 2) }
     | a # rest \<Rightarrow>
         (if a = ''help'' \<or> a = ''-h'' \<or> a = ''--help''
          then do { ask (\<lambda>h. ()) (\<lambda>_. HelpPrinted (usageText (commands pr fuel os))); ret (Some 0) }
          else case List.find (\<lambda>c. cm_name c = a) (commands pr fuel os) of
            Some c \<Rightarrow> run_command getenv c rest
          | None \<Rightarrow> do { complain (UnknownCommand a); ret (Some 2) }))"

end
