(* ===== verification/Probe_Facts.thy ===== *)
theory Probe_Facts
  imports Probe_Main
begin

section \<open>What the fixture binary does\<close>

text \<open>
  The facts about whole runs of the binary, for every kernel: which calls a command can make
  (\<open>emits\<close>, one lemma per command that lists its events), that its output can be read back by
  \<^verbatim>\<open>probeout\<close>, and what its exit status means. \<open>harmless\<close> are the calls that do not change the
  machine in the sense of the guard of \<^verbatim>\<open>main.go\<close>.
\<close>

text \<open>\<open>calm_os\<close> is one kernel, on which the facts are exercised: it grants little.\<close>

definition calm_os :: os where
  "calm_os = \<lparr>os_Getgroups = \<lambda>h. Inr [], os_Getids = \<lambda>h. (65532, 65532, 65532, 65532),
     os_ReadFile = \<lambda>h p. if p = ''/proc/self/status'' then Inr (''CapEff:'' @ [CHR 0x09] @ ''0'') else Inl ''no such file'',
     os_ReadDir = \<lambda>h p. Inr [''1'', ''self''], os_Interfaces = \<lambda>h. Inr [''lo''],
     os_Lstat = \<lambda>h p. Inl ''no such file'', os_CreateTemp = \<lambda>h d p. Inl ''read-only file system'',
     os_WriteTemp = \<lambda>h f s. None, os_CloseTemp = \<lambda>h f. None, os_Setuid = \<lambda>h u. Some ''not permitted'',
     os_Chown = \<lambda>h p u g. None, os_Chmod = \<lambda>h p m. None, os_Unlink = \<lambda>h p. None, os_Rename = \<lambda>h p q. None,
     os_Mount = \<lambda>h t. Some ''not permitted'', os_CloneUser = \<lambda>h. Some ''not permitted'', os_Keyctl = \<lambda>h. None,
     os_Dial = \<lambda>h n a. Inr (length h), os_ConnWrite = \<lambda>h c m. None, os_ReadString = \<lambda>h c. (newline, None),
     os_Umask = \<lambda>h m. 18, os_Listen = \<lambda>h n a. Inr 0, os_Accept = \<lambda>h l. Inr (length h),
     os_AcceptForward = \<lambda>h l. if length h < 5 then Inr (length h) else Inl None, os_Pick = \<lambda>h. 0,
     os_PeerCred = \<lambda>h c. Inr (1, 2, 3), os_Addr = \<lambda>h l. ''127.0.0.1:80'', os_Serve = \<lambda>h l. None,
     os_Get = \<lambda>h u. Inr (200, ''ok''), os_Getpid = \<lambda>h. 7, os_Signal = \<lambda>h t. SigTerm, os_Getpagesize = 4096,
     os_StartChild = \<lambda>h. if length h < 2 then Inr (length h) else Inl ''resource temporarily unavailable''\<rparr>"

definition plain_parsers :: parsers where
  "plain_parsers = \<lparr>pr_seconds = \<lambda>s. True, pr_url = \<lambda>s. None, pr_hostport = \<lambda>s. True\<rparr>"

text \<open>A run of the binary on this kernel, with its history.\<close>

definition calm_run :: "string \<Rightarrow> string list \<Rightarrow> int option \<times> calls" where
  "calm_run marker args = run_state (probe_run plain_parsers 9 (\<lambda>_. marker) calm_os args) []"

subsection \<open>Lines that can be read back\<close>

fun readable :: "oscall \<Rightarrow> bool" where
  "readable (Printed l) \<longleftrightarrow> wf_line l \<and> \<not> line_Malformed l"
| "readable (HelpPrinted s) \<longleftrightarrow> False"
| "readable _ \<longleftrightarrow> True"

fun harmless :: "oscall \<Rightarrow> bool" where
  "harmless (TempCreated d r) = False"
| "harmless (TempWritten f) = False"
| "harmless (TempRemoved f) = False"
| "harmless (SetuidCalled u) = False"
| "harmless (Chowned p u g e) = False"
| "harmless (Chmodded p m e) = False"
| "harmless (Unlinked p) = False"
| "harmless (Renamed p q) = False"
| "harmless (Mounted t e) = False"
| "harmless (Unmounted t) = False"
| "harmless ChildCloned = False"
| "harmless KeyringAsked = False"
| "harmless (PageTouched i) = False"
| "harmless (ChildStarted r) = False"
| "harmless (ChildKilled c) = False"
| "harmless _ = True"

lemma ValidName_code: "ValidName s \<longleftrightarrow> s \<noteq> [] \<and> name_head (hd s) \<and> list_all name_tail (tl s)"
  by (cases s) simp_all

lemma wf_Denied [simp]: "ValidName n \<Longrightarrow> wf_line (Denied n e)"
  by (simp add: wf_line_def Denied_def)

lemma not_Malformed [simp]: "\<not> line_Malformed (OK n d)" "\<not> line_Malformed (Denied n e)"
  by (simp_all add: line_Malformed_def OK_def Denied_def)

definition prints :: "(oscall \<Rightarrow> bool) \<Rightarrow> string \<Rightarrow> bool" where
  "prints P n \<longleftrightarrow> (\<forall>d. P (Printed (OK n d))) \<and> (\<forall>e. P (Printed (Denied n e)))"

lemma prints_harmless [simp]: "prints harmless n"
  by (simp add: prints_def)

lemma prints_readable: "ValidName n \<Longrightarrow> prints readable n"
  by (simp add: prints_def)

lemma emits_ok [emits_rules]: "prints P n \<Longrightarrow> emits P (report_ok n d)"
  by (auto simp: report_ok_def report_line_def prints_def intro: emits_rules)

lemma emits_deny [emits_rules]: "prints P n \<Longrightarrow> emits P (deny n e)"
  by (auto simp: deny_def report_line_def prints_def intro: emits_rules)

lemma emits_result [emits_rules]: "prints P n \<Longrightarrow> emits P (report_result n d err)"
  by (auto simp: report_result_def intro: emits_rules split: option.splits)

lemma emits_deny_fields: "(\<And>f. f \<in> set fs \<Longrightarrow> prints P (snd f)) \<Longrightarrow> emits P (deny_fields fs e)"
  by (induction fs) (auto intro!: emits_rules)

lemma emits_report_fields: "(\<And>f. f \<in> set fs \<Longrightarrow> prints P (snd f)) \<Longrightarrow> emits P (report_fields values fs)"
  by (induction fs) (auto intro!: emits_rules)

lemma emits_cgroup_files:
  "(\<And>f. f \<in> set fs \<Longrightarrow> prints P f) \<Longrightarrow> (\<And>f. P (FileRead f)) \<Longrightarrow> emits P (cgroup_files os fs)"
  by (induction fs) (auto intro!: emits_rules)

lemma emits_cmdID: "prints P ''identity'' \<Longrightarrow> P GroupsRead \<Longrightarrow> P IdsRead \<Longrightarrow> emits P (cmdID os args)"
  unfolding cmdID_def by (intro emits_rules)

lemma emits_cmdStatus:
  "prints P ''cap-eff'' \<Longrightarrow> prints P ''no-new-privs'' \<Longrightarrow> prints P ''seccomp'' \<Longrightarrow> (\<And>f. P (FileRead f))
   \<Longrightarrow> emits P (cmdStatus os args)"
  unfolding cmdStatus_def by (intro emits_rules emits_deny_fields emits_report_fields) (auto simp: statusFields_def)

lemma emits_cmdPIDs: "prints P ''pids'' \<Longrightarrow> (\<And>d. P (DirRead d)) \<Longrightarrow> emits P (cmdPIDs os args)"
  unfolding cmdPIDs_def by (intro emits_rules)

lemma emits_cmdInterfaces: "prints P ''interfaces'' \<Longrightarrow> P InterfacesRead \<Longrightarrow> emits P (cmdInterfaces os args)"
  unfolding cmdInterfaces_def by (intro emits_rules)

lemma emits_checkWrite:
  "prints P name \<Longrightarrow> (\<And>d r. P (TempCreated d r)) \<Longrightarrow> (\<And>f. P (TempWritten f)) \<Longrightarrow> (\<And>f. P (TempClosed f))
   \<Longrightarrow> (\<And>f. P (TempRemoved f)) \<Longrightarrow> emits P (checkWrite os name dir)"
  unfolding checkWrite_def writeTemp_def by (intro emits_rules)

lemma emits_cmdWrite:
  "prints P ''write'' \<Longrightarrow> (\<And>d r. P (TempCreated d r)) \<Longrightarrow> (\<And>f. P (TempWritten f)) \<Longrightarrow> (\<And>f. P (TempClosed f))
   \<Longrightarrow> (\<And>f. P (TempRemoved f)) \<Longrightarrow> emits P (cmdWrite os args)"
  unfolding cmdWrite_def by (intro emits_rules emits_checkWrite)

lemma emits_checkSetuid: "prints P ''setuid'' \<Longrightarrow> (\<And>u. P (SetuidCalled u)) \<Longrightarrow> emits P (checkSetuid os uid)"
  unfolding checkSetuid_def by (intro emits_rules)

lemma emits_cmdSetuid: "prints P ''setuid'' \<Longrightarrow> (\<And>u. P (SetuidCalled u)) \<Longrightarrow> emits P (cmdSetuid os args)"
  unfolding cmdSetuid_def by (intro emits_rules emits_checkSetuid)

lemma emits_cmdChown: "prints P ''chown'' \<Longrightarrow> (\<And>p u g e. P (Chowned p u g e)) \<Longrightarrow> emits P (cmdChown os args)"
  unfolding cmdChown_def by (intro emits_rules)

lemma emits_cmdChmod: "prints P ''chmod'' \<Longrightarrow> (\<And>p m e. P (Chmodded p m e)) \<Longrightarrow> emits P (cmdChmod os args)"
  unfolding cmdChmod_def by (intro emits_rules)

lemma emits_cmdUnlink: "prints P ''unlink'' \<Longrightarrow> (\<And>p. P (Unlinked p)) \<Longrightarrow> emits P (cmdUnlink os args)"
  unfolding cmdUnlink_def by (intro emits_rules)

lemma emits_cmdStat: "prints P ''stat'' \<Longrightarrow> (\<And>p. P (Lstatted p)) \<Longrightarrow> emits P (cmdStat os args)"
  unfolding cmdStat_def by (intro emits_rules)

lemma emits_checkMount:
  "prints P ''mount'' \<Longrightarrow> (\<And>t e. P (Mounted t e)) \<Longrightarrow> (\<And>t. P (Unmounted t)) \<Longrightarrow> emits P (checkMount os)"
  unfolding checkMount_def by (intro emits_rules)

lemma emits_cmdMount:
  "prints P ''mount'' \<Longrightarrow> (\<And>t e. P (Mounted t e)) \<Longrightarrow> (\<And>t. P (Unmounted t)) \<Longrightarrow> emits P (cmdMount os args)"
  unfolding cmdMount_def by (intro emits_rules emits_checkMount)

lemma emits_cmdUnshareUser: "prints P ''unshare-user'' \<Longrightarrow> P ChildCloned \<Longrightarrow> emits P (checkUnshareUser os) \<and> emits P (cmdUnshareUser os args)"
  unfolding cmdUnshareUser_def checkUnshareUser_def by (intro conjI emits_rules)

lemma emits_cmdKeyctl: "prints P ''keyctl'' \<Longrightarrow> P KeyringAsked \<Longrightarrow> emits P (checkKeyctl os) \<and> emits P (cmdKeyctl os args)"
  unfolding cmdKeyctl_def checkKeyctl_def by (intro conjI emits_rules)

lemma emits_cmdCgroup:
  "prints P ''memory.max'' \<Longrightarrow> prints P ''pids.max'' \<Longrightarrow> prints P ''cpu.max'' \<Longrightarrow> (\<And>f. P (FileRead f))
   \<Longrightarrow> emits P (checkCgroup os) \<and> emits P (cmdCgroup os args)"
  unfolding cmdCgroup_def checkCgroup_def by (intro conjI emits_rules emits_cgroup_files) auto

lemma emits_survey: "(\<And>c. c \<in> set cs \<Longrightarrow> emits P (c [])) \<Longrightarrow> emits P (survey cs)"
  by (induction cs) (auto intro!: emits_rules)


lemma emits_close [emits_rules]: "(\<And>c. P (ConnClosed c)) \<Longrightarrow> emits P (close_conn c)"
  unfolding close_conn_def by (intro emits_rules)

lemma emits_cmdDial:
  "prints P ''dial'' \<Longrightarrow> prints P ''reply'' \<Longrightarrow> (\<And>n a r. P (Dialed n a r)) \<Longrightarrow> (\<And>c m. P (ConnWritten c m))
   \<Longrightarrow> (\<And>c. P (ConnRead c)) \<Longrightarrow> (\<And>c. P (ConnClosed c)) \<Longrightarrow> emits P (cmdDial os args)"
  unfolding cmdDial_def dial_reply_def by (intro emits_rules)

lemma emits_listenUmask:
  "(\<And>m. P (UmaskSet m)) \<Longrightarrow> (\<And>n a r. P (Listened n a r)) \<Longrightarrow> emits P (listenUmask os m socket)"
  unfolding listenUmask_def by (intro emits_rules)

lemma emits_echoPeer:
  "prints P ''peer'' \<Longrightarrow> (\<And>c. P (PeerAsked c)) \<Longrightarrow> (\<And>c m. P (ConnWritten c m))
   \<Longrightarrow> (\<And>c. P (ConnRead c)) \<Longrightarrow> (\<And>c. P (ConnClosed c)) \<Longrightarrow> emits P (echoPeer os conn)"
  unfolding echoPeer_def by (intro emits_rules)

lemma emits_echoLoop:
  assumes "prints P ''peer''" "prints P ''accept''" "\<And>c. P (PeerAsked c)" "\<And>c m. P (ConnWritten c m)"
    "\<And>c. P (ConnRead c)" "\<And>c. P (ConnClosed c)" "\<And>l r. P (Accepted l r)"
  shows "emits P (echoLoop fuel os ln count served)"
proof (induction fuel arbitrary: served)
  case 0
  show ?case by (subst echoLoop.simps) (auto intro!: emits_rules)
next
  case (Suc fuel)
  show ?case
    unfolding echoLoop.simps [of "Suc fuel"] nat.case by (intro emits_rules emits_echoPeer assms Suc)
qed

lemma emits_cmdPeerEcho:
  assumes "prints P ''listen''" "prints P ''peer''" "prints P ''accept''" "\<And>m. P (UmaskSet m)" "\<And>n a r. P (Listened n a r)"
    "\<And>c. P (PeerAsked c)" "\<And>c m. P (ConnWritten c m)" "\<And>c. P (ConnRead c)" "\<And>c. P (ConnClosed c)" "\<And>l r. P (Accepted l r)"
    "\<And>l. P (ListenerClosed l)"
  shows "emits P (cmdPeerEcho fuel os args)"
  unfolding cmdPeerEcho_def closed_after_def by (intro emits_rules emits_listenUmask emits_echoLoop assms)

lemma emits_cmdReplace:
  "prints P ''replace'' \<Longrightarrow> (\<And>n a r. P (Listened n a r)) \<Longrightarrow> (\<And>p q. P (Renamed p q)) \<Longrightarrow> (\<And>l. P (ListenerClosed l))
   \<Longrightarrow> emits P (cmdReplace os args)"
  unfolding cmdReplace_def by (intro emits_rules)

lemma emits_cmdHTTPCount:
  "prints P ''listen'' \<Longrightarrow> prints P ''serve'' \<Longrightarrow> (\<And>n a r. P (Listened n a r)) \<Longrightarrow> (\<And>l. P (HTTPServed l))
   \<Longrightarrow> emits P (cmdHTTPCount os args)"
  unfolding cmdHTTPCount_def by (intro emits_rules)

lemma emits_cmdHTTPGet: "prints P ''http-get'' \<Longrightarrow> (\<And>u. P (HTTPGot u)) \<Longrightarrow> emits P (cmdHTTPGet url_Parse os args)"
  unfolding cmdHTTPGet_def by (intro emits_rules)

lemma emits_sleepLoop: "prints P ''signal'' \<Longrightarrow> prints P ''sleep'' \<Longrightarrow> P SignalAwaited \<Longrightarrow> emits P (sleepLoop fuel os ignore timed)"
  by (induction fuel) (auto intro!: emits_rules split: signal.splits)

lemma emits_cmdSleep:
  "prints P ''signal'' \<Longrightarrow> prints P ''sleep'' \<Longrightarrow> P SignalAwaited \<Longrightarrow> P PidRead \<Longrightarrow> emits P (cmdSleep seconds_ok fuel os args)"
  unfolding cmdSleep_def by (intro emits_rules emits_sleepLoop)

lemma emits_touchPages: "(\<And>i. P (PageTouched i)) \<Longrightarrow> emits P (touchPages pagesize n i)"
proof (induction pagesize n i rule: touchPages.induct)
  case (1 pagesize n i)
  then show ?case by (subst touchPages.simps) (auto intro!: emits_rules)
qed

lemma emits_cmdAlloc: "prints P ''alloc'' \<Longrightarrow> (\<And>i. P (PageTouched i)) \<Longrightarrow> emits P (cmdAlloc os args)"
  unfolding cmdAlloc_def by (intro emits_rules emits_touchPages)

lemma emits_startChildren: "(\<And>r. P (ChildStarted r)) \<Longrightarrow> emits P (startChildren os n)"
  by (induction n) (auto intro!: emits_rules)

lemma emits_stopChildren: "(\<And>c. P (ChildKilled c)) \<Longrightarrow> (\<And>c. P (ChildWaited c)) \<Longrightarrow> emits P (stopChildren cs)"
  by (induction cs) (auto intro!: emits_rules)

lemma emits_cmdFork:
  "prints P ''fork'' \<Longrightarrow> prints P ''fork-started'' \<Longrightarrow> (\<And>r. P (ChildStarted r)) \<Longrightarrow> (\<And>c. P (ChildKilled c))
   \<Longrightarrow> (\<And>c. P (ChildWaited c)) \<Longrightarrow> emits P (cmdFork os args)"
  unfolding cmdFork_def by (intro emits_rules emits_startChildren emits_stopChildren)

lemma emits_cmdInitDir:
  "prints P ''initdir'' \<Longrightarrow> (\<And>p u g e. P (Chowned p u g e)) \<Longrightarrow> (\<And>p m e. P (Chmodded p m e)) \<Longrightarrow> emits P (cmdInitDir os args)"
  unfolding cmdInitDir_def by (intro emits_rules)

lemma emits_conn_step:
  assumes "prints P ''forward''" "\<And>r. P (Dialed ''tcp'' dest r)" "\<And>a b. P (Copied a b)" "\<And>c. P (WriteClosed c)" "\<And>c. P (ConnClosed c)"
  shows "emits P (conn_step os dest t)"
  unfolding conn_step_def pipe_step_def
  using assms by (cases t) (auto intro!: emits_rules)

lemma emits_forwardLoop:
  assumes "prints P ''forward''" "prints P ''accept''" "\<And>r. P (Dialed ''tcp'' dest r)" "\<And>a b. P (Copied a b)"
    "\<And>c. P (WriteClosed c)" "\<And>c. P (ConnClosed c)" "\<And>l r. P (Accepted l r)"
  shows "emits P (forwardLoop fuel os ln dest accepting ts)"
proof (induction fuel arbitrary: accepting ts)
  case (Suc fuel)
  then show ?case unfolding forwardLoop.simps
    by (intro emits_rules emits_conn_step assms)
qed (simp add: emits_rules)

lemma emits_cmdForward:
  assumes "prints P ''listen''" "prints P ''forward''" "prints P ''accept''" "\<And>m. P (UmaskSet m)" "\<And>n a r. P (Listened n a r)"
    "\<And>r dest. P (Dialed ''tcp'' dest r)" "\<And>a b. P (Copied a b)"
    "\<And>c. P (WriteClosed c)" "\<And>c. P (ConnClosed c)" "\<And>l r. P (Accepted l r)"
  shows "emits P (cmdForward hostport_ok fuel os args)"
  unfolding cmdForward_def by (intro emits_rules emits_listenUmask emits_forwardLoop assms)

lemma emits_cmdBattery:
  assumes "\<And>e. e \<notin> range HelpPrinted \<Longrightarrow> e \<notin> range Printed \<Longrightarrow> P e"
    "list_all (prints P) [''identity'', ''cap-eff'', ''no-new-privs'', ''seccomp'', ''pids'', ''interfaces'', ''write-root'',
      ''mount'', ''unshare-user'', ''keyctl'', ''memory.max'', ''pids.max'', ''cpu.max'', ''setuid'']"
  shows "emits P (cmdBattery os args)"
proof -
  have 1: "emits P (survey [cmdID os, cmdStatus os, cmdPIDs os, cmdInterfaces os])"
    using assms by (intro emits_survey) (auto intro!: emits_cmdID emits_cmdStatus emits_cmdPIDs emits_cmdInterfaces)
  have 2: "emits P (checkWrite os ''write-root'' ''/'')" "emits P (checkMount os)" "emits P (checkUnshareUser os)"
    "emits P (checkKeyctl os)" "emits P (checkCgroup os)" "emits P (checkSetuid os 0)"
    using assms by (auto intro!: emits_checkWrite emits_checkMount emits_cmdUnshareUser [THEN conjunct1]
        emits_cmdKeyctl [THEN conjunct1] emits_cmdCgroup [THEN conjunct1] emits_checkSetuid)
  show ?thesis unfolding cmdBattery_def by (intro emits_rules 1 2)
qed

lemmas emits_commands = emits_cmdID emits_cmdStatus emits_cmdPIDs emits_cmdInterfaces emits_cmdWrite emits_cmdSetuid
  emits_cmdChown emits_cmdChmod emits_cmdUnlink emits_cmdReplace emits_cmdStat emits_cmdMount
  emits_cmdUnshareUser [THEN conjunct2] emits_cmdKeyctl [THEN conjunct2] emits_cmdCgroup [THEN conjunct2]
  emits_cmdDial emits_cmdPeerEcho emits_cmdHTTPCount emits_cmdHTTPGet emits_cmdForward emits_cmdSleep
  emits_cmdAlloc emits_cmdFork emits_cmdInitDir

lemma emits_returns [emits_rules]: "emits P (f args) \<Longrightarrow> emits P (returns f args)"
  unfolding returns_def by (intro emits_rules)

lemma readable_other: "e \<notin> range HelpPrinted \<Longrightarrow> e \<notin> range Printed \<Longrightarrow> readable e"
  by (cases e) auto

lemma commands_readable: "list_all (\<lambda>c. ValidName (cm_name c) \<and> emits readable (cm_fn c args)) (commands pr fuel os)"
  by (simp add: commands_def reading_def mutating_def name_tail_def name_head_def)
    (intro conjI emits_returns emits_commands emits_cmdBattery emits_ret prints_readable;
     auto simp: name_tail_def name_head_def intro!: prints_readable readable_other)

lemma commands_harmless: "list_all (\<lambda>c. \<not> cm_mutates c \<longrightarrow> emits harmless (cm_fn c args)) (commands pr fuel os)"
  by (simp add: commands_def reading_def mutating_def)
    (intro conjI emits_returns emits_commands emits_ret; simp)

lemma find_Some_in: "List.find P xs = Some x \<Longrightarrow> x \<in> set xs \<and> P x"
  by (induction xs) (auto split: if_splits)

lemma complain_emits [emits_rules]: "(\<And>c. P (Complained c)) \<Longrightarrow> emits P (complain c)"
  unfolding complain_def by (intro emits_rules)

lemma probe_run_readable:
  assumes "args = [] \<or> hd args \<notin> {''help'', ''-h'', ''--help''}"
  shows "emits readable (probe_run pr fuel getenv os args)"
proof (cases args)
  case (Cons a rest)
  have "emits readable (run_command getenv c rest)" if "c \<in> set (commands pr fuel os)" for c
  proof -
    have "ValidName (cm_name c)" "emits readable (cm_fn c rest)"
      using commands_readable [of rest pr fuel os] that by (auto simp: list_all_iff)
    then show ?thesis unfolding run_command_def
      by (auto intro!: emits_rules prints_readable split: option.splits probe_err.splits)
  qed
  with Cons assms show ?thesis
    by (auto simp: probe_run_def intro!: emits_rules dest!: find_Some_in split: option.splits)
qed (auto simp: probe_run_def intro!: emits_rules)

lemma run_command_harmless:
  assumes "c \<in> set (commands pr fuel os)" "getenv markerEnv \<noteq> ''1''"
  shows "emits harmless (run_command getenv c args)"
proof -
  have "\<not> cm_mutates c \<Longrightarrow> emits harmless (cm_fn c args)"
    using commands_harmless [of args pr fuel os] assms(1) by (auto simp: list_all_iff)
  then show ?thesis using assms(2) unfolding run_command_def
    by (auto intro!: emits_rules split: option.splits probe_err.splits)
qed

text \<open>
  C10. Outside a fixture image, where the marker variable is not set to 1, no run of the binary
  changes the machine: whatever the command line and whatever the kernel answers, no call that
  writes, renames, removes, changes owner, mode or user, mounts, clones, asks for a keyring,
  allocates or forks is made.
\<close>

theorem probe_guard:
  assumes "getenv markerEnv \<noteq> ''1''" "run_state (probe_run pr fuel getenv os args) [] = (code, h)"
  shows "list_all harmless h"
proof -
  have "emits harmless (probe_run pr fuel getenv os args)"
    unfolding probe_run_def using assms(1)
    by (auto intro!: emits_rules run_command_harmless dest!: find_Some_in split: list.splits option.splits)
  from emits_run [OF this assms(2)] show ?thesis by auto
qed

theorem probe_guard_witness:
  "fst (calm_run [] [''fork'', ''3'']) = Some 3 \<and> list_all harmless (snd (calm_run [] [''fork'', ''3'']))"
proof -
  have "list_all harmless (snd (calm_run [] [''fork'', ''3'']))"
    unfolding calm_run_def by (rule probe_guard [OF _ prod.collapse [symmetric]]) simp
  moreover have "fst (calm_run [] [''fork'', ''3'']) = Some 3" by code_simp
  ultimately show ?thesis by simp
qed

lemma stdout_printed: "list_all readable h \<Longrightarrow> stdout h = Format (printed h)"
proof (induction h)
  case (Cons e h)
  then show ?case by (cases e) (simp_all add: stdout_def printed_def Format_def List.map_filter_simps)
qed (simp add: stdout_def printed_def Format_def List.map_filter_simps)

lemma printed_readable: "list_all readable h \<Longrightarrow> l \<in> set (printed h) \<Longrightarrow> wf_line l \<and> \<not> line_Malformed l"
proof (induction h)
  case (Cons e h)
  then show ?case by (cases e) (auto simp: printed_def List.map_filter_simps)
qed (simp add: printed_def List.map_filter_simps)

text \<open>
  C11. Whatever a command is, and whatever texts the kernel answers with, the harness reads back
  from the standard output exactly the lines that were printed, none of them malformed.
\<close>

theorem probe_output_parses:
  assumes "args = [] \<or> hd args \<notin> {''help'', ''-h'', ''--help''}"
    "run_state (probe_run pr fuel getenv os args) [] = (code, h)"
  shows "Parse (stdout h) = printed h \<and> Malformed_lines (Parse (stdout h)) = []"
proof -
  have h: "list_all readable h" using emits_run [OF probe_run_readable [OF assms(1)] assms(2)] by auto
  have "Parse (Format (printed h)) = printed h"
    using printed_readable [OF h] by (intro Parse_formatted) blast
  with h show ?thesis by (auto simp: stdout_printed Malformed_lines_def filter_empty_conv dest: printed_readable)
qed

theorem probe_output_parses_witness:
  "Parse (stdout (snd (calm_run ''1'' [''fork'', ''3''])))
     = [OK ''fork-started'' ''2'', Denied ''fork'' ''resource temporarily unavailable'']"
proof -
  have "Parse (stdout (snd (calm_run ''1'' [''fork'', ''3'']))) = printed (snd (calm_run ''1'' [''fork'', ''3'']))"
    unfolding calm_run_def by (rule probe_output_parses [OF _ prod.collapse [symmetric], THEN conjunct1]) simp
  also have "printed (snd (calm_run ''1'' [''fork'', ''3'']))
      = [OK ''fork-started'' ''2'', Denied ''fork'' ''resource temporarily unavailable'']" by code_simp
  finally show ?thesis .
qed

subsection \<open>Exit status\<close>

text \<open>
  A command either returns a usage error before it has done anything, or it returns none.
\<close>

definition ends :: "('a \<Rightarrow> bool) \<Rightarrow> 'a probe \<Rightarrow> bool" where
  "ends R m \<longleftrightarrow> triple m (\<lambda>r n. R r)"

definition usage_first :: "('a \<Rightarrow> bool) \<Rightarrow> ('a \<Rightarrow> bool) \<Rightarrow> 'a probe \<Rightarrow> bool" where
  "usage_first U R m \<longleftrightarrow> triple m (\<lambda>r n. R r \<or> U r \<and> n = [])"

named_theorems usage_rules \<open>decomposition rules for the errors of a command\<close>

lemma ends_ret [usage_rules]: "R x \<Longrightarrow> ends R (ret x)"
  by (simp add: ends_def triple_return)

lemma ends_bind [usage_rules]: "emits (\<lambda>_. True) m \<Longrightarrow> (\<And>r. ends R (f r)) \<Longrightarrow> ends R (State_Monad.bind m f)"
  unfolding ends_def emits_def by (rule triple_bind, assumption)

lemma ends_if [usage_rules]: "ends R m \<Longrightarrow> ends R n \<Longrightarrow> ends R (if b then m else n)"
  by simp

lemma ends_option [usage_rules]: "ends R m \<Longrightarrow> (\<And>y. ends R (n y)) \<Longrightarrow> ends R (case x of None \<Rightarrow> m | Some y \<Rightarrow> n y)"
  by (cases x) simp_all

lemma ends_sum [usage_rules]: "(\<And>e. ends R (m e)) \<Longrightarrow> (\<And>y. ends R (n y)) \<Longrightarrow> ends R (case x of Inl e \<Rightarrow> m e | Inr y \<Rightarrow> n y)"
  by (cases x) simp_all

lemma ends_prod [usage_rules]: "(\<And>a b. ends R (m a b)) \<Longrightarrow> ends R (case x of (a, b) \<Rightarrow> m a b)"
  by (cases x) simp_all

lemma ends_let [usage_rules]: "ends R (f x) \<Longrightarrow> ends R (let y = x in f y)"
  by simp

lemma usage_ret [usage_rules]: "U x \<Longrightarrow> usage_first U R (ret x)"
  by (simp add: usage_first_def triple_return)

lemma usage_ends: "ends R m \<Longrightarrow> usage_first U R m"
  unfolding ends_def usage_first_def by (erule triple_mono) simp

lemma usage_if [usage_rules]: "usage_first U R m \<Longrightarrow> usage_first U R n \<Longrightarrow> usage_first U R (if b then m else n)"
  by simp

lemma usage_option [usage_rules]:
  "usage_first U R m \<Longrightarrow> (\<And>y. usage_first U R (n y)) \<Longrightarrow> usage_first U R (case x of None \<Rightarrow> m | Some y \<Rightarrow> n y)"
  by (cases x) simp_all

lemma usage_prod [usage_rules]: "(\<And>a b. usage_first U R (m a b)) \<Longrightarrow> usage_first U R (case x of (a, b) \<Rightarrow> m a b)"
  by (cases x) simp_all

lemma usage_let [usage_rules]: "usage_first U R (f x) \<Longrightarrow> usage_first U R (let y = x in f y)"
  by simp

lemma parse_usage:
  "parseFlags fs args lo hi = Inl e \<Longrightarrow> \<exists>u. e = Usage u" "parseOwner s = Inl e \<Longrightarrow> \<exists>u. e = Usage u"
  "parseMode s = Inl e \<Longrightarrow> \<exists>u. e = Usage u"
  by (auto simp: parseFlags_def parseOwner_def parseMode_def split: sum.splits prod.splits if_splits option.splits)

lemma usage_parse [usage_rules]:
  "(\<And>u. U (g (Usage u))) \<Longrightarrow> (\<And>y. usage_first U R (n y))
   \<Longrightarrow> usage_first U R (case parseFlags fs args lo hi of Inl e \<Rightarrow> ret (g e) | Inr y \<Rightarrow> n y)"
  "(\<And>u. U (g (Usage u))) \<Longrightarrow> (\<And>p. usage_first U R (k p))
   \<Longrightarrow> usage_first U R (case parseOwner s of Inl e \<Rightarrow> ret (g e) | Inr p \<Rightarrow> k p)"
  "(\<And>u. U (g (Usage u))) \<Longrightarrow> (\<And>w. usage_first U R (j w))
   \<Longrightarrow> usage_first U R (case parseMode s of Inl e \<Rightarrow> ret (g e) | Inr w \<Rightarrow> j w)"
  by (auto split: sum.splits dest!: parse_usage intro: usage_rules)

abbreviation usage_or_None :: "probe_err option probe \<Rightarrow> bool" where
  "usage_or_None \<equiv> usage_first (\<lambda>r. \<exists>u. r = Some (Usage u)) (\<lambda>r. r = None)"

abbreviation usage_or_running :: "probe_err option option probe \<Rightarrow> bool" where
  "usage_or_running \<equiv> usage_first (\<lambda>r. \<exists>u. r = Some (Some (Usage u))) (\<lambda>r. r = None \<or> r = Some None)"

lemma prints_True [simp]: "prints (\<lambda>_. True) n"
  by (simp add: prints_def)

lemmas loops_emit = emits_deny_fields emits_report_fields emits_cgroup_files emits_checkWrite emits_checkSetuid emits_checkMount
  emits_cmdUnshareUser [THEN conjunct1] emits_cmdKeyctl [THEN conjunct1] emits_cmdCgroup [THEN conjunct1]
  emits_touchPages emits_startChildren emits_stopChildren emits_listenUmask emits_echoLoop emits_forwardLoop emits_sleepLoop

lemma usage_checks:
  "usage_or_None (cmdID os args)" "usage_or_None (cmdStatus os args)" "usage_or_None (cmdPIDs os args)"
  "usage_or_None (cmdInterfaces os args)" "usage_or_None (cmdWrite os args)" "usage_or_None (cmdSetuid os args)"
  "usage_or_None (cmdChown os args)" "usage_or_None (cmdChmod os args)" "usage_or_None (cmdUnlink os args)"
  "usage_or_None (cmdStat os args)" "usage_or_None (cmdMount os args)" "usage_or_None (cmdUnshareUser os args)"
  "usage_or_None (cmdKeyctl os args)" "usage_or_None (cmdCgroup os args)"
  unfolding cmdID_def cmdStatus_def cmdPIDs_def cmdInterfaces_def cmdWrite_def cmdSetuid_def cmdChown_def cmdChmod_def
    cmdUnlink_def cmdStat_def cmdMount_def cmdUnshareUser_def cmdKeyctl_def cmdCgroup_def
  by ((intro usage_rules usage_ends emits_rules loops_emit; simp)+)


lemma usage_serve:
  "usage_or_None (cmdDial os args)" "usage_or_None (cmdReplace os args)" "usage_or_None (cmdHTTPCount os args)"
  "usage_or_None (cmdHTTPGet url_Parse os args)" "usage_or_None (cmdAlloc os args)" "usage_or_None (cmdFork os args)"
  "usage_or_None (cmdInitDir os args)"
  unfolding cmdDial_def dial_reply_def cmdReplace_def cmdHTTPCount_def cmdHTTPGet_def cmdAlloc_def cmdFork_def cmdInitDir_def
  by ((intro usage_rules usage_ends emits_rules loops_emit; simp)+)

lemma unit_option_cases: "r = None \<or> r = Some ()"
  by (cases r) simp_all

lemma usage_loops:
  "usage_or_running (cmdPeerEcho fuel os args)" "usage_or_running (cmdForward hostport_ok fuel os args)"
  "usage_or_running (cmdSleep seconds_ok fuel os args)"
  unfolding cmdPeerEcho_def closed_after_def cmdForward_def cmdSleep_def
  by ((intro usage_rules usage_ends emits_rules loops_emit; simp add: unit_option_cases)+)

lemma no_args: "parseFlags [] [] 0 0 = Inr ([], [])"
  by (simp add: parseFlags_def)

lemma survey_ends:
  assumes "list_all (\<lambda>c. ends (\<lambda>r. r = None) (c [])) cs"
  shows "ends (\<lambda>r. r = None) (survey cs)"
  using assms
proof (induction cs)
  case (Cons c cs)
  then show ?case unfolding survey.simps ends_def
    by (auto intro!: triple_bind [where Q = "\<lambda>r n. r = None"])
qed (simp add: usage_rules)

lemma battery_ends: "ends (\<lambda>r. r = None) (survey [cmdID os, cmdStatus os, cmdPIDs os, cmdInterfaces os])"
  by (rule survey_ends) (simp add: cmdID_def cmdStatus_def cmdPIDs_def cmdInterfaces_def no_args,
    (intro conjI usage_rules emits_rules loops_emit; simp))

lemma usage_battery: "usage_or_None (cmdBattery os args)"
proof -
  let ?R = "\<lambda>r. r = (None :: probe_err option)"
  have "ends ?R (survey [cmdID os, cmdStatus os, cmdPIDs os, cmdInterfaces os] \<bind> (\<lambda>err. case err of
           Some e \<Rightarrow> ret (Some e)
         | None \<Rightarrow> do {
             checkWrite os ''write-root'' ''/'';
             checkMount os;
             checkUnshareUser os;
             checkKeyctl os;
             checkCgroup os;
             checkSetuid os 0;
             ret None }))"
    unfolding ends_def
    by (rule triple_bind [OF battery_ends [unfolded ends_def]])
      (simp add: ends_def [symmetric], (intro usage_rules loops_emit; simp))
  then show ?thesis unfolding cmdBattery_def
    by (intro usage_rules) (auto intro: usage_ends)
qed

lemma usage_returns: "usage_or_None (f args) \<Longrightarrow> usage_or_running (returns f args)"
  unfolding returns_def usage_first_def
  by (erule triple_bind) (auto intro!: triple_return)

lemma commands_usage:
  "list_all (\<lambda>c. usage_or_running (cm_fn c args) \<and> (cm_survey c \<longleftrightarrow> cm_name c = ''battery'')) (commands pr fuel os)"
  by (simp add: commands_def reading_def mutating_def)
    (intro conjI usage_returns usage_checks usage_serve usage_loops usage_battery usage_ends ends_ret; simp)

lemma denied_lines_append: "denied_lines (h @ h') = denied_lines h + denied_lines h'"
  by (simp add: denied_lines_def printed_def List.map_filter_def)

lemma run_command_exit:
  assumes "usage_or_running (cm_fn c args)"
  shows "triple (run_command getenv c args) (\<lambda>code n. case code of None \<Rightarrow> True | Some code \<Rightarrow>
      code = 0 \<and> (denied_lines n = 0 \<or> cm_survey c)
    \<or> code = 1 \<and> denied_lines n > 0 \<and> \<not> cm_survey c
    \<or> code = 2 \<and> (\<exists>u. n = [Complained (UsageProblem (cm_name c) u)])
    \<or> code = 3 \<and> cm_mutates c \<and> getenv markerEnv \<noteq> ''1'' \<and> n = [Complained (Refused (cm_name c))])"
    (is "triple _ ?Q")
proof (cases "cm_mutates c \<and> getenv markerEnv \<noteq> ''1''")
  case True
  then show ?thesis by (auto simp: run_command_def complain_def intro!: triple_rules)
next
  case False
  show ?thesis unfolding triple_def
  proof
    fix h
    obtain r n where n: "run_state (cm_fn c args) h = (r, h @ n)"
      "(r = None \<or> r = Some None) \<or> (\<exists>u. r = Some (Some (Usage u))) \<and> n = []"
      using assms unfolding usage_first_def triple_def by (metis (no_types, lifting) prod.collapse)
    from n(2) consider "r = None" | "r = Some None" | u where "r = Some (Some (Usage u))" "n = []" by blast
    then show "\<exists>new. snd (run_state (run_command getenv c args) h) = h @ new \<and> ?Q (fst (run_state (run_command getenv c args) h)) new"
    proof cases
      case 1
      with n(1) show ?thesis unfolding run_command_def if_not_P [OF False] by (intro exI [of _ n]) (simp add: peek_def)
    next
      case 2
      with n(1) show ?thesis unfolding run_command_def if_not_P [OF False]
        by (intro exI [of _ n]) (simp add: peek_def denied_lines_append)
    next
      case 3
      with n(1) show ?thesis unfolding run_command_def if_not_P [OF False]
        by (intro exI [of _ "[Complained (UsageProblem (cm_name c) (Usage u))]"]) (simp add: peek_def complain_def ask_def)
    qed
  qed
qed

text \<open>
  C27. The exit status means what the package comment says: 0 when every printed line is OK, and
  always for the survey; 1 when a line is DENIED; 2 for a usage error and 3 for a refusal, in
  which cases the run did nothing but complain.
\<close>

theorem probe_exit_status:
  assumes "run_state (probe_run pr fuel getenv os args) [] = (Some code, h)"
  shows "code = 0 \<and> (denied_lines h = 0 \<or> args ! 0 = ''battery'')
    \<or> code = 1 \<and> denied_lines h > 0 \<and> args ! 0 \<noteq> ''battery''
    \<or> code = 2 \<and> (\<exists>c. h = [Complained c])
    \<or> code = 3 \<and> getenv markerEnv \<noteq> ''1'' \<and> h = [Complained (Refused (args ! 0))]"
proof (cases args)
  case Nil
  with assms show ?thesis by (auto simp: probe_run_def complain_def ask_def)
next
  case (Cons a rest)
  show ?thesis
  proof (cases "a = ''help'' \<or> a = ''-h'' \<or> a = ''--help''")
    case True
    with assms Cons show ?thesis by (auto simp: probe_run_def ask_def denied_lines_def printed_def List.map_filter_simps)
  next
    case known: False
    show ?thesis
    proof (cases "List.find (\<lambda>c. cm_name c = a) (commands pr fuel os)")
      case None
      with assms Cons known show ?thesis by (auto simp: probe_run_def complain_def ask_def)
    next
      case (Some c)
      from find_Some_in [OF this] commands_usage [of rest pr fuel os]
      have c: "cm_name c = a" "usage_or_running (cm_fn c rest)" "cm_survey c \<longleftrightarrow> a = ''battery''"
        by (auto simp: list_all_iff)
      have "run_state (run_command getenv c rest) [] = (Some code, h)"
        using assms Cons known Some by (auto simp: probe_run_def)
      from triple_run [OF run_command_exit [OF c(2)] this] show ?thesis
        using c(1,3) Cons by fastforce
    qed
  qed
qed

theorem probe_exit_status_witness:
  "fst (calm_run ''1'' [''fork'', ''3'']) = Some 1 \<and> denied_lines (snd (calm_run ''1'' [''fork'', ''3''])) > 0"
proof -
  have 1: "fst (calm_run ''1'' [''fork'', ''3'']) = Some 1" by code_simp
  then have "run_state (probe_run plain_parsers 9 (\<lambda>_. ''1'') calm_os [''fork'', ''3'']) [] = (Some 1, snd (calm_run ''1'' [''fork'', ''3'']))"
    by (simp add: calm_run_def prod_eq_iff)
  from probe_exit_status [OF this] 1 show ?thesis by simp
qed

end
