(* ===== verification/Probe_Commands.thy ===== *)
theory Probe_Commands
  imports Probe_Facts Peers "HOL-Library.Multiset"
begin

section \<open>What the commands of the fixture binary do\<close>

text \<open>
  The behaviour of the commands of \<^verbatim>\<open>probe\<close> that the harness relies on, for every kernel: the lines
  of the survey and their order, the octal modes it prints and reads, the children of \<^verbatim>\<open>fork\<close>, the two steps
  of \<^verbatim>\<open>initdir\<close>, the credentials \<^verbatim>\<open>peer-echo\<close> answers with, the connections of the forwarder and
  the counts of the request counter.
\<close>

unbundle bit_operations_syntax


lemma printed_simps [simp]:
  "printed [] = []" "printed (e # h) = (case printed_line e of None \<Rightarrow> printed h | Some l \<Rightarrow> l # printed h)"
  "printed (h @ h') = printed h @ printed h'"
  by (simp_all add: printed_def List.map_filter_def split: option.splits)

lemma line_Name_simps [simp]: "line_Name (OK n d) = n" "line_Name (Denied n e) = n" "line_OK (OK n d)" "\<not> line_OK (Denied n e)"
  by (simp_all add: OK_def Denied_def)

subsection \<open>The survey\<close>

definition keeps_user :: "oscall \<Rightarrow> bool" where
  "keeps_user e \<longleftrightarrow> (case e of SetuidCalled u \<Rightarrow> False | _ \<Rightarrow> True)"

text \<open>\<open>surveys ns m\<close>: \<open>m\<close> prints one line for each of the names \<open>ns\<close>, in this order, and keeps the user.\<close>

definition surveys :: "string list \<Rightarrow> 'a probe \<Rightarrow> bool" where
  "surveys ns m \<longleftrightarrow> triple m (\<lambda>r n. map line_Name (printed n) = ns \<and> list_all keeps_user n)"

named_theorems survey_rules \<open>decomposition rules for the lines of a survey\<close>

lemma surveys_ret [survey_rules]: "surveys [] (ret x)"
  by (simp add: surveys_def triple_return)

lemma surveys_ask [survey_rules]: "(\<And>r. printed_line (ev r) = None \<and> keeps_user (ev r)) \<Longrightarrow> surveys [] (ask f ev)"
  by (simp add: surveys_def triple_ask)

lemma surveys_report [survey_rules]:
  "surveys [n] (report_ok n d)" "surveys [n] (deny n e)" "surveys [n] (report_result n d err)"
  by (auto simp: surveys_def report_result_def report_ok_def deny_def report_line_def keeps_user_def
      intro!: triple_rules split: option.splits)

lemma surveys_bind: "surveys ns m \<Longrightarrow> (\<And>r. surveys ns' (f r)) \<Longrightarrow> surveys (ns @ ns') (State_Monad.bind m f)"
  unfolding surveys_def by (rule triple_bind, assumption) (auto elim: triple_mono)

lemma surveys_ask_bind [survey_rules]:
  assumes "\<And>r. printed_line (ev r) = None \<and> keeps_user (ev r)" "\<And>r. surveys ns (g r)"
  shows "surveys ns (State_Monad.bind (ask f ev) g)"
  using surveys_bind [OF surveys_ask [OF assms(1)] assms(2)] by simp

lemma surveys_report_bind [survey_rules]:
  "(\<And>r. surveys ns (f r)) \<Longrightarrow> surveys (n # ns) (State_Monad.bind (report_ok n d) f)"
  "(\<And>r. surveys ns (f r)) \<Longrightarrow> surveys (n # ns) (State_Monad.bind (deny n e) f)"
  "(\<And>r. surveys ns (f r)) \<Longrightarrow> surveys (n # ns) (State_Monad.bind (report_result n d err) f)"
  using surveys_bind [OF surveys_report(1)] surveys_bind [OF surveys_report(2)] surveys_bind [OF surveys_report(3)]
  by (simp_all, blast+)

lemma surveys_sum [survey_rules]:
  "(\<And>e. surveys ns (m e)) \<Longrightarrow> (\<And>y. surveys ns (n y)) \<Longrightarrow> surveys ns (case x of Inl e \<Rightarrow> m e | Inr y \<Rightarrow> n y)"
  by (cases x) simp_all

lemma surveys_option [survey_rules]:
  "surveys ns m \<Longrightarrow> (\<And>y. surveys ns (n y)) \<Longrightarrow> surveys ns (case x of None \<Rightarrow> m | Some y \<Rightarrow> n y)"
  by (cases x) simp_all

lemma surveys_prod [survey_rules]: "(\<And>a b. surveys ns (m a b)) \<Longrightarrow> surveys ns (case x of (a, b) \<Rightarrow> m a b)"
  by (cases x) simp_all

lemma surveys_silent: "surveys [] m \<Longrightarrow> (\<And>r. surveys ns (f r)) \<Longrightarrow> surveys ns (State_Monad.bind m f)"
  by (drule surveys_bind) auto

lemma surveys_line: "surveys [n] m \<Longrightarrow> (\<And>r. surveys ns (f r)) \<Longrightarrow> surveys (n # ns) (State_Monad.bind m f)"
  by (drule surveys_bind) auto

lemma surveys_fields: "surveys (map snd fs) (deny_fields fs e)" "surveys (map snd fs) (report_fields values fs)"
  by (induction fs) (auto intro!: survey_rules surveys_line)

lemma surveys_cgroup: "surveys fs (cgroup_files os fs)"
proof (induction fs)
  case (Cons f fs)
  show ?case unfolding cgroup_files.simps
    by (intro surveys_ask_bind surveys_line survey_rules Cons) (simp_all add: keeps_user_def)
qed (simp add: survey_rules)

lemma surveys_cmds:
  "surveys [''identity''] (cmdID os [])" "surveys [''pids''] (cmdPIDs os [])" "surveys [''interfaces''] (cmdInterfaces os [])"
  by (simp_all add: cmdID_def cmdPIDs_def cmdInterfaces_def no_args) (intro survey_rules; simp add: keeps_user_def)+

lemma surveys_cmdStatus: "surveys [''cap-eff'', ''no-new-privs'', ''seccomp''] (cmdStatus os [])"
proof -
  have "surveys ([] @ (map snd statusFields @ [])) (cmdStatus os [])"
    unfolding cmdStatus_def no_args sum.case
    by (intro surveys_bind survey_rules surveys_fields) (simp_all add: keeps_user_def)
  then show ?thesis by (simp add: statusFields_def)
qed

lemma surveys_checks:
  "surveys [''write-root''] (checkWrite os ''write-root'' dir)" "surveys [''mount''] (checkMount os)"
  "surveys [''unshare-user''] (checkUnshareUser os)" "surveys [''keyctl''] (checkKeyctl os)"
  "surveys [''memory.max'', ''pids.max'', ''cpu.max''] (checkCgroup os)"
  unfolding checkWrite_def writeTemp_def checkMount_def checkUnshareUser_def checkKeyctl_def checkCgroup_def
  by (intro surveys_ask_bind surveys_silent survey_rules surveys_cgroup; simp add: keeps_user_def)+

lemma surveys_survey:
  "list_all2 (\<lambda>ns c. surveys ns (c []) \<and> ends (\<lambda>r. r = None) (c [])) nss cs
   \<Longrightarrow> triple (survey cs) (\<lambda>r n. r = None \<and> map line_Name (printed n) = concat nss \<and> list_all keeps_user n)"
proof (induction nss cs rule: list_all2_induct)
  case (Cons ns nss c cs)
  then have "triple (c []) (\<lambda>r n. r = None \<and> map line_Name (printed n) = ns \<and> list_all keeps_user n)"
    by (auto simp: surveys_def ends_def intro: triple_conj)
  then show ?case unfolding survey.simps
    by (rule triple_bind) (use Cons.IH in \<open>auto elim!: triple_mono\<close>)
qed (simp add: triple_return)

lemma survey_battery:
  "triple (survey [cmdID os, cmdStatus os, cmdPIDs os, cmdInterfaces os]) (\<lambda>r n. r = None
     \<and> map line_Name (printed n) = [''identity'', ''cap-eff'', ''no-new-privs'', ''seccomp'', ''pids'', ''interfaces'']
     \<and> list_all keeps_user n)"
proof -
  have "ends (\<lambda>r. r = None) (c [])" if "c \<in> set [cmdID os, cmdStatus os, cmdPIDs os, cmdInterfaces os]" for c
    using that by (auto simp: cmdID_def cmdStatus_def cmdPIDs_def cmdInterfaces_def no_args)
      (intro usage_rules emits_rules loops_emit; simp)+
  then have "list_all2 (\<lambda>ns c. surveys ns (c []) \<and> ends (\<lambda>r. r = None) (c []))
      [[''identity''], [''cap-eff'', ''no-new-privs'', ''seccomp''], [''pids''], [''interfaces'']]
      [cmdID os, cmdStatus os, cmdPIDs os, cmdInterfaces os]"
    by (simp add: surveys_cmds surveys_cmdStatus)
  from surveys_survey [OF this] show ?thesis by simp
qed

definition battery_names :: "string list" where
  "battery_names = [''identity'', ''cap-eff'', ''no-new-privs'', ''seccomp'', ''pids'', ''interfaces'', ''write-root'',
     ''mount'', ''unshare-user'', ''keyctl'', ''memory.max'', ''pids.max'', ''cpu.max'', ''setuid'']"

text \<open>\<open>setuid_last ns m\<close>: a survey of \<open>ns\<close> that ends with the one attempt to change the user.\<close>

definition setuid_last :: "string list \<Rightarrow> probe_err option probe \<Rightarrow> bool" where
  "setuid_last ns m \<longleftrightarrow> triple m (\<lambda>r n. r = None \<and> (\<exists>h l. n = h @ [SetuidCalled 0, Printed l]
     \<and> list_all keeps_user h \<and> map line_Name (printed h @ [l]) = ns))"

lemma setuid_last_bind:
  assumes "surveys ns m" "\<And>r. setuid_last ns' (f r)"
  shows "setuid_last (ns @ ns') (State_Monad.bind m f)"
  unfolding setuid_last_def
proof (rule triple_bind)
  show "triple m (\<lambda>r n. map line_Name (printed n) = ns \<and> list_all keeps_user n)" using assms(1) by (simp add: surveys_def)
  fix r n
  assume "map line_Name (printed n) = ns \<and> list_all keeps_user n"
  then show "triple (f r) (\<lambda>r' n'. r' = None \<and> (\<exists>h l. n @ n' = h @ [SetuidCalled 0, Printed l]
     \<and> list_all keeps_user h \<and> map line_Name (printed h @ [l]) = ns @ ns'))"
    using assms(2) [of r, unfolded setuid_last_def]
    by (elim triple_mono) (force intro: exI [of _ "n @ h" for h])
qed

lemma setuid_last_checkSetuid: "setuid_last [''setuid''] (do { checkSetuid os 0; ret None })"
proof -
  have "triple (checkSetuid os 0) (\<lambda>r n. \<exists>l. n = [SetuidCalled 0, Printed l] \<and> line_Name l = ''setuid'')"
    unfolding checkSetuid_def report_result_def report_ok_def deny_def report_line_def
    by (auto intro!: triple_rules)
  then show ?thesis unfolding setuid_last_def
    by (rule triple_bind) (auto intro!: triple_return)
qed

text \<open>
  The survey always runs to its end, whatever the kernel denies: it prints one line per check,
  in the order of its documentation, and the attempt to change the user is its very last call, so
  no earlier check runs with another identity.
\<close>

theorem battery_order:
  assumes "run_state (cmdBattery os []) [] = (r, h)"
  shows "r = None \<and> map line_Name (printed h) = battery_names
    \<and> (\<exists>h' l. h = h' @ [SetuidCalled 0, Printed l] \<and> list_all keeps_user h')"
proof -
  have "setuid_last ([''write-root''] @ [''mount''] @ [''unshare-user''] @ [''keyctl''] @ [''memory.max'', ''pids.max'', ''cpu.max''] @ [''setuid''])
     (do { checkWrite os ''write-root'' ''/''; checkMount os; checkUnshareUser os; checkKeyctl os; checkCgroup os;
       checkSetuid os 0; ret None })"
    by (intro setuid_last_bind surveys_checks setuid_last_checkSetuid)
  then have rest: "triple (do { checkWrite os ''write-root'' ''/''; checkMount os; checkUnshareUser os; checkKeyctl os; checkCgroup os;
       checkSetuid os 0; ret (None :: probe_err option) }) (\<lambda>r n. r = None \<and> (\<exists>h l. n = h @ [SetuidCalled 0, Printed l]
     \<and> list_all keeps_user h \<and> map line_Name (printed h @ [l]) = drop 6 battery_names))"
    by (simp add: setuid_last_def battery_names_def)
  have "triple (cmdBattery os []) (\<lambda>r n. r = None \<and> map line_Name (printed n) = battery_names
    \<and> (\<exists>h' l. n = h' @ [SetuidCalled 0, Printed l] \<and> list_all keeps_user h'))"
    unfolding cmdBattery_def no_args sum.case
  proof (rule triple_bind [OF survey_battery])
    fix r :: "probe_err option" and n
    assume "r = None
     \<and> map line_Name (printed n) = [''identity'', ''cap-eff'', ''no-new-privs'', ''seccomp'', ''pids'', ''interfaces'']
     \<and> list_all keeps_user n"
    then have r: "r = None" and n: "map line_Name (printed n) = take 6 battery_names" "list_all keeps_user n"
      by (simp_all add: battery_names_def)
    show "triple (case r of Some e \<Rightarrow> ret (Some e) | None \<Rightarrow> do { checkWrite os ''write-root'' ''/''; checkMount os;
         checkUnshareUser os; checkKeyctl os; checkCgroup os; checkSetuid os 0; ret None })
      (\<lambda>r n'. r = None \<and> map line_Name (printed (n @ n')) = battery_names
        \<and> (\<exists>h' l. n @ n' = h' @ [SetuidCalled 0, Printed l] \<and> list_all keeps_user h'))"
      unfolding r option.case
    proof (rule triple_mono [OF rest])
      fix r' :: "probe_err option" and n'
      assume "r' = None \<and> (\<exists>h l. n' = h @ [SetuidCalled 0, Printed l]
        \<and> list_all keeps_user h \<and> map line_Name (printed h @ [l]) = drop 6 battery_names)"
      then obtain h l where h: "r' = None" "n @ n' = (n @ h) @ [SetuidCalled 0, Printed l]" "list_all keeps_user h"
        "map line_Name (printed h @ [l]) = drop 6 battery_names" by auto
      have "map line_Name (printed (n @ n')) = take 6 battery_names @ drop 6 battery_names"
        unfolding h(2) using n(1) h(4) by simp
      with h(1-3) n(2) show "r' = None \<and> map line_Name (printed (n @ n')) = battery_names
        \<and> (\<exists>h' l. n @ n' = h' @ [SetuidCalled 0, Printed l] \<and> list_all keeps_user h')"
        by (metis append_take_drop_id list_all_append)
    qed
  qed
  from triple_run [OF this assms] show ?thesis by auto
qed

theorem battery_order_witness:
  "\<exists>h' l. snd (run_state (cmdBattery calm_os []) []) = h' @ [SetuidCalled 0, Printed l] \<and> list_all keeps_user h'"
  using battery_order [OF prod.collapse [symmetric, of "run_state (cmdBattery calm_os []) []"]] by simp

subsection \<open>Modes\<close>

lemma and_push_bit_1: "(m :: 32 word) AND push_bit k 1 = 0 \<longleftrightarrow> \<not> bit m k" if "k < 32"
proof -
  have "push_bit k (1 :: 32 word) = 2 ^ k" by (simp add: push_bit_eq_mult)
  then show ?thesis using that by (simp add: and_exp_eq_0_iff_not_bit)
qed

lemma special_bits:
  "(m :: 32 word) AND 0x800 = 0 \<longleftrightarrow> \<not> bit m 11" "m AND 0x400 = 0 \<longleftrightarrow> \<not> bit m 10" "m AND 0x200 = 0 \<longleftrightarrow> \<not> bit m 9"
  "m AND 1 = 0 \<longleftrightarrow> \<not> bit m 0" "m AND 2 = 0 \<longleftrightarrow> \<not> bit m (Suc 0)"
  using and_push_bit_1 [of 0 m] and_push_bit_1 [of 1 m] and_push_bit_1 [of 11 m] and_push_bit_1 [of 10 m] and_push_bit_1 [of 9 m] by (simp_all add: push_bit_eq_mult)

definition exec_char :: "bool \<Rightarrow> bool \<Rightarrow> char \<Rightarrow> char \<Rightarrow> char" where
  "exec_char x special lower upper = (if special then (if x then lower else upper) else if x then CHR ''x'' else CHR ''-'')"

lemma fileMode_bits:
  "fileMode m = [type_char m,
     if bit m 8 then CHR ''r'' else CHR ''-'', if bit m 7 then CHR ''w'' else CHR ''-'', exec_char (bit m 6) (bit m 11) (CHR ''s'') (CHR ''S''),
     if bit m 5 then CHR ''r'' else CHR ''-'', if bit m 4 then CHR ''w'' else CHR ''-'', exec_char (bit m 3) (bit m 10) (CHR ''s'') (CHR ''S''),
     if bit m 2 then CHR ''r'' else CHR ''-'', if bit m 1 then CHR ''w'' else CHR ''-'', exec_char (bit m 0) (bit m 9) (CHR ''t'') (CHR ''T'')]"
proof -
  have u: "[0..<9] = [0, 1, 2, 3, 4, 5, 6, 7, 8]" by (simp add: upt_rec)
  have c: "char_of (83 :: nat) = CHR ''S''" "char_of (84 :: nat) = CHR ''T''" by code_simp+
  let ?rwx = "\<lambda>k c. if bit m k then c else CHR ''-''"
  have 1: "map (rwx_char m) [0..<9] = [?rwx 8 (CHR ''r''), ?rwx 7 (CHR ''w''), ?rwx 6 (CHR ''x''), ?rwx 5 (CHR ''r''), ?rwx 4 (CHR ''w''),
      ?rwx 3 (CHR ''x''), ?rwx 2 (CHR ''r''), ?rwx 1 (CHR ''w''), ?rwx 0 (CHR ''x'')]"
    unfolding u by (simp add: rwx_char_def and_push_bit_1 special_bits del: push_bit_of_1)
  have slot: "special_slot m (flag, slot, on) b = b[slot := if m AND flag = 0 then b ! slot
      else if bit m (8 - slot) then on else char_of (of_char on - 32 :: nat)]" if "slot < 9" for flag slot on b
    using that by (simp add: special_slot_def and_push_bit_1 del: push_bit_of_1)
  show ?thesis
    unfolding fileMode_def Let_def 1
    by (simp add: slot special_bits c exec_char_def)
qed

lemma exec_char_inject:
  "exec_char x s (CHR ''s'') (CHR ''S'') = exec_char x' s' (CHR ''s'') (CHR ''S'') \<longleftrightarrow> x = x' \<and> s = s'"
  "exec_char x s (CHR ''t'') (CHR ''T'') = exec_char x' s' (CHR ''t'') (CHR ''T'') \<longleftrightarrow> x = x' \<and> s = s'"
  by (auto simp: exec_char_def)

lemma dash_inject:
  "(if a then CHR ''r'' else CHR ''-'') = (if b then CHR ''r'' else CHR ''-'') \<longleftrightarrow> a = b"
  "(if a then CHR ''w'' else CHR ''-'') = (if b then CHR ''w'' else CHR ''-'') \<longleftrightarrow> a = b"
  by auto

text \<open>
  The mode that \<^verbatim>\<open>stat\<close> prints loses nothing: two modes with the same text have the same nine
  permission bits and the same setuid, setgid and sticky bits.
\<close>

theorem fileMode_perm:
  assumes "fileMode m = fileMode m'"
  shows "m AND 0xFFF = m' AND 0xFFF"
proof (rule bit_word_eqI)
  fix k
  assume "k < LENGTH(32)"
  have bits: "bit m 0 = bit m' 0" "bit m 1 = bit m' 1" "bit m 2 = bit m' 2" "bit m 3 = bit m' 3" "bit m 4 = bit m' 4"
    "bit m 5 = bit m' 5" "bit m 6 = bit m' 6" "bit m 7 = bit m' 7" "bit m 8 = bit m' 8" "bit m 9 = bit m' 9"
    "bit m 10 = bit m' 10" "bit m 11 = bit m' 11"
    using assms [unfolded fileMode_bits list.inject exec_char_inject dash_inject] by blast+
  have b: "bit m k = bit m' k" if "k < 12" for k
  proof -
    have "k \<in> {0, 1, 2, 3, 4, 5, 6, 7, 8, 9, 10, 11}" using that by (simp add: eval_nat_numeral less_Suc_eq)
    then show ?thesis by (elim insertE emptyE) (simp_all only: bits)
  qed
  have e: "(0xFFF :: 32 word) = mask 12" by (simp add: mask_eq_exp_minus_1)
  show "bit (m AND 0xFFF) k = bit (m' AND 0xFFF) k"
    unfolding e using b by (auto simp: bit_and_iff bit_mask_iff)
qed

theorem fileMode_perm_witness: "(0x81ED :: 32 word) AND 0xFFF = 0x81ED AND 0xFFF \<and> fileMode 0x81ED = ''-rwxr-xr-x''"
proof -
  have "fileMode 0x81ED = ''-rwxr-xr-x''" by code_simp
  with fileMode_perm [of "0x81ED" "0x81ED"] show ?thesis by simp
qed

lemma digits_acc_octal: "digits_acc 8 0 (octal n) = Some n"
proof (induction n rule: octal.induct)
  case (1 n)
  show ?case
  proof (cases "n < 8")
    case True
    then show ?thesis by (subst octal.simps) (simp add: digit_value_def)
  next
    case False
    with 1 show ?thesis by (subst octal.simps) (simp add: digits_acc_append digit_value_def)
  qed
qed

lemma digits_acc_padded: "digits_acc b 0 (replicate k (CHR ''0'') @ s) = digits_acc b 0 s" if "b > 0"
  using that by (induction k) (simp_all add: digit_value_def)

text \<open>
  Every mode of at most twelve bits, written in octal padded to four digits as the lines of
  \<^verbatim>\<open>stat\<close> have it, is read back by the mode arguments of \<^verbatim>\<open>chmod\<close>, \<^verbatim>\<open>initdir\<close> and \<^verbatim>\<open>--umask\<close>.
\<close>

theorem parseMode_perm_text:
  assumes "m \<le> 0xFFF"
  shows "parseMode (perm_text m) = Inr m"
proof -
  have "unat m \<le> 4095" using assms by (simp add: word_le_nat_alt)
  moreover have "octal (unat m) \<noteq> []" by (subst octal.simps) simp
  ultimately show ?thesis
    by (simp add: parseMode_def ParseUint_def perm_text_def Let_def digits_acc_padded digits_acc_octal)
qed

theorem parseMode_perm_text_witness: "parseMode (perm_text 7) = Inr 7"
  using parseMode_perm_text [of 7] by simp

subsection \<open>Children\<close>

fun started_child :: "oscall \<Rightarrow> nat option" where
  "started_child (ChildStarted (Inr c)) = Some c"
| "started_child _ = None"

fun killed_child :: "oscall \<Rightarrow> nat option" where
  "killed_child (ChildKilled c) = Some c"
| "killed_child _ = None"

fun waited_child :: "oscall \<Rightarrow> nat option" where
  "waited_child (ChildWaited c) = Some c"
| "waited_child _ = None"

lemma startChildren_triple:
  "triple (startChildren os n) (\<lambda>r k. List.map_filter started_child k = fst r \<and> List.map_filter killed_child k = []
     \<and> List.map_filter waited_child k = [] \<and> length (fst r) \<le> n)"
proof (induction n)
  case (Suc n)
  show ?case unfolding startChildren.simps
    by (intro triple_rules; simp add: List.map_filter_simps)
      (rule triple_bind [OF Suc], auto intro!: triple_return simp: List.map_filter_simps)
qed (auto intro!: triple_return simp: List.map_filter_simps)

lemma stopChildren_triple:
  "triple (stopChildren cs) (\<lambda>r k. List.map_filter started_child k = [] \<and> List.map_filter killed_child k = cs
     \<and> List.map_filter waited_child k = cs)"
proof (induction cs)
  case (Cons c cs)
  show ?case unfolding stopChildren.simps
    by (intro triple_rules) (rule triple_mono [OF Cons], simp add: List.map_filter_simps)
qed (auto intro!: triple_return simp: List.map_filter_simps)

lemma map_filter_append: "List.map_filter f (xs @ ys) = List.map_filter f xs @ List.map_filter f ys"
  by (simp add: List.map_filter_def)

text \<open>
  C25. \<^verbatim>\<open>fork\<close> leaves no child behind: the children it kills and the children it waits for are
  exactly those it started, also when the kernel refuses one half way, and it never starts more
  than its limit of 1024.
\<close>

theorem fork_reaps_children:
  assumes "run_state (cmdFork os args) [] = (r, h)"
  shows "List.map_filter killed_child h = List.map_filter started_child h
    \<and> List.map_filter waited_child h = List.map_filter started_child h
    \<and> length (List.map_filter started_child h) \<le> 1024"
proof -
  let ?Q = "\<lambda>h. List.map_filter killed_child h = List.map_filter started_child h
    \<and> List.map_filter waited_child h = List.map_filter started_child h \<and> length (List.map_filter started_child h) \<le> 1024"
  have "triple (do {
              r \<leftarrow> startChildren os (nat n);
              stopChildren (fst r);
              report_ok ''fork-started'' (Itoa (int (length (fst r))));
              report_result ''fork'' (Itoa n @ '' requested'') (snd r);
              ret None }) (\<lambda>(r :: probe_err option) h. ?Q h)" if "\<not> (n < 1 \<or> n > maxFork)" for n
  proof (rule triple_bind [OF startChildren_triple])
    fix r :: "nat list \<times> msg option" and k
    assume k: "List.map_filter started_child k = fst r \<and> List.map_filter killed_child k = []
     \<and> List.map_filter waited_child k = [] \<and> length (fst r) \<le> nat n"
    show "triple (do {
              stopChildren (fst r);
              report_ok ''fork-started'' (Itoa (int (length (fst r))));
              report_result ''fork'' (Itoa n @ '' requested'') (snd r);
              ret None }) (\<lambda>(r' :: probe_err option) n'. ?Q (k @ n'))"
      by (rule triple_bind [OF stopChildren_triple], unfold report_result_def report_ok_def deny_def report_line_def)
        (use k that in \<open>auto intro!: triple_rules simp: map_filter_append List.map_filter_simps maxFork_def split: option.splits\<close>)
  qed
  then have "triple (cmdFork os args) (\<lambda>r h. ?Q h)"
    unfolding cmdFork_def by (intro triple_rules) (auto simp: List.map_filter_simps)
  from triple_run [OF this assms] show ?thesis by auto
qed

theorem fork_reaps_children_witness:
  "List.map_filter started_child (snd (run_state (cmdFork calm_os [''3'']) [])) = [0, 1]
   \<and> List.map_filter waited_child (snd (run_state (cmdFork calm_os [''3'']) [])) = [0, 1]"
proof -
  have "List.map_filter started_child (snd (run_state (cmdFork calm_os [''3'']) [])) = [0, 1]" by code_simp
  with fork_reaps_children [OF prod.collapse [symmetric, of "run_state (cmdFork calm_os [''3'']) []"]]
  show ?thesis by simp
qed

subsection \<open>The volume init step\<close>

lemma parseOwner_range: "parseOwner s = Inr (uid, gid) \<Longrightarrow> 0 \<le> uid \<and> 0 \<le> gid"
  by (auto simp: parseOwner_def non_negative_def split: prod.splits if_splits option.splits)

lemma parseMode_range: "parseMode s = Inr m \<Longrightarrow> m \<le> 0xFFF"
proof -
  assume "parseMode s = Inr m"
  then obtain k where k: "m = word_of_nat k" "k \<le> 4095" by (auto simp: parseMode_def split: option.splits if_splits)
  then have "unat m \<le> 4095" by (simp add: unat_of_nat)
  then show ?thesis by (simp add: word_le_nat_alt)
qed

text \<open>
  The volume init step changes the owner first and the mode only when that succeeded, because
  a change of owner can clear the setgid bit the mode sets; it reports OK exactly when both
  succeeded, and never passes a negative id or a mode of more than twelve bits to the kernel.
\<close>

theorem initdir_order:
  assumes "run_state (cmdInitDir os args) [] = (None, h)"
  shows "\<exists>path uid gid mode l. 0 \<le> uid \<and> 0 \<le> gid \<and> mode \<le> 0xFFF
    \<and> ((\<exists>e. h = [Chowned path uid gid (Some e), Printed l] \<and> \<not> line_OK l)
     \<or> (\<exists>err. h = [Chowned path uid gid None, Chmodded path mode err, Printed l] \<and> (line_OK l \<longleftrightarrow> err = None)))"
proof -
  let ?Q = "\<lambda>(r :: probe_err option) h. r = None \<longrightarrow> (\<exists>path uid gid mode l. 0 \<le> uid \<and> 0 \<le> gid \<and> mode \<le> 0xFFF
    \<and> ((\<exists>e. h = [Chowned path uid gid (Some e), Printed l] \<and> \<not> line_OK l)
     \<or> (\<exists>err. h = [Chowned path uid gid None, Chmodded path mode err, Printed l] \<and> (line_OK l \<longleftrightarrow> err = None))))"
  have "triple (cmdInitDir os args) ?Q"
    unfolding cmdInitDir_def report_result_def report_ok_def deny_def report_line_def pathErr_def
    by (intro triple_rules) (auto intro!: triple_rules dest!: parseOwner_range parseMode_range simp: OK_def Denied_def split: option.splits)
  from triple_run [OF this assms] show ?thesis by auto
qed

definition calm_initdir :: "probe_err option \<times> calls" where
  "calm_initdir = run_state (cmdInitDir calm_os [''/run/broker'', ''10:20'', ''2770'']) []"

theorem initdir_order_witness: "fst calm_initdir = None \<and> (\<exists>path uid gid mode l. snd calm_initdir
    = [Chowned path uid gid None, Chmodded path mode None, Printed l] \<and> mode \<le> 0xFFF)"
proof -
  have 1: "fst calm_initdir = None" and 2: "length (snd calm_initdir) = 3 \<and> snd calm_initdir ! 1 = Chmodded ''/run/broker'' 1528 None"
    by code_simp+
  then have "run_state (cmdInitDir calm_os [''/run/broker'', ''10:20'', ''2770'']) [] = (None, snd calm_initdir)"
    by (simp add: calm_initdir_def prod_eq_iff)
  from initdir_order [OF this] 1 2 show ?thesis by auto
qed

subsection \<open>Peers\<close>

lemma trimEOL_newline: "trimEOL (s @ newline) = trimEOL s"
  by (simp add: trimEOL_def newline_def)

lemma trimEOL_id: "s = [] \<or> last s \<noteq> CHR 0x0A \<and> last s \<noteq> CHR 0x0D \<Longrightarrow> trimEOL s = s"
  by (cases s rule: rev_cases) (auto simp: trimEOL_def)

lemma is_digit_plain: "is_digit c \<Longrightarrow> \<not> control_byte c"
  by (auto simp: is_digit_def control_byte_def less_eq_char_def)

lemma Itoa_plain: "c \<in> set (Itoa i) \<Longrightarrow> \<not> control_byte c"
  by (auto simp: Itoa_def control_byte_def split: if_splits dest!: decimal_digits is_digit_plain)

lemma Itoa_last: "last (Itoa i) \<noteq> CHR 0x0A \<and> last (Itoa i) \<noteq> CHR 0x0D"
  using Itoa_plain [of "last (Itoa i)" i] by (auto simp: control_byte_def)

text \<open>
  C26. The credentials survive the trip: what \<^verbatim>\<open>peer-echo\<close> writes for a peer, read by \<^verbatim>\<open>dial\<close>, trimmed
  and printed as its reply, is parsed by the harness into the same user, group and process id.
\<close>

theorem peer_reply_read_back:
  assumes "is_int64 uid" "is_int64 gid" "is_int64 pid"
  shows "parsePeerCred (line_Detail (OK ''reply'' (trimEOL (peerDetail (uid, gid, pid) @ newline)))) = Some (uid, gid, pid)"
proof -
  let ?d = "peerDetail (uid, gid, pid)"
  have "last ?d = last (Itoa pid)" by (simp add: peerDetail_def)
  then have t: "trimEOL (?d @ newline) = ?d" using Itoa_last by (simp add: trimEOL_newline trimEOL_id)
  have "ValidDetail ?d" by (auto simp: ValidDetail_def peerDetail_def control_byte_def dest: Itoa_plain)
  then have "line_Detail (OK ''reply'' (trimEOL (?d @ newline))) = ?d"
    unfolding t OK_def by (simp add: Sanitize_valid)
  moreover have "?d = ''uid='' @ Itoa uid @ '' gid='' @ Itoa gid @ '' pid='' @ Itoa pid" by (simp add: peerDetail_def)
  ultimately show ?thesis using assms by (simp only: parsePeerCred_Some)
qed

theorem peer_reply_read_back_witness:
  "parsePeerCred (line_Detail (OK ''reply'' (trimEOL (peerDetail (65532, 4242, 17) @ newline)))) = Some (65532, 4242, 17)"
  by (rule peer_reply_read_back) (simp_all add: is_int64_def)

text \<open>Each connection is answered with what was printed, after its request was read, and closed.\<close>

lemma echoLoop_returns:
  assumes "0 < wanted" "wanted - served \<le> int fuel"
  shows "\<exists>h'. run_state (echoLoop fuel os ln wanted served) h = (Some (), h')"
  using assms(2)
proof (induction fuel arbitrary: served h)
  case 0
  then show ?case using assms(1) by (subst echoLoop.simps) simp
next
  case (Suc fuel)
  show ?case
  proof (cases "served < wanted")
    case True
    then show ?thesis using Suc.IH [of "served + 1"] Suc.prems assms(1)
      by (subst echoLoop.simps) (auto simp: ask_def deny_def report_line_def split: sum.splits prod.splits)
  qed (use assms(1) in \<open>subst echoLoop.simps, simp\<close>)
qed



subsection \<open>The forwarder\<close>

fun opens :: "oscall \<Rightarrow> nat multiset" where
  "opens (Accepted l (Inr c)) = {#c#}"
| "opens (Dialed n a (Inr c)) = {#c#}"
| "opens _ = {#}"

fun closes :: "oscall \<Rightarrow> nat multiset" where
  "closes (ConnClosed c) = {#c#}"
| "closes _ = {#}"

fun held :: "conn_task \<Rightarrow> nat multiset" where
  "held (Dialing c) = {#c#}"
| "held (Failing c e) = {#c#}"
| "held (Connected c up) = {#c, up#}"
| "held (Piping c up s r) = {#c, up#}"
| "held (Closing c up) = {#c, up#}"
| "held (Leaving c) = {#c#}"

definition held_all :: "conn_task list \<Rightarrow> nat multiset" where
  "held_all ts = sum_list (map held ts)"

definition opened :: "calls \<Rightarrow> nat multiset" where
  "opened h = sum_list (map opens h)"

definition closed :: "calls \<Rightarrow> nat multiset" where
  "closed h = sum_list (map closes h)"

lemma opened_simps [simp]: "opened [] = {#}" "opened (e # h) = opens e + opened h" "opened (h @ h') = opened h + opened h'"
  by (simp_all add: opened_def)

lemma closed_simps [simp]: "closed [] = {#}" "closed (e # h) = closes e + closed h" "closed (h @ h') = closed h + closed h'"
  by (simp_all add: closed_def)

lemma held_all_simps [simp]: "held_all [] = {#}" "held_all (t # ts) = held t + held_all ts" "held_all (ts @ us) = held_all ts + held_all us"
  by (simp_all add: held_all_def)

definition balance :: "nat multiset \<Rightarrow> calls \<Rightarrow> nat multiset \<Rightarrow> bool" where
  "balance before n after \<longleftrightarrow> before + opened n = after + closed n"

lemma balance_append: "balance a n b \<Longrightarrow> balance b n' c \<Longrightarrow> balance a (n @ n') c"
  unfolding balance_def opened_simps closed_simps by (metis add.assoc add.commute)

lemma pipe_step_balance: "triple (pipe_step os c up s r) (\<lambda>t n. balance {#c, up#} n (held t))"
  unfolding pipe_step_def by (intro triple_rules) (auto simp: balance_def)

definition held_option :: "conn_task option \<Rightarrow> nat multiset" where
  "held_option r = (case r of None \<Rightarrow> {#} | Some t \<Rightarrow> held t)"

lemma conn_step_balance:
  "triple (conn_step os dest t) (\<lambda>r n. balance (held t) n (held_option r))"
proof (cases t)
  case (Piping c up s r)
  have "triple (do { t \<leftarrow> pipe_step os c up s r; ret (Some t) }) (\<lambda>r n. balance {#c, up#} n (held_option r))"
    by (rule triple_bind [OF pipe_step_balance]) (simp add: triple_return held_option_def)
  with Piping show ?thesis by (simp add: conn_step_def)
qed (auto simp: conn_step_def report_ok_def deny_def report_line_def close_conn_def balance_def held_option_def
    intro!: triple_rules split: sum.splits)

lemma held_all_replace:
  assumes "j < length ts"
  shows "held_all ts = held (ts ! j) + held_all (take j ts @ drop (Suc j) ts)"
    "held_all (ts[j := t]) = held t + held_all (take j ts @ drop (Suc j) ts)"
proof -
  have "held_all ts = held_all (take j ts @ ts ! j # drop (Suc j) ts)" using id_take_nth_drop [OF assms] by simp
  then show "held_all ts = held (ts ! j) + held_all (take j ts @ drop (Suc j) ts)" by simp
  show "held_all (ts[j := t]) = held t + held_all (take j ts @ drop (Suc j) ts)"
    using assms by (simp add: upd_conv_take_nth_drop)
qed

lemma held_all_step:
  assumes "j < length ts" "balance (held (ts ! j)) n (held_option r)"
  shows "balance (held_all ts) n (held_all (case r of None \<Rightarrow> take j ts @ drop (Suc j) ts | Some t \<Rightarrow> ts[j := t]))"
  using assms(2) held_all_replace [OF assms(1)]
  by (cases r) (auto simp: balance_def held_option_def ac_simps)

lemma forwardLoop_balance:
  "triple (forwardLoop fuel os ln dest accepting ts) (\<lambda>r n. r = Some () \<longrightarrow> balance (held_all ts) n {#})"
proof (induction fuel arbitrary: accepting ts)
  case (Suc fuel)
  have step: "triple (do { t \<leftarrow> conn_step os dest (ts ! j);
        forwardLoop fuel os ln dest accepting (case t of None \<Rightarrow> take j ts @ drop (Suc j) ts | Some t \<Rightarrow> ts[j := t]) })
      (\<lambda>r n. r = Some () \<longrightarrow> balance (held_all ts) n {#})" if "j < length ts" for j
    by (rule triple_bind [OF conn_step_balance], rule triple_mono [OF Suc.IH])
      (auto dest: held_all_step [OF that] intro: balance_append)
  show ?case unfolding forwardLoop.simps deny_def report_line_def
    by (intro triple_rules step)
      (auto intro!: triple_rules triple_mono [OF Suc.IH] simp: balance_def split: sum.splits option.splits)
qed (simp add: triple_return)

lemma last_two: "length xs = 2 \<Longrightarrow> last (pre @ xs) = xs ! 1"
  by (cases xs; cases "tl xs") auto

lemma parseFlags_two: "parseFlags fs args 2 2 = Inr (vs, rest) \<Longrightarrow> rest ! 1 = last args"
  by (auto simp: parseFlags_def last_two dest!: flag_parse_suffix split: sum.splits if_splits)

fun dials :: "string \<Rightarrow> oscall \<Rightarrow> bool" where
  "dials dest (Dialed n a r) \<longleftrightarrow> n = ''tcp'' \<and> a = dest"
| "dials dest _ \<longleftrightarrow> True"

lemma prints_dials [simp]: "prints (dials dest) n"
  by (simp add: prints_def)

lemma emits_cmdForward_dials: "emits (dials (last args)) (cmdForward hostport_ok fuel os args)"
  unfolding cmdForward_def
  by (intro emits_rules emits_listenUmask) (auto dest: parseFlags_two intro!: emits_rules emits_forwardLoop)

lemma listenUmask_balance: "triple (listenUmask os m s) (\<lambda>r n. opened n = {#} \<and> closed n = {#})"
  unfolding listenUmask_def by (intro triple_rules) simp

lemma cmdForward_balance: "triple (cmdForward hostport_ok fuel os args) (\<lambda>r n. r \<noteq> None \<longrightarrow> opened n = closed n)"
proof -
  have serve: "triple (do { r \<leftarrow> forwardLoop fuel os ln dest True []; ret (map_option (\<lambda>_. None) r) })
      (\<lambda>r n. r \<noteq> None \<longrightarrow> opened n = closed n)" for ln dest
    by (rule triple_bind [OF forwardLoop_balance]) (auto intro!: triple_return simp: balance_def)
  show ?thesis unfolding cmdForward_def report_ok_def deny_def report_line_def
    by (intro triple_rules; (rule triple_bind [OF listenUmask_balance])?)
      (auto intro!: triple_rules intro: triple_mono [OF serve])
qed

text \<open>
  C22. The forwarder dials nothing but the destination it was given, over TCP, however the
  goroutines of its connections are scheduled and whatever fails; and when it has returned, every
  connection it accepted or dialled has been closed exactly once.
\<close>

theorem forward_one_destination:
  assumes "run_state (cmdForward hostport_ok fuel os args) [] = (r, h)"
  shows "list_all (dials (last args)) h \<and> (r \<noteq> None \<longrightarrow> opened h = closed h)"
  using emits_run [OF emits_cmdForward_dials assms] triple_run [OF cmdForward_balance assms] by auto

text \<open>One connection, accepted, piped in both directions and closed.\<close>

definition calm_forward :: "probe_err option option \<times> calls" where
  "calm_forward = run_state (cmdForward (\<lambda>_. True) (Suc (Suc (Suc (Suc (Suc (Suc (Suc (Suc (Suc (Suc (Suc (Suc 0))))))))))))
     calm_os [''/s'', ''f:80'']) []"

lemma calm_forward_run: "fst calm_forward = Some None \<and> opened (snd calm_forward) = {#6, 4#}"
proof -
  have "parseMode ''007'' = Inr 7" "parseFlags [(''umask'', StringFlag)] [''/s'', ''f:80''] 2 2 = Inr ([], [''/s'', ''f:80''])"
    by code_simp+
  then show ?thesis unfolding calm_forward_def cmdForward_def listenUmask_def
    by (simp add: ask_def peek_def conn_step_def pipe_step_def report_ok_def report_line_def close_conn_def calm_os_def
        flag_string_def Let_def eval_nat_numeral cong: bind_weak_cong)
qed

theorem forward_one_destination_witness:
  "list_all (dials ''f:80'') (snd calm_forward) \<and> closed (snd calm_forward) = {#6, 4#}"
proof -
  have "list_all (dials (last [''/s'', ''f:80''])) (snd calm_forward) \<and> (fst calm_forward \<noteq> None \<longrightarrow> opened (snd calm_forward) = closed (snd calm_forward))"
    unfolding calm_forward_def by (rule forward_one_destination [OF prod.collapse [symmetric]])
  with calm_forward_run show ?thesis by simp
qed

subsection \<open>The peer echo\<close>

lemma echoPeer_balance: "triple (echoPeer os c) (\<lambda>r n. balance {#c#} n {#})"
  unfolding echoPeer_def close_conn_def report_ok_def deny_def report_line_def
  by (rule triple_bind [where Q = "\<lambda>r n. opened n = {#} \<and> closed n = {#}"] triple_rules | simp add: balance_def)+

lemma echoLoop_balance: "triple (echoLoop fuel os ln wanted served) (\<lambda>r n. balance {#} n {#})"
proof (induction fuel arbitrary: served)
  case 0
  show ?case by (subst echoLoop.simps) (simp add: triple_return balance_def)
next
  case (Suc fuel)
  have step: "triple (do { echoPeer os c; echoLoop fuel os ln wanted (served + 1) })
      (\<lambda>r n. balance {#} (Accepted ln (Inr c) # n) {#})" for c
    by (rule triple_bind [OF echoPeer_balance], rule triple_mono [OF Suc]) (simp add: balance_def)
  show ?case unfolding echoLoop.simps [of "Suc fuel"] nat.case deny_def report_line_def
    by (intro triple_rules) (auto simp: balance_def intro!: step [unfolded balance_def, simplified])
qed

lemma cmdPeerEcho_balance: "triple (cmdPeerEcho fuel os args) (\<lambda>r n. opened n = closed n)"
proof -
  have serve: "triple (do { r \<leftarrow> echoLoop fuel os ln wanted 0; closed_after r ln }) (\<lambda>r n. opened n = closed n)" for ln wanted
    by (rule triple_bind [OF echoLoop_balance]) (auto simp: closed_after_def balance_def intro!: triple_rules)
  show ?thesis unfolding cmdPeerEcho_def report_ok_def deny_def report_line_def
    by (intro triple_rules; (rule triple_bind [OF listenUmask_balance])?)
      (auto intro!: triple_rules intro: triple_mono [OF serve])
qed

lemma cmdPeerEcho_returns:
  assumes "parseFlags [(''umask'', StringFlag), (''count'', IntFlag)] args 1 1 = Inr (vs, rest)"
    "0 < flag_int vs ''count'' 0" "flag_int vs ''count'' 0 \<le> int fuel"
  shows "\<exists>r h'. run_state (cmdPeerEcho fuel os args) h = (Some r, h')"
proof -
  have "\<exists>h'. run_state (echoLoop fuel os ln (flag_int vs ''count'' 0) 0) k = (Some (), h')" for ln k
    using assms(2,3) by (intro echoLoop_returns) simp_all
  then have e: "fst (run_state (echoLoop fuel os ln (flag_int vs ''count'' 0) 0) k) = Some ()" for ln k
    by (metis fst_conv)
  have "fst (run_state (do { r \<leftarrow> echoLoop fuel os ln (flag_int vs ''count'' 0) 0; closed_after r ln }) k) \<noteq> None" for ln k
    using e [of ln k] by (auto simp: closed_after_def ask_def split: prod.splits option.splits)
  then have "fst (run_state (cmdPeerEcho fuel os args) h) \<noteq> None"
    using assms(1,2) unfolding cmdPeerEcho_def
    by (auto simp: Let_def deny_def report_ok_def report_line_def ask_def split: sum.splits prod.splits)
  then show ?thesis by (metis not_None_eq prod.collapse)
qed

text \<open>
  C23. With a positive count, \<^verbatim>\<open>peer-echo\<close> returns: fuel for as many connections as were asked for is
  always enough, whether they are served or the listener fails, and every connection it accepted
  has then been closed exactly once.
\<close>

theorem peer_echo_returns:
  assumes "parseFlags [(''umask'', StringFlag), (''count'', IntFlag)] args 1 1 = Inr (vs, rest)"
    "0 < flag_int vs ''count'' 0" "flag_int vs ''count'' 0 \<le> int fuel"
  shows "\<exists>r h. run_state (cmdPeerEcho fuel os args) [] = (Some r, h) \<and> opened h = closed h"
  using cmdPeerEcho_returns [OF assms, of os "[]"] triple_run [OF cmdPeerEcho_balance] by (metis append_Nil)

theorem peer_echo_returns_witness:
  "\<exists>r h. run_state (cmdPeerEcho 2 calm_os [''--count'', ''2'', ''/s'']) [] = (Some r, h) \<and> opened h = closed h"
proof (rule peer_echo_returns)
  show "parseFlags [(''umask'', StringFlag), (''count'', IntFlag)] [''--count'', ''2'', ''/s''] 1 1 = Inr ([(''count'', FInt 2)], [''/s''])"
    by code_simp
qed (simp_all add: flag_int_def)

subsection \<open>The request counter\<close>

fun count_path :: "string \<Rightarrow> routed \<Rightarrow> bool" where
  "count_path p CountsRequest = False"
| "count_path p (OtherRequest q) \<longleftrightarrow> p = q"

definition hits :: "string \<Rightarrow> routed list \<Rightarrow> nat" where
  "hits p rs = length (filter (count_path p) rs)"

definition other_requests :: "routed list \<Rightarrow> nat" where
  "other_requests rs = length (filter (\<lambda>r. r \<noteq> CountsRequest) rs)"

definition path_count :: "counter \<Rightarrow> string \<Rightarrow> int" where
  "path_count c p = (case ct_paths c p of None \<Rightarrow> 0 | Some n \<Rightarrow> n)"

lemma serve_counts_adds:
  "serve_counts name rs c = (as, c') \<Longrightarrow>
     ct_total c' = ct_total c + int (other_requests rs) \<and> path_count c' p = path_count c p + int (hits p rs)"
proof (induction rs arbitrary: c as)
  case (Cons r rs)
  then show ?case
    by (cases r) (fastforce simp: count_handler_def hit_def hits_def other_requests_def path_count_def split: prod.splits option.splits)+
qed (simp add: other_requests_def hits_def)

text \<open>
  The counting fixture is exact: after any sequence of requests, in any interleaving with
  reads of the counts, its total is the number of requests that were not reads of the counts and
  each path has the number of its requests; so the check that a blocked fixture was not touched
  reports a violation exactly when a request reached it.
\<close>

theorem counts_exact:
  assumes "serve_counts name rs new_counter = (as, c)"
  shows "ct_total c = int (other_requests rs) \<and> path_count c p = int (hits p rs)
    \<and> (blockedFixtureUntouched (ct_total c) = [] \<longleftrightarrow> set rs \<subseteq> {CountsRequest})"
proof -
  have t: "ct_total c = int (other_requests rs)" "path_count c p = int (hits p rs)"
    using serve_counts_adds [OF assms, of p] by (simp_all add: new_counter_def path_count_def)
  moreover have "other_requests rs = 0 \<longleftrightarrow> set rs \<subseteq> {CountsRequest}"
    by (auto simp: other_requests_def filter_empty_conv)
  ultimately show ?thesis by (simp add: blockedFixtureUntouched_def)
qed

theorem counts_exact_witness:
  "ct_total (snd (serve_counts ''f'' [OtherRequest ''/a'', CountsRequest, OtherRequest ''/a''] new_counter)) = 2"
  using counts_exact [OF prod.collapse [symmetric, of "serve_counts ''f'' [OtherRequest ''/a'', CountsRequest, OtherRequest ''/a''] new_counter"], of "''/a''"]
  by (simp add: other_requests_def)

end
