(* ===== verification/Go_Encode.thy ===== *)
theory Go_Encode
  imports Go_Decode
begin

section \<open>Reading what encoding/json writes\<close>

text \<open>
  The encoder on strings (with HTML escaping, its default), numbers and objects, against the
  decoder: a well-formed string comes back (\<open>unquote_literal\<close>), the decoder accepts an encoded
  object and finds exactly its members (\<open>object_valid\<close>, \<open>members_object\<close>), and a text that was cut
  off before its last brace is refused (\<open>cut_object_invalid\<close>).
\<close>

text \<open>A scanner in the middle of a text, and the bytes that stay inside one key or one value of the outermost object.\<close>

definition at :: "sstate \<Rightarrow> pstate list \<Rightarrow> scanner" where
  "at st ps = \<lparr>sc_step = st, sc_stack = ps, sc_endTop = False, sc_err = False\<rparr>"

lemma at_stack [simp]: "sc_stack (at st ps) = ps"
  by (simp add: at_def)

fun inner :: "scanner \<Rightarrow> string \<Rightarrow> bool" where
  "inner s [] = True"
| "inner s (c # cs) \<longleftrightarrow> sc_stack s \<noteq> []
     \<and> \<not> (length (sc_stack s) = 1 \<and> snd (scan_step s c) \<in> {ObjectKey, ObjectValue, EndObject, SkipSpace})
     \<and> inner (fst (scan_step s c)) cs"

definition reads :: "scanner \<Rightarrow> string \<Rightarrow> scanner \<Rightarrow> bool" where
  "reads s cs s' \<longleftrightarrow> inner s cs \<and> scan_run s cs = s'"

lemma inner_append: "inner s (xs @ ys) \<longleftrightarrow> inner s xs \<and> inner (scan_run s xs) ys"
  by (induction xs arbitrary: s) auto

lemma reads_Nil [simp]: "reads s [] s' \<longleftrightarrow> s' = s"
  by (auto simp: reads_def)

lemma reads_append: "reads s xs s' \<Longrightarrow> reads s' ys s'' \<Longrightarrow> reads s (xs @ ys) s''"
  by (auto simp: reads_def inner_append scan_run_append)

lemma reads_Cons:
  "scan_step s c = (s', op) \<Longrightarrow> sc_stack s \<noteq> [] \<Longrightarrow> length (sc_stack s) \<noteq> 1 \<or> op \<notin> {ObjectKey, ObjectValue, EndObject, SkipSpace}
   \<Longrightarrow> reads s' cs s'' \<Longrightarrow> reads s (c # cs) s''"
  by (auto simp: reads_def)

lemma members_inner:
  "inner s xs \<Longrightarrow> members_from s b k v (xs @ ys)
     = members_from (scan_run s xs) b (if b then k else rev xs @ k) (if b then rev xs @ v else v) ys"
  by (induction xs arbitrary: s k v) (auto split: prod.splits)

subsection \<open>Strings\<close>

text \<open>With HTML escaping, as \<^verbatim>\<open>json.Encoder\<close> has it by default.\<close>

definition html_escape :: "char \<Rightarrow> string" where
  "html_escape c = (if c \<in> {CHR ''<'', CHR ''>'', CHR ''&''}
     then CHR 0x5C # ''u00'' @ [hex_digit (of_char c div 16), hex_digit (of_char c mod 16)] else [c])"

definition html_quote :: "string \<Rightarrow> string" where
  "html_quote s = concat (map html_escape (quote_from s))"

text \<open>What a quoted text is made of.\<close>

definition quoted_piece :: "string \<Rightarrow> bool" where
  "quoted_piece p \<longleftrightarrow> (\<exists>c. p = [c] \<and> 0x20 \<le> (of_char c :: nat) \<and> c \<noteq> CHR 0x22 \<and> c \<noteq> CHR 0x5C)
     \<or> (\<exists>c. p = [CHR 0x5C, c] \<and> c \<in> {CHR ''b'', CHR ''f'', CHR ''n'', CHR ''r'', CHR ''t'', CHR 0x5C, CHR ''/'', CHR 0x22})
     \<or> (\<exists>a b c d. p = [CHR 0x5C, CHR ''u'', a, b, c, d] \<and> hexdigit a \<and> hexdigit b \<and> hexdigit c \<and> hexdigit d)"

lemma reads_piece: "quoted_piece p \<Longrightarrow> ps \<noteq> [] \<Longrightarrow> reads (at InString ps) p (at InString ps)"
  by (auto simp: quoted_piece_def reads_def scan_step_def at_def to_state_def expect_def)

lemma reads_pieces: "\<forall>p \<in> set pieces. quoted_piece p \<Longrightarrow> ps \<noteq> [] \<Longrightarrow> reads (at InString ps) (concat pieces) (at InString ps)"
  by (induction pieces) (auto intro: reads_append reads_piece)

lemma of_hex_digit: "d < 16 \<Longrightarrow> (of_char (hex_digit d) :: nat) = (if d < 10 then 48 + d else 87 + d)"
  by (simp add: hex_digit_def of_char_of)

lemma hexdigit_hex_digit: "d < 16 \<Longrightarrow> hexdigit (hex_digit d)"
  by (auto simp: hexdigit_def digit09_def less_eq_char_def of_hex_digit)

lemma nibble_hex_digit: "d < 16 \<Longrightarrow> nibble (hex_digit d) = d"
  by (auto simp: nibble_def digit09_def less_eq_char_def of_hex_digit)

definition pieces :: "string \<Rightarrow> bool" where
  "pieces s \<longleftrightarrow> (\<exists>ps. s = concat ps \<and> (\<forall>p \<in> set ps. quoted_piece p))"

lemma pieces_Nil [simp]: "pieces []"
  unfolding pieces_def by (rule exI [of _ "[]"]) simp

lemma pieces_append: "pieces s \<Longrightarrow> pieces t \<Longrightarrow> pieces (s @ t)"
  unfolding pieces_def by (metis Un_iff concat_append set_append)

lemma pieces_piece: "quoted_piece p \<Longrightarrow> pieces p"
  unfolding pieces_def by (rule exI [of _ "[p]"]) simp

lemma of_char_lt [simp]: "(of_char c :: nat) < 256"
  by (cases c) simp

lemma quoted_pieceI:
  "0x20 \<le> (of_char c :: nat) \<Longrightarrow> c \<noteq> CHR 0x22 \<Longrightarrow> c \<noteq> CHR 0x5C \<Longrightarrow> quoted_piece [c]"
  "c \<in> {CHR ''b'', CHR ''f'', CHR ''n'', CHR ''r'', CHR ''t'', CHR 0x5C, CHR ''/'', CHR 0x22} \<Longrightarrow> quoted_piece [CHR 0x5C, c]"
  "list_all hexdigit [a, b, c, d] \<Longrightarrow> quoted_piece [CHR 0x5C, CHR ''u'', a, b, c, d]"
  unfolding quoted_piece_def by (blast, blast, simp)

lemma html_escape_other: "c \<notin> {CHR ''<'', CHR ''>'', CHR ''&''} \<Longrightarrow> html_escape c = [c]"
  by (simp add: html_escape_def)

lemma hexdigit_no_html: "hexdigit c \<Longrightarrow> c \<notin> {CHR ''<'', CHR ''>'', CHR ''&''}"
  by (auto simp: hexdigit_def digit09_def)

lemma hexdigit_0: "hexdigit (CHR ''0'')" "hexdigit (CHR ''2'')" "hexdigit (CHR ''8'')" "hexdigit (CHR ''9'')"
    "hexdigit (CHR ''f'')" "hexdigit (CHR ''d'')"
  by (simp_all add: hexdigit_def digit09_def)

lemma hex_escape:
  "quoted_piece (CHR 0x5C # ''u00'' @ [hex_digit (of_char c div 16), hex_digit (of_char c mod 16)])"
  by (simp add: quoted_pieceI(3) hexdigit_hex_digit less_mult_imp_div_less hexdigit_0)

lemma pieces_u:
  assumes "list_all hexdigit [a, b, c, d]"
  shows "pieces (concat (map html_escape [CHR 0x5C, CHR ''u'', a, b, c, d]))"
proof -
  have "html_escape x = [x]" if "x \<in> {CHR 0x5C, CHR ''u'', a, b, c, d}" for x
    using that assms hexdigit_no_html by (intro html_escape_other) fastforce
  then have "concat (map html_escape [CHR 0x5C, CHR ''u'', a, b, c, d]) = [CHR 0x5C, CHR ''u'', a, b, c, d]" by simp
  with quoted_pieceI(3) [OF assms] show ?thesis by (simp add: pieces_piece)
qed

lemma pieces_html_byte: "pieces (concat (map html_escape (quote_byte c)))"
proof (cases "c \<in> {CHR 0x5C, CHR 0x22, CHR 0x08, CHR 0x0C, CHR 0x0A, CHR 0x0D, CHR 0x09}")
  case True
  then obtain e where e: "quote_byte c = [CHR 0x5C, e]" "e \<in> {CHR 0x5C, CHR 0x22, CHR ''b'', CHR ''f'', CHR ''n'', CHR ''r'', CHR ''t''}"
    unfolding quote_byte_def by (elim insertE emptyE) simp_all
  then have "html_escape e = [e]" by (intro html_escape_other) auto
  moreover have "quoted_piece [CHR 0x5C, e]" by (rule quoted_pieceI(2)) (use e(2) in auto)
  ultimately show ?thesis using e(1) by (simp add: html_escape_other pieces_piece)
next
  case False
  then have q: "quote_byte c = (if (of_char c :: nat) < 0x20
      then [CHR 0x5C, CHR ''u'', CHR ''0'', CHR ''0'', hex_digit (of_char c div 16), hex_digit (of_char c mod 16)] else [c])"
    by (simp add: quote_byte_def)
  show ?thesis
  proof (cases "(of_char c :: nat) < 0x20")
    case True
    then show ?thesis unfolding q by (simp only: if_True) (rule pieces_u, simp add: hexdigit_hex_digit less_mult_imp_div_less hexdigit_0)
  next
    case big: False
    have "quoted_piece (html_escape c)"
      using hex_escape [of c] quoted_pieceI(1) [of c] False big unfolding html_escape_def by simp
    with big show ?thesis unfolding q by (simp add: pieces_piece)
  qed
qed

lemma pieces_high: "\<forall>c \<in> set r. \<not> is_ascii c \<Longrightarrow> pieces (concat (map html_escape r))"
proof (induction r)
  case (Cons c r)
  then have "\<not> is_ascii c" by simp
  then have "html_escape c = [c]" "quoted_piece [c]"
    by (auto simp: is_ascii_def intro!: html_escape_other quoted_pieceI(1))
  with Cons show ?case using pieces_append [OF pieces_piece] by force
qed simp

lemma rune_high:
  assumes "rune_len (c # s) \<noteq> 0" "\<not> is_ascii c" "b \<in> set (take (rune_len (c # s)) (c # s))"
  shows "\<not> is_ascii b"
proof
  assume "is_ascii b"
  let ?r = "take (rune_len (c # s)) (c # s)"
  have len: "length ?r = rune_len (c # s)" using rune_len_le [of "c # s"] by simp
  have "?r \<noteq> []" using assms(1) by simp
  have "rune_len (?r @ t) = length ?r" for t
    by (rule rune_len_local [of _ "drop (rune_len (c # s)) (c # s)"]) (use len \<open>?r \<noteq> []\<close> in auto)
  from rune_ascii_single [OF this assms(3) \<open>is_ascii b\<close>] have "?r = [b]" .
  then have "b = c" using \<open>?r \<noteq> []\<close> by (metis hd_take list.sel(1) length_greater_0_conv take_eq_Nil zero_less_iff_neq_zero)
  with \<open>is_ascii b\<close> assms(2) show False by simp
qed

lemma pieces_rune:
  assumes "rune_len (c # s) \<noteq> 0" "\<not> is_ascii c"
  shows "pieces (concat (map html_escape (quote_rune (take (rune_len (c # s)) (c # s)))))"
proof -
  note u = pieces_u [of "CHR ''2''" "CHR ''0''" "CHR ''2''" "CHR ''8''", simplified list.pred_inject hexdigit_0, simplified]
    pieces_u [of "CHR ''2''" "CHR ''0''" "CHR ''2''" "CHR ''9''", simplified list.pred_inject hexdigit_0, simplified]
  have "pieces (concat (map html_escape (take (rune_len (c # s)) (c # s))))"
    using rune_high [OF assms] by (intro pieces_high) blast
  with u show ?thesis unfolding quote_rune_def by simp
qed

lemma pieces_html_quote: "pieces (html_quote s)"
  unfolding html_quote_def
proof (induction s rule: quote_from.induct)
  case (2 c s)
  consider "is_ascii c" | "\<not> is_ascii c" "rune_len (c # s) = 0" | "\<not> is_ascii c" "rune_len (c # s) \<noteq> 0" by blast
  then show ?case
  proof cases
    case 1
    with 2(1) show ?thesis by (simp add: pieces_append pieces_html_byte)
  next
    case 2
    have "pieces (concat (map html_escape (CHR 0x5C # ''ufffd'')))"
      using pieces_u [of "CHR ''f''" "CHR ''f''" "CHR ''f''" "CHR ''d''"] by (simp add: hexdigit_0)
    from pieces_append [OF this "2.IH"(2) [OF 2]] 2 show ?thesis by simp
  next
    case 3
    from pieces_append [OF pieces_rune [OF 3(2,1)] "2.IH"(3) [OF 3]] 3 show ?thesis by simp
  qed
qed simp

definition literal :: "string \<Rightarrow> string" where
  "literal s = CHR 0x22 # html_quote s @ [CHR 0x22]"

lemma reads_literal:
  assumes "ps \<noteq> []" "st \<in> {BeginString, BeginStringOrEmpty, BeginValue}"
  shows "reads (at st ps) (literal s) (at EndValue ps)"
proof -
  have "reads (at InString ps) (html_quote s) (at InString ps)"
    using pieces_html_quote [of s] reads_pieces [OF _ assms(1)] by (auto simp: pieces_def)
  moreover have "reads (at InString ps) [CHR 0x22] (at EndValue ps)"
    using assms(1) by (simp add: reads_def at_def scan_step_def to_state_def)
  ultimately have "reads (at InString ps) (html_quote s @ [CHR 0x22]) (at EndValue ps)" by (rule reads_append)
  then show ?thesis unfolding literal_def
    by (rule reads_Cons [rotated 3, where op = BeginLiteral])
       (use assms in \<open>auto simp: at_def scan_step_def state_BeginString_def state_BeginValue_def to_state_def isSpace_def\<close>)
qed

subsection \<open>Unquoting\<close>

lemma unquoteBytes_Nil [simp]: "unquoteBytes [] = []"
  by (simp add: unquoteBytes.simps)

lemma unquoteBytes_rune:
  assumes "rune_len (r @ t) = length r" "r \<noteq> []" "hd r \<noteq> CHR 0x5C"
  shows "unquoteBytes (r @ t) = r @ unquoteBytes t"
  using assms by (subst unquoteBytes.simps) simp

lemma unquoteBytes_short:
  "c \<noteq> CHR ''u'' \<Longrightarrow> unquoteBytes (CHR 0x5C # c # t) = escaped c # unquoteBytes t"
  by (subst unquoteBytes.simps) (simp add: getu4_def)

lemma unquoteBytes_u:
  assumes "list_all hexdigit [a, b, c, d]" "((nibble a * 16 + nibble b) * 16 + nibble c) * 16 + nibble d = r" "r < 0xD800"
  shows "unquoteBytes (CHR 0x5C # CHR ''u'' # a # b # c # d # t) = EncodeRune r @ unquoteBytes t"
proof -
  have "getu4 (CHR 0x5C # CHR ''u'' # a # b # c # d # t) = Some r"
    using assms by (simp add: getu4_def)
  with assms(3) show ?thesis by (subst unquoteBytes.simps) simp
qed

lemma unquoteBytes_hex:
  assumes "(of_char c :: nat) < 0x80"
  shows "unquoteBytes (CHR 0x5C # ''u00'' @ [hex_digit (of_char c div 16), hex_digit (of_char c mod 16)] @ t) = c # unquoteBytes t"
proof -
  have "nibble (CHR ''0'') = 0" by (simp add: nibble_def digit09_def)
  then have "unquoteBytes (CHR 0x5C # CHR ''u'' # CHR ''0'' # CHR ''0'' # hex_digit (of_char c div 16) # hex_digit (of_char c mod 16) # t)
      = EncodeRune (of_char c) @ unquoteBytes t"
    by (intro unquoteBytes_u) (use assms in \<open>simp_all add: hexdigit_0 hexdigit_hex_digit less_mult_imp_div_less nibble_hex_digit\<close>)
  with assms show ?thesis by (simp add: EncodeRune_def)
qed

lemma unquote_byte:
  assumes "is_ascii c"
  shows "unquoteBytes (concat (map html_escape (quote_byte c)) @ t) = c # unquoteBytes t"
proof (cases "c \<in> {CHR 0x5C, CHR 0x22, CHR 0x08, CHR 0x0C, CHR 0x0A, CHR 0x0D, CHR 0x09}")
  case True
  then show ?thesis unfolding quote_byte_def
    by (elim insertE emptyE) (simp_all add: html_escape_other unquoteBytes_short escaped_def)
next
  case False
  have low: "(of_char c :: nat) < 0x80" using assms by (simp add: is_ascii_def)
  have plain: "unquoteBytes ([c] @ t) = c # unquoteBytes t" using assms False by (subst unquoteBytes_rune) simp_all
  have esc: "html_escape (hex_digit d) = [hex_digit d]" if "d < 16" for d
    using hexdigit_no_html [OF hexdigit_hex_digit [OF that]] by (rule html_escape_other)
  show ?thesis
  proof (cases "(of_char c :: nat) < 0x20")
    case True
    have "concat (map html_escape (quote_byte c)) = CHR 0x5C # ''u00'' @ [hex_digit (of_char c div 16), hex_digit (of_char c mod 16)]"
      using False True by (simp add: quote_byte_def html_escape_other esc less_mult_imp_div_less)
    with unquoteBytes_hex [OF low] show ?thesis by simp
  next
    case big: False
    then have "quote_byte c = [c]" using False by (simp add: quote_byte_def)
    with plain unquoteBytes_hex [OF low, of t] show ?thesis by (simp add: html_escape_def)
  qed
qed

lemma html_escape_high: "\<forall>c \<in> set r. \<not> is_ascii c \<Longrightarrow> concat (map html_escape r) = r"
  by (induction r) (auto simp: html_escape_def is_ascii_def)

lemma EncodeRune_separators: "EncodeRune 0x2028 = [CHR 0xE2, CHR 0x80, CHR 0xA8]" "EncodeRune 0x2029 = [CHR 0xE2, CHR 0x80, CHR 0xA9]"
  by code_simp+

lemma unquote_rune:
  assumes "rune_len (r @ t) = length r" "r \<noteq> []" "\<forall>c \<in> set r. \<not> is_ascii c"
  shows "unquoteBytes (concat (map html_escape (quote_rune r)) @ t) = r @ unquoteBytes t"
proof -
  have "\<not> is_ascii (hd r)" using assms(2,3) hd_in_set [of r] by blast
  then have "hd r \<noteq> CHR 0x5C" by (auto simp: is_ascii_def)
  note other = unquoteBytes_rune [OF assms(1,2) this]
  have n: "nibble (CHR ''2'') = 2" "nibble (CHR ''0'') = 0" "nibble (CHR ''8'') = 8" "nibble (CHR ''9'') = 9"
    by (simp_all add: nibble_def digit09_def)
  have "unquoteBytes (CHR 0x5C # ''u2028'' @ t) = EncodeRune 0x2028 @ unquoteBytes t"
    "unquoteBytes (CHR 0x5C # ''u2029'' @ t) = EncodeRune 0x2029 @ unquoteBytes t"
    using unquoteBytes_u [of "CHR ''2''" "CHR ''0''" "CHR ''2''" "CHR ''8''" "0x2028" t]
      unquoteBytes_u [of "CHR ''2''" "CHR ''0''" "CHR ''2''" "CHR ''9''" "0x2029" t]
    by (simp_all add: hexdigit_0 n)
  with other html_escape_high [OF assms(3)] show ?thesis
    unfolding quote_rune_def EncodeRune_separators by (auto simp: html_escape_other)
qed

text \<open>Unquoting what the encoder wrote for well-formed UTF-8 gives the string back.\<close>

lemma unquote_literal: "ValidString s \<Longrightarrow> unquote (literal s) = s"
proof -
  assume "ValidString s"
  then have "unquoteBytes (html_quote s) = s"
  proof (induction rule: ValidString_induct)
    case (rune r s)
    show ?case
    proof (cases "\<exists>c \<in> set r. is_ascii c")
      case True
      then obtain c where "is_ascii c" "r = [c]" using rune_ascii_single [OF rune.hyps(2)] by blast
      with rune.IH show ?thesis by (simp add: html_quote_def unquote_byte)
    next
      case False
      from rune.hyps(1) obtain c r' where r: "r = c # r'" by (cases r) auto
      with False rune.hyps(2) [of s] have "quote_from (r @ s) = quote_rune r @ quote_from s" by simp
      moreover have "unquoteBytes (concat (map html_escape (quote_rune r)) @ html_quote s) = r @ unquoteBytes (html_quote s)"
        using False rune.hyps by (intro unquote_rune) auto
      ultimately show ?thesis using rune.IH by (simp add: html_quote_def)
    qed
  qed (simp add: html_quote_def)
  then show ?thesis by (simp add: unquote_def literal_def)
qed

subsection \<open>Numbers and objects\<close>

lemma hd_decimal: "0 < n \<Longrightarrow> digit19 (hd (decimal n))"
proof (induction n rule: decimal.induct)
  case (1 n)
  have "digit19 (digit_char n)" if "n < 10"
    using that 1(2) by (simp add: digit19_def less_eq_char_def)
  moreover have "digit19 (hd (decimal (n div 10)))" if "\<not> n < 10"
    using that by (intro 1(1)) (simp_all add: div_greater_zero_iff)
  ultimately show ?case by (subst decimal.simps) simp
qed

lemma reads_digits: "\<forall>c \<in> set ds. is_digit c \<Longrightarrow> ps \<noteq> [] \<Longrightarrow> reads (at S1 ps) ds (at S1 ps)"
  by (induction ds) (auto simp: reads_def at_def scan_step_def to_state_def is_digit_def digit09_def)

lemma digit19_step:
  assumes "digit19 d"
  shows "scan_step (at BeginValue ps) d = (at S1 ps, BeginLiteral)"
proof -
  have "d \<notin> {CHR '' '', CHR 0x09, CHR 0x0D, CHR 0x0A, CHR ''{'', CHR ''['', CHR 0x22, CHR ''-'', CHR ''0'', CHR ''t'', CHR ''f'', CHR ''n''}"
    using assms unfolding digit19_def by (intro notI) (elim insertE emptyE; simp)
  with assms show ?thesis by (simp add: at_def scan_step_def state_BeginValue_def to_state_def isSpace_def)
qed

definition value_at :: "pstate list \<Rightarrow> string \<Rightarrow> bool" where
  "value_at ps v \<longleftrightarrow> (\<exists>st. endable st \<and> reads (at BeginValue ps) v (at st ps))"

lemma value_at_decimal:
  assumes "ps \<noteq> []"
  shows "value_at ps (decimal n)"
proof (cases "n = 0")
  case True
  have "decimal 0 = ''0''" by code_simp
  with True have "decimal n = ''0''" by simp
  with assms have "reads (at BeginValue ps) (decimal n) (at S0 ps)"
    by (simp add: reads_def at_def scan_step_def state_BeginValue_def to_state_def isSpace_def)
  then show ?thesis by (auto simp: value_at_def endable_def)
next
  case False
  obtain d ds where d: "decimal n = d # ds" using decimal_not_Nil by (metis list.exhaust)
  with False hd_decimal [of n] have "digit19 d" by simp
  moreover have "\<forall>c \<in> set ds. is_digit c" using decimal_digits d by (metis list.set_intros(2))
  ultimately have "reads (at BeginValue ps) (decimal n) (at S1 ps)"
    unfolding d
    by (intro reads_Cons [where s' = "at S1 ps" and op = BeginLiteral] reads_digits)
       (use assms in \<open>simp_all add: digit19_step\<close>)
  then show ?thesis by (auto simp: value_at_def endable_def)
qed

text \<open>An object with the given members, values as texts.\<close>

definition entry_text :: "string \<times> string \<Rightarrow> string" where
  "entry_text e = literal (fst e) @ CHR '':'' # snd e"

definition object_text :: "(string \<times> string) list \<Rightarrow> string" where
  "object_text es = CHR ''{'' # join_with '','' (map entry_text es) @ ''}''"

lemma colon_step: "scan_step (at EndValue (ParseObjectKey # ps)) (CHR '':'') = (at BeginValue (ParseObjectValue # ps), ObjectKey)"
  by (simp add: at_def scan_step_def state_EndValue_def isSpace_def)

lemma comma_step:
  "endable st \<Longrightarrow> scan_step (at st (ParseObjectValue # ps)) (CHR '','') = (at BeginString (ParseObjectKey # ps), ObjectValue)"
  by (subst endable_step) (simp_all add: at_def state_EndValue_def isSpace_def number_byte_def digit09_def)

definition closed_object :: "pstate list \<Rightarrow> scanner" where
  "closed_object ps = \<lparr>sc_step = (if ps = [] then EndTop else EndValue), sc_stack = ps, sc_endTop = (ps = []), sc_err = False\<rparr>"

lemma brace_step:
  "endable st \<Longrightarrow> scan_step (at st (ParseObjectValue # ps)) (CHR ''}'') = (closed_object ps, EndObject)"
  by (subst endable_step) (simp_all add: at_def state_EndValue_def isSpace_def number_byte_def digit09_def popParseState_def closed_object_def)

lemma brace_empty: "scan_step (at BeginStringOrEmpty (ParseObjectKey # ps)) (CHR ''}'') = (closed_object ps, EndObject)"
  by (simp add: at_def scan_step_def state_EndValue_def isSpace_def popParseState_def closed_object_def)

lemma open_step:
  "length ps < maxNestingDepth \<Longrightarrow> scan_step (at BeginValue ps) (CHR ''{'') = (at BeginStringOrEmpty (ParseObjectKey # ps), BeginObject)"
  by (simp add: at_def scan_step_def state_BeginValue_def isSpace_def pushParseState_def)

lemma scan_entry:
  assumes "value_at (ParseObjectValue # ps) (snd e)" "st \<in> {BeginString, BeginStringOrEmpty}"
  shows "\<exists>st'. endable st' \<and> scan_run (at st (ParseObjectKey # ps)) (entry_text e) = at st' (ParseObjectValue # ps)
    \<and> (ps \<noteq> [] \<longrightarrow> inner (at st (ParseObjectKey # ps)) (entry_text e))"
proof -
  have k: "reads (at st (ParseObjectKey # ps)) (literal (fst e)) (at EndValue (ParseObjectKey # ps))"
    by (rule reads_literal) (use assms(2) in auto)
  from assms(1) obtain st' where v: "endable st'" "reads (at BeginValue (ParseObjectValue # ps)) (snd e) (at st' (ParseObjectValue # ps))"
    by (auto simp: value_at_def)
  from k v show ?thesis
    by (intro exI [of _ st']) (auto simp: entry_text_def reads_def scan_run_append inner_append colon_step)
qed

lemma join_with_entries:
  "join_with '','' (map entry_text (e # es)) = entry_text e @ concat (map (\<lambda>e. CHR '','' # entry_text e) es)"
  by (induction es arbitrary: e) auto

lemma scan_entries:
  assumes "\<forall>e \<in> set es. value_at (ParseObjectValue # ps) (snd e)" "endable st"
  shows "\<exists>st'. endable st' \<and> scan_run (at st (ParseObjectValue # ps)) (concat (map (\<lambda>e. CHR '','' # entry_text e) es)) = at st' (ParseObjectValue # ps)
    \<and> (ps \<noteq> [] \<longrightarrow> inner (at st (ParseObjectValue # ps)) (concat (map (\<lambda>e. CHR '','' # entry_text e) es)))"
  using assms
proof (induction es arbitrary: st)
  case (Cons e es)
  from scan_entry [of ps e BeginString] Cons.prems(1) obtain st1 where st1: "endable st1"
    "scan_run (at BeginString (ParseObjectKey # ps)) (entry_text e) = at st1 (ParseObjectValue # ps)"
    "ps \<noteq> [] \<longrightarrow> inner (at BeginString (ParseObjectKey # ps)) (entry_text e)" by auto
  from Cons.IH [OF _ st1(1)] Cons.prems st1 show ?case
    by (auto simp: scan_run_append inner_append comma_step)
qed auto

lemma value_at_object:
  assumes "\<forall>e \<in> set es. value_at (ParseObjectValue # ps) (snd e)" "ps \<noteq> []" "length ps < maxNestingDepth"
  shows "value_at ps (object_text es)"
proof -
  have c: "closed_object ps = at EndValue ps" using assms(2) by (simp add: closed_object_def at_def)
  have "reads (at BeginValue ps) (object_text es) (at EndValue ps)"
  proof (cases es)
    case Nil
    with assms c show ?thesis by (simp add: object_text_def reads_def open_step brace_empty)
  next
    case (Cons e es')
    obtain st1 where st1: "endable st1"
      "scan_run (at BeginStringOrEmpty (ParseObjectKey # ps)) (entry_text e) = at st1 (ParseObjectValue # ps)"
      "inner (at BeginStringOrEmpty (ParseObjectKey # ps)) (entry_text e)"
      using scan_entry [of ps e BeginStringOrEmpty] assms(1,2) Cons by auto
    from scan_entries [OF _ st1(1), of es' ps] assms(1,2) Cons obtain st2 where st2: "endable st2"
      "scan_run (at st1 (ParseObjectValue # ps)) (concat (map (\<lambda>e. CHR '','' # entry_text e) es')) = at st2 (ParseObjectValue # ps)"
      "inner (at st1 (ParseObjectValue # ps)) (concat (map (\<lambda>e. CHR '','' # entry_text e) es'))" by auto
    show ?thesis unfolding object_text_def Cons join_with_entries
      using assms(2,3) st1 st2 c by (simp add: reads_def open_step scan_run_append inner_append brace_step)
  qed
  then show ?thesis by (auto simp: value_at_def endable_def)
qed

lemma newScanner_at: "newScanner = at BeginValue []"
  by (simp add: newScanner_def at_def)

lemma members_entry:
  assumes "value_at [ParseObjectValue] (snd e)" "st \<in> {BeginString, BeginStringOrEmpty}"
  shows "\<exists>st'. endable st' \<and> members_from (at st [ParseObjectKey]) False [] [] (entry_text e @ rest)
    = members_from (at st' [ParseObjectValue]) True (rev (literal (fst e))) (rev (snd e)) rest"
proof -
  have k: "reads (at st [ParseObjectKey]) (literal (fst e)) (at EndValue [ParseObjectKey])"
    by (rule reads_literal) (use assms(2) in auto)
  from assms(1) obtain st' where v: "endable st'" "reads (at BeginValue [ParseObjectValue]) (snd e) (at st' [ParseObjectValue])"
    by (auto simp: value_at_def)
  have "members_from (at st [ParseObjectKey]) False [] [] (entry_text e @ rest)
      = members_from (at EndValue [ParseObjectKey]) False (rev (literal (fst e))) [] (CHR '':'' # snd e @ rest)"
    using k members_inner [of "at st [ParseObjectKey]" "literal (fst e)"] by (simp add: entry_text_def reads_def)
  also have "\<dots> = members_from (at BeginValue [ParseObjectValue]) True (rev (literal (fst e))) [] (snd e @ rest)"
    by (simp add: colon_step)
  also have "\<dots> = members_from (at st' [ParseObjectValue]) True (rev (literal (fst e))) (rev (snd e)) rest"
    using v(2) members_inner [of "at BeginValue [ParseObjectValue]" "snd e"] by (simp add: reads_def)
  finally show ?thesis using v(1) by blast
qed

lemma literal_not_Nil [simp]: "literal s \<noteq> []"
  by (simp add: literal_def)

lemma members_entries:
  assumes "\<forall>e \<in> set es. value_at [ParseObjectValue] (snd e)" "endable st" "k \<noteq> []"
  shows "members_from (at st [ParseObjectValue]) True k v (concat (map (\<lambda>e. CHR '','' # entry_text e) es) @ ''}'')
    = (rev k, rev v) # map (\<lambda>e. (literal (fst e), snd e)) es"
  using assms
proof (induction es arbitrary: st k v)
  case Nil
  then show ?case by (simp add: brace_step)
next
  case (Cons e es)
  let ?rest = "concat (map (\<lambda>e. CHR '','' # entry_text e) es) @ ''}''"
  obtain st' where st': "endable st'" "members_from (at BeginString [ParseObjectKey]) False [] [] (entry_text e @ ?rest)
      = members_from (at st' [ParseObjectValue]) True (rev (literal (fst e))) (rev (snd e)) ?rest"
    using members_entry [of e BeginString ?rest] Cons.prems(1) by auto
  have "members_from (at st' [ParseObjectValue]) True (rev (literal (fst e))) (rev (snd e)) ?rest
      = (literal (fst e), snd e) # map (\<lambda>e. (literal (fst e), snd e)) es"
    using Cons.IH [OF _ st'(1), of "rev (literal (fst e))" "rev (snd e)"] Cons.prems(1) by simp
  with st'(2) Cons.prems show ?case by (simp add: comma_step)
qed

text \<open>The decoder finds the members of an object the encoder wrote, and accepts its text.\<close>

lemma members_object:
  assumes "\<forall>e \<in> set es. value_at [ParseObjectValue] (snd e)"
  shows "members (object_text es) = map (\<lambda>e. (unquote (literal (fst e)), snd e)) es"
proof (cases es)
  case Nil
  have "members_from newScanner False [] [] (object_text []) = []"
    by (simp add: newScanner_at object_text_def open_step maxNestingDepth_def brace_empty)
  with Nil show ?thesis by (simp add: members_def)
next
  case (Cons e es')
  let ?rest = "concat (map (\<lambda>e. CHR '','' # entry_text e) es') @ ''}''"
  obtain st where st: "endable st" "members_from (at BeginStringOrEmpty [ParseObjectKey]) False [] [] (entry_text e @ ?rest)
      = members_from (at st [ParseObjectValue]) True (rev (literal (fst e))) (rev (snd e)) ?rest"
    using members_entry [of e BeginStringOrEmpty ?rest] assms Cons by auto
  have "members_from newScanner False [] [] (object_text es) = map (\<lambda>e. (literal (fst e), snd e)) es"
    unfolding object_text_def Cons join_with_entries
    using st members_entries [OF _ st(1), of es' "rev (literal (fst e))" "rev (snd e)"] assms Cons
    by (simp add: newScanner_at open_step maxNestingDepth_def)
  then show ?thesis by (simp add: members_def)
qed

lemma scan_object:
  assumes "\<forall>e \<in> set es. value_at [ParseObjectValue] (snd e)"
  shows "scan_run newScanner (object_text es) = closed_object []"
proof (cases es)
  case Nil
  then show ?thesis by (simp add: newScanner_at object_text_def open_step maxNestingDepth_def brace_empty)
next
  case (Cons e es')
  obtain st1 where st1: "endable st1"
    "scan_run (at BeginStringOrEmpty [ParseObjectKey]) (entry_text e) = at st1 [ParseObjectValue]"
    using scan_entry [of "[]" e BeginStringOrEmpty] assms Cons by auto
  from scan_entries [OF _ st1(1), of es' "[]"] assms Cons obtain st2 where st2: "endable st2"
    "scan_run (at st1 [ParseObjectValue]) (concat (map (\<lambda>e. CHR '','' # entry_text e) es')) = at st2 [ParseObjectValue]" by auto
  show ?thesis unfolding object_text_def Cons join_with_entries
    using st1 st2 by (simp add: newScanner_at open_step maxNestingDepth_def scan_run_append brace_step)
qed

lemma object_valid:
  assumes "\<forall>e \<in> set es. value_at [ParseObjectValue] (snd e)"
  shows "checkValid (object_text es)" "kind_of (object_text es) = KObject"
  using scan_object [OF assms]
  by (simp_all add: checkValid_def scan_eof_def closed_object_def kind_of_def first_byte_def object_text_def isSpace_def)

subsection \<open>A text that is cut short\<close>

text \<open>After its first byte, the scanner of an object is inside the object, at its end, or in error.\<close>

definition in_object :: "scanner \<Rightarrow> bool" where
  "in_object s \<longleftrightarrow> sc_err s \<or> (sc_stack s \<noteq> [] \<and> \<not> sc_endTop s \<and> sc_step s \<noteq> EndTop) \<or> (sc_stack s = [] \<and> sc_endTop s \<and> sc_step s = EndTop)"

lemma in_object_EndValue:
  assumes "sc_err s \<or> \<not> sc_endTop s" "sc_stack s \<noteq> []"
  shows "in_object (fst (state_EndValue s c))"
proof -
  obtain p ps where "sc_stack s = p # ps" using assms(2) by (cases "sc_stack s") auto
  with assms(1) show ?thesis
    by (cases p) (simp_all add: in_object_def state_EndValue_def to_state_def scan_error_def popParseState_def Let_def)
qed

lemma in_object_BeginValue:
  assumes "sc_err s \<or> \<not> sc_endTop s" "sc_stack s \<noteq> []" "sc_step s \<noteq> EndTop"
  shows "in_object (fst (state_BeginValue s c))"
  using assms by (simp add: in_object_def state_BeginValue_def to_state_def scan_error_def pushParseState_def Let_def)

lemma in_object_step: "in_object s \<Longrightarrow> in_object (fst (scan_step s c))"
proof (cases "sc_err s")
  case True
  then show ?thesis using err_sticky by (simp add: in_object_def)
next
  case False
  assume "in_object s"
  with False consider "sc_stack s \<noteq> []" "\<not> sc_endTop s" "sc_step s \<noteq> EndTop" | "sc_stack s = []" "sc_endTop s" "sc_step s = EndTop"
    by (auto simp: in_object_def)
  then show ?thesis
  proof cases
    case 1
    have ev: "in_object (fst (state_EndValue s c))" "in_object (fst (state_BeginValue s c))"
      "in_object (fst (state_EndValue (s\<lparr>sc_stack := ParseObjectValue # tl (sc_stack s)\<rparr>) c))" for c
      using 1 by (simp_all add: in_object_EndValue in_object_BeginValue)
    have stay: "in_object s" "st \<noteq> EndTop \<Longrightarrow> in_object (s\<lparr>sc_step := st\<rparr>)" "in_object (s\<lparr>sc_step := SError, sc_err := True\<rparr>)" for st
      using 1 by (simp_all add: in_object_def)
    show ?thesis using 1(3)
      by (cases "sc_step s") (simp_all add: scan_step_def state_0_def state_ESign_def state_BeginString_def expect_def to_state_def scan_error_def ev stay)
  next
    case 2
    then show ?thesis by (simp add: in_object_def scan_step_def state_EndTop_def scan_error_def)
  qed
qed

lemma in_object_run: "in_object s \<Longrightarrow> in_object (scan_run s cs)"
  by (induction cs arbitrary: s) (simp_all add: in_object_step)

lemma after_end:
  assumes "sc_stack s = []" "sc_endTop s" "sc_step s = EndTop" "\<not> isSpace c"
  shows "sc_err (fst (scan_step s c))"
  using assms by (simp add: scan_step_def state_EndTop_def scan_error_def)

lemma in_object_eof: "in_object s \<Longrightarrow> scan_eof s \<Longrightarrow> sc_stack s = [] \<and> sc_endTop s \<and> sc_step s = EndTop"
proof -
  assume s: "in_object s" "scan_eof s"
  have "\<not> sc_endTop (fst (scan_step s (CHR '' '')))" if "sc_stack s \<noteq> []" "\<not> sc_endTop s"
  proof -
    have "in_object (fst (scan_step s (CHR '' '')))" using s(1) by (rule in_object_step)
    have ev: "\<not> sc_endTop (fst (state_EndValue s (CHR '' '')))"
      using that by (simp add: EndValue_space isSpace_def)
    then show ?thesis using that
      by (cases "sc_step s") (simp_all add: scan_step_def state_0_def state_ESign_def state_BeginString_def state_BeginValue_def
          expect_def to_state_def scan_error_def state_EndTop_def isSpace_def digit09_def digit19_def hexdigit_def)
  qed
  with s show ?thesis by (auto simp: in_object_def scan_eof_def)
qed

lemma after_end_run:
  assumes "sc_stack s = []" "sc_endTop s" "sc_step s = EndTop" "\<exists>c \<in> set cs. \<not> isSpace c"
  shows "sc_err (scan_run s cs)"
  using assms
proof (induction cs)
  case (Cons c cs)
  show ?case
  proof (cases "isSpace c")
    case True
    with Cons have "fst (scan_step s c) = s" by (simp add: scan_step_def state_EndTop_def)
    with Cons True show ?thesis by auto
  next
    case False
    with Cons.prems have "sc_err (fst (scan_step s c))" by (simp add: after_end)
    then show ?thesis using err_sticky_run by simp
  qed
qed simp

text \<open>An object text that was cut off before its last brace is not a valid text.\<close>

lemma cut_object_invalid:
  assumes "checkValid (xs @ ys)" "xs @ ys = CHR ''{'' # zs" "\<exists>c \<in> set ys. \<not> isSpace c"
  shows "\<not> checkValid xs"
proof
  assume v: "checkValid xs"
  have "xs \<noteq> []" using v by (auto simp: checkValid_def scan_eof_def newScanner_def scan_defs isSpace_def)
  with assms(2) obtain xs' where xs: "xs = CHR ''{'' # xs'" by (cases xs) auto
  have "in_object (fst (scan_step newScanner (CHR ''{'')))"
    by (simp add: newScanner_at open_step maxNestingDepth_def) (simp add: in_object_def at_def)
  then have "in_object (scan_run newScanner xs)" unfolding xs by (simp add: in_object_run)
  from in_object_eof [OF this] v have "sc_err (scan_run (scan_run newScanner xs) ys)"
    using after_end_run [OF _ _ _ assms(3)] by (simp add: checkValid_def)
  with assms(1) show False using checkValid_no_err scan_run_append by metis
qed

end
