(* ===== verification/Counts.thy ===== *)
theory Counts
  imports Build Probe_Commands Go_Encode
begin

section \<open>Request counts, from the fixture to the harness\<close>

text \<open>
  The counting fixture (\<^verbatim>\<open>http-count\<close> of \<^verbatim>\<open>probe/net.go\<close>) answers a read of its counts with the JSON of a
  snapshot; \<^verbatim>\<open>http-get\<close> of \<^verbatim>\<open>probe/egress.go\<close> prints the first line of that answer; the harness
  (\<^verbatim>\<open>egress.go\<close>) parses the line and decodes the JSON. \<open>countsText total ps\<close> is what \<^verbatim>\<open>json.Encoder\<close> writes
  for \<^verbatim>\<open>counter.snapshot\<close>, less the newline, where \<open>ps\<close> lists the entries of the map in the encoder's order. The
  result is \<open>blocked_fixture_check_exact\<close>.
\<close>

definition int_entry :: "string \<times> int \<Rightarrow> string \<times> string" where
  "int_entry e = (fst e, Itoa (snd e))"

definition countsText :: "int \<Rightarrow> (string \<times> int) list \<Rightarrow> string" where
  "countsText t ps = object_text [(''paths'', object_text (map int_entry ps)), (''total'', Itoa t)]"

definition count_fits :: "int \<Rightarrow> bool" where
  "count_fits n \<longleftrightarrow> 0 \<le> n \<and> n < 2 ^ 63"

subsection \<open>Decoding\<close>

lemma kind_decimal: "kind_of (decimal n) = KNumber"
proof -
  obtain d ds where d: "decimal n = d # ds" using decimal_not_Nil by (metis list.exhaust)
  have "is_digit d" using hd_decimal_digit [of n] d by simp
  then have "d \<notin> {CHR '' '', CHR 0x09, CHR 0x0D, CHR 0x0A, CHR ''{'', CHR ''['', CHR 0x22, CHR ''n'', CHR ''t'', CHR ''f''}"
    unfolding is_digit_def by (intro notI) (elim insertE emptyE; simp)
  then show ?thesis unfolding d by (simp add: kind_of_def first_byte_def isSpace_def)
qed

lemma int_value_Itoa: "count_fits n \<Longrightarrow> int_value old (Itoa n) = Some n"
  using ParseInt_Itoa [of n] by (simp add: int_value_def kind_decimal count_fits_def is_int64_def)

lemma value_at_Itoa: "count_fits n \<Longrightarrow> ps \<noteq> [] \<Longrightarrow> value_at ps (Itoa n)"
  by (simp add: count_fits_def value_at_decimal)

definition read_key :: "string \<Rightarrow> string" where
  "read_key k = unquote (literal k)"

definition put_key :: "(string \<rightharpoonup> int) \<Rightarrow> string \<times> int \<Rightarrow> (string \<rightharpoonup> int)" where
  "put_key m e = m(read_key (fst e) \<mapsto> snd e)"

lemma int_members_entries:
  "\<forall>e \<in> set ps. count_fits (snd e) \<Longrightarrow>
   int_members (map (\<lambda>e. (read_key (fst e), snd e)) (map int_entry ps)) m = Some (foldl put_key m ps)"
  by (induction ps arbitrary: m) (simp_all add: int_entry_def int_value_Itoa put_key_def)

lemma object_values:
  "\<forall>e \<in> set ps. count_fits (snd e) \<Longrightarrow> qs \<noteq> [] \<Longrightarrow> \<forall>e \<in> set (map int_entry ps). value_at qs (snd e)"
  by (auto simp: int_entry_def value_at_Itoa)

lemma paths_value: "\<forall>e \<in> set ps. count_fits (snd e) \<Longrightarrow> value_at [ParseObjectValue] (object_text (map int_entry ps))"
  by (rule value_at_object) (simp_all add: object_values maxNestingDepth_def)

lemma counts_values:
  assumes "count_fits t" "\<forall>e \<in> set ps. count_fits (snd e)"
  shows "\<forall>e \<in> set [(''paths'', object_text (map int_entry ps)), (''total'', Itoa t)]. value_at [ParseObjectValue] (snd e)"
  using assms by (simp add: paths_value value_at_Itoa)

lemma unmarshal_countsText:
  assumes "count_fits t" "\<forall>e \<in> set ps. count_fits (snd e)"
  shows "unmarshalCounts (countsText t ps)
    = Some \<lparr>rc_Total = t, rc_Paths = foldl put_key Map.empty ps\<rparr>"
proof -
  have k: "unquote (literal ''paths'') = ''paths''" "unquote (literal ''total'') = ''total''"
    by (simp_all add: unquote_literal ValidString_ascii is_ascii_def)
  have f: "folded ''paths'' = ''PATHS''" "folded ''total'' = ''TOTAL''" by code_simp+
  have m: "members (countsText t ps) = [(''paths'', object_text (map int_entry ps)), (''total'', Itoa t)]"
    unfolding countsText_def by (subst members_object [OF counts_values [OF assms]]) (simp add: k)
  have vals: "\<forall>e \<in> set (map int_entry ps). value_at [ParseObjectValue] (snd e)"
    by (rule object_values [OF assms(2)]) simp
  have p: "map_value Map.empty (object_text (map int_entry ps)) = Some (foldl put_key Map.empty ps)"
    using members_object [OF vals] object_valid(2) [OF vals] int_members_entries [OF assms(2), of Map.empty]
    by (simp add: map_value_def read_key_def)
  show ?thesis
    using object_valid [OF counts_values [OF assms]] m p int_value_Itoa [OF assms(1)]
    by (simp add: unmarshalCounts_def countsText_def [symmetric] noCounts_def f del: folded.simps)
qed

lemma read_paths:
  "distinct (map fst ps) \<Longrightarrow> \<forall>e \<in> set ps. read_key (fst e) = fst e \<Longrightarrow>
   foldl put_key m ps = m ++ map_of ps"
proof (induction ps arbitrary: m)
  case (Cons e ps)
  then have "map_of ps (fst e) = None" by (simp add: map_of_eq_None_iff)
  then have "put_key m e ++ map_of ps = m ++ map_of (e # ps)"
    using Cons.prems(2) by (auto simp: fun_eq_iff map_add_def put_key_def split: option.splits)
  with Cons show ?case by (metis distinct.simps(2) foldl_Cons list.set_intros(2) list.simps(9))
qed simp

subsection \<open>What the probe line keeps\<close>

text \<open>The one byte of an encoded text that the line format does not take is DEL, in a path; it becomes a space.\<close>

definition no_del :: "char \<Rightarrow> char" where
  "no_del c = (if c = CHR 0x7F then CHR '' '' else c)"

lemma no_del_high [simp]: "\<not> is_ascii c \<Longrightarrow> no_del c = c"
  by (auto simp: no_del_def is_ascii_def)

lemma is_ascii_no_del [simp]: "is_ascii (no_del c) = is_ascii c"
  by (auto simp: no_del_def is_ascii_def)

lemma no_del_other [simp]: "c \<noteq> CHR 0x7F \<Longrightarrow> no_del c = c"
  by (simp add: no_del_def)

lemma byte_in_no_del: "0x80 \<le> lo \<Longrightarrow> byte_in (map no_del s) i lo hi = byte_in s i lo hi"
  by (cases "i < length s \<and> s ! i = CHR 0x7F") (auto simp: byte_in_def no_del_def)

lemma byte_in_no_del_ascii: "byte_in (map no_del s) 0 0 0x7F = byte_in s 0 0 0x7F"
  by (cases "s \<noteq> [] \<and> s ! 0 = CHR 0x7F") (auto simp: byte_in_def no_del_def)

lemma rune_len_no_del: "rune_len (map no_del s) = rune_len s"
proof -
  have "seq2 (map no_del s) = seq2 s" "seq3 (map no_del s) = seq3 s" "seq4 (map no_del s) = seq4 s"
    unfolding seq2_def seq3_def seq4_def by (simp_all add: byte_in_no_del cong: if_cong)
  then show ?thesis by (simp only: rune_len_def byte_in_no_del_ascii)
qed

lemma no_del_hex: "d < 16 \<Longrightarrow> no_del (hex_digit d) = hex_digit d"
  using hexdigit_hex_digit [of d] by (cases "hex_digit d = CHR 0x7F") (simp_all add: hexdigit_def digit09_def)

lemma quote_byte_no_del: "quote_byte (no_del c) = map no_del (quote_byte c)"
proof (cases "c = CHR 0x7F")
  case True
  then show ?thesis by (simp add: quote_byte_def no_del_def)
next
  case False
  then show ?thesis
    by (simp add: quote_byte_def no_del_hex less_mult_imp_div_less)
qed

lemma map_no_del_high: "\<forall>c \<in> set r. \<not> is_ascii c \<Longrightarrow> map no_del r = r"
  by (simp add: map_idI)

lemma quote_rune_no_del: "\<forall>c \<in> set r. \<not> is_ascii c \<Longrightarrow> map no_del (quote_rune r) = quote_rune r"
  by (auto simp: quote_rune_def map_no_del_high no_del_def)

lemma quote_no_del: "quote_from (map no_del s) = map no_del (quote_from s)"
proof (induction s rule: quote_from.induct)
  case (2 c s)
  consider "is_ascii c" | "\<not> is_ascii c" "rune_len (c # s) = 0" | "\<not> is_ascii c" "rune_len (c # s) \<noteq> 0" by blast
  then show ?case
  proof cases
    case 1
    with 2(1) show ?thesis by (simp add: quote_byte_no_del)
  next
    case 2
    with "2.IH"(2) rune_len_no_del [of "c # s"] show ?thesis by simp
  next
    case 3
    let ?n = "rune_len (c # s)"
    have n: "rune_len (c # map no_del s) = ?n" using rune_len_no_del [of "c # s"] 3 by simp
    have h: "\<forall>b \<in> set (take ?n (c # s)). \<not> is_ascii b" using rune_high [OF 3(2,1)] by blast
    have t: "take ?n (c # map no_del s) = take ?n (c # s)"
      using map_no_del_high [OF h] 3 by (simp add: take_map [symmetric] del: list.map) (metis list.simps(9) no_del_high take_map)
    have d: "drop ?n (c # map no_del s) = map no_del (drop ?n (c # s))"
      using 3 by (metis drop_map list.simps(9) no_del_high)
    from 3 n t d "2.IH"(3) [OF 3] quote_rune_no_del [OF h] show ?thesis by simp
  qed
qed simp

lemma html_escape_no_del: "html_escape (no_del c) = map no_del (html_escape c)"
proof (cases "c \<in> {CHR ''<'', CHR ''>'', CHR ''&''}")
  case True
  then have "no_del c = c" by (intro no_del_other) auto
  with True show ?thesis by (simp add: html_escape_def no_del_hex less_mult_imp_div_less)
next
  case False
  moreover from this have "no_del c \<notin> {CHR ''<'', CHR ''>'', CHR ''&''}" by (auto simp: no_del_def)
  ultimately show ?thesis by (simp add: html_escape_other)
qed

lemma html_no_del: "html_quote (map no_del s) = map no_del (html_quote s)"
  by (simp add: html_quote_def quote_no_del map_concat comp_def html_escape_no_del)

definition del_free :: "string \<times> int \<Rightarrow> string \<times> int" where
  "del_free e = (map no_del (fst e), snd e)"

lemma map_join_with: "map f (join_with sep xs) = join_with (map f sep) (map (map f) xs)"
  by (induction xs rule: induct_list012) simp_all

lemma literal_no_del: "map no_del (literal k) = literal (map no_del k)"
  by (simp add: literal_def html_no_del)

lemma entry_no_del: "map no_del (entry_text e) = entry_text (map no_del (fst e), map no_del (snd e))"
  by (simp add: entry_text_def literal_no_del)

lemma object_no_del: "map no_del (object_text es) = object_text (map (\<lambda>e. (map no_del (fst e), map no_del (snd e))) es)"
  by (simp add: object_text_def map_join_with comp_def entry_no_del)

lemma Itoa_no_del: "count_fits n \<Longrightarrow> map no_del (Itoa n) = Itoa n"
proof -
  have "c \<noteq> CHR 0x7F" if "c \<in> set (decimal m)" for c m
    using decimal_digits [OF that] by (auto simp: is_digit_def)
  then show "count_fits n \<Longrightarrow> ?thesis" by (simp add: count_fits_def map_idI)
qed

lemma countsText_no_del:
  assumes "count_fits t" "\<forall>e \<in> set ps. count_fits (snd e)"
  shows "map no_del (countsText t ps) = countsText t (map del_free ps)"
proof -
  have e: "(map no_del (fst (int_entry e)), map no_del (snd (int_entry e))) = int_entry (del_free e)" if "e \<in> set ps" for e
    using that assms(2) by (simp add: int_entry_def del_free_def Itoa_no_del)
  have "map no_del (object_text (map int_entry ps)) = object_text (map int_entry (map del_free ps))"
    unfolding object_no_del using e by (auto intro!: arg_cong [of _ _ object_text])
  then show ?thesis using Itoa_no_del [OF assms(1)] by (simp add: countsText_def object_no_del)
qed

subsubsection \<open>No other control bytes\<close>

definition printable :: "string \<Rightarrow> bool" where
  "printable s \<longleftrightarrow> (\<forall>c \<in> set s. control_byte c \<longrightarrow> c = CHR 0x7F)"

lemma printable_append [simp]: "printable (s @ t) \<longleftrightarrow> printable s \<and> printable t"
  by (auto simp: printable_def)

lemma printable_Cons [simp]: "printable (c # t) \<longleftrightarrow> (control_byte c \<longrightarrow> c = CHR 0x7F) \<and> printable t"
  by (auto simp: printable_def)

lemma printable_Nil [simp]: "printable []"
  by (simp add: printable_def)

lemma hexdigit_printable: "hexdigit c \<Longrightarrow> \<not> control_byte c"
  by (auto simp: hexdigit_def digit09_def control_byte_def less_eq_char_def)

lemma DEL_code: "(of_char c :: nat) = 0x7F \<longleftrightarrow> c = CHR 0x7F"
proof
  assume "(of_char c :: nat) = 0x7F"
  then have "(of_char c :: nat) = of_char (CHR 0x7F)" by simp
  then show "c = CHR 0x7F" using of_char_eq_iff by blast
qed simp

lemma control_byte_codes: "control_byte c \<longleftrightarrow> (of_char c :: nat) < 0x20 \<or> c = CHR 0x7F"
  by (simp add: control_byte_def DEL_code)

lemma printable_piece: "quoted_piece p \<Longrightarrow> printable p"
  unfolding quoted_piece_def
proof (elim disjE exE conjE, goal_cases)
  case (1 c)
  then show ?thesis using DEL_code [of c] by (simp add: control_byte_def)
next
  case (2 c)
  then show ?case by (auto simp: control_byte_def)
next
  case (3 a b c d)
  then show ?case using hexdigit_printable by (auto simp: control_byte_def)
qed

lemma printable_html: "printable (html_quote s)"
  using pieces_html_quote [of s] printable_piece by (fastforce simp: pieces_def printable_def)

lemma printable_join: "printable sep \<Longrightarrow> \<forall>x \<in> set xs. printable x \<Longrightarrow> printable (join_with sep xs)"
  by (induction xs rule: induct_list012) simp_all

lemma printable_object: "\<forall>e \<in> set es. printable (snd e) \<Longrightarrow> printable (object_text es)"
  by (auto simp: object_text_def entry_text_def literal_def printable_html control_byte_def intro!: printable_join) (metis snd_conv)

lemma printable_Itoa: "printable (Itoa n)"
  using Itoa_plain by (auto simp: printable_def)

lemma printable_countsText: "printable (countsText t ps)"
  unfolding countsText_def by (intro printable_object) (auto simp: printable_Itoa int_entry_def intro!: printable_object)

lemma Sanitize_printable:
  assumes "printable s"
  shows "Sanitize s = map no_del s"
proof -
  have c: "control_byte c \<longleftrightarrow> c = CHR 0x7F" if "c \<in> set s" for c
    using assms that unfolding printable_def by (metis control_byte_codes)
  then have "map (\<lambda>c. if control_byte c then CHR '' '' else c) s = map no_del s"
    by (intro map_cong) (simp_all add: no_del_def)
  moreover have "map no_del s = s" if "ValidDetail s"
    using that c by (intro map_idI no_del_other) (auto simp: ValidDetail_def)
  ultimately show ?thesis by (simp add: Sanitize_def)
qed

subsection \<open>From the fixture to the harness\<close>

lemma countsText_shape: "\<exists>zs. countsText t ps = CHR ''{'' # zs @ ''}''"
  by (simp add: countsText_def object_text_def)

lemma printable_no_eol: "printable s \<Longrightarrow> c \<in> set s \<Longrightarrow> c \<noteq> CHR 0x0A \<and> c \<noteq> CHR 0x0D"
  by (auto simp: printable_def control_byte_def)

lemma printable_take: "printable s \<Longrightarrow> printable (take n s)"
  by (auto simp: printable_def dest: in_set_takeD)

lemma first_line:
  assumes "printable s"
  shows "trimEOL (fst (Cut (take n (s @ newline)) newline)) = take n s"
proof -
  have p: "printable (take n s)" using assms by (rule printable_take)
  then have nl: "CHR 0x0A \<notin> set (take n s)" using printable_no_eol by blast
  have "fst (Cut (take n (s @ newline)) newline) = take n s"
  proof (cases "n \<le> length s")
    case True
    with nl show ?thesis by (simp add: newline_def Cut_none_char)
  next
    case False
    then have "take n (s @ newline) = s @ newline" "take n s = s" by (simp_all add: newline_def)
    with nl show ?thesis by (simp add: newline_def Cut_first_char)
  qed
  moreover have "trimEOL (take n s) = take n s"
    using p printable_no_eol [of "take n s" "last (take n s)"] by (intro trimEOL_id) (metis last_in_set)
  ultimately show ?thesis by simp
qed

definition got_line :: "int \<Rightarrow> (string \<times> int) list \<Rightarrow> line" where
  "got_line t ps = OK ''http-get'' (''200 '' @ take 4096 (countsText t ps))"

lemma http_get_stdout:
  assumes "url_Parse (countsURL port) = Some (''http'', host, url)" "host \<noteq> []"
    and "os_Get os [] url = Inr (200, countsText t ps @ newline)"
    and "run_state (cmdHTTPGet url_Parse os [countsURL port]) [] = (r, h)"
  shows "stdout h = Format [got_line t ps]"
proof -
  have "parseFlags [] [countsURL port] 1 1 = Inr ([], [countsURL port])"
    by (simp add: parseFlags_def flag_parse_plain plain_arg_def countsURL_def)
  moreover have "Itoa 200 = ''200''" by code_simp
  ultimately have "h = [HTTPGot url, Printed (got_line t ps)]"
    using assms first_line [OF printable_countsText, of 4096 t ps]
    by (auto simp: cmdHTTPGet_def ask_def report_ok_def report_line_def got_line_def)
  then show ?thesis by (simp add: stdout_def got_line_def OK_def Format_def)
qed

lemma counts_of_got_line:
  assumes "count_fits t" "\<forall>e \<in> set ps. count_fits (snd e)"
  shows "counts_of_output (Format [got_line t ps]) = unmarshalCounts (take 4096 (countsText t (map del_free ps)))"
proof -
  have "printable (''200 '' @ take 4096 (countsText t ps))"
    using printable_take [OF printable_countsText] by (simp add: control_byte_def)
  from Sanitize_printable [OF this] have d: "line_Detail (got_line t ps) = ''200 '' @ take 4096 (countsText t (map del_free ps))"
    using countsText_no_del [OF assms] by (simp add: got_line_def OK_def take_map [symmetric])
  have "ValidName ''http-get''" by code_simp
  then have "wf_line (got_line t ps)" unfolding got_line_def by (rule wf_OK)
  then have "Parse (Format [got_line t ps]) = [got_line t ps]" by (intro Parse_formatted) simp
  moreover have "Find [got_line t ps] ''http-get'' = Some (got_line t ps)"
    by (simp add: got_line_def OK_def line_Malformed_def)
  moreover have "line_OK (got_line t ps)" by (simp add: got_line_def OK_def)
  moreover have "CutPrefix (line_Detail (got_line t ps)) ''200 '' = (take 4096 (countsText t (map del_free ps)), True)"
    unfolding d by (rule CutPrefix_append)
  ultimately show ?thesis by (simp only: counts_of_output_def option.case prod.case not_True_eq_False simp_thms if_False)
qed

lemma unmarshal_cut:
  assumes "count_fits t" "\<forall>e \<in> set ps. count_fits (snd e)" "n < length (countsText t ps)"
  shows "unmarshalCounts (take n (countsText t ps)) = None"
proof -
  obtain zs where z: "countsText t ps = CHR ''{'' # zs @ ''}''" using countsText_shape by blast
  have "checkValid (countsText t ps)"
    unfolding countsText_def by (rule object_valid(1) [OF counts_values [OF assms(1,2)]])
  moreover have "CHR ''}'' \<in> set (drop n (countsText t ps))"
    using assms(3) z by (metis append_Cons last_drop last_in_set drop_eq_Nil last_snoc linorder_not_le)
  moreover have "\<not> isSpace (CHR ''}'')" by (simp add: isSpace_def)
  ultimately have "\<not> checkValid (take n (countsText t ps))"
    using z by (intro cut_object_invalid [of _ "drop n (countsText t ps)" "zs @ ''}''"]) (auto simp: append_Cons)
  then show ?thesis by (simp add: unmarshalCounts_def)
qed

lemma counts_read:
  assumes "count_fits t" "\<forall>e \<in> set ps. count_fits (snd e)"
  shows "counts_of_output (Format [got_line t ps]) =
    (if length (countsText t ps) \<le> 4096
     then Some \<lparr>rc_Total = t, rc_Paths = foldl put_key Map.empty (map del_free ps)\<rparr> else None)"
proof -
  have d: "\<forall>e \<in> set (map del_free ps). count_fits (snd e)" using assms(2) by (simp add: del_free_def)
  have len: "length (countsText t (map del_free ps)) = length (countsText t ps)"
    using countsText_no_del [OF assms] by (metis length_map)
  show ?thesis
    using counts_of_got_line [OF assms] unmarshal_countsText [OF assms(1) d] unmarshal_cut [OF assms(1) d, of 4096] len
    by simp
qed

text \<open>Paths that reach the harness as they are: well-formed UTF-8 without DEL.\<close>

definition plain_path :: "string \<Rightarrow> bool" where
  "plain_path p \<longleftrightarrow> ValidString p \<and> CHR 0x7F \<notin> set p"

lemma plain_paths_read:
  assumes "distinct (map fst ps)" "list_all plain_path (map fst ps)"
  shows "foldl put_key Map.empty (map del_free ps) = map_of ps"
proof -
  have d: "del_free e = e" "read_key (fst e) = fst e" if "e \<in> set ps" for e
  proof -
    have p: "plain_path (fst e)" using assms(2) that by (auto simp: list_all_iff)
    then have "map no_del (fst e) = fst e" by (intro map_idI no_del_other) (auto simp: plain_path_def)
    then show "del_free e = e" by (simp add: del_free_def)
    from p show "read_key (fst e) = fst e" by (simp add: read_key_def unquote_literal plain_path_def)
  qed
  then have "map del_free ps = ps" by (intro map_idI)
  with read_paths [OF assms(1), of Map.empty] d show ?thesis by simp
qed

lemma served_countable:
  assumes "serve_counts name rs new_counter = (as, c)" "other_requests rs < 2 ^ 63" "map_of ps = ct_paths c" "distinct (map fst ps)"
  shows "count_fits (ct_total c)" "\<forall>e \<in> set ps. count_fits (snd e)"
proof -
  have t: "ct_total c = int (other_requests rs)" and p: "path_count c p = int (hits p rs)" for p
    using serve_counts_adds [OF assms(1), of p] by (simp_all add: new_counter_def path_count_def)
  show "count_fits (ct_total c)" using t assms(2) by (simp add: count_fits_def)
  show "\<forall>e \<in> set ps. count_fits (snd e)"
  proof
    fix e
    assume "e \<in> set ps"
    then have "map_of ps (fst e) = Some (snd e)" using assms(4) by simp
    then have "snd e = int (hits (fst e) rs)" using p [of "fst e"] assms(3) by (simp add: path_count_def)
    moreover have "hits (fst e) rs \<le> other_requests rs"
      unfolding hits_def other_requests_def by (induction rs) (auto elim: count_path.elims)
    ultimately show "count_fits (snd e)" using assms(2) by (simp add: count_fits_def)
  qed
qed

text \<open>
  C39. The check that a blocked fixture was not touched is exact from end to end. Let the fixture have
  served any requests, let its answer to the read of its counts be the JSON of its counters, and
  let \<^verbatim>\<open>http-get\<close>, run inside the fixture, have printed it: then the harness reads back the number
  of requests that were not reads of the counts, and reports a violation exactly when there was
  one. An answer longer than the 4096 bytes \<^verbatim>\<open>http-get\<close> reads is an error, never a wrong count.
\<close>

theorem blocked_fixture_check_exact:
  assumes "serve_counts name rs new_counter = (as, c)" "other_requests rs < 2 ^ 63"
    and "map_of ps = ct_paths c" "distinct (map fst ps)"
    and "url_Parse (countsURL port) = Some (''http'', host, url)" "host \<noteq> []"
    and "os_Get os [] url = Inr (200, countsText (ct_total c) ps @ newline)"
    and "run_state (cmdHTTPGet url_Parse os [countsURL port]) [] = (r, out)"
    and "fst (run_state (Exec fuel cl blocked [FixtureBinary, ''http-get'', countsURL port]) h) = Some (res, None)"
    and "res_Stdout res = stdout out"
  shows "fst (run_state (CheckBlockedFixtureUntouched fuel cl blocked port) h) = Some
    (if length (countsText (ct_total c) ps) \<le> 4096
     then Inr (if set rs \<subseteq> {CountsRequest} then [] else [BlockedFixtureTouched (int (other_requests rs))])
     else Inl (UnreadableCounts (c_Name blocked) (res_ExitCode res) (res_Stdout res)))"
proof -
  note cnt = served_countable [OF assms(1-4)]
  have out: "counts_of_output (res_Stdout res) = (if length (countsText (ct_total c) ps) \<le> 4096
     then Some \<lparr>rc_Total = ct_total c, rc_Paths = foldl put_key Map.empty (map del_free ps)\<rparr> else None)"
    using http_get_stdout [OF assms(5-8)] assms(10) counts_read [OF cnt] by simp
  have t: "ct_total c = int (other_requests rs)"
    using serve_counts_adds [OF assms(1)] by (simp add: new_counter_def)
  have z: "other_requests rs = 0 \<longleftrightarrow> set rs \<subseteq> {CountsRequest}"
    by (auto simp: other_requests_def filter_empty_conv)
  show ?thesis
    using assms(9) out z
    by (auto simp: CheckBlockedFixtureUntouched_def fixtureCounts_def blockedFixtureUntouched_def t split: prod.splits)
qed

text \<open>
  The counts per path come back too, when the paths are well-formed UTF-8 without DEL and the answer fits.
\<close>

theorem fixture_counts_read_back:
  assumes "serve_counts name rs new_counter = (as, c)" "other_requests rs < 2 ^ 63"
    and "map_of ps = ct_paths c" "distinct (map fst ps)"
    and "list_all plain_path (map fst ps)" "length (countsText (ct_total c) ps) \<le> 4096"
  shows "counts_of_output (Format [got_line (ct_total c) ps]) = Some \<lparr>rc_Total = ct_total c, rc_Paths = ct_paths c\<rparr>"
  using counts_read [OF served_countable [OF assms(1-4)]] plain_paths_read [OF assms(4,5)] assms(3,6) by simp

subsection \<open>A fixture that was touched once\<close>

definition touched :: "count_answer list \<times> counter" where
  "touched = serve_counts ''f'' [CountsRequest, OtherRequest ''/a''] new_counter"

definition touched_os :: os where
  "touched_os = calm_os\<lparr>os_Get := (\<lambda>h u. Inr (200, countsText 1 [(''/a'', 1)] @ newline))\<rparr>"

definition parse_http :: "string \<Rightarrow> (string \<times> string \<times> string) option" where
  "parse_http u = Some (''http'', ''127.0.0.1:80'', u)"

definition touched_get :: "probe_err option \<times> calls" where
  "touched_get = run_state (cmdHTTPGet parse_http touched_os [countsURL 80]) []"

definition touched_client :: client where
  "touched_client = demo_client\<lparr>cl_exec_read := (\<lambda>h eid. (stdout (snd touched_get), [], None))\<rparr>"

definition touched_exec :: "(Result \<times> docker_err option) option" where
  "touched_exec = fst (run_state (Exec 5 touched_client demo_worker [FixtureBinary, ''http-get'', countsURL 80]) [])"

lemma touched_exec_result: "\<exists>res. touched_exec = Some (res, None) \<and> res_Stdout res = stdout (snd touched_get)"
proof -
  have "map_option snd touched_exec = Some None" by code_simp
  then obtain res where r: "touched_exec = Some (res, None)" by auto
  moreover have "(case touched_exec of Some (res, _) \<Rightarrow> res_Stdout res | None \<Rightarrow> []) = stdout (snd touched_get)" by code_simp
  then have "res_Stdout res = stdout (snd touched_get)" unfolding r by simp
  ultimately show ?thesis by blast
qed

theorem blocked_fixture_check_exact_witness:
  "fst (run_state (CheckBlockedFixtureUntouched 5 touched_client demo_worker 80) []) = Some (Inr [BlockedFixtureTouched 1])"
proof -
  obtain res where res: "touched_exec = Some (res, None)" "res_Stdout res = stdout (snd touched_get)"
    using touched_exec_result by blast
  have c: "ct_total (snd touched) = 1" "ct_paths (snd touched) = [''/a'' \<mapsto> 1]" "other_requests [CountsRequest, OtherRequest ''/a''] = 1"
    by (simp_all add: touched_def count_handler_def hit_def new_counter_def other_requests_def)
  have len: "length (countsText 1 [(''/a'', 1)]) \<le> 4096" by code_simp
  have "fst (run_state (CheckBlockedFixtureUntouched 5 touched_client demo_worker 80) []) = Some
    (if length (countsText (ct_total (snd touched)) [(''/a'', 1)]) \<le> 4096
     then Inr (if set [CountsRequest, OtherRequest ''/a''] \<subseteq> {CountsRequest} then []
       else [BlockedFixtureTouched (int (other_requests [CountsRequest, OtherRequest ''/a'']))])
     else Inl (UnreadableCounts (c_Name demo_worker) (res_ExitCode res) (res_Stdout res)))"
  proof (rule blocked_fixture_check_exact)
    show "serve_counts ''f'' [CountsRequest, OtherRequest ''/a''] new_counter = (fst touched, snd touched)" by (simp add: touched_def)
    show "parse_http (countsURL 80) = Some (''http'', ''127.0.0.1:80'', countsURL 80)" by (simp add: parse_http_def)
    show "run_state (cmdHTTPGet parse_http touched_os [countsURL 80]) [] = (fst touched_get, snd touched_get)" by (simp add: touched_get_def)
    show "fst (run_state (Exec 5 touched_client demo_worker [FixtureBinary, ''http-get'', countsURL 80]) []) = Some (res, None)"
      using res(1) by (simp add: touched_exec_def)
  qed (use res c in \<open>simp_all add: touched_os_def\<close>)
  with c len show ?thesis by simp
qed

end
