(* ===== verification/Measurements.thy ===== *)
theory Measurements
  imports Perf
begin

section \<open>The measurements file\<close>

text \<open>
  \<^verbatim>\<open>internal/lab/measurements.go\<close>: the CSV file a lesson writes. The \<^verbatim>\<open>csv.Writer\<close> and the buffer inside it
  are modelled byte by byte; a field is assumed to be no longer than the buffer (a longer one would
  reach the file in other chunks, with the same bytes). \<open>csv_rows\<close> is a reader of CSV, which the lesson's queries have
  from their database; it is the specification the file is checked against.
\<close>

subsection \<open>CSV records\<close>

text \<open>\<^verbatim>\<open>unicode.IsSpace\<close> of the first rune, by its UTF-8 bytes.\<close>

definition starts_with_space :: "string \<Rightarrow> bool" where
  "starts_with_space s \<longleftrightarrow> list_ex (HasPrefix s)
     ([[CHR 0x09], [CHR 0x0A], [CHR 0x0B], [CHR 0x0C], [CHR 0x0D], '' '', [CHR 0xC2, CHR 0x85], [CHR 0xC2, CHR 0xA0],
       [CHR 0xE1, CHR 0x9A, CHR 0x80]]
      @ map (\<lambda>b. [CHR 0xE2, CHR 0x80, char_of (b :: nat)]) [0x80..<0x8B]
      @ [[CHR 0xE2, CHR 0x80, CHR 0xA8], [CHR 0xE2, CHR 0x80, CHR 0xA9], [CHR 0xE2, CHR 0x80, CHR 0xAF],
         [CHR 0xE2, CHR 0x81, CHR 0x9F], [CHR 0xE3, CHR 0x80, CHR 0x80]])"

definition csv_special :: "char \<Rightarrow> bool" where
  "csv_special c \<longleftrightarrow> c \<in> {CHR 0x0A, CHR 0x0D, CHR 0x22, CHR '',''}"

definition fieldNeedsQuotes :: "string \<Rightarrow> bool" where
  "fieldNeedsQuotes field =
     (if field = [] then False
      else if field = [CHR 0x5C, CHR ''.''] then True
      else list_ex csv_special field \<or> starts_with_space field)"

definition csv_escape :: "char \<Rightarrow> string" where
  "csv_escape c = (if c = CHR 0x22 then [c, c] else [c])"

definition csv_field :: "string \<Rightarrow> string" where
  "csv_field field = (if \<not> fieldNeedsQuotes field then field else CHR 0x22 # concat (map csv_escape field) @ [CHR 0x22])"

definition csv_record :: "string list \<Rightarrow> string" where
  "csv_record row = join_with '','' (map csv_field row) @ [CHR 0x0A]"

subsection \<open>The file\<close>

text \<open>
  A row goes to the buffer of 4096 bytes of the \<^verbatim>\<open>bufio.Writer\<close> inside the \<^verbatim>\<open>csv.Writer\<close>, which is
  written to the file when it is full and more comes. \<open>wr\<close> is the file: given what was
  written before and a chunk, how many bytes it took and the error. An error sticks.
\<close>

record Measurements =
  ms_file :: string
  ms_buf :: string
  ms_err :: "string option"

definition bufSize :: nat where
  "bufSize = 4096"

type_synonym file_writer = "string \<Rightarrow> string \<Rightarrow> nat \<times> string option"

definition Flush :: "file_writer \<Rightarrow> Measurements \<Rightarrow> Measurements" where
  "Flush wr m =
     (if ms_err m \<noteq> None \<or> ms_buf m = [] then m
      else case wr (ms_file m) (ms_buf m) of (n, err) \<Rightarrow>
        m\<lparr>ms_file := ms_file m @ take n (ms_buf m), ms_buf := drop n (ms_buf m), ms_err := err\<rparr>)"

definition put_byte :: "file_writer \<Rightarrow> char \<Rightarrow> Measurements \<Rightarrow> Measurements" where
  "put_byte wr c m =
     (let m = (if bufSize \<le> length (ms_buf m) then Flush wr m else m)
      in if ms_err m \<noteq> None then m else m\<lparr>ms_buf := ms_buf m @ [c]\<rparr>)"

definition Write_row :: "file_writer \<Rightarrow> string list \<Rightarrow> Measurements \<Rightarrow> (panic, unit) result \<times> Measurements" where
  "Write_row wr row m = (let m = fold (put_byte wr) (csv_record row) m in (Check (ms_err m), m))"

definition NewMeasurements :: "file_writer \<Rightarrow> string option \<Rightarrow> string list \<Rightarrow> (panic, unit) result \<times> Measurements" where
  "NewMeasurements wr createErr columns =
     (let m = \<lparr>ms_file = [], ms_buf = [], ms_err = None\<rparr>
      in case createErr of Some e \<Rightarrow> (Inl (PanicError e), m) | None \<Rightarrow> Write_row wr columns m)"

definition Close :: "file_writer \<Rightarrow> string option \<Rightarrow> Measurements \<Rightarrow> (panic, unit) result \<times> Measurements" where
  "Close wr closeErr m = (let m = Flush wr m in case Check (ms_err m) of Inl p \<Rightarrow> (Inl p, m) | Inr _ \<Rightarrow> (Check closeErr, m))"

text \<open>The rows of a lesson: the first panic ends it.\<close>

fun write_rows :: "file_writer \<Rightarrow> string list list \<Rightarrow> Measurements \<Rightarrow> (panic, unit) result \<times> Measurements" where
  "write_rows wr [] m = (Inr (), m)"
| "write_rows wr (r # rs) m = (case Write_row wr r m of (Inl p, m) \<Rightarrow> (Inl p, m) | (Inr _, m) \<Rightarrow> write_rows wr rs m)"

definition measure_all :: "file_writer \<Rightarrow> string option \<Rightarrow> string option \<Rightarrow> string list \<Rightarrow> string list list \<Rightarrow> (panic, unit) result \<times> Measurements" where
  "measure_all wr createErr closeErr columns rows = (case NewMeasurements wr createErr columns of
       (Inl p, m) \<Rightarrow> (Inl p, m)
     | (Inr _, m) \<Rightarrow> (case write_rows wr rows m of
         (Inl p, m) \<Rightarrow> (Inl p, m)
       | (Inr _, m) \<Rightarrow> Close wr closeErr m))"

subsection \<open>Reading the rows back\<close>

datatype csv_state = FieldStart | PlainField | QuotedField | QuoteSeen

definition end_field :: "string \<Rightarrow> string list \<Rightarrow> string list" where
  "end_field cur acc = rev cur # acc"

fun csv_parse :: "csv_state \<Rightarrow> string \<Rightarrow> string list \<Rightarrow> string \<Rightarrow> string list list" where
  "csv_parse st cur acc [] = (if st = FieldStart \<and> acc = [] then [] else [rev (end_field cur acc)])"
| "csv_parse QuotedField cur acc (c # cs) =
     (if c = CHR 0x22 then csv_parse QuoteSeen cur acc cs else csv_parse QuotedField (c # cur) acc cs)"
| "csv_parse st cur acc (c # cs) =
     (if c = CHR '','' then csv_parse FieldStart [] (end_field cur acc) cs
      else if c = CHR 0x0A then rev (end_field cur acc) # csv_parse FieldStart [] [] cs
      else if c = CHR 0x22 \<and> st = FieldStart then csv_parse QuotedField cur acc cs
      else if c = CHR 0x22 \<and> st = QuoteSeen then csv_parse QuotedField (c # cur) acc cs
      else csv_parse PlainField (c # cur) acc cs)"

definition csv_rows :: "string \<Rightarrow> string list list" where
  "csv_rows s = csv_parse FieldStart [] [] s"

definition csv_text :: "string list list \<Rightarrow> string" where
  "csv_text rows = concat (map csv_record rows)"

definition next_field :: "char \<Rightarrow> string list \<Rightarrow> string \<Rightarrow> string list list" where
  "next_field d acc rest =
     (if d = CHR '','' then csv_parse FieldStart [] acc rest else rev acc # csv_parse FieldStart [] [] rest)"

lemma parse_plain:
  "\<not> list_ex csv_special f \<Longrightarrow> d \<in> {CHR '','', CHR 0x0A} \<Longrightarrow>
   csv_parse PlainField cur acc (f @ d # rest) = next_field d ((rev cur @ f) # acc) rest"
  by (induction f arbitrary: cur) (auto simp: csv_special_def next_field_def end_field_def)

lemma parse_quoted:
  "d \<in> {CHR '','', CHR 0x0A} \<Longrightarrow>
   csv_parse QuotedField cur acc (concat (map csv_escape f) @ CHR 0x22 # d # rest) = next_field d ((rev cur @ f) # acc) rest"
  by (induction f arbitrary: cur) (auto simp: csv_escape_def next_field_def end_field_def)

lemma parse_field:
  assumes "d \<in> {CHR '','', CHR 0x0A}"
  shows "csv_parse FieldStart [] acc (csv_field f @ d # rest) = next_field d (f # acc) rest"
proof (cases "fieldNeedsQuotes f")
  case True
  then show ?thesis using parse_quoted [OF assms, of "[]" acc f rest] by (simp add: csv_field_def)
next
  case False
  show ?thesis
  proof (cases f)
    case Nil
    with False assms show ?thesis by (auto simp: csv_field_def next_field_def end_field_def)
  next
    case (Cons c f')
    with False have "\<not> list_ex csv_special f" by (auto simp: fieldNeedsQuotes_def split: if_splits)
    with Cons False parse_plain [of f' d "[c]" acc rest] assms show ?thesis
      by (auto simp: csv_field_def csv_special_def)
  qed
qed

lemma parse_record:
  "fs \<noteq> [] \<Longrightarrow> csv_parse FieldStart [] acc (csv_record fs @ rest) = (rev acc @ fs) # csv_parse FieldStart [] [] rest"
proof (induction fs arbitrary: acc)
  case (Cons f fs)
  show ?case
  proof (cases "fs = []")
    case True
    then show ?thesis using parse_field [of "CHR 0x0A" acc f rest] by (simp add: csv_record_def next_field_def)
  next
    case False
    then have "csv_record (f # fs) @ rest = csv_field f @ CHR '','' # csv_record fs @ rest"
      by (simp add: csv_record_def join_with_Cons)
    with False Cons.IH [of "f # acc"] parse_field [of "CHR '',''" acc f "csv_record fs @ rest"] show ?thesis
      by (simp add: next_field_def)
  qed
qed simp

lemma csv_rows_text: "\<forall>r \<in> set rows. r \<noteq> [] \<Longrightarrow> csv_rows (csv_text rows) = rows"
  unfolding csv_rows_def by (induction rows) (simp_all add: csv_text_def parse_record)

lemma parse_text_rest: "\<forall>r \<in> set rows. r \<noteq> [] \<Longrightarrow> csv_rows (csv_text rows @ rest) = rows @ csv_rows rest"
  unfolding csv_rows_def by (induction rows) (simp_all add: csv_text_def parse_record)

subsection \<open>What is in the file\<close>

text \<open>A write takes at most the chunk, and all of it when it reports no error.\<close>

definition file_laws :: "file_writer \<Rightarrow> bool" where
  "file_laws wr \<longleftrightarrow> (\<forall>f c. fst (wr f c) \<le> length c \<and> (snd (wr f c) = None \<longrightarrow> fst (wr f c) = length c))"

text \<open>\<open>follows m s\<close>: the bytes \<open>s\<close> were given to the writer.\<close>

definition follows :: "Measurements \<Rightarrow> string \<Rightarrow> bool" where
  "follows m s \<longleftrightarrow> prefix (ms_file m) s \<and> (ms_err m = None \<longrightarrow> ms_file m @ ms_buf m = s)"

lemma follows_Flush:
  assumes "file_laws wr" "follows m s"
  shows "follows (Flush wr m) s" "ms_err (Flush wr m) = None \<Longrightarrow> ms_buf (Flush wr m) = []"
proof -
  obtain n err where wr: "wr (ms_file m) (ms_buf m) = (n, err)" by fastforce
  have "n = length (ms_buf m)" if "err = None"
    using assms(1) that unfolding file_laws_def by (metis fst_conv snd_conv wr)
  moreover have "prefix (ms_file m @ take n (ms_buf m)) s" if "ms_err m = None"
    using assms(2) that by (metis follows_def same_prefix_prefix take_is_prefix)
  ultimately show "follows (Flush wr m) s" "ms_err (Flush wr m) = None \<Longrightarrow> ms_buf (Flush wr m) = []"
    using assms(2) by (auto simp: Flush_def follows_def wr)
qed

lemma follows_put_byte: "file_laws wr \<Longrightarrow> follows m s \<Longrightarrow> follows (put_byte wr c m) (s @ [c])"
  using follows_Flush [of wr m s] by (auto simp: put_byte_def Let_def follows_def)

lemma follows_fold: "file_laws wr \<Longrightarrow> follows m s \<Longrightarrow> follows (fold (put_byte wr) t m) (s @ t)"
proof (induction t arbitrary: m s)
  case (Cons c t)
  from Cons.IH [OF Cons.prems(1) follows_put_byte [OF Cons.prems], of c] show ?case by simp
qed simp

lemma follows_Write: "file_laws wr \<Longrightarrow> follows m s \<Longrightarrow> follows (snd (Write_row wr row m)) (s @ csv_record row)"
  by (simp add: Write_row_def Let_def follows_fold)

lemma Write_row_ok: "Write_row wr row m = (Inr u, m') \<Longrightarrow> ms_err m' = None"
  by (auto simp: Write_row_def Let_def Check_def split: option.splits)

lemma follows_prefix: "follows m s \<Longrightarrow> prefix (ms_file m) (s @ t)"
  by (auto simp: follows_def)

lemma write_rows_follows:
  assumes "file_laws wr" "follows m s" "write_rows wr rows m = (r, m')"
  shows "prefix (ms_file m') (s @ csv_text rows) \<and> (r = Inr () \<longrightarrow> follows m' (s @ csv_text rows))"
  using assms
proof (induction rows arbitrary: m s)
  case (Cons row rows)
  obtain x m1 where w: "Write_row wr row m = (x, m1)" by fastforce
  with follows_Write [OF Cons.prems(1,2), of row] have m1: "follows m1 (s @ csv_record row)" by simp
  show ?case
  proof (cases x)
    case (Inl p)
    with Cons.prems(3) w follows_prefix [OF m1, of "csv_text rows"] show ?thesis by (auto simp: csv_text_def)
  next
    case (Inr u)
    with Cons.prems(3) w Cons.IH [OF Cons.prems(1) m1] show ?thesis by (simp add: csv_text_def)
  qed
qed (simp add: csv_text_def follows_def)

definition no_errors :: "file_writer \<Rightarrow> bool" where
  "no_errors wr \<longleftrightarrow> (\<forall>f c. snd (wr f c) = None)"

lemma no_errors_Flush: "no_errors wr \<Longrightarrow> ms_err m = None \<Longrightarrow> ms_err (Flush wr m) = None"
  by (auto simp: Flush_def no_errors_def case_prod_unfold)

lemma no_errors_put: "no_errors wr \<Longrightarrow> ms_err m = None \<Longrightarrow> ms_err (fold (put_byte wr) t m) = None"
proof (induction t arbitrary: m)
  case (Cons c t)
  have "ms_err (put_byte wr c m) = None"
    using Cons.prems no_errors_Flush [of wr m] by (auto simp: put_byte_def Let_def)
  with Cons show ?case by simp
qed simp

lemma no_errors_rows: "no_errors wr \<Longrightarrow> ms_err m = None \<Longrightarrow> \<exists>m'. write_rows wr rows m = (Inr (), m') \<and> ms_err m' = None"
proof (induction rows arbitrary: m)
  case (Cons row rows)
  from no_errors_put [OF Cons.prems, of "csv_record row"] Cons.IH [OF Cons.prems(1)] show ?case
    by (auto simp: Write_row_def Let_def Check_def)
qed simp

text \<open>
  C31. The measurements survive: whatever fails, the file of a lesson holds a beginning of its CSV text;
  when \<^verbatim>\<open>Close\<close> has returned, reading the file gives back the columns and every row, with all
  their fields, quotes, commas and line ends included; and when the file takes every write, it
  does return.
\<close>

theorem measurements_read_back:
  assumes "file_laws wr" "measure_all wr createErr closeErr columns rows = (r, m)"
    and "list_all (\<lambda>row. row \<noteq> []) (columns # rows)"
  shows "prefix (ms_file m) (csv_text (columns # rows))
    \<and> (r = Inr () \<longrightarrow> csv_rows (ms_file m) = columns # rows)
    \<and> (no_errors wr \<and> createErr = None \<and> closeErr = None \<longrightarrow> r = Inr ())"
proof (cases createErr)
  case (Some e)
  with assms(2) show ?thesis by (auto simp: measure_all_def NewMeasurements_def)
next
  case None
  let ?e = "\<lparr>ms_file = [], ms_buf = [], ms_err = None\<rparr>"
  have e: "follows ?e []" "ms_err ?e = None" by (simp_all add: follows_def)
  obtain x m1 where x: "write_rows wr (columns # rows) ?e = (x, m1)" by fastforce
  then have all: "(r, m) = (case x of Inl p \<Rightarrow> (Inl p, m1) | Inr _ \<Rightarrow> Close wr closeErr m1)"
    using assms(2) None by (auto simp: measure_all_def NewMeasurements_def split: prod.splits sum.splits)
  note w = write_rows_follows [OF assms(1) e(1) x, unfolded append_Nil]
  have "r = Inr ()" if "no_errors wr" "closeErr = None"
    using no_errors_rows [OF that(1) e(2), of "columns # rows"] x all that no_errors_Flush [OF that(1), of m1]
    by (auto simp: Close_def Let_def Check_def simp del: write_rows.simps)
  moreover have "prefix (ms_file m) (csv_text (columns # rows))"
    using w follows_Flush(1) [OF assms(1)] all
    by (cases x) (auto simp: Close_def Let_def Check_def follows_def split: option.splits)
  moreover have "csv_rows (ms_file m) = columns # rows" if "r = Inr ()"
  proof -
    from that all have x': "x = Inr ()" and m: "m = Flush wr m1" "ms_err m = None"
      by (auto simp: Close_def Let_def Check_def split: sum.splits option.splits)
    with w have "follows m1 (csv_text (columns # rows))" by simp
    with m follows_Flush [OF assms(1) this] have "ms_file m = csv_text (columns # rows)" by (simp add: follows_def)
    with assms(3) show ?thesis by (simp add: csv_rows_text list_all_iff)
  qed
  ultimately show ?thesis by blast
qed

definition working_file :: file_writer where
  "working_file f c = (length c, None)"

lemma working_file_laws: "file_laws working_file" "no_errors working_file"
  by (simp_all add: file_laws_def no_errors_def working_file_def)

theorem measurements_read_back_witness:
  "csv_rows (ms_file (snd (measure_all working_file None None [''a'', ''b''] [[''1,5'', CHR 0x22 # ''x''], ['' '', []]])))
     = [[''a'', ''b''], [''1,5'', CHR 0x22 # ''x''], ['' '', []]]"
proof -
  let ?rows = "[[''1,5'', CHR 0x22 # ''x''], ['' '', []]]"
  let ?x = "measure_all working_file None None [''a'', ''b''] ?rows"
  have "?x = (fst ?x, snd ?x)" by simp
  from measurements_read_back [OF working_file_laws(1) this] working_file_laws(2) show ?thesis by simp
qed

subsection \<open>A lesson that panics\<close>

text \<open>Rows stay in the buffer until it is full: the file holds whole chunks of the text.\<close>

definition chunked :: "Measurements \<Rightarrow> string \<Rightarrow> bool" where
  "chunked m s \<longleftrightarrow> ms_err m = None \<and> ms_file m @ ms_buf m = s \<and> bufSize dvd length (ms_file m)
    \<and> length (ms_buf m) \<le> bufSize \<and> (s \<noteq> [] \<longrightarrow> ms_buf m \<noteq> [])"

lemma chunked_put_byte: "chunked m s \<Longrightarrow> chunked (put_byte working_file c m) (s @ [c])"
  by (auto simp: chunked_def put_byte_def Let_def Flush_def working_file_def bufSize_def)

lemma working_chunks: "chunked m s \<Longrightarrow> chunked (fold (put_byte working_file) t m) (s @ t)"
proof (induction t arbitrary: m s)
  case (Cons c t)
  from Cons.IH [OF chunked_put_byte [OF Cons.prems], of c] show ?case by simp
qed simp

lemma working_file_cut:
  assumes "m = fold (put_byte working_file) s \<lparr>ms_file = [], ms_buf = [], ms_err = None\<rparr>"
  shows "ms_file m = take (bufSize * ((length s - 1) div bufSize)) s"
proof (cases "s = []")
  case False
  have "chunked \<lparr>ms_file = [], ms_buf = [], ms_err = None\<rparr> []" by (simp add: chunked_def)
  from working_chunks [OF this, of s] have c: "ms_err m = None \<and> ms_file m @ ms_buf m = s \<and> bufSize dvd length (ms_file m)
    \<and> length (ms_buf m) \<le> bufSize \<and> (s \<noteq> [] \<longrightarrow> ms_buf m \<noteq> [])" unfolding assms chunked_def by simp
  from c obtain q where q: "length (ms_file m) = bufSize * q" by (auto elim: dvdE)
  from c have len: "length s = bufSize * q + length (ms_buf m)" by (metis length_append q)
  moreover have "0 < length (ms_buf m)" "length (ms_buf m) \<le> bufSize" using c False by simp_all
  ultimately have "bufSize * q \<le> length s - 1" "length s - 1 < bufSize * Suc q" unfolding bufSize_def mult_Suc_right by linarith+
  then have "(length s - 1) div bufSize = q" by (intro div_nat_eqI) (simp_all add: mult.commute)
  with q c show ?thesis by (metis append_eq_conv_conj)
qed (use assms in simp)

lemma write_rows_fold:
  "ms_err m = None \<Longrightarrow> snd (write_rows working_file rows m) = fold (put_byte working_file) (csv_text rows) m"
proof (induction rows arbitrary: m)
  case (Cons row rows)
  have "ms_err (fold (put_byte working_file) (csv_record row) m) = None"
    by (rule no_errors_put [OF working_file_laws(2) Cons.prems])
  with Cons.IH show ?case by (simp add: Write_row_def Let_def Check_def csv_text_def)
qed (simp add: csv_text_def)

text \<open>
  A panic between two rows, after which nobody flushes, can leave a file whose last row is cut inside a field: 410
  rows of ten bytes leave 409 rows and one whose second field has lost its end.
\<close>

theorem panic_cuts_a_row:
  "csv_rows (ms_file (snd (write_rows working_file (replicate 410 [''aaaa'', ''bbbb'']) \<lparr>ms_file = [], ms_buf = [], ms_err = None\<rparr>)))
     = replicate 409 [''aaaa'', ''bbbb''] @ [[''aaaa'', ''b'']]"
proof -
  let ?r = "[''aaaa'', ''bbbb'']"
  have rec: "csv_record ?r = ''aaaa,bbbb'' @ [CHR 0x0A]" by code_simp
  have txts: "csv_text (replicate n ?r) = concat (replicate n (''aaaa,bbbb'' @ [CHR 0x0A]))" for n
    by (simp only: csv_text_def map_replicate rec)
  have len: "length (concat (replicate n (''aaaa,bbbb'' @ [CHR 0x0A]))) = 10 * n" for n by (induction n) simp_all
  have "concat (replicate 410 (''aaaa,bbbb'' @ [CHR 0x0A])) = concat (replicate 409 (''aaaa,bbbb'' @ [CHR 0x0A])) @ ''aaaa,bbbb'' @ [CHR 0x0A]"
    using replicate_add [of 409 1 "''aaaa,bbbb'' @ [CHR 0x0A]"] by simp
  then have "take 4096 (csv_text (replicate 410 ?r)) = csv_text (replicate 409 ?r) @ ''aaaa,b''"
    unfolding txts using len [of 409] by simp
  moreover have "ms_file (snd (write_rows working_file (replicate 410 ?r) \<lparr>ms_file = [], ms_buf = [], ms_err = None\<rparr>))
      = take 4096 (csv_text (replicate 410 ?r))"
    using working_file_cut [OF refl, of "csv_text (replicate 410 ?r)"] len [of 410]
    by (simp add: write_rows_fold txts bufSize_def)
  moreover have "csv_rows ''aaaa,b'' = [[''aaaa'', ''b'']]" by code_simp
  ultimately show ?thesis by (simp add: parse_text_rest)
qed

end
