(* ===== verification/Job_Queue.thy ===== *)
theory Job_Queue
  imports Perf
begin

section \<open>The background job queue\<close>

text \<open>
  \<^verbatim>\<open>lessons/go/background-job-queue\<close>: workers claim jobs from one Postgres table. The state is
  the table as the SQL of the source sees it: the committed rows, the sequence behind
  \<^verbatim>\<open>bigserial\<close>, which transaction holds which row lock, and the updates a transaction has made
  and not committed. A transaction is named by the number of the goroutine that runs it: every
  worker has a connection of its own. \<open>commits\<close> is the history of the committed finish updates
  in commit order; no statement reads it.

  The statements are those of the source. \<open>snapshot\<close> and \<open>lock_row\<close> are the claim query: its
  candidates are the pending rows at the start of the statement in the order of their ids, and
  \<^verbatim>\<open>for update\<close> takes them one by one: a row another transaction has locked is waited for
  (\<^verbatim>\<open>ClaimQuery\<close>) or passed over (\<^verbatim>\<open>SkipLockedQuery\<close>), and a row that is no longer pending once
  its lock is free is dropped, as READ COMMITTED checks the condition again. Any statement may
  fail, also while it waits; a commit may fail after it took effect. A deferred rollback always
  ends its transaction: where it cannot reach the server the connection is closed.
\<close>

datatype claimSQL = ClaimQuery | SkipLockedQuery

datatype db_err = ErrNoRows | DbErr string

record Claim =
  JobID :: int
  Took :: int

record queue_db =
  jobs_rows :: "(int \<times> string) list"
  last_id :: int
  row_locks :: "int \<Rightarrow> nat option"
  tx_writes :: "nat \<Rightarrow> int list"
  commits :: "(nat \<times> int) list"

definition job_status :: "'z queue_db_scheme \<Rightarrow> int \<Rightarrow> string option" where
  "job_status w job = map_of (jobs_rows w) job"

definition release :: "nat \<Rightarrow> 'z queue_db_scheme \<Rightarrow> 'z queue_db_scheme" where
  "release tx w = w\<lparr>row_locks := (\<lambda>job. if row_locks w job = Some tx then None else row_locks w job),
     tx_writes := (tx_writes w)(tx := [])\<rparr>"

definition Begin :: "nat \<Rightarrow> tick \<Rightarrow> 'z queue_db_scheme \<Rightarrow> db_err option \<times> 'z queue_db_scheme" where
  "Begin tx i w = (case fault_err (tick_fault i) of Some e \<Rightarrow> (Some (DbErr e), w) | None \<Rightarrow> (None, w))"

definition snapshot :: "tick \<Rightarrow> 'z queue_db_scheme \<Rightarrow> int list \<times> 'z queue_db_scheme" where
  "snapshot i w = (sort (map fst (filter (\<lambda>r. snd r = ''pending'') (jobs_rows w))), w)"

datatype lock_reply = Locked | Passed | LockFailed string

definition lock_row :: "nat \<Rightarrow> claimSQL \<Rightarrow> int \<Rightarrow> tick \<Rightarrow> 'z queue_db_scheme
    \<Rightarrow> (lock_reply \<times> 'z queue_db_scheme) option" where
  "lock_row tx sql job i w =
     (case fault_err (tick_fault i) of
        Some e \<Rightarrow> Some (LockFailed e, w)
      | None \<Rightarrow>
          if row_locks w job \<noteq> None \<and> row_locks w job \<noteq> Some tx
          then (case sql of ClaimQuery \<Rightarrow> None | SkipLockedQuery \<Rightarrow> Some (Passed, w))
          else if job_status w job = Some ''pending''
          then Some (Locked, w\<lparr>row_locks := (row_locks w)(job := Some tx)\<rparr>)
          else Some (Passed, w))"

definition finishQuery :: "nat \<Rightarrow> int \<Rightarrow> tick \<Rightarrow> 'z queue_db_scheme
    \<Rightarrow> (db_err option \<times> 'z queue_db_scheme) option" where
  "finishQuery tx job i w =
     (case fault_err (tick_fault i) of
        Some e \<Rightarrow> Some (Some (DbErr e), w)
      | None \<Rightarrow>
          if job_status w job = None then Some (None, w)
          else if row_locks w job \<noteq> None \<and> row_locks w job \<noteq> Some tx then None
          else Some (None, w\<lparr>row_locks := (row_locks w)(job := Some tx),
            tx_writes := (tx_writes w)(tx := tx_writes w tx @ [job])\<rparr>))"

definition set_done :: "int list \<Rightarrow> (int \<times> string) list \<Rightarrow> (int \<times> string) list" where
  "set_done jobs rows = map (\<lambda>(job, st). (job, if job \<in> set jobs then ''done'' else st)) rows"

definition apply_writes :: "nat \<Rightarrow> 'z queue_db_scheme \<Rightarrow> 'z queue_db_scheme" where
  "apply_writes tx w = release tx (w\<lparr>
     jobs_rows := set_done (tx_writes w tx) (jobs_rows w),
     commits := commits w @ map (Pair tx) (tx_writes w tx)\<rparr>)"

definition Commit :: "nat \<Rightarrow> tick \<Rightarrow> 'z queue_db_scheme \<Rightarrow> db_err option \<times> 'z queue_db_scheme" where
  "Commit tx i w =
     (case tick_fault i of
        Fine \<Rightarrow> (None, apply_writes tx w)
      | Fails e \<Rightarrow> (Some (DbErr e), w)
      | FailsApplied e \<Rightarrow> (Some (DbErr e), apply_writes tx w))"

definition Rollback :: "nat \<Rightarrow> tick \<Rightarrow> 'z queue_db_scheme \<Rightarrow> unit \<times> 'z queue_db_scheme" where
  "Rollback tx i w = ((), release tx w)"

text \<open>\<open>rolled_back tx r\<close>: the function returns \<open>r\<close> once its deferred rollback has run.\<close>

definition rolled_back :: "nat \<Rightarrow> 'a \<Rightarrow> (tick, 'z queue_db_scheme, 'a) thread" where
  "rolled_back tx r = atomically (Rollback tx) (\<lambda>_. Done r)"

primrec claim_query :: "nat \<Rightarrow> claimSQL \<Rightarrow> int list
    \<Rightarrow> ((db_err, int) result \<Rightarrow> (tick, 'z queue_db_scheme, 'a) thread)
    \<Rightarrow> (tick, 'z queue_db_scheme, 'a) thread" where
  "claim_query tx sql [] k = k (Inl ErrNoRows)"
| "claim_query tx sql (job # ids) k = waiting (lock_row tx sql job) (\<lambda>r. case r of
       Locked \<Rightarrow> k (Inr job)
     | Passed \<Rightarrow> claim_query tx sql ids k
     | LockFailed e \<Rightarrow> k (Inl (DbErr e)))"

definition finish_work :: "nat \<Rightarrow> int \<Rightarrow> int \<Rightarrow> int
    \<Rightarrow> (tick, 'z queue_db_scheme, (db_err, Claim) result) thread" where
  "finish_work tx workTime job took = atomically (time_Sleep workTime) (\<lambda>_.
     waiting (finishQuery tx job) (\<lambda>r. case r of
       Some e \<Rightarrow> rolled_back tx (Inl e)
     | None \<Rightarrow> atomically (Commit tx) (\<lambda>r. case r of
         Some e \<Rightarrow> rolled_back tx (Inl e)
       | None \<Rightarrow> rolled_back tx (Inr \<lparr>JobID = job, Took = took\<rparr>))))"

definition Work :: "nat \<Rightarrow> claimSQL \<Rightarrow> int
    \<Rightarrow> (tick, 'z queue_db_scheme, (db_err, Claim) result) thread" where
  "Work tx sql workTime = atomically (Begin tx) (\<lambda>r. case r of
       Some e \<Rightarrow> Done (Inl e)
     | None \<Rightarrow> atomically time_Now (\<lambda>start.
         atomically snapshot (\<lambda>ids.
           claim_query tx sql ids (\<lambda>r. case r of
             Inl e \<Rightarrow> rolled_back tx (Inl e)
           | Inr job \<Rightarrow> atomically time_Now (\<lambda>now. finish_work tx workTime job (now - start))))))"

subsection \<open>What the workers owe each other\<close>

definition queue_inv :: "'z queue_db_scheme \<Rightarrow> bool" where
  "queue_inv w \<longleftrightarrow> distinct (map fst (jobs_rows w)) \<and> (\<forall>r \<in> set (jobs_rows w). fst r \<le> last_id w)
     \<and> distinct (map snd (commits w))
     \<and> (\<forall>c \<in> set (commits w). job_status w (snd c) = Some ''done'')"

definition holds :: "nat \<Rightarrow> int \<Rightarrow> 'z queue_db_scheme \<Rightarrow> bool" where
  "holds n job w \<longleftrightarrow> row_locks w job = Some n"

definition queue_rely :: "nat \<Rightarrow> 'z queue_db_scheme \<Rightarrow> 'z queue_db_scheme \<Rightarrow> bool" where
  "queue_rely n w w' \<longleftrightarrow>
     (\<forall>job. holds n job w' \<longleftrightarrow> holds n job w)
   \<and> tx_writes w' n = tx_writes w n
   \<and> (\<forall>job st. holds n job w \<longrightarrow> job_status w job = Some st \<longrightarrow> job_status w' job = Some st)
   \<and> set (commits w) \<subseteq> set (commits w')
   \<and> (queue_inv w \<longrightarrow> queue_inv w')"

definition queue_guar :: "nat \<Rightarrow> 'z queue_db_scheme \<Rightarrow> 'z queue_db_scheme \<Rightarrow> bool" where
  "queue_guar n w w' \<longleftrightarrow> (\<forall>m. m \<noteq> n \<longrightarrow> queue_rely m w w') \<and> (queue_inv w \<longrightarrow> queue_inv w')
     \<and> (\<forall>job m. holds m job w' \<longrightarrow> m = n \<or> holds m job w)"

text \<open>
  A worker's call must go through when nothing fails and it holds a lock, or no other worker
  holds one: workers wait only before they hold anything.
\<close>

definition queue_must :: "nat \<Rightarrow> tick \<Rightarrow> 'z queue_db_scheme \<Rightarrow> bool" where
  "queue_must n i w \<longleftrightarrow> calm i \<and> ((\<exists>job. holds n job w) \<or> (\<forall>m job. holds m job w \<longrightarrow> m = n))"

interpretation queue: rely_guarantee queue_rely queue_guar queue_must
proof
  show "queue_rely n w w" for n and w :: "'a queue_db_scheme" by (simp add: queue_rely_def)
  show "queue_rely n w w' \<Longrightarrow> queue_rely n w' w'' \<Longrightarrow> queue_rely n w w''"
    for n and w w' w'' :: "'a queue_db_scheme" by (auto simp: queue_rely_def)
  show "m \<noteq> n \<Longrightarrow> queue_guar m w w' \<Longrightarrow> queue_rely n w w'"
    for m n and w w' :: "'a queue_db_scheme" by (simp add: queue_guar_def)
qed

lemmas queue_defs = queue_rely_def queue_guar_def queue_inv_def holds_def job_status_def

lemma map_of_set_done [simp]:
  "map_of (set_done jobs rows) j
   = (if j \<in> set jobs then map_option (\<lambda>_. ''done'') (map_of rows j) else map_of rows j)"
  unfolding set_done_def by (induction rows) auto

lemma fst_set_done [simp]: "map fst (set_done jobs rows) = map fst rows"
  unfolding set_done_def by (induction rows) auto

lemma release_simps [simp]:
  "jobs_rows (release n w) = jobs_rows w" "last_id (release n w) = last_id w"
  "commits (release n w) = commits w"
  "row_locks (release n w) job = (if row_locks w job = Some n then None else row_locks w job)"
  "holds m job (release n w) \<longleftrightarrow> m \<noteq> n \<and> holds m job w"
  "tx_writes (release n w) m = (if m = n then [] else tx_writes w m)"
  by (auto simp: release_def holds_def)

lemma job_status_release [simp]: "job_status (release n w) = job_status w"
  by (simp add: job_status_def fun_eq_iff)

lemma queue_inv_release [simp]: "queue_inv (release n w) = queue_inv w"
  by (simp add: queue_inv_def)

lemma guar_refl [simp]: "queue_guar n w w"
  by (simp add: queue_guar_def queue_rely_def)

lemma guar_release [simp]: "queue_guar n w (release n w)"
  by (auto simp: queue_guar_def queue_rely_def)

lemma guar_lock:
  "row_locks w job = None \<or> row_locks w job = Some n
   \<Longrightarrow> queue_guar n w (w\<lparr>row_locks := (row_locks w)(job := Some n)\<rparr>)"
  by (auto simp: queue_defs)

lemma guar_write:
  "row_locks w job = None \<or> row_locks w job = Some n
   \<Longrightarrow> queue_guar n w (w\<lparr>row_locks := (row_locks w)(job := Some n), tx_writes := (tx_writes w)(n := ws)\<rparr>)"
  by (auto simp: queue_defs)

lemma inv_apply_writes:
  assumes "tx_writes w n = [job]" "job_status w job = Some ''pending''" "queue_inv w"
  shows "queue_inv (apply_writes n w)"
proof -
  have keys: "fst ` set (set_done [job] (jobs_rows w)) = fst ` set (jobs_rows w)"
    by (metis fst_set_done list.set_map)
  from assms have "\<forall>c \<in> set (commits w). snd c \<noteq> job"
    by (auto simp: queue_inv_def)
  with assms keys show ?thesis
    by (auto simp: queue_inv_def apply_writes_def job_status_def) (metis fst_conv imageE image_eqI)
qed

lemma guar_apply_writes:
  assumes "tx_writes w n = [job]" "holds n job w" "job_status w job = Some ''pending''"
  shows "queue_guar n w (apply_writes n w)"
proof -
  note inv = inv_apply_writes [OF assms(1,3)]
  moreover have "queue_rely m w (apply_writes n w)" if "m \<noteq> n" for m
    using assms that inv by (auto simp: queue_rely_def apply_writes_def holds_def job_status_def)
  ultimately show ?thesis
    by (auto simp: queue_guar_def apply_writes_def holds_def)
qed

definition queue_post :: "nat \<Rightarrow> (db_err, Claim) result \<Rightarrow> 'z queue_db_scheme \<Rightarrow> bool" where
  "queue_post n r w \<longleftrightarrow> (\<forall>job. \<not> holds n job w) \<and> tx_writes w n = []
     \<and> (case r of Inl e \<Rightarrow> True | Inr c \<Rightarrow> (n, JobID c) \<in> set (commits w))"

abbreviation worker_safe :: "nat \<Rightarrow> (tick, 'z queue_db_scheme, (db_err, Claim) result) thread \<Rightarrow> 'z queue_db_scheme \<Rightarrow> bool" where
  "worker_safe n \<equiv> safe (queue_rely n) (queue_guar n) (queue_must n) (queue_post n)"

lemma post_rely: "queue_post n r w \<Longrightarrow> queue_rely n w w' \<Longrightarrow> queue_post n r w'"
  by (auto simp: queue_post_def queue_rely_def split: sum.splits)

lemma safe_done: "queue_post n r w \<Longrightarrow> worker_safe n (Done r) w"
  by (rule safe_Done) (rule post_rely)

lemma safe_rolled_back:
  assumes "case r of Inl e \<Rightarrow> True | Inr c \<Rightarrow> (n, JobID c) \<in> set (commits w)"
  shows "worker_safe n (rolled_back n r) w"
  unfolding rolled_back_def
proof (rule safe_atomically)
  fix w' i b w''
  assume "queue_rely n w w'" "Rollback n i w' = (b, w'')"
  then show "queue_guar n w' w'' \<and> worker_safe n (Done r) w''"
    using assms by (auto intro!: safe_done simp: Rollback_def queue_post_def queue_rely_def split: sum.splits)
qed

definition claimed :: "nat \<Rightarrow> int \<Rightarrow> int list \<Rightarrow> 'z queue_db_scheme \<Rightarrow> bool" where
  "claimed n job ws w \<longleftrightarrow> holds n job w \<and> job_status w job = Some ''pending'' \<and> tx_writes w n = ws"

lemma claimed_rely: "claimed n job ws w \<Longrightarrow> queue_rely n w w' \<Longrightarrow> claimed n job ws w'"
  by (auto simp: claimed_def queue_rely_def)

lemma safe_commit:
  assumes "claimed n job [job] w"
  shows "worker_safe n (atomically (Commit n) (\<lambda>r. case r of
         Some e \<Rightarrow> rolled_back n (Inl e)
       | None \<Rightarrow> rolled_back n (Inr \<lparr>JobID = job, Took = took\<rparr>))) w"
proof (rule safe_atomically)
  fix w' i b w''
  assume "queue_rely n w w'" and c: "Commit n i w' = (b, w'')"
  with assms have "claimed n job [job] w'" by (blast intro: claimed_rely)
  then have "queue_guar n w' (apply_writes n w')" "(n, job) \<in> set (commits (apply_writes n w'))"
    by (simp_all add: claimed_def guar_apply_writes, simp add: apply_writes_def)
  with c show "queue_guar n w' w'' \<and> worker_safe n (case b of
         Some e \<Rightarrow> rolled_back n (Inl e)
       | None \<Rightarrow> rolled_back n (Inr \<lparr>JobID = job, Took = took\<rparr>)) w''"
    by (auto simp: Commit_def intro!: safe_rolled_back split: fault.splits)
qed

lemma safe_finish_work:
  assumes "claimed n job [] w"
  shows "worker_safe n (finish_work n workTime job took) w"
  unfolding finish_work_def
proof (intro safe_atomically conjI safe_waiting)
  fix w1 i b w2
  assume "queue_rely n w w1" "time_Sleep workTime i w1 = (b, w2)"
  then have c2: "claimed n job [] w2" and [simp]: "w2 = w1"
    using assms by (auto simp: time_Sleep_def intro: claimed_rely)
  show "queue_guar n w1 w2" by simp
  show "finishQuery n job i w3 \<noteq> None" if "queue_rely n w2 w3" for i w3
    using claimed_rely [OF c2 that] by (auto simp: finishQuery_def claimed_def holds_def split: option.splits)
  fix w3 i r w4
  assume "queue_rely n w2 w3" and f: "finishQuery n job i w3 = Some (r, w4)"
  then have c3: "claimed n job [] w3" using c2 by (blast intro: claimed_rely)
  then show "queue_guar n w3 w4"
    using f by (auto simp: finishQuery_def claimed_def holds_def guar_write split: option.splits if_splits)
  from c3 f have "r = None \<Longrightarrow> claimed n job [job] w4"
    by (auto simp: finishQuery_def claimed_def holds_def job_status_def split: option.splits if_splits)
  then show "worker_safe n (case r of Some e \<Rightarrow> rolled_back n (Inl e)
     | None \<Rightarrow> atomically (Commit n) (\<lambda>r. case r of
         Some e \<Rightarrow> rolled_back n (Inl e)
       | None \<Rightarrow> rolled_back n (Inr \<lparr>JobID = job, Took = took\<rparr>))) w4"
    by (cases r) (simp_all add: safe_commit safe_rolled_back)
qed

definition idle :: "nat \<Rightarrow> 'z queue_db_scheme \<Rightarrow> bool" where
  "idle n w \<longleftrightarrow> (\<forall>job. \<not> holds n job w) \<and> tx_writes w n = []"

lemma idle_rely: "idle n w \<Longrightarrow> queue_rely n w w' \<Longrightarrow> idle n w'"
  by (auto simp: idle_def queue_rely_def)

lemma safe_claim_query:
  assumes "\<And>e w. idle n w \<Longrightarrow> worker_safe n (k (Inl e)) w"
    and "\<And>job w. claimed n job [] w \<Longrightarrow> worker_safe n (k (Inr job)) w"
  shows "idle n w \<Longrightarrow> worker_safe n (claim_query n sql ids k) w"
proof (induction ids arbitrary: w)
  case (Cons job ids)
  show ?case
    unfolding claim_query.simps
  proof (rule safe_waiting)
    fix w1 i r w2
    assume "queue_rely n w w1" and l: "lock_row n sql job i w1 = Some (r, w2)"
    then have idle: "idle n w1" using Cons.prems by (blast intro: idle_rely)
    then have "queue_guar n w1 w2" "r = Locked \<longrightarrow> claimed n job [] w2" "r \<noteq> Locked \<longrightarrow> idle n w2"
      using l by (auto simp: lock_row_def claimed_def idle_def holds_def guar_lock job_status_def
          split: option.splits if_splits claimSQL.splits)
    then show "queue_guar n w1 w2 \<and> worker_safe n (case r of Locked \<Rightarrow> k (Inr job)
        | Passed \<Rightarrow> claim_query n sql ids k | LockFailed e \<Rightarrow> k (Inl (DbErr e))) w2"
      using assms Cons.IH by (cases r) auto
  next
    fix w1 i
    assume "queue_rely n w w1" "queue_must n i w1"
    moreover from this have "idle n w1" using Cons.prems by (blast intro: idle_rely)
    ultimately show "lock_row n sql job i w1 \<noteq> None"
      by (cases "row_locks w1 job")
        (auto simp: lock_row_def queue_must_def idle_def holds_def split: option.splits claimSQL.splits)
  qed
qed (simp add: assms)

lemma safe_read:
  assumes "\<And>i w. snd (f i w) = w" "\<And>i w'. queue_rely n w w' \<Longrightarrow> worker_safe n (k (fst (f i w'))) w'"
  shows "worker_safe n (atomically f k) w"
proof (rule safe_atomically)
  fix w' i b w''
  assume r: "queue_rely n w w'" and f: "f i w' = (b, w'')"
  then have "b = fst (f i w')" "w'' = w'" using assms(1) [of i w'] by auto
  with assms(2) [OF r, of i] show "queue_guar n w' w'' \<and> worker_safe n (k b) w''" by simp
qed

lemma safe_timed_work:
  assumes "claimed n job [] w"
  shows "worker_safe n (atomically time_Now (\<lambda>now. finish_work n workTime job (now - start))) w"
  using assms by (intro safe_read safe_finish_work) (auto simp: time_Now_def intro: claimed_rely)

lemma safe_Work:
  assumes "idle n w"
  shows "worker_safe n (Work n sql workTime) w"
  unfolding Work_def
proof (rule safe_read)
  show "snd (Begin n i w) = w" for i and w :: "'a queue_db_scheme"
    by (simp add: Begin_def split: option.splits)
  fix i w'
  assume "queue_rely n w w'"
  with assms have idle: "idle n w'" by (rule idle_rely)
  have claim: "worker_safe n (claim_query n sql ids (\<lambda>r. case r of Inl e \<Rightarrow> rolled_back n (Inl e)
       | Inr job \<Rightarrow> atomically time_Now (\<lambda>now. finish_work n workTime job (now - start)))) w"
    if "idle n w" for start ids and w :: "'a queue_db_scheme"
    using that by (intro safe_claim_query) (simp_all add: safe_timed_work safe_rolled_back)
  have "worker_safe n (Done (Inl e)) w'" for e
    using idle by (intro safe_done) (simp add: queue_post_def idle_def)
  moreover have "worker_safe n (atomically time_Now (\<lambda>start. atomically snapshot (\<lambda>ids.
       claim_query n sql ids (\<lambda>r. case r of Inl e \<Rightarrow> rolled_back n (Inl e)
       | Inr job \<Rightarrow> atomically time_Now (\<lambda>now. finish_work n workTime job (now - start)))))) w'"
    by (intro safe_read claim) (use idle in \<open>auto simp: time_Now_def snapshot_def intro: idle_rely\<close>)
  ultimately show "worker_safe n (case fst (Begin n i w') of Some e \<Rightarrow> Done (Inl e)
       | None \<Rightarrow> atomically time_Now (\<lambda>start. atomically snapshot (\<lambda>ids.
           claim_query n sql ids (\<lambda>r. case r of Inl e \<Rightarrow> rolled_back n (Inl e)
           | Inr job \<Rightarrow> atomically time_Now (\<lambda>now. finish_work n workTime job (now - start)))))) w'"
    by (cases "fst (Begin n i w')") simp_all
qed
definition claim_of :: "(tick, 'z queue_db_scheme, (db_err, Claim) result) thread \<Rightarrow> Claim option" where
  "claim_of t = (case t of Done (Inr c) \<Rightarrow> Some c | _ \<Rightarrow> None)"

definition claims_of :: "(tick, 'z queue_db_scheme, (db_err, Claim) result) thread list \<Rightarrow> Claim list" where
  "claims_of ts = List.map_filter claim_of ts"

definition workers :: "(nat \<Rightarrow> claimSQL) \<Rightarrow> int \<Rightarrow> nat
    \<Rightarrow> (tick, 'z queue_db_scheme, (db_err, Claim) result) thread list" where
  "workers sql workTime k = map (\<lambda>n. Work n (sql n) workTime) [0..<k]"

definition quiescent :: "'z queue_db_scheme \<Rightarrow> bool" where
  "quiescent w \<longleftrightarrow> queue_inv w \<and> row_locks w = Map.empty \<and> tx_writes w = (\<lambda>_. [])"

lemma quiescent_idle: "quiescent w \<Longrightarrow> idle n w"
  by (simp add: quiescent_def idle_def holds_def)

lemma workers_safe: "quiescent w \<Longrightarrow> queue.all_safe queue_post (w, workers sql workTime k)"
  by (simp add: queue.all_safe_def workers_def safe_Work quiescent_idle)

lemma map_filter_distinct:
  assumes "\<And>i j a b. i < j \<Longrightarrow> j < length xs \<Longrightarrow> g (xs ! i) = Some a \<Longrightarrow> g (xs ! j) = Some b \<Longrightarrow> f a \<noteq> f b"
  shows "distinct (map f (List.map_filter g xs))"
  using assms
proof (induction xs)
  case (Cons x xs)
  have "distinct (map f (List.map_filter g xs))"
    by (rule Cons.IH) (use Cons.prems [of "Suc _" "Suc _"] in simp)
  moreover have "f a \<noteq> f b" if "g x = Some a" "b \<in> set (List.map_filter g xs)" for a b
  proof -
    from that(2) obtain j where "j < length xs" "g (xs ! j) = Some b"
      by (auto simp: List.map_filter_def in_set_conv_nth)
    with Cons.prems [of 0 "Suc j" a b] that(1) show ?thesis by simp
  qed
  ultimately show ?case by (auto simp: List.map_filter_simps split: option.splits)
qed (simp add: List.map_filter_simps)

lemma claim_committed:
  assumes "quiescent w" "reaches (w, workers sql workTime k) (w', ts)" "n < length ts" "claim_of (ts ! n) = Some c"
  shows "(n, JobID c) \<in> set (commits w')"
proof -
  from assms(4) have "ts ! n = Done (Inr c)"
    by (auto simp: claim_of_def split: thread.splits sum.splits)
  then show ?thesis
    using queue.post [OF assms(2) workers_safe [OF assms(1)], of n "Inr c"] assms(3)
    by (simp add: queue_post_def)
qed

lemma queue_inv_reaches:
  assumes "quiescent w" "reaches (w, workers sql workTime k) (w', ts)"
  shows "queue_inv w'"
proof -
  have "queue_inv (fst (w', ts))"
    by (rule queue.invariant [OF assms(2) workers_safe [OF assms(1)]])
      (use assms(1) in \<open>auto simp: quiescent_def queue_guar_def\<close>)
  then show ?thesis by simp
qed

lemma claims_distinct_done:
  assumes "quiescent w" "reaches (w, workers sql workTime k) (w', ts)"
  shows "distinct (map JobID (claims_of ts)) \<and> list_all (\<lambda>c. job_status w' (JobID c) = Some ''done'') (claims_of ts)"
proof
  note inv = queue_inv_reaches [OF assms] and com = claim_committed [OF assms]
  show "distinct (map JobID (claims_of ts))"
    unfolding claims_of_def
  proof (rule map_filter_distinct)
    fix i j a b
    assume ij: "i < j" "j < length ts" "claim_of (ts ! i) = Some a" "claim_of (ts ! j) = Some b"
    then have "(i, JobID a) \<in> set (commits w')" "(j, JobID b) \<in> set (commits w')"
      using com by auto
    moreover from inv have "inj_on snd (set (commits w'))" by (simp add: queue_inv_def distinct_map)
    ultimately show "JobID a \<noteq> JobID b" 
      using ij(1) inj_onD [of snd "set (commits w')" "(i, JobID a)" "(j, JobID b)"] by auto
  qed
  show "list_all (\<lambda>c. job_status w' (JobID c) = Some ''done'') (claims_of ts)"
    unfolding list_all_iff
  proof
    fix c
    assume "c \<in> set (claims_of ts)"
    then obtain n where "n < length ts" "claim_of (ts ! n) = Some c"
      by (auto simp: claims_of_def List.map_filter_def in_set_conv_nth)
    then have "(n, JobID c) \<in> set (commits w')" by (rule com)
    with inv show "job_status w' (JobID c) = Some ''done''" by (auto simp: queue_inv_def)
  qed
qed

subsection \<open>No deadlock\<close>

lemma locks_of_workers:
  assumes "quiescent w" "reaches (w, workers sql workTime k) (w', ts)" "holds m job w'"
  shows "m < k"
proof -
  have "reaches c c' \<Longrightarrow> queue.all_safe queue_post c \<Longrightarrow> \<forall>m job. holds m job (fst c) \<longrightarrow> m < length (snd c)
    \<Longrightarrow> \<forall>m job. holds m job (fst c') \<longrightarrow> m < length (snd c')" for c c' :: "(tick, 'a queue_db_scheme, (db_err, Claim) result) system"
  proof (induction rule: reaches.induct)
    case (reaches_step c c' n c'')
    from queue.step_guar [OF queue.all_safe_reaches [OF reaches_step.hyps(1) reaches_step.prems(1)] reaches_step.hyps(2)]
    have "\<forall>m job. holds m job (fst c'') \<longrightarrow> m = n \<or> holds m job (fst c')" by (auto simp: queue_guar_def)
    with reaches_step show ?case by (fastforce elim: sys_step.cases)
  qed simp
  from this [OF assms(2) workers_safe [OF assms(1)]] assms(1,3) reaches_length [OF assms(2)]
  show ?thesis by (auto simp: quiescent_def holds_def workers_def)
qed

lemma workers_progress:
  assumes "quiescent w" "reaches (w, workers sql workTime k) (w', ts)" "\<not> finished (w', ts)" "calm i"
  shows "\<exists>n f. n < length ts \<and> ts ! n = Step f \<and> f i w' \<noteq> None"
proof -
  note safe = queue.all_safe_reaches [OF assms(2) workers_safe [OF assms(1)]]
  have len: "length ts = k" using reaches_length [OF assms(2)] by (simp add: workers_def)
  have move: "\<exists>f. ts ! n = Step f \<and> f i w' \<noteq> None" if "n < k" "result_of (ts ! n) = None" "queue_must n i w'" for n
  proof -
    from that(2) obtain f where f: "ts ! n = Step f" by (cases "ts ! n") auto
    have "worker_safe n (ts ! n) w'" using queue.all_safeD [OF safe] that(1) len by simp
    with f that(3) show ?thesis using queue.safe_must by auto
  qed
  show ?thesis
  proof (cases "\<exists>m job. holds m job w'")
    case True
    then obtain m job where m: "holds m job w'" by blast
    then have "m < k" by (rule locks_of_workers [OF assms(1,2)])
    moreover have "result_of (ts ! m) = None"
    proof (cases "ts ! m")
      case (Done r)
      with queue.post [OF assms(2) workers_safe [OF assms(1)], of m r] \<open>m < k\<close> len m
      show ?thesis by (simp add: queue_post_def)
    qed simp
    ultimately show ?thesis
      using move [of m] m assms(4) len by (auto simp: queue_must_def)
  next
    case False
    from assms(3) obtain n where "n < k" "result_of (ts ! n) = None"
      by (auto simp: finished_def list_all_length len)
    with move [of n] False assms(4) len show ?thesis by (auto simp: queue_must_def)
  qed
qed
subsection \<open>Concurrent workers\<close>

text \<open>A small table and schedule for the examples.\<close>

definition quiet_tick :: tick where
  "quiet_tick = \<lparr>tick_fault = Fine, tick_clock = 0\<rparr>"

definition two_jobs :: queue_db where
  "two_jobs = \<lparr>jobs_rows = [(1, ''pending''), (2, ''pending'')], last_id = 2,
     row_locks = Map.empty, tx_writes = (\<lambda>_. []), commits = []\<rparr>"

definition turns :: "nat list \<Rightarrow> (nat \<times> tick) list" where
  "turns ns = map (\<lambda>n. (n, quiet_tick)) ns"

lemma quiescent_two_jobs: "quiescent two_jobs"
  by (simp add: quiescent_def two_jobs_def queue_inv_def)

lemma two_workers_run:
  "map JobID (claims_of (snd (schedule (turns ([0, 1, 0, 1, 0, 1, 0, 1] @ replicate 7 0 @ replicate 9 1))
     (two_jobs, workers (\<lambda>_. ClaimQuery) 100 2)))) = [1, 2]"
  by code_simp

text \<open>
  C6. Every job is claimed at most once: whatever the interleaving of any number of workers,
  each with either claim query, whatever statements fail and whenever, the jobs that the
  finished \<^verbatim>\<open>Work\<close> calls return are pairwise different, and each of them is done in the table.
\<close>

theorem Work_claims_exactly_once:
  assumes "quiescent w" "reaches (w, workers sql workTime k) (w', ts)"
  shows "distinct (map JobID (claims_of ts))
    \<and> list_all (\<lambda>c. job_status w' (JobID c) = Some ''done'') (claims_of ts)"
  by (rule claims_distinct_done [OF assms])

theorem Work_claims_exactly_once_witness:
  "\<exists>w' ts. reaches (two_jobs, workers (\<lambda>_. ClaimQuery) 100 2) (w', ts)
     \<and> map JobID (claims_of ts) = [1, 2] \<and> distinct (map JobID (claims_of ts))
     \<and> list_all (\<lambda>c. job_status w' (JobID c) = Some ''done'') (claims_of ts)"
proof -
  obtain w' ts where s: "schedule (turns ([0, 1, 0, 1, 0, 1, 0, 1] @ replicate 7 0 @ replicate 9 1))
     (two_jobs, workers (\<lambda>_. ClaimQuery) 100 2) = (w', ts)" by fastforce
  have r: "reaches (two_jobs, workers (\<lambda>_. ClaimQuery) 100 2) (w', ts)"
    using schedule_reaches [of "(two_jobs, workers (\<lambda>_. ClaimQuery) 100 2)"] s by metis
  have "map JobID (claims_of ts) = [1, 2]" using two_workers_run s by simp
  with r Work_claims_exactly_once [OF quiescent_two_jobs r] show ?thesis
    by (intro exI [of _ w'] exI [of _ ts]) simp
qed

lemma workers_finish:
  assumes "quiescent w" "reaches (w, workers sql workTime k) (w', ts)" "calm i"
  shows "\<exists>s. list_all (\<lambda>e. snd e = i) s \<and> finished (schedule s (w', ts))"
  using workers_progress [OF assms(1) _ _ assms(3)] reaches_trans [OF _ assms(2)]
  by (intro can_finish) blast

text \<open>
  C14. Row locks never deadlock the workers: in every reachable state either all workers have
  returned or, when the next statement does not fail, some worker's statement goes through; and
  from there the workers can be run until all of them have returned. No interleaving is
  infinite, as a thread is a finite tree of calls.
\<close>

theorem Work_no_deadlock:
  assumes "quiescent w" "reaches (w, workers sql workTime k) (w', ts)" "calm i"
  shows "(finished (w', ts) \<or> (\<exists>n f. n < length ts \<and> ts ! n = Step f \<and> f i w' \<noteq> None))
    \<and> (\<exists>s. list_all (\<lambda>e. snd e = i) s \<and> finished (schedule s (w', ts)))"
proof
  show "finished (w', ts) \<or> (\<exists>n f. n < length ts \<and> ts ! n = Step f \<and> f i w' \<noteq> None)"
    using workers_progress [OF assms(1,2) _ assms(3)] by blast
  show "\<exists>s. list_all (\<lambda>e. snd e = i) s \<and> finished (schedule s (w', ts))"
    by (rule workers_finish [OF assms])
qed

theorem Work_no_deadlock_witness:
  "\<exists>s. list_all (\<lambda>e. snd e = quiet_tick) s
     \<and> finished (schedule s (two_jobs, workers (\<lambda>_. ClaimQuery) 100 3))"
proof -
  have "calm quiet_tick" by (simp add: calm_def quiet_tick_def)
  from Work_no_deadlock [OF quiescent_two_jobs reaches_refl this] show ?thesis by blast
qed

end
