(* ===== verification/Job_Rounds.thy ===== *)
theory Job_Rounds
  imports Job_Queue "HOL-Library.Multiset"
begin

section \<open>Rounds of the job queue\<close>

text \<open>
  \<^verbatim>\<open>runRound\<close> of \<^verbatim>\<open>lessons/go/background-job-queue/main.go\<close>: the table is reset to one pending
  job per worker and all workers start at once. The order in which the workers' calls take
  effect is the argument \<open>sched\<close>, together with the answer of each call; \<^term>\<open>None\<close> is a round
  that has not ended yet. \<^verbatim>\<open>truncate\<close> waits for the table to be free, so that nothing of an
  earlier transaction is left. A worker's error panics.
\<close>

definition truncate_jobs :: "tick \<Rightarrow> 'z queue_db_scheme \<Rightarrow> string option \<times> 'z queue_db_scheme" where
  "truncate_jobs i w = (case fault_err (tick_fault i) of
       Some e \<Rightarrow> (Some e, w)
     | None \<Rightarrow> (None, w\<lparr>jobs_rows := [], last_id := 0, row_locks := Map.empty, tx_writes := (\<lambda>_. []), commits := []\<rparr>))"

definition insert_pending :: "nat \<Rightarrow> tick \<Rightarrow> 'z queue_db_scheme \<Rightarrow> string option \<times> 'z queue_db_scheme" where
  "insert_pending k i w = (case fault_err (tick_fault i) of
       Some e \<Rightarrow> (Some e, w)
     | None \<Rightarrow> (None, w\<lparr>jobs_rows := jobs_rows w @ map (\<lambda>job. (job, ''pending'')) [last_id w + 1..last_id w + int k],
         last_id := last_id w + int k\<rparr>))"

fun err_text :: "db_err \<Rightarrow> string" where
  "err_text ErrNoRows = ''no rows in result set''"
| "err_text (DbErr e) = e"

definition work_failures :: "(tick, 'z queue_db_scheme, (db_err, Claim) result) thread list \<Rightarrow> db_err list" where
  "work_failures ts = List.map_filter (\<lambda>t. case t of Done (Inl e) \<Rightarrow> Some e | _ \<Rightarrow> None) ts"

definition runRound :: "tick \<Rightarrow> tick \<Rightarrow> (nat \<times> tick) list \<Rightarrow> claimSQL \<Rightarrow> int \<Rightarrow> nat \<Rightarrow> 'z queue_db_scheme
    \<Rightarrow> (panic, Claim list) result option \<times> 'z queue_db_scheme" where
  "runRound i1 i2 sched sql workTime k w =
     (case truncate_jobs i1 w of
        (Some e, w) \<Rightarrow> (Some (Inl (PanicError e)), w)
      | (None, w) \<Rightarrow> (case insert_pending k i2 w of
          (Some e, w) \<Rightarrow> (Some (Inl (PanicError e)), w)
        | (None, w) \<Rightarrow>
            (case schedule sched (w, workers (\<lambda>_. sql) workTime k) of (w, ts) \<Rightarrow>
               ((case work_failures ts of
                   e # _ \<Rightarrow> Some (Inl (PanicError (err_text e)))
                 | [] \<Rightarrow> if finished (w, ts) then Some (Inr (claims_of ts)) else None), w))))"

subsection \<open>Ownership\<close>

text \<open>
  When nothing fails, a worker that has locked a job keeps it: \<open>owns m job\<close> holds from the
  lock on and through the commit, no worker owns two jobs and no job has two owners. A worker
  that has found no job yet has seen an owner for every job it passed over, so with as many
  jobs as workers it must find one.
\<close>

definition owns :: "nat \<Rightarrow> int \<Rightarrow> 'z queue_db_scheme \<Rightarrow> bool" where
  "owns m job w \<longleftrightarrow> holds m job w \<or> (m, job) \<in> set (commits w)"

definition round_inv :: "nat \<Rightarrow> 'z queue_db_scheme \<Rightarrow> bool" where
  "round_inv k w \<longleftrightarrow> map fst (jobs_rows w) = [1..int k]
     \<and> (\<forall>m job. owns m job w \<longrightarrow> m < k)
     \<and> (\<forall>m i j. owns m i w \<longrightarrow> owns m j w \<longrightarrow> i = j)
     \<and> (\<forall>m n job. owns m job w \<longrightarrow> owns n job w \<longrightarrow> m = n)
     \<and> (\<forall>job st. job_status w job = Some st \<longrightarrow> st \<noteq> ''pending'' \<longrightarrow> (\<exists>m. owns m job w))
     \<and> (\<forall>m job. (m, job) \<in> set (commits w) \<longrightarrow> job_status w job = Some ''done'')"

definition round_rely :: "nat \<Rightarrow> nat \<Rightarrow> 'z queue_db_scheme \<Rightarrow> 'z queue_db_scheme \<Rightarrow> bool" where
  "round_rely k n w w' \<longleftrightarrow> (round_inv k w \<longrightarrow>
     (\<forall>job. holds n job w' \<longleftrightarrow> holds n job w)
   \<and> (\<forall>job. owns n job w' \<longleftrightarrow> owns n job w)
   \<and> tx_writes w' n = tx_writes w n
   \<and> (\<forall>job st. holds n job w \<longrightarrow> job_status w job = Some st \<longrightarrow> job_status w' job = Some st)
   \<and> (\<forall>m job. owns m job w \<longrightarrow> owns m job w')
   \<and> round_inv k w')"

definition round_guar :: "nat \<Rightarrow> nat \<Rightarrow> 'z queue_db_scheme \<Rightarrow> 'z queue_db_scheme \<Rightarrow> bool" where
  "round_guar k n w w' \<longleftrightarrow> (\<forall>m. m \<noteq> n \<longrightarrow> round_rely k m w w')"

interpretation round: rely_guarantee "round_rely k" "round_guar k" "\<lambda>_ _ _. False" for k
proof
  show "round_rely k n w w" for n and w :: "'a queue_db_scheme" by (simp add: round_rely_def)
  show "round_rely k n w w' \<Longrightarrow> round_rely k n w' w'' \<Longrightarrow> round_rely k n w w''"
    for n and w w' w'' :: "'a queue_db_scheme" by (auto simp: round_rely_def)
  show "m \<noteq> n \<Longrightarrow> round_guar k m w w' \<Longrightarrow> round_rely k n w w'"
    for m n and w w' :: "'a queue_db_scheme" by (simp add: round_guar_def)
qed

abbreviation round_safe :: "nat \<Rightarrow> nat \<Rightarrow> (tick, 'z queue_db_scheme, (db_err, Claim) result) thread
    \<Rightarrow> 'z queue_db_scheme \<Rightarrow> bool" where
  "round_safe k n t \<equiv> safe (round_rely k n) (round_guar k n) (\<lambda>_ _. False) (\<lambda>r w. is_ok r) (only calm t)"

lemma round_guar_refl [simp]: "round_guar k n w w"
  by (simp add: round_guar_def round_rely_def)

definition settled :: "nat \<Rightarrow> 'z queue_db_scheme \<Rightarrow> bool" where
  "settled n w \<longleftrightarrow> (\<forall>job. \<not> holds n job w)"

lemma owns_release: "settled n w \<Longrightarrow> owns m job (release n w) = owns m job w"
  by (auto simp: owns_def settled_def)

lemma round_inv_release: "settled n w \<Longrightarrow> round_inv k (release n w) = round_inv k w"
  by (simp add: round_inv_def owns_release)

lemma round_guar_release: "settled n w \<Longrightarrow> round_guar k n w (release n w)"
  by (simp add: round_guar_def round_rely_def owns_release round_inv_release)

lemma round_rolled_back:
  assumes "settled n w" "round_inv k w"
  shows "round_safe k n (rolled_back n (Inr c)) w"
  unfolding rolled_back_def
proof (rule safe_only_atomically)
  fix w' i b w''
  assume "round_rely k n w w'" "Rollback n i w' = (b, w'')"
  moreover from this assms have "settled n w'"
    by (simp add: settled_def round_rely_def)
  ultimately show "round_guar k n w' w'' \<and> round_safe k n (Done (Inr c)) w''"
    by (auto simp: Rollback_def round_guar_release intro: safe_Done)
qed

definition unowned :: "nat \<Rightarrow> int list \<Rightarrow> nat \<Rightarrow> 'z queue_db_scheme \<Rightarrow> bool" where
  "unowned n ids k w \<longleftrightarrow> round_inv k w \<and> tx_writes w n = [] \<and> (\<forall>job. \<not> owns n job w)
     \<and> (\<forall>job. 1 \<le> job \<longrightarrow> job \<le> int k \<longrightarrow> job \<notin> set ids \<longrightarrow> (\<exists>m. owns m job w))"

lemma unowned_rely: "unowned n ids k w \<Longrightarrow> round_rely k n w w' \<Longrightarrow> unowned n ids k w'"
  by (auto simp: unowned_def round_rely_def) blast

lemma unowned_not_empty:
  assumes "unowned n ids k w" "n < k"
  shows "ids \<noteq> []"
proof
  assume "ids = []"
  with assms have all: "\<exists>m. owns m job w" if "job \<in> {1..int k}" for job
    using that by (auto simp: unowned_def)
  define f where "f job = (SOME m. owns m job w)" for job
  have f: "owns (f job) job w" if "job \<in> {1..int k}" for job
    unfolding f_def using all [OF that] by (rule someI_ex)
  have "inj_on f {1..int k}"
    using assms f unfolding inj_on_def unowned_def round_inv_def by metis
  moreover have "f ` {1..int k} \<subseteq> {0..<k} - {n}"
    using assms f unfolding unowned_def round_inv_def by (fastforce simp: image_iff)
  ultimately have "card {1..int k} \<le> card ({0..<k} - {n})"
    by (intro card_inj_on_le) auto
  with assms(2) show False by simp
qed

lemma round_guar_lock:
  assumes "round_inv k w" "n < k" "\<forall>j. \<not> owns n j w" "\<forall>m. \<not> owns m job w"
  shows "round_guar k n w (w\<lparr>row_locks := (row_locks w)(job := Some n)\<rparr>)"
proof -
  let ?w = "w\<lparr>row_locks := (row_locks w)(job := Some n)\<rparr>"
  have owns: "owns m j ?w \<longleftrightarrow> owns m j w \<or> m = n \<and> j = job" for m j
    using assms(4) by (auto simp: owns_def holds_def)
  have holds: "holds m j ?w \<longleftrightarrow> holds m j w \<or> m = n \<and> j = job" for m j
    using assms(4) by (auto simp: owns_def holds_def)
  have st: "job_status ?w = job_status w" by (simp add: job_status_def fun_eq_iff)
  have "\<forall>m i j. owns m i ?w \<longrightarrow> owns m j ?w \<longrightarrow> i = j"
    using assms(1,3) unfolding round_inv_def owns by metis
  moreover have "\<forall>m n job. owns m job ?w \<longrightarrow> owns n job ?w \<longrightarrow> m = n"
    using assms(1,4) unfolding round_inv_def owns by metis
  moreover have "\<forall>m job. owns m job ?w \<longrightarrow> m < k"
    using assms(1,2) unfolding round_inv_def owns by blast
  moreover have "\<forall>job st. job_status ?w job = Some st \<longrightarrow> st \<noteq> ''pending'' \<longrightarrow> (\<exists>m. owns m job ?w)"
    using assms(1) unfolding round_inv_def owns st by metis
  moreover have "map fst (jobs_rows ?w) = [1..int k]"
    "\<forall>m job. (m, job) \<in> set (commits ?w) \<longrightarrow> job_status ?w job = Some ''done''"
    using assms(1) unfolding round_inv_def st by simp_all
  ultimately have "round_inv k ?w" unfolding round_inv_def by blast
  then show ?thesis
    unfolding round_guar_def round_rely_def owns holds st by simp
qed

lemma round_guar_commit:
  assumes "claimed n job [job] w" "round_inv k w"
  shows "round_guar k n w (apply_writes n w) \<and> settled n (apply_writes n w) \<and> round_inv k (apply_writes n w)"
proof -
  let ?w = "apply_writes n w"
  note c = assms(1) [unfolded claimed_def]
  have holds: "holds m j ?w \<longleftrightarrow> m \<noteq> n \<and> holds m j w" for m j
    by (auto simp: apply_writes_def holds_def)
  have com: "set (commits ?w) = insert (n, job) (set (commits w))"
    using c by (auto simp: apply_writes_def)
  have st: "job_status ?w j = (if j = job then Some ''done'' else job_status w j)" for j
    using c by (auto simp: apply_writes_def job_status_def)
  have tx: "tx_writes ?w m = (if m = n then [] else tx_writes w m)" for m
    by (simp add: apply_writes_def)
  have keys: "map fst (jobs_rows ?w) = map fst (jobs_rows w)"
    by (simp add: apply_writes_def)
  have "owns n j w \<longleftrightarrow> j = job" for j
    using c assms(2) unfolding round_inv_def owns_def by metis
  then have own: "owns m j ?w \<longleftrightarrow> owns m j w" for m j
    unfolding owns_def holds com by auto
  have "\<forall>m j. (m, j) \<in> set (commits ?w) \<longrightarrow> job_status ?w j = Some ''done''"
    using assms(2) unfolding com st round_inv_def by simp
  moreover have "\<forall>j s. job_status ?w j = Some s \<longrightarrow> s \<noteq> ''pending'' \<longrightarrow> (\<exists>m. owns m j ?w)"
    using assms(2) \<open>\<And>j. owns n j w \<longleftrightarrow> j = job\<close> unfolding own st round_inv_def by metis
  ultimately have inv: "round_inv k ?w"
    using assms(2) unfolding round_inv_def own keys by blast
  moreover have "job_status ?w j = Some s" if "m \<noteq> n" "holds m j w" "job_status w j = Some s" for m j s
    using that c unfolding st holds_def by auto
  ultimately show ?thesis
    unfolding round_guar_def round_rely_def settled_def own holds tx by simp
qed

definition round_claimed :: "nat \<Rightarrow> nat \<Rightarrow> int \<Rightarrow> int list \<Rightarrow> 'z queue_db_scheme \<Rightarrow> bool" where
  "round_claimed k n job ws w \<longleftrightarrow> claimed n job ws w \<and> round_inv k w"

lemma round_claimed_rely: "round_claimed k n job ws w \<Longrightarrow> round_rely k n w w' \<Longrightarrow> round_claimed k n job ws w'"
  by (auto simp: round_claimed_def claimed_def round_rely_def)

lemma round_read:
  assumes "\<And>i w. snd (f i w) = w" "\<And>i w'. round_rely k n w w' \<Longrightarrow> calm i \<Longrightarrow> round_safe k n (t (fst (f i w'))) w'"
  shows "round_safe k n (atomically f t) w"
proof (rule safe_only_atomically)
  fix w' i b w''
  assume r: "round_rely k n w w'" "calm i" and f: "f i w' = (b, w'')"
  then have "b = fst (f i w')" "w'' = w'" using assms(1) [of i w'] by auto
  with assms(2) [OF r] show "round_guar k n w' w'' \<and> round_safe k n (t b) w''" by simp
qed

lemma round_commit:
  assumes "round_claimed k n job [job] w"
  shows "round_safe k n (atomically (Commit n) (\<lambda>r. case r of
         Some e \<Rightarrow> rolled_back n (Inl e)
       | None \<Rightarrow> rolled_back n (Inr \<lparr>JobID = job, Took = took\<rparr>))) w"
proof (rule safe_only_atomically)
  fix w' i b w''
  assume "round_rely k n w w'" and c: "calm i" "Commit n i w' = (b, w'')"
  then have "round_claimed k n job [job] w'" using assms by (blast intro: round_claimed_rely)
  then have "round_guar k n w' (apply_writes n w') \<and> settled n (apply_writes n w') \<and> round_inv k (apply_writes n w')"
    unfolding round_claimed_def using round_guar_commit by blast
  with c show "round_guar k n w' w'' \<and> round_safe k n (case b of
         Some e \<Rightarrow> rolled_back n (Inl e)
       | None \<Rightarrow> rolled_back n (Inr \<lparr>JobID = job, Took = took\<rparr>)) w''"
    by (auto simp: Commit_def calm_def intro: round_rolled_back)
qed

lemma round_finish_write:
  assumes "round_claimed k n job [] w" "calm i" "finishQuery n job i w = Some (r, w')"
  shows "r = None \<and> round_guar k n w w' \<and> round_claimed k n job [job] w'"
proof -
  from assms have r: "r = None" and w': "w' = w\<lparr>row_locks := (row_locks w)(job := Some n), tx_writes := (tx_writes w)(n := [job])\<rparr>"
    by (auto simp: finishQuery_def round_claimed_def claimed_def holds_def calm_def fault_err_def)
  have "(row_locks w)(job := Some n) = row_locks w"
    using assms(1) by (auto simp: round_claimed_def claimed_def holds_def)
  then have "row_locks w' = row_locks w" "jobs_rows w' = jobs_rows w" "commits w' = commits w"
    "tx_writes w' = (tx_writes w)(n := [job])"
    using w' by simp_all
  then show ?thesis using assms(1) r
    by (simp add: round_guar_def round_rely_def round_claimed_def claimed_def round_inv_def owns_def
        holds_def job_status_def)
qed

lemma round_finish_work:
  assumes "round_claimed k n job [] w"
  shows "round_safe k n (finish_work n workTime job took) w"
  unfolding finish_work_def
proof (rule round_read)
  fix i w'
  assume "round_rely k n w w'"
  then have c': "round_claimed k n job [] w'" using assms by (blast intro: round_claimed_rely)
  show "round_safe k n (waiting (finishQuery n job) (\<lambda>r. case r of
       Some e \<Rightarrow> rolled_back n (Inl e)
     | None \<Rightarrow> atomically (Commit n) (\<lambda>r. case r of
         Some e \<Rightarrow> rolled_back n (Inl e)
       | None \<Rightarrow> rolled_back n (Inr \<lparr>JobID = job, Took = took\<rparr>)))) w'"
  proof (rule safe_only_waiting)
    fix v j r v'
    assume v: "round_rely k n w' v" "calm j" "finishQuery n job j v = Some (r, v')"
    from round_finish_write [OF round_claimed_rely [OF c' v(1)] v(2,3)] round_commit
    show "round_guar k n v v' \<and> round_safe k n (case r of
       Some e \<Rightarrow> rolled_back n (Inl e)
     | None \<Rightarrow> atomically (Commit n) (\<lambda>r. case r of
         Some e \<Rightarrow> rolled_back n (Inl e)
       | None \<Rightarrow> rolled_back n (Inr \<lparr>JobID = job, Took = took\<rparr>))) v'"
      by auto
  qed
qed (simp add: time_Sleep_def)

lemma round_lock_row:
  assumes "unowned n (job # ids) k w" "n < k" "calm i" "lock_row n sql job i w = Some (r, w')"
  shows "round_guar k n w w' \<and> (r = Locked \<and> round_claimed k n job [] w' \<or> r = Passed \<and> unowned n ids k w')"
proof -
  have inv: "round_inv k w" and mine: "\<forall>j. \<not> owns n j w" using assms(1) by (auto simp: unowned_def)
  have no_fault: "fault_err (tick_fault i) = None" using assms(3) by (simp add: calm_def fault_err_def)
  have "row_locks w job \<noteq> Some n" using mine by (auto simp: owns_def holds_def)
  then consider (other) m where "holds m job w" "r = Passed" "w' = w"
    | (gone) "job_status w job \<noteq> Some ''pending''" "r = Passed" "w' = w"
    | (mine) "row_locks w job = None" "job_status w job = Some ''pending''" "r = Locked"
        "w' = w\<lparr>row_locks := (row_locks w)(job := Some n)\<rparr>"
    using assms(4) no_fault by (auto simp: lock_row_def holds_def split: if_splits claimSQL.splits)
  then show ?thesis
  proof cases
    case other
    then have "unowned n ids k w" using assms(1) unfolding unowned_def owns_def by (metis set_ConsD)
    with other show ?thesis by simp
  next
    case gone
    have "\<exists>m. owns m job w" if "1 \<le> job" "job \<le> int k"
    proof -
      from inv have "fst ` set (jobs_rows w) = {1..int k}"
        unfolding round_inv_def by (metis set_upto list.set_map)
      with that obtain st where "job_status w job = Some st"
        by (metis atLeastAtMost_iff job_status_def map_of_eq_None_iff not_Some_eq)
      with gone inv show ?thesis unfolding round_inv_def by metis
    qed
    then have "unowned n ids k w" using assms(1) unfolding unowned_def by (metis set_ConsD)
    with gone show ?thesis by simp
  next
    case mine
    have free: "\<forall>m. \<not> owns m job w"
      using inv mine unfolding round_inv_def owns_def holds_def by fastforce
    note g = round_guar_lock [OF inv assms(2) \<open>\<forall>j. \<not> owns n j w\<close> free]
    then have "round_inv k w'" using inv mine(4) unfolding round_guar_def round_rely_def by (metis n_not_Suc_n)
    with mine g assms(1) show ?thesis
      by (simp add: round_claimed_def claimed_def holds_def job_status_def unowned_def)
  qed
qed

lemma round_claim_query:
  assumes "n < k" "\<And>job w. round_claimed k n job [] w \<Longrightarrow> round_safe k n (t (Inr job)) w"
  shows "unowned n ids k w \<Longrightarrow> round_safe k n (claim_query n sql ids t) w"
proof (induction ids arbitrary: w)
  case Nil
  then show ?case using unowned_not_empty [OF _ assms(1)] by blast
next
  case (Cons job ids)
  show ?case
    unfolding claim_query.simps
  proof (rule safe_only_waiting)
    fix w1 i r w2
    assume "round_rely k n w w1" "calm i" "lock_row n sql job i w1 = Some (r, w2)"
    from round_lock_row [OF unowned_rely [OF Cons.prems this(1)] assms(1) this(2,3)]
    show "round_guar k n w1 w2 \<and> round_safe k n (case r of Locked \<Rightarrow> t (Inr job)
        | Passed \<Rightarrow> claim_query n sql ids t | LockFailed e \<Rightarrow> t (Inl (DbErr e))) w2"
      using assms(2) Cons.IH by auto
  qed
qed

lemma round_timed_work:
  assumes "round_claimed k n job [] w"
  shows "round_safe k n (atomically time_Now (\<lambda>now. finish_work n workTime job (now - start))) w"
  using assms by (intro round_read round_finish_work) (auto simp: time_Now_def intro: round_claimed_rely)

lemma unowned_snapshot:
  assumes "unowned n [1..int k] k w"
  shows "unowned n (fst (snapshot i w)) k w"
proof -
  have "\<exists>m. owns m job w" if job: "1 \<le> job" "job \<le> int k" "job \<notin> set (fst (snapshot i w))" for job
  proof -
    have inv: "round_inv k w" using assms by (simp add: unowned_def)
    then have "job \<in> fst ` set (jobs_rows w)"
      using job unfolding round_inv_def by (metis atLeastAtMost_iff set_upto list.set_map)
    then obtain st where st: "(job, st) \<in> set (jobs_rows w)" by auto
    moreover have "distinct (map fst (jobs_rows w))" using inv by (simp add: round_inv_def)
    ultimately have "job_status w job = Some st" by (simp add: job_status_def)
    moreover have "st \<noteq> ''pending''" using st job(3) by (force simp: snapshot_def)
    ultimately show ?thesis using inv unfolding round_inv_def by metis
  qed
  with assms show ?thesis by (auto simp: unowned_def)
qed

lemma round_Work:
  assumes "n < k" "unowned n [1..int k] k w"
  shows "round_safe k n (Work n sql workTime) w"
proof -
  have claim: "round_safe k n (atomically snapshot (\<lambda>ids. claim_query n sql ids (\<lambda>r. case r of
       Inl e \<Rightarrow> rolled_back n (Inl e)
     | Inr job \<Rightarrow> atomically time_Now (\<lambda>now. finish_work n workTime job (now - start))))) w"
    if "unowned n [1..int k] k w" for start and w :: "'a queue_db_scheme"
  proof (rule round_read)
    fix i w'
    assume "round_rely k n w w'"
    with that have "unowned n (fst (snapshot i w')) k w'" by (blast intro: unowned_snapshot unowned_rely)
    then show "round_safe k n (claim_query n sql (fst (snapshot i w')) (\<lambda>r. case r of
       Inl e \<Rightarrow> rolled_back n (Inl e)
     | Inr job \<Rightarrow> atomically time_Now (\<lambda>now. finish_work n workTime job (now - start)))) w'"
      by (intro round_claim_query assms(1)) (simp_all add: round_timed_work)
  qed (simp add: snapshot_def)
  have "round_safe k n (atomically time_Now (\<lambda>start. atomically snapshot (\<lambda>ids. claim_query n sql ids (\<lambda>r. case r of
       Inl e \<Rightarrow> rolled_back n (Inl e)
     | Inr job \<Rightarrow> atomically time_Now (\<lambda>now. finish_work n workTime job (now - start)))))) w"
    if "unowned n [1..int k] k w" for w :: "'a queue_db_scheme"
    using that by (intro round_read claim) (auto simp: time_Now_def intro: unowned_rely)
  then show ?thesis
    unfolding Work_def using assms(2)
    by (intro round_read) (auto simp: Begin_def calm_def fault_err_def intro: unowned_rely split: option.splits fault.splits)
qed

definition round_start :: "nat \<Rightarrow> 'z queue_db_scheme \<Rightarrow> 'z queue_db_scheme" where
  "round_start k w = w\<lparr>row_locks := Map.empty, tx_writes := (\<lambda>_. []), commits := [],
     jobs_rows := map (\<lambda>job. (job, ''pending'')) [1..int k], last_id := int k\<rparr>"

lemma round_start_unowned: "unowned n [1..int k] k (round_start k w)"
proof -
  have "map_of (map (\<lambda>job. (job, ''pending'')) xs) j = (if j \<in> set xs then Some ''pending'' else None)"
    for xs and j :: int by (induction xs) auto
  then show ?thesis
    by (auto simp: unowned_def round_inv_def round_start_def owns_def holds_def job_status_def comp_def split: if_splits)
qed

lemma runRound_start:
  assumes "calm i1" "calm i2"
  shows "runRound i1 i2 sched sql workTime k w =
    (case schedule sched (round_start k w, workers (\<lambda>_. sql) workTime k) of (w, ts) \<Rightarrow>
       ((case work_failures ts of
           e # _ \<Rightarrow> Some (Inl (PanicError (err_text e)))
         | [] \<Rightarrow> if finished (w, ts) then Some (Inr (claims_of ts)) else None), w))"
  using assms
  by (simp add: runRound_def truncate_jobs_def insert_pending_def round_start_def calm_def fault_err_def)

lemma quiescent_round_start: "quiescent (round_start k w)"
  by (auto simp: quiescent_def round_start_def queue_inv_def comp_def)

lemma length_claims:
  "finished (w, ts) \<Longrightarrow> work_failures ts = [] \<Longrightarrow> length (claims_of ts) = length ts"
  by (induction ts)
    (auto simp: finished_def work_failures_def claims_of_def claim_of_def List.map_filter_simps
      split: thread.splits sum.splits option.splits)

definition keys_kept :: "'z queue_db_scheme \<Rightarrow> 'z queue_db_scheme \<Rightarrow> bool" where
  "keys_kept w w' \<longleftrightarrow> map fst (jobs_rows w') = map fst (jobs_rows w)"

interpretation keys: rely_guarantee "\<lambda>_ _ _. True" "\<lambda>_. keys_kept" "\<lambda>_ _ _. False"
  by unfold_locales simp_all

abbreviation keys_safe :: "(tick, 'z queue_db_scheme, 'a) thread \<Rightarrow> 'z queue_db_scheme \<Rightarrow> bool" where
  "keys_safe \<equiv> safe (\<lambda>_ _. True) keys_kept (\<lambda>_ _. False) (\<lambda>_ _. True)"

lemma keys_atomically:
  assumes "\<And>i w. keys_kept w (snd (f i w))" "\<And>b w. keys_safe (k b) w"
  shows "keys_safe (atomically f k) w"
  using assms by (intro safe_atomically) (metis snd_conv)

lemma keys_waiting:
  assumes "\<And>i w b w'. f i w = Some (b, w') \<Longrightarrow> keys_kept w w'" "\<And>b w. keys_safe (k b) w"
  shows "keys_safe (waiting f k) w"
  using assms by (intro safe_waiting) auto

lemma keys_rolled_back: "keys_safe (rolled_back n r) w"
  unfolding rolled_back_def
  by (intro keys_atomically safe_Done) (simp_all add: Rollback_def keys_kept_def)

lemma keys_finish_work: "keys_safe (finish_work n workTime job took) w"
proof -
  have "keys_safe (case r of Some e \<Rightarrow> rolled_back n (Inl e) | None \<Rightarrow> rolled_back n (Inr c)) w"
    for r and c :: Claim and w :: "'a queue_db_scheme"
    by (cases r) (simp_all add: keys_rolled_back)
  then have "keys_safe (case r of Some e \<Rightarrow> rolled_back n (Inl e)
     | None \<Rightarrow> atomically (Commit n) (\<lambda>r. case r of Some e \<Rightarrow> rolled_back n (Inl e)
         | None \<Rightarrow> rolled_back n (Inr c))) w" for r and c :: Claim and w :: "'a queue_db_scheme"
    by (cases r) (auto intro!: keys_atomically keys_rolled_back
        simp: Commit_def keys_kept_def apply_writes_def split: fault.splits)
  then show ?thesis
    unfolding finish_work_def
    by (intro keys_atomically keys_waiting)
      (auto simp: time_Sleep_def keys_kept_def finishQuery_def split: option.splits if_splits)
qed

lemma keys_claim_query:
  "(\<And>r w. keys_safe (k r) w) \<Longrightarrow> keys_safe (claim_query n sql ids k) w"
proof (induction ids arbitrary: w)
  case (Cons job ids)
  have "keys_safe (case r of Locked \<Rightarrow> k (Inr job) | Passed \<Rightarrow> claim_query n sql ids k
      | LockFailed e \<Rightarrow> k (Inl (DbErr e))) w" for r w
    using Cons by (cases r) simp_all
  moreover have "keys_kept w w'" if "lock_row n sql job i w = Some (r, w')" for i r and w w' :: "'a queue_db_scheme"
    using that by (auto simp: lock_row_def keys_kept_def split: option.splits if_splits claimSQL.splits)
  ultimately show ?case by (auto intro: keys_waiting)
qed simp

lemma keys_Work: "keys_safe (Work n sql workTime) w"
proof -
  have "keys_safe (case r of Inl e \<Rightarrow> rolled_back n (Inl e)
      | Inr job \<Rightarrow> atomically time_Now (\<lambda>now. finish_work n workTime job (now - start))) w"
    for r start and w :: "'a queue_db_scheme"
    by (cases r) (auto intro!: keys_rolled_back keys_atomically keys_finish_work simp: time_Now_def keys_kept_def)
  then have "keys_safe (atomically time_Now (\<lambda>start. atomically snapshot (\<lambda>ids. claim_query n sql ids (\<lambda>r. case r of
       Inl e \<Rightarrow> rolled_back n (Inl e)
     | Inr job \<Rightarrow> atomically time_Now (\<lambda>now. finish_work n workTime job (now - start)))))) w"
    for w :: "'a queue_db_scheme"
    by (intro keys_atomically keys_claim_query) (simp_all add: time_Now_def snapshot_def keys_kept_def)
  then have "keys_safe (case r of Some e \<Rightarrow> Done (Inl e) | None \<Rightarrow>
     atomically time_Now (\<lambda>start. atomically snapshot (\<lambda>ids. claim_query n sql ids (\<lambda>r. case r of
       Inl e \<Rightarrow> rolled_back n (Inl e)
     | Inr job \<Rightarrow> atomically time_Now (\<lambda>now. finish_work n workTime job (now - start)))))) w"
    for r and w :: "'a queue_db_scheme"
    by (cases r) (simp_all add: safe_Done)
  then show ?thesis
    unfolding Work_def by (intro keys_atomically) (simp_all add: Begin_def keys_kept_def split: option.splits)
qed

lemma keys_reaches:
  assumes "reaches (w, workers sql workTime k) (w', ts)"
  shows "map fst (jobs_rows w') = map fst (jobs_rows w)"
proof -
  have "keys.all_safe (\<lambda>_ _ _. True) (w, workers sql workTime k)"
    by (simp add: keys.all_safe_def workers_def keys_Work)
  then have "keys_kept w (fst (w', ts))"
    by (rule keys.invariant [OF assms]) (simp_all add: keys_kept_def)
  then show ?thesis by (simp add: keys_kept_def)
qed

lemma failures_Done: "e \<in> set (work_failures ts) \<Longrightarrow> Done (Inl e) \<in> set ts"
  by (induction ts) (auto simp: work_failures_def List.map_filter_simps split: thread.splits sum.splits)

lemma failures_calm:
  assumes "list_all (\<lambda>s. calm (snd s)) sched"
    and "schedule sched (round_start k w, workers sql workTime k) = (w', ts)"
  shows "work_failures ts = []"
proof -
  let ?ts = "workers sql workTime k" and ?Q = "\<lambda>_ r _. is_ok r"
  have safe: "round.all_safe k ?Q (round_start k w, map (only calm) ?ts)"
    by (simp add: round.all_safe_def workers_def round_Work round_start_unowned)
  have reach: "reaches (round_start k w, map (only calm) ?ts) (w', map (only calm) ts)"
    using schedule_reaches [of "(round_start k w, map (only calm) ?ts)" sched]
      schedule_only [OF assms(1), of "round_start k w" ?ts] assms(2) by simp
  have ok: "is_ok r" if "n < length ts" "ts ! n = Done r" for n r
    using that round.post [OF reach safe, of n r] by simp
  show ?thesis
  proof (rule ccontr)
    assume "work_failures ts \<noteq> []"
    then obtain e where "e \<in> set (work_failures ts)" by (cases "work_failures ts") auto
    then have "Done (Inl e) \<in> set ts" by (rule failures_Done)
    then obtain n where "n < length ts" "ts ! n = Done (Inl e)" by (auto simp: in_set_conv_nth)
    then have "is_ok (Inl e :: (db_err, Claim) result)" by (rule ok)
    then show False by simp
  qed
qed

lemma distinct_subset_mset:
  "distinct xs \<Longrightarrow> distinct ys \<Longrightarrow> set xs \<subseteq> set ys \<Longrightarrow> length xs = length ys \<Longrightarrow> mset xs = mset ys"
  by (metis card_subset_eq distinct_card finite_set set_eq_iff_mset_eq_distinct)

lemma round_claims:
  assumes "schedule sched (round_start k w, workers sql workTime k) = (w', ts)"
    and "finished (w', ts)" "work_failures ts = []"
  shows "mset (map JobID (claims_of ts)) = mset [1..int k]
    \<and> list_all (\<lambda>c. job_status w' (JobID c) = Some ''done'') (claims_of ts)"
proof -
  have reach: "reaches (round_start k w, workers sql workTime k) (w', ts)"
    using schedule_reaches [of "(round_start k w, workers sql workTime k)" sched] assms(1) by simp
  note fin = claims_distinct_done [OF quiescent_round_start reach]
  have "map fst (jobs_rows w') = [1..int k]"
    using keys_reaches [OF reach] by (simp add: round_start_def comp_def)
  then have rows: "fst ` set (jobs_rows w') = set [1..int k]" by (metis list.set_map)
  have "JobID c \<in> set [1..int k]" if "c \<in> set (claims_of ts)" for c
  proof -
    from fin that have "map_of (jobs_rows w') (JobID c) \<noteq> None" by (simp add: list_all_iff job_status_def)
    then show ?thesis unfolding rows [symmetric] by (simp add: map_of_eq_None_iff)
  qed
  then have "set (map JobID (claims_of ts)) \<subseteq> set [1..int k]" by auto
  moreover have "length (claims_of ts) = k"
    using length_claims [OF assms(2,3)] reaches_length [OF reach] by (simp add: workers_def)
  ultimately have "mset (map JobID (claims_of ts)) = mset [1..int k]"
    using fin by (intro distinct_subset_mset) simp_all
  with fin show ?thesis by simp
qed
subsection \<open>What a round returns\<close>

lemma map_option_sum_Inr: "map_option (map_sum f g) x = Some (Inr y) \<Longrightarrow> \<exists>z. x = Some (Inr z)"
  by (cases x; cases "the x") auto

lemma runRound_Inr:
  assumes "runRound i1 i2 sched sql workTime k w = (Some (Inr cs), w')"
  shows "calm i1 \<and> calm i2"
  using assms by (auto simp: runRound_def truncate_jobs_def insert_pending_def calm_def fault_err_def
      split: fault.splits)

text \<open>
  A round that returns has handed out every job exactly once: the claims of the \<open>k\<close> workers
  are the jobs 1 to \<open>k\<close> in some order, and every one of them is done, for both claim queries and
  every interleaving.
\<close>

theorem runRound_claims_every_job:
  assumes "runRound i1 i2 sched sql workTime k w = (Some (Inr cs), w')"
  shows "mset (map JobID cs) = mset [1..int k]
    \<and> list_all (\<lambda>c. job_status w' (JobID c) = Some ''done'') cs"
proof -
  obtain v ts where s: "schedule sched (round_start k w, workers (\<lambda>_. sql) workTime k) = (v, ts)"
    by fastforce
  with assms runRound_start [of i1 i2 sched sql workTime k w] runRound_Inr [OF assms]
  have "v = w'" "finished (w', ts)" "work_failures ts = []" "cs = claims_of ts"
    by (auto split: list.splits if_splits)
  with s round_claims show ?thesis by metis
qed

definition demo_round :: "(panic, Claim list) result option \<times> queue_db" where
  "demo_round = runRound quiet_tick quiet_tick
     (turns ([0, 1, 0, 1, 0, 1, 0, 1] @ replicate 7 0 @ replicate 9 1)) SkipLockedQuery 100 2 two_jobs"

lemma demo_round_result: "\<exists>cs w. demo_round = (Some (Inr cs), w)"
proof -
  have "map_option (map_sum (\<lambda>_. ()) (map JobID)) (fst demo_round) = Some (Inr [1, 2])" by code_simp
  then obtain cs where "fst demo_round = Some (Inr cs)" using map_option_sum_Inr by metis
  then show ?thesis by (metis prod.collapse)
qed

theorem runRound_claims_every_job_witness:
  "\<exists>cs w. demo_round = (Some (Inr cs), w) \<and> mset (map JobID cs) = mset [1..int 2]"
proof -
  obtain cs w where r: "demo_round = (Some (Inr cs), w)" using demo_round_result by blast
  with runRound_claims_every_job [OF r [unfolded demo_round_def]] show ?thesis by blast
qed

text \<open>
  When no statement fails, a round never panics: as many jobs as workers are enough for
  every worker to find one, also with \<^verbatim>\<open>skip locked\<close> and although each worker looks only at the
  jobs that were pending when its query began. And every round that has begun can be run to the
  point where it returns its claims.
\<close>

theorem runRound_always_succeeds:
  assumes "calm i1" "calm i2" "list_all (\<lambda>e. calm (snd e)) sched"
  shows "(\<forall>p. fst (runRound i1 i2 sched sql workTime k w) \<noteq> Some (Inl p))
    \<and> (\<exists>sched' cs. list_all (\<lambda>e. calm (snd e)) sched'
         \<and> fst (runRound i1 i2 (sched @ sched') sql workTime k w) = Some (Inr cs))"
proof -
  let ?c = "(round_start k w, workers (\<lambda>_. sql) workTime k)"
  have ok: "work_failures (snd (schedule s ?c)) = []" if "list_all (\<lambda>e. calm (snd e)) s" for s
    using failures_calm [OF that] by (metis prod.collapse)
  have run: "fst (runRound i1 i2 s sql workTime k w) =
      (if finished (schedule s ?c) then Some (Inr (claims_of (snd (schedule s ?c)))) else None)"
    if "list_all (\<lambda>e. calm (snd e)) s" for s
    using ok [OF that] by (cases "schedule s ?c") (simp add: runRound_start assms(1,2))
  obtain w' ts where "schedule sched ?c = (w', ts)" by fastforce
  moreover from this have "reaches ?c (w', ts)" using schedule_reaches [of ?c sched] by simp
  ultimately obtain s' where s': "list_all (\<lambda>e. snd e = i1) s'" "finished (schedule (sched @ s') ?c)"
    using workers_finish [OF quiescent_round_start _ assms(1)] by (metis schedule_append)
  then have c: "list_all (\<lambda>e. calm (snd e)) s'" using assms(1) by (auto simp: list_all_iff)
  with assms(3) have "fst (runRound i1 i2 (sched @ s') sql workTime k w)
      = Some (Inr (claims_of (snd (schedule (sched @ s') ?c))))"
    using run [of "sched @ s'"] s'(2) by simp
  with c run [OF assms(3)] show ?thesis by auto
qed

theorem runRound_always_succeeds_witness:
  "\<exists>sched' cs. list_all (\<lambda>e. calm (snd e)) sched'
     \<and> fst (runRound quiet_tick quiet_tick (turns [0, 1, 0, 1, 0] @ sched') ClaimQuery 100 2 two_jobs) = Some (Inr cs)"
proof -
  have "calm quiet_tick" "list_all (\<lambda>e. calm (snd e)) (turns [0, 1, 0, 1, 0])"
    by (simp_all add: calm_def quiet_tick_def turns_def)
  from conjunct2 [OF runRound_always_succeeds [OF this(1,1,2), of ClaimQuery 100 2 two_jobs]] show ?thesis .
qed
end
