(* ===== verification/Job_Lesson.thy ===== *)
theory Job_Lesson
  imports Job_Rounds
begin

section \<open>The job-queue experiment\<close>

text \<open>
  \<^verbatim>\<open>main\<close> of \<^verbatim>\<open>lessons/go/background-job-queue/main.go\<close>: the connections, the table, one untimed round
  per mode, then five trials of every mode and worker count. What the environment does is in
  \<open>main_inputs\<close>: the answers to the connections and statements, and for each round the order in which
  the workers' calls take effect. The CSV rows are the fields given to the writer; \<open>fmt\<close> prints a
  duration in milliseconds; the printed progress lines are left out. \<^term>\<open>None\<close> is a run that has
  not ended yet.
\<close>

definition trials :: int where
  "trials = 5"

definition workTime_ns :: int where
  "workTime_ns = 100 * 1000000"

definition workerCounts :: "nat list" where
  "workerCounts = [1, 2, 4, 8]"

definition queue_modes :: "(string \<times> claimSQL) list" where
  "queue_modes = [(''blocking'', ClaimQuery), (''skip_locked'', SkipLockedQuery)]"

record round_inputs =
  ri_truncate :: tick
  ri_insert :: tick
  ri_sched :: "(nat \<times> tick) list"

record main_inputs =
  mi_connect :: "nat \<Rightarrow> string option"
  mi_schema :: tick
  mi_warm :: "string \<Rightarrow> round_inputs"
  mi_create :: "string option"
  mi_round :: "string \<Rightarrow> nat \<Rightarrow> int \<Rightarrow> round_inputs"

definition round_with :: "round_inputs \<Rightarrow> claimSQL \<Rightarrow> nat \<Rightarrow> queue_db \<Rightarrow> (panic, Claim list) result option \<times> queue_db" where
  "round_with ri sql k w = runRound (ri_truncate ri) (ri_insert ri) (ri_sched ri) sql workTime_ns k w"

text \<open>Dropping and creating the table: no rows, and the identity starts again.\<close>

definition create_table :: "tick \<Rightarrow> queue_db \<Rightarrow> string option \<times> queue_db" where
  "create_table i w = truncate_jobs i w"

text \<open>The first connection that cannot be opened panics; connection 0 is the administrator's.\<close>

definition connect_all :: "(nat \<Rightarrow> string option) \<Rightarrow> nat \<Rightarrow> (panic, unit) result" where
  "connect_all connect k = (case List.map_filter connect [0..<Suc k] of e # _ \<Rightarrow> Inl (PanicError e) | [] \<Rightarrow> Inr ())"

fun warm_rounds :: "main_inputs \<Rightarrow> (string \<times> claimSQL) list \<Rightarrow> queue_db \<Rightarrow> (panic, unit) result option \<times> queue_db" where
  "warm_rounds mi [] w = (Some (Inr ()), w)"
| "warm_rounds mi ((name, sql) # ms) w = (case round_with (mi_warm mi name) sql (last workerCounts) w of
       (None, w) \<Rightarrow> (None, w)
     | (Some (Inl p), w) \<Rightarrow> (Some (Inl p), w)
     | (Some (Inr _), w) \<Rightarrow> warm_rounds mi ms w)"

definition claim_row :: "(int \<Rightarrow> string) \<Rightarrow> string \<Rightarrow> nat \<Rightarrow> int \<Rightarrow> nat \<times> Claim \<Rightarrow> string list" where
  "claim_row fmt name n trial e = [name, Itoa (int n), Itoa trial, Itoa (int (fst e) + 1), fmt (Took (snd e)), Itoa (JobID (snd e))]"

definition planned_rounds :: "(string \<times> claimSQL \<times> nat \<times> int) list" where
  "planned_rounds = concat (map (\<lambda>(name, sql). concat (map (\<lambda>n. map (\<lambda>trial. (name, sql, n, trial)) [1..trials]) workerCounts)) queue_modes)"

fun measured_rounds :: "(int \<Rightarrow> string) \<Rightarrow> main_inputs \<Rightarrow> (string \<times> claimSQL \<times> nat \<times> int) list \<Rightarrow> queue_db
    \<Rightarrow> (panic, string list list) result option \<times> queue_db" where
  "measured_rounds fmt mi [] w = (Some (Inr []), w)"
| "measured_rounds fmt mi ((name, sql, n, trial) # rs) w = (case round_with (mi_round mi name n trial) sql n w of
       (None, w) \<Rightarrow> (None, w)
     | (Some (Inl p), w) \<Rightarrow> (Some (Inl p), w)
     | (Some (Inr claims), w) \<Rightarrow> (case measured_rounds fmt mi rs w of
         (Some (Inr rows), w) \<Rightarrow> (Some (Inr (map (claim_row fmt name n trial) (enumerate 0 claims) @ rows)), w)
       | other \<Rightarrow> other))"

definition claim_columns :: "string list" where
  "claim_columns = [''mode'', ''workers'', ''trial'', ''worker'', ''claim_ms'', ''claimed_job'']"

definition queue_main :: "(int \<Rightarrow> string) \<Rightarrow> main_inputs \<Rightarrow> queue_db \<Rightarrow> (panic, string list list) result option \<times> queue_db" where
  "queue_main fmt mi w = (case connect_all (mi_connect mi) (last workerCounts) of
       Inl p \<Rightarrow> (Some (Inl p), w)
     | Inr _ \<Rightarrow> (case create_table (mi_schema mi) w of
         (Some e, w) \<Rightarrow> (Some (Inl (PanicError e)), w)
       | (None, w) \<Rightarrow> (case warm_rounds mi queue_modes w of
           (None, w) \<Rightarrow> (None, w)
         | (Some (Inl p), w) \<Rightarrow> (Some (Inl p), w)
         | (Some (Inr _), w) \<Rightarrow> (case mi_create mi of
             Some e \<Rightarrow> (Some (Inl (PanicError e)), w)
           | None \<Rightarrow> (case measured_rounds fmt mi planned_rounds w of
               (Some (Inr rows), w) \<Rightarrow> (Some (Inr (claim_columns # rows)), w)
             | other \<Rightarrow> other)))))"

lemma connect_all_ok: "\<forall>n. connect n = None \<Longrightarrow> connect_all connect k = Inr ()"
  by (simp add: connect_all_def List.map_filter_def)

subsection \<open>What the experiment measures\<close>

text \<open>The rows of one round: one per worker in order, and the jobs in some order.\<close>

definition round_rows :: "string \<times> claimSQL \<times> nat \<times> int \<Rightarrow> string list list \<Rightarrow> bool" where
  "round_rows r rows = (case r of (name, sql, n, trial) \<Rightarrow>
     map (take 4) rows = map (\<lambda>w. [name, Itoa (int n), Itoa trial, Itoa (int w + 1)]) [0..<n]
     \<and> mset (map (drop 5) rows) = mset (map (\<lambda>job. [Itoa job]) [1..int n]))"

lemma claim_rows:
  assumes "mset (map JobID cs) = mset [1..int n]"
  shows "round_rows (name, sql, n, trial) (map (claim_row fmt name n trial) (enumerate 0 cs))"
proof -
  have len: "length cs = n" using arg_cong [OF assms, of size] by simp
  have "map (take 4) (map (claim_row fmt name n trial) es) = map (\<lambda>w. [name, Itoa (int n), Itoa trial, Itoa (int w + 1)]) (map fst es)"
    "map (drop 5) (map (claim_row fmt name n trial) es) = map (\<lambda>job. [Itoa job]) (map JobID (map snd es))" for es
    by (simp_all add: claim_row_def)
  note cols = this [of "enumerate 0 cs"]
  have "mset (map (\<lambda>job. [Itoa job]) (map JobID cs)) = mset (map (\<lambda>job. [Itoa job]) [1..int n])"
    using assms by (simp only: mset_map)
  with cols show ?thesis unfolding round_rows_def by (simp only: map_snd_enumerate map_fst_enumerate len prod.case add_0)
qed

lemma measured_rounds_rows:
  "measured_rounds fmt mi rs w = (Some (Inr rows), w') \<Longrightarrow> \<exists>blocks. rows = concat blocks \<and> list_all2 round_rows rs blocks"
proof (induction rs arbitrary: w rows)
  case (Cons r rs)
  obtain name sql n trial where r: "r = (name, sql, n, trial)" by (cases r) auto
  from Cons.prems obtain claims w1 rest where
    c: "round_with (mi_round mi name n trial) sql n w = (Some (Inr claims), w1)"
    and rest: "measured_rounds fmt mi rs w1 = (Some (Inr rest), w')"
    and rows: "rows = map (claim_row fmt name n trial) (enumerate 0 claims) @ rest"
    by (auto simp: r split: prod.splits option.splits sum.splits)
  from Cons.IH [OF rest] obtain blocks where "rest = concat blocks" "list_all2 round_rows rs blocks" by blast
  moreover have "round_rows r (map (claim_row fmt name n trial) (enumerate 0 claims))"
    unfolding r using runRound_claims_every_job [OF c [unfolded round_with_def]] by (intro claim_rows) blast
  ultimately show ?case using rows by (intro exI [of _ "map (claim_row fmt name n trial) (enumerate 0 claims) # blocks"]) simp
qed simp

text \<open>
  C15. When the job-queue experiment returns, its measurements are the header and one block of rows for every
  round of every mode, worker count and trial in order; each block has one row per worker and
  its claimed jobs are the jobs 1 to n, each exactly once, whatever the interleaving of the workers.
\<close>

theorem queue_main_measures:
  assumes "queue_main fmt mi w = (Some (Inr rows), w')"
  shows "\<exists>blocks. rows = claim_columns # concat blocks \<and> list_all2 round_rows planned_rounds blocks"
  using assms measured_rounds_rows [of fmt mi planned_rounds]
  by (fastforce simp: queue_main_def split: prod.splits option.splits sum.splits)


definition calm_round :: "round_inputs \<Rightarrow> bool" where
  "calm_round ri \<longleftrightarrow> calm (ri_truncate ri) \<and> calm (ri_insert ri) \<and> list_all (\<lambda>e. calm (snd e)) (ri_sched ri)"

definition calm_inputs :: "main_inputs \<Rightarrow> bool" where
  "calm_inputs mi \<longleftrightarrow> (\<forall>n. mi_connect mi n = None) \<and> calm (mi_schema mi) \<and> mi_create mi = None
     \<and> (\<forall>name. calm_round (mi_warm mi name)) \<and> (\<forall>name n trial. calm_round (mi_round mi name n trial))"

lemma calm_round_no_panic: "calm_round ri \<Longrightarrow> round_with ri sql k w \<noteq> (Some (Inl p), w')"
  using runRound_always_succeeds [of "ri_truncate ri" "ri_insert ri" "ri_sched ri" sql workTime_ns k w]
  by (auto simp: calm_round_def round_with_def)

lemma warm_no_panic: "calm_inputs mi \<Longrightarrow> warm_rounds mi ms w \<noteq> (Some (Inl p), w')"
proof (induction ms arbitrary: w)
  case (Cons m ms)
  have "round_with (mi_warm mi name) sql k w \<noteq> (Some (Inl q), w1)" for name sql k q w1
    using Cons.prems by (intro calm_round_no_panic) (simp add: calm_inputs_def)
  with Cons show ?case by (cases m) (auto split: prod.splits option.splits sum.splits)
qed simp

lemma measured_no_panic: "calm_inputs mi \<Longrightarrow> measured_rounds fmt mi rs w \<noteq> (Some (Inl p), w')"
proof (induction rs arbitrary: w)
  case (Cons r rs)
  have "round_with (mi_round mi name n trial) sql n w \<noteq> (Some (Inl q), w1)" for name sql n trial q w1
    using Cons.prems by (intro calm_round_no_panic) (simp add: calm_inputs_def)
  with Cons show ?case by (cases r) (auto split: prod.splits option.splits sum.splits)
qed simp

lemma round_start_same: "round_start k (w :: queue_db) = round_start k v"
  by (cases w; cases v) (simp add: round_start_def)

lemma round_inputs_exist:
  "\<exists>ri. calm_round ri \<and> (\<forall>w. \<exists>cs w'. round_with ri sql k w = (Some (Inr cs), w'))"
proof -
  have q: "calm quiet_tick" by (simp add: calm_def quiet_tick_def)
  obtain sched cs where s: "list_all (\<lambda>e. calm (snd e)) sched"
    "fst (runRound quiet_tick quiet_tick sched sql workTime_ns k two_jobs) = Some (Inr cs)"
    using runRound_always_succeeds [OF q q, of "[]" sql workTime_ns k two_jobs] by auto
  have same: "runRound quiet_tick quiet_tick sched sql workTime_ns k w = runRound quiet_tick quiet_tick sched sql workTime_ns k two_jobs" for w :: queue_db
    unfolding runRound_start [OF q q] round_start_same [of k w two_jobs] ..
  let ?ri = "\<lparr>ri_truncate = quiet_tick, ri_insert = quiet_tick, ri_sched = sched\<rparr>"
  have "\<exists>cs w'. round_with ?ri sql k w = (Some (Inr cs), w')" for w
    using s(2) same [of w] by (simp add: round_with_def prod_eq_iff) 
  with q s(1) show ?thesis by (intro exI [of _ ?ri]) (simp add: calm_round_def)
qed

lemma warm_returns:
  "(\<And>m w. m \<in> set ms \<Longrightarrow> \<exists>cs w'. round_with (mi_warm mi (fst m)) (snd m) (last workerCounts) w = (Some (Inr cs), w')) \<Longrightarrow>
   \<exists>w'. warm_rounds mi ms w = (Some (Inr ()), w')"
proof (induction ms arbitrary: w)
  case (Cons m ms)
  obtain name sql where m: "m = (name, sql)" by (cases m)
  obtain cs w1 where "round_with (mi_warm mi name) sql (last workerCounts) w = (Some (Inr cs), w1)"
    using Cons.prems [of m w] by (auto simp: m)
  with Cons show ?case by (simp add: m)
qed simp

lemma measured_returns:
  "(\<And>name sql n trial w. (name, sql, n, trial) \<in> set rs \<Longrightarrow> \<exists>cs w'. round_with (mi_round mi name n trial) sql n w = (Some (Inr cs), w')) \<Longrightarrow>
   \<exists>rows w'. measured_rounds fmt mi rs w = (Some (Inr rows), w')"
proof (induction rs arbitrary: w)
  case (Cons r rs)
  obtain name sql n trial where r: "r = (name, sql, n, trial)" by (cases r) auto
  obtain cs w1 where "round_with (mi_round mi name n trial) sql n w = (Some (Inr cs), w1)"
    using Cons.prems [of name sql n trial w] by (auto simp: r)
  moreover obtain rows w2 where "measured_rounds fmt mi rs w1 = (Some (Inr rows), w2)"
    using Cons.IH [of w1] Cons.prems by (metis list.set_intros(2))
  ultimately show ?case by (simp add: r)
qed simp

lemma queue_main_returns: "\<exists>mi. calm_inputs mi \<and> (\<forall>fmt w. \<exists>rows w'. queue_main fmt mi w = (Some (Inr rows), w'))"
proof -
  obtain R where R: "\<And>sql k. calm_round (R sql k)" "\<And>sql k w. \<exists>cs w'. round_with (R sql k) sql k w = (Some (Inr cs), w')"
    using round_inputs_exist by metis
  define sql_of where "sql_of name = the (map_of queue_modes name)" for name
  let ?mi = "\<lparr>mi_connect = \<lambda>_. None, mi_schema = quiet_tick, mi_warm = \<lambda>name. R (sql_of name) (last workerCounts),
    mi_create = None, mi_round = \<lambda>name n trial. R (sql_of name) n\<rparr>"
  have sql: "sql_of name = sql" if "(name, sql) \<in> set queue_modes" for name sql
    using that by (auto simp: sql_of_def queue_modes_def)
  have calm: "calm_inputs ?mi" by (simp add: calm_inputs_def R(1) calm_def quiet_tick_def)
  have "\<exists>rows w'. queue_main fmt ?mi w = (Some (Inr rows), w')" for fmt w
  proof -
    obtain w1 where w1: "create_table quiet_tick w = (None, w1)"
      by (auto simp: create_table_def truncate_jobs_def quiet_tick_def fault_err_def)
    obtain w2 where w2: "warm_rounds ?mi queue_modes w1 = (Some (Inr ()), w2)"
      using warm_returns [of queue_modes ?mi w1] R(2) sql by auto
    have "(name, sql) \<in> set queue_modes" if "(name, sql, n, trial) \<in> set planned_rounds" for name sql n trial
      using that by (auto simp: planned_rounds_def)
    then obtain rows w3 where "measured_rounds fmt ?mi planned_rounds w2 = (Some (Inr rows), w3)"
      using measured_returns [of planned_rounds ?mi fmt w2] R(2) sql by (metis main_inputs.select_convs(5))
    with w1 w2 show ?thesis by (simp add: queue_main_def connect_all_ok)
  qed
  with calm show ?thesis by blast
qed

text \<open>
  C16. The job-queue experiment succeeds: when no connection, statement or file operation fails it
  never panics, from whatever table it starts, and its rounds can be run to the point where all
  measurements are there.
\<close>

theorem queue_main_succeeds:
  "(calm_inputs mi \<longrightarrow> queue_main fmt mi w \<noteq> (Some (Inl p), w'))
   \<and> (\<exists>mi. calm_inputs mi \<and> (\<exists>rows w'. queue_main fmt mi w = (Some (Inr rows), w')))"
proof -
  have "queue_main fmt mi w \<noteq> (Some (Inl p), w')" if c: "calm_inputs mi"
  proof -
    have "connect_all (mi_connect mi) k = Inr ()" for k
      using c by (simp add: connect_all_ok calm_inputs_def)
    moreover have "fst (create_table (mi_schema mi) w) = None"
      using c by (simp add: calm_inputs_def create_table_def truncate_jobs_def calm_def fault_err_def)
    ultimately show ?thesis
      using c warm_no_panic [OF c] measured_no_panic [OF c]
      by (auto simp: queue_main_def calm_inputs_def split: prod.splits option.splits sum.splits)
  qed
  with queue_main_returns show ?thesis by blast
qed

theorem queue_main_measures_witness:
  "\<exists>mi rows w' blocks. queue_main Itoa mi two_jobs = (Some (Inr rows), w') \<and> rows = claim_columns # concat blocks
     \<and> list_all2 round_rows planned_rounds blocks"
proof -
  obtain mi rows w' where "queue_main Itoa mi two_jobs = (Some (Inr rows), w')" using queue_main_returns by blast
  with queue_main_measures [OF this] show ?thesis by blast
qed

theorem queue_main_succeeds_witness:
  "\<exists>mi. queue_main Itoa mi two_jobs \<noteq> (Some (Inl PanicIndex), two_jobs)"
proof -
  obtain mi where "calm_inputs mi" using queue_main_returns by blast
  with queue_main_succeeds [of mi Itoa two_jobs PanicIndex two_jobs] show ?thesis by blast
qed

end
