(* ===== verification/Job_Server.thy ===== *)
theory Job_Server
  imports Job_Queue
begin

section \<open>The job queue's HTTP adapter\<close>

text \<open>
  \<^verbatim>\<open>lessons/go/background-job-queue/perf/main.go\<close>: one queue per claim mode, each with its own
  schema and pool, the handlers of \<^verbatim>\<open>POST /operation\<close> and \<^verbatim>\<open>GET /stats\<close>, and the counters they
  share. A request is a thread, and its number names its transaction: the pool hands a
  connection to one request at a time. Each atomic counter and each critical section of the
  mutex is one call; the counters cannot overflow, as at most 100000 operations are let in.
  \<open>q_recorders\<close> is the history of the requests that have recorded a claim; no handler reads it.
\<close>

record queue =
  q_db :: queue_db
  q_enqueued :: int
  q_empty :: int
  q_failed :: int
  q_claims :: int
  q_jobs :: "int list"
  q_recorders :: "nat list"

record server =
  sv_blocking :: queue
  sv_skip_locked :: queue

definition enqueue :: "tick \<Rightarrow> queue \<Rightarrow> string option \<times> queue" where
  "enqueue i q =
     (let new = last_id (q_db q) + 1;
          q' = q\<lparr>q_db := q_db q\<lparr>jobs_rows := jobs_rows (q_db q) @ [(new, ''pending'')], last_id := new\<rparr>\<rparr>
      in case tick_fault i of
           Fine \<Rightarrow> (None, q')
         | Fails e \<Rightarrow> (Some e, q)
         | FailsApplied e \<Rightarrow> (Some e, q'))"

definition enqueued_Add :: "tick \<Rightarrow> queue \<Rightarrow> unit \<times> queue" where
  "enqueued_Add i q = ((), q\<lparr>q_enqueued := q_enqueued q + 1\<rparr>)"

definition empty_Add :: "tick \<Rightarrow> queue \<Rightarrow> unit \<times> queue" where
  "empty_Add i q = ((), q\<lparr>q_empty := q_empty q + 1\<rparr>)"

definition failed_Add :: "tick \<Rightarrow> queue \<Rightarrow> unit \<times> queue" where
  "failed_Add i q = ((), q\<lparr>q_failed := q_failed q + 1\<rparr>)"

definition record_claim :: "nat \<Rightarrow> Claim \<Rightarrow> tick \<Rightarrow> queue \<Rightarrow> unit \<times> queue" where
  "record_claim n claim i q = ((), q\<lparr>q_claims := q_claims q + 1,
     q_jobs := List.insert (JobID claim) (q_jobs q), q_recorders := n # q_recorders q\<rparr>)"

definition answer :: "nat \<Rightarrow> string \<Rightarrow> (db_err, Claim) result \<Rightarrow> (tick, queue, Response) thread" where
  "answer n name r = (case r of
       Inl ErrNoRows \<Rightarrow> atomically empty_Add (\<lambda>_. Done (Fail 409 ''no pending job to claim''))
     | Inl (DbErr e) \<Rightarrow> atomically failed_Add (\<lambda>_. Done (Fail 503 e))
     | Inr claim \<Rightarrow> atomically (record_claim n claim) (\<lambda>_.
         Done (JSON 200 (JObject [(''variant'', JString name), (''job_id'', JInt (JobID claim)),
           (''elapsed_ms'', JMs (Took claim))]))))"

definition operation_on :: "nat \<Rightarrow> string \<Rightarrow> claimSQL \<Rightarrow> int \<Rightarrow> (tick, queue, Response) thread" where
  "operation_on n name sql workTime = atomically enqueue (\<lambda>r. case r of
       Some e \<Rightarrow> atomically failed_Add (\<lambda>_. Done (Fail 503 e))
     | None \<Rightarrow> atomically enqueued_Add (\<lambda>_.
         and_then (zoom q_db (\<lambda>d q. q\<lparr>q_db := d\<rparr>) (Work n sql workTime)) (answer n name)))"

definition on_blocking :: "(tick, queue, 'a) thread \<Rightarrow> (tick, server, 'a) thread" where
  "on_blocking = zoom sv_blocking (\<lambda>q s. s\<lparr>sv_blocking := q\<rparr>)"

definition on_skip_locked :: "(tick, queue, 'a) thread \<Rightarrow> (tick, server, 'a) thread" where
  "on_skip_locked = zoom sv_skip_locked (\<lambda>q s. s\<lparr>sv_skip_locked := q\<rparr>)"

definition dispatch :: "nat \<Rightarrow> string \<Rightarrow> int \<Rightarrow> (tick, server, Response) thread" where
  "dispatch n variant workTime =
     (if variant = ''blocking'' then on_blocking (operation_on n ''blocking'' ClaimQuery workTime)
      else if variant = ''skip_locked''
      then on_skip_locked (operation_on n ''skip_locked'' SkipLockedQuery workTime)
      else Done (Fail 400 ''variant must be blocking or skip_locked''))"

definition operation :: "nat \<Rightarrow> string \<Rightarrow> int \<Rightarrow> (tick, 64 word \<times> server, Response) thread" where
  "operation n variant workTime = Limit 100000 (dispatch n variant workTime)"

definition count_status :: "string \<Rightarrow> queue_db \<Rightarrow> int" where
  "count_status st w = int (length (filter (\<lambda>r. snd r = st) (jobs_rows w)))"

definition count_jobs :: "tick \<Rightarrow> queue \<Rightarrow> (string, int \<times> int) result \<times> queue" where
  "count_jobs i q = (case fault_err (tick_fault i) of
       Some e \<Rightarrow> (Inl e, q)
     | None \<Rightarrow> (Inr (count_status ''done'' (q_db q), count_status ''pending'' (q_db q)), q))"

definition read_claims :: "tick \<Rightarrow> queue \<Rightarrow> (int \<times> int) \<times> queue" where
  "read_claims i q = ((q_claims q, int (length (q_jobs q))), q)"

definition stats_row :: "string \<Rightarrow> (tick, queue, (string, jvalue) result) thread" where
  "stats_row name = atomically count_jobs (\<lambda>r. case r of
       Inl e \<Rightarrow> Done (Inl e)
     | Inr (n_done, n_pending) \<Rightarrow> atomically read_claims (\<lambda>(claims, distinct).
         atomically (load q_enqueued) (\<lambda>enqueued. atomically (load q_empty) (\<lambda>empty. atomically (load q_failed) (\<lambda>failed.
           Done (Inr (JObject [(''variant'', JString name), (''enqueued'', JInt enqueued),
             (''claims'', JInt claims), (''distinct_jobs'', JInt distinct), (''done'', JInt n_done),
             (''pending'', JInt n_pending), (''empty_claims'', JInt empty),
             (''failed_requests'', JInt failed)])))))))"

definition stats :: "(tick, server, Response) thread" where
  "stats = and_then (on_blocking (stats_row ''blocking'')) (\<lambda>r. case r of
       Inl e \<Rightarrow> Done (Fail 503 e)
     | Inr row1 \<Rightarrow> and_then (on_skip_locked (stats_row ''skip_locked'')) (\<lambda>r. case r of
         Inl e \<Rightarrow> Done (Fail 503 e)
       | Inr row2 \<Rightarrow> Done (JSON 200 (JObject [(''variants'', JArray [row1, row2])]))))"

datatype request = Operation string | Stats

definition handle :: "int \<Rightarrow> nat \<Rightarrow> request \<Rightarrow> (tick, 64 word \<times> server, Response) thread" where
  "handle workTime n r = (case r of
       Operation variant \<Rightarrow> operation n variant workTime
     | Stats \<Rightarrow> zoom snd (\<lambda>w s. (fst s, w)) stats)"

subsection \<open>The counters and the table\<close>

definition stats_inv :: "queue \<Rightarrow> bool" where
  "stats_inv q \<longleftrightarrow> queue_inv (q_db q) \<and> distinct (q_jobs q) \<and> q_claims q = int (length (q_jobs q))
     \<and> (\<forall>job \<in> set (q_jobs q). \<exists>m \<in> set (q_recorders q). (m, job) \<in> set (commits (q_db q)))"

definition request_rely :: "nat \<Rightarrow> queue \<Rightarrow> queue \<Rightarrow> bool" where
  "request_rely n q q' \<longleftrightarrow> queue_rely n (q_db q) (q_db q')
     \<and> (n \<in> set (q_recorders q') \<longleftrightarrow> n \<in> set (q_recorders q)) \<and> (stats_inv q \<longrightarrow> stats_inv q')"

definition request_guar :: "nat \<Rightarrow> queue \<Rightarrow> queue \<Rightarrow> bool" where
  "request_guar n q q' \<longleftrightarrow> (\<forall>m. m \<noteq> n \<longrightarrow> request_rely m q q')"

lemma request_rely_refl [simp]: "request_rely n q q"
  by (simp add: request_rely_def queue_rely_def)

lemma request_rely_trans: "request_rely n q q' \<Longrightarrow> request_rely n q' q'' \<Longrightarrow> request_rely n q q''"
  by (auto simp: request_rely_def intro: queue.rely_trans)

lemma request_guar_refl [simp]: "request_guar n q q"
  by (simp add: request_guar_def)

definition queues_rely :: "nat \<Rightarrow> server \<Rightarrow> server \<Rightarrow> bool" where
  "queues_rely n s s' \<longleftrightarrow> request_rely n (sv_blocking s) (sv_blocking s')
     \<and> request_rely n (sv_skip_locked s) (sv_skip_locked s')"

definition queues_guar :: "nat \<Rightarrow> server \<Rightarrow> server \<Rightarrow> bool" where
  "queues_guar n s s' \<longleftrightarrow> (\<forall>m. m \<noteq> n \<longrightarrow> queues_rely m s s')"

interpretation server: rely_guarantee
  "\<lambda>n s s'. queues_rely n (snd s) (snd s')" "\<lambda>n s s'. queues_guar n (snd s) (snd s')" "\<lambda>_ _ _. False"
  by unfold_locales (auto simp: queues_rely_def queues_guar_def intro: request_rely_trans)

definition fresh :: "nat \<Rightarrow> queue \<Rightarrow> bool" where
  "fresh n q \<longleftrightarrow> idle n (q_db q) \<and> n \<notin> set (q_recorders q) \<and> stats_inv q"

lemma fresh_rely: "fresh n q \<Longrightarrow> request_rely n q q' \<Longrightarrow> fresh n q'"
  by (auto simp: fresh_def request_rely_def intro: idle_rely)

abbreviation queue_request_safe :: "nat \<Rightarrow> ('a \<Rightarrow> queue \<Rightarrow> bool) \<Rightarrow> (tick, queue, 'a) thread \<Rightarrow> queue \<Rightarrow> bool" where
  "queue_request_safe n Q \<equiv> safe (request_rely n) (request_guar n) (\<lambda>_ _. False) Q"

lemma guar_counter:
  assumes "q_db q' = q_db q" "q_claims q' = q_claims q" "q_jobs q' = q_jobs q" "q_recorders q' = q_recorders q"
  shows "request_guar n q q'"
  using assms by (simp add: request_guar_def request_rely_def stats_inv_def queue_rely_def)

lemma counter_then_Done:
  assumes "\<And>i q. q_db (snd (f i q)) = q_db q" "\<And>i q. q_claims (snd (f i q)) = q_claims q"
    "\<And>i q. q_jobs (snd (f i q)) = q_jobs q" "\<And>i q. q_recorders (snd (f i q)) = q_recorders q"
  shows "queue_request_safe n (\<lambda>_ _. True) (atomically f (\<lambda>_. Done r)) q"
  using assms by (intro safe_atomically conjI safe_Done guar_counter) (metis snd_conv)+

lemma guar_enqueue: "request_guar n q (snd (enqueue i q))"
proof -
  let ?w = "q_db q" and ?new = "last_id (q_db q) + 1"
  let ?w' = "?w\<lparr>jobs_rows := jobs_rows ?w @ [(?new, ''pending'')], last_id := ?new\<rparr>"
  have st: "job_status ?w job = Some st \<Longrightarrow> job_status ?w' job = Some st" for job st
    by (simp add: job_status_def map_add_Some_iff)
  have "queue_inv ?w \<Longrightarrow> queue_inv ?w'"
    using st by (fastforce simp: queue_inv_def)
  with st have "queue_rely m ?w ?w'" for m
    by (auto simp: queue_rely_def holds_def)
  with \<open>queue_inv ?w \<Longrightarrow> queue_inv ?w'\<close> have "request_guar n q (q\<lparr>q_db := ?w'\<rparr>)"
    by (simp add: request_guar_def request_rely_def stats_inv_def)
  then show ?thesis by (simp add: enqueue_def Let_def split: fault.splits)
qed

lemma fresh_enqueue: "fresh n q \<Longrightarrow> fresh n (snd (enqueue i q))"
  using guar_enqueue [of "Suc n" q i] unfolding request_guar_def
  by (auto simp: fresh_rely)

lemma guar_record:
  assumes "(n, JobID c) \<in> set (commits (q_db q))" "n \<notin> set (q_recorders q)" "stats_inv q"
  shows "request_guar n q (snd (record_claim n c i q))"
proof -
  have "inj_on snd (set (commits (q_db q)))" using assms(3) by (simp add: stats_inv_def queue_inv_def distinct_map)
  then have "JobID c \<notin> set (q_jobs q)"
    using assms inj_onD [of snd "set (commits (q_db q))" "(n, JobID c)"] unfolding stats_inv_def by fastforce
  with assms have "stats_inv (snd (record_claim n c i q))"
    by (auto simp: stats_inv_def record_claim_def)
  with assms show ?thesis
    by (auto simp: request_guar_def request_rely_def record_claim_def queue_rely_def)
qed

lemma stats_inv_db:
  assumes "stats_inv q" "queue_inv w" "set (commits (q_db q)) \<subseteq> set (commits w)"
  shows "stats_inv (q\<lparr>q_db := w\<rparr>)"
  using assms unfolding stats_inv_def by fastforce

lemma guar_db:
  assumes "queue_guar n (q_db q) w"
  shows "request_guar n q (q\<lparr>q_db := w\<rparr>)"
proof -
  have "set (commits (q_db q)) \<subseteq> set (commits w)"
    using assms unfolding queue_guar_def queue_rely_def by (metis n_not_Suc_n)
  moreover have "stats_inv q \<Longrightarrow> queue_inv w" using assms by (simp add: stats_inv_def queue_guar_def)
  ultimately have "stats_inv q \<Longrightarrow> stats_inv (q\<lparr>q_db := w\<rparr>)" by (simp add: stats_inv_db)
  with assms show ?thesis by (simp add: request_guar_def request_rely_def queue_guar_def)
qed

lemma safe_claimed_work:
  assumes "fresh n q"
  shows "queue_request_safe n (\<lambda>r q. queue_post n r (q_db q) \<and> n \<notin> set (q_recorders q) \<and> stats_inv q)
    (zoom q_db (\<lambda>d q. q\<lparr>q_db := d\<rparr>) (Work n sql workTime)) q"
proof -
  let ?G = "\<lambda>q q'. request_guar n q q' \<and> q_recorders q' = q_recorders q"
  have "safe (request_rely n) ?G (\<lambda>_ _. False) (\<lambda>r q. queue_post n r (q_db q))
      (zoom q_db (\<lambda>d q. q\<lparr>q_db := d\<rparr>) (Work n sql workTime)) q"
  proof (rule safe_zoom)
    show "worker_safe n (Work n sql workTime) (q_db q)"
      using assms by (simp add: fresh_def safe_Work)
    show "?G q (q\<lparr>q_db := w\<rparr>)" if "queue_guar n (q_db q) w" for q w
      using guar_db [OF that] by simp
  qed (simp_all add: request_rely_def)
  then have "safe (request_rely n) ?G (\<lambda>_ _. False) (\<lambda>r q. queue_post n r (q_db q)
      \<and> n \<notin> set (q_recorders q) \<and> stats_inv q) (zoom q_db (\<lambda>d q. q\<lparr>q_db := d\<rparr>) (Work n sql workTime)) q"
    using assms by (elim safe_frame)
      (auto simp: fresh_def request_rely_def request_guar_def dest: spec [of _ "Suc n"])
  then show ?thesis by (rule safe_weaken) simp_all
qed

lemma safe_failed: "queue_request_safe n (\<lambda>_ _. True) (atomically failed_Add (\<lambda>_. Done r)) q"
  by (rule counter_then_Done) (simp_all add: failed_Add_def)

lemma safe_empty: "queue_request_safe n (\<lambda>_ _. True) (atomically empty_Add (\<lambda>_. Done r)) q"
  by (rule counter_then_Done) (simp_all add: empty_Add_def)

lemma safe_record:
  assumes "queue_post n (Inr c) (q_db q) \<and> n \<notin> set (q_recorders q) \<and> stats_inv q"
  shows "queue_request_safe n (\<lambda>_ _. True) (atomically (record_claim n c) (\<lambda>_. Done r)) q"
proof (intro safe_atomically conjI safe_Done)
  fix q1 i b q2
  assume "request_rely n q q1" "record_claim n c i q1 = (b, q2)"
  then show "request_guar n q1 q2"
    using assms guar_record [of n c q1 i] by (auto simp: queue_post_def request_rely_def queue_rely_def)
qed simp

lemma safe_answer:
  assumes "queue_post n r (q_db q) \<and> n \<notin> set (q_recorders q) \<and> stats_inv q"
  shows "queue_request_safe n (\<lambda>_ _. True) (answer n name r) q"
proof (cases r)
  case (Inl e)
  then show ?thesis by (cases e) (simp_all add: answer_def safe_failed safe_empty)
next
  case (Inr c)
  with assms safe_record show ?thesis by (simp add: answer_def)
qed

lemma safe_enqueued:
  assumes "fresh n q"
  shows "queue_request_safe n (\<lambda>_ _. True) (atomically enqueued_Add (\<lambda>_.
    and_then (zoom q_db (\<lambda>d q. q\<lparr>q_db := d\<rparr>) (Work n sql workTime)) (answer n name))) q"
proof (intro safe_atomically conjI)
  fix q1 i b q2
  assume q: "request_rely n q q1" "enqueued_Add i q1 = (b, q2)"
  then show "request_guar n q1 q2" by (auto simp: enqueued_Add_def intro: guar_counter)
  have "fresh n q2" using fresh_rely [OF assms q(1)] q(2)
    by (auto simp: enqueued_Add_def fresh_def stats_inv_def)
  from safe_and_then [OF safe_claimed_work [OF this] _ safe_answer]
  show "queue_request_safe n (\<lambda>_ _. True)
    (and_then (zoom q_db (\<lambda>d q. q\<lparr>q_db := d\<rparr>) (Work n sql workTime)) (answer n name)) q2" by simp
qed

lemma safe_operation_on:
  assumes "fresh n q"
  shows "queue_request_safe n (\<lambda>_ _. True) (operation_on n name sql workTime) q"
  unfolding operation_on_def
proof (rule safe_atomically)
  fix q1 i b q2
  assume q: "request_rely n q q1" "enqueue i q1 = (b, q2)"
  then have "request_guar n q1 q2" "fresh n q2"
    using guar_enqueue [of n q1 i] fresh_enqueue [of n q1 i] fresh_rely [OF assms] by auto
  then show "request_guar n q1 q2 \<and> queue_request_safe n (\<lambda>_ _. True) (case b of
       Some e \<Rightarrow> atomically failed_Add (\<lambda>_. Done (Fail 503 e))
     | None \<Rightarrow> atomically enqueued_Add (\<lambda>_.
         and_then (zoom q_db (\<lambda>d q. q\<lparr>q_db := d\<rparr>) (Work n sql workTime)) (answer n name))) q2"
    using safe_enqueued safe_failed by (cases b) auto
qed

fun balanced :: "jvalue \<Rightarrow> bool" where
  "balanced (JObject kvs) \<longleftrightarrow> map_of kvs ''claims'' = map_of kvs ''distinct_jobs''"
| "balanced v \<longleftrightarrow> True"

lemma safe_read_request:
  assumes "\<And>i q. snd (f i q) = q" "stats_inv q"
    "\<And>i q. stats_inv q \<Longrightarrow> queue_request_safe n Q (k (fst (f i q))) q"
  shows "queue_request_safe n Q (atomically f k) q"
proof (rule safe_atomically)
  fix q1 i b q2
  assume r: "request_rely n q q1" and f: "f i q1 = (b, q2)"
  then have "b = fst (f i q1)" "q2 = q1" using assms(1) [of i q1] by auto
  moreover have "stats_inv q1" using r assms(2) by (simp add: request_rely_def)
  ultimately show "request_guar n q1 q2 \<and> queue_request_safe n Q (k b) q2" using assms(3) by simp
qed

lemma safe_stats_row:
  assumes "stats_inv q"
  shows "queue_request_safe n (\<lambda>r q. case r of Inl e \<Rightarrow> True | Inr row \<Rightarrow> balanced row) (stats_row name) q"
  unfolding stats_row_def
proof (intro safe_read_request assms)
  fix i q
  assume inv: "stats_inv q"
  show "queue_request_safe n (\<lambda>r q. case r of Inl e \<Rightarrow> True | Inr row \<Rightarrow> balanced row)
    (case fst (count_jobs i q) of Inl e \<Rightarrow> Done (Inl e)
     | Inr (n_done, n_pending) \<Rightarrow> atomically read_claims (\<lambda>(claims, distinct).
         atomically (load q_enqueued) (\<lambda>enqueued. atomically (load q_empty) (\<lambda>empty. atomically (load q_failed) (\<lambda>failed.
           Done (Inr (JObject [(''variant'', JString name), (''enqueued'', JInt enqueued),
             (''claims'', JInt claims), (''distinct_jobs'', JInt distinct), (''done'', JInt n_done),
             (''pending'', JInt n_pending), (''empty_claims'', JInt empty),
             (''failed_requests'', JInt failed)]))))))) q"
    using inv by (auto intro!: safe_read_request safe_Done
        simp: read_claims_def load_def stats_inv_def split: sum.splits)
qed (simp add: count_jobs_def split: option.splits)

abbreviation queues_safe :: "nat \<Rightarrow> ('a \<Rightarrow> bool) \<Rightarrow> (tick, server, 'a) thread \<Rightarrow> server \<Rightarrow> bool" where
  "queues_safe n Q \<equiv> safe (queues_rely n) (queues_guar n) (\<lambda>_ _. False) (\<lambda>a _. Q a)"

lemma safe_on_queue:
  "queue_request_safe n (\<lambda>a _. Q a) t (sv_blocking s) \<Longrightarrow> queues_safe n Q (on_blocking t) s"
  "queue_request_safe n (\<lambda>a _. Q a) t (sv_skip_locked s) \<Longrightarrow> queues_safe n Q (on_skip_locked t) s"
  unfolding on_blocking_def on_skip_locked_def
  by (erule safe_zoom; simp add: queues_rely_def queues_guar_def request_guar_def)+

definition queues_fresh :: "nat \<Rightarrow> server \<Rightarrow> bool" where
  "queues_fresh n s \<longleftrightarrow> fresh n (sv_blocking s) \<and> fresh n (sv_skip_locked s)"

lemma queues_fresh_rely: "queues_fresh n s \<Longrightarrow> queues_rely n s s' \<Longrightarrow> queues_fresh n s'"
  by (auto simp: queues_fresh_def queues_rely_def intro: fresh_rely)

lemma queues_rely_refl [simp]: "queues_rely n s s"
  by (simp add: queues_rely_def)

lemma safe_stats:
  assumes "queues_fresh n s"
  shows "queues_safe n (\<lambda>r. \<exists>e row1 row2. r = Fail 503 e
     \<or> balanced row1 \<and> balanced row2 \<and> r = JSON 200 (JObject [(''variants'', JArray [row1, row2])])) stats s"
proof -
  let ?row = "\<lambda>r. case r of Inl e \<Rightarrow> True | Inr row \<Rightarrow> balanced row"
  let ?Q = "\<lambda>r. \<exists>e row1 row2. r = Fail 503 e
     \<or> balanced row1 \<and> balanced row2 \<and> r = JSON 200 (JObject [(''variants'', JArray [row1, row2])])"
  have keep: "safe (queues_rely n) (queues_guar n) (\<lambda>_ _. False) (\<lambda>a s. ?row a \<and> stats_inv (sv_skip_locked s))
      (on_blocking (stats_row ''blocking'')) s"
  proof (rule safe_frame)
    show "queues_safe n ?row (on_blocking (stats_row ''blocking'')) s"
      using assms by (intro safe_on_queue safe_stats_row) (simp add: queues_fresh_def fresh_def)
    show "stats_inv (sv_skip_locked s)" using assms by (simp add: queues_fresh_def fresh_def)
  qed (auto simp: queues_rely_def queues_guar_def request_rely_def dest: spec [of _ "Suc n"])
  have second: "queues_safe n ?row (on_skip_locked (stats_row ''skip_locked'')) s"
    if "stats_inv (sv_skip_locked s)" for s
    using that by (intro safe_on_queue safe_stats_row)
  have done2: "queues_safe n ?Q (case r of Inl e \<Rightarrow> Done (Fail 503 e)
     | Inr row2 \<Rightarrow> Done (JSON 200 (JObject [(''variants'', JArray [row1, row2])]))) s"
    if "balanced row1" "?row r" for r row1 s
    using that by (auto intro!: safe_Done split: sum.splits)
  have "queues_safe n ?Q (case r of Inl e \<Rightarrow> Done (Fail 503 e)
     | Inr row1 \<Rightarrow> and_then (on_skip_locked (stats_row ''skip_locked'')) (\<lambda>r. case r of
         Inl e \<Rightarrow> Done (Fail 503 e)
       | Inr row2 \<Rightarrow> Done (JSON 200 (JObject [(''variants'', JArray [row1, row2])])))) s"
    if "?row r \<and> stats_inv (sv_skip_locked s)" for r s
  proof (cases r)
    case (Inl e)
    then show ?thesis by (auto intro: safe_Done)
  next
    case (Inr row1)
    have "queues_safe n ?Q (and_then (on_skip_locked (stats_row ''skip_locked'')) (\<lambda>r. case r of
         Inl e \<Rightarrow> Done (Fail 503 e)
       | Inr row2 \<Rightarrow> Done (JSON 200 (JObject [(''variants'', JArray [row1, row2])])))) s"
      by (rule safe_and_then [OF second _ done2]) (use that Inr in simp_all)
    with Inr show ?thesis by simp
  qed
  then show ?thesis unfolding stats_def by (rule safe_and_then [OF keep queues_rely_refl]) simp_all
qed

fun stats_answer :: "Response \<Rightarrow> bool" where
  "stats_answer r \<longleftrightarrow> resp_status r = 503 \<or> (case resp_body r of
       JObject [(_, JArray rows)] \<Rightarrow> list_all balanced rows | _ \<Rightarrow> False)"

declare stats_answer.simps [simp del]

lemma stats_answer_iff:
  "r = Fail 503 e \<or> balanced row1 \<and> balanced row2 \<and> r = JSON 200 (JObject [(''variants'', JArray [row1, row2])])
   \<Longrightarrow> stats_answer r"
  by (auto simp: stats_answer.simps Fail_def JSON_def)

lemma safe_dispatch:
  assumes "queues_fresh n s"
  shows "queues_safe n (\<lambda>_. True) (dispatch n variant workTime) s"
proof -
  have "queues_safe n (\<lambda>_. True) (on_blocking (operation_on n ''blocking'' ClaimQuery workTime)) s"
    "queues_safe n (\<lambda>_. True) (on_skip_locked (operation_on n ''skip_locked'' SkipLockedQuery workTime)) s"
    using assms by (intro safe_on_queue safe_operation_on; simp add: queues_fresh_def)+
  then show ?thesis by (simp add: dispatch_def safe_Done)
qed

lemma safe_zoom_server:
  "queues_safe n Q t (snd s) \<Longrightarrow> safe (\<lambda>s s'. queues_rely n (snd s) (snd s')) (\<lambda>s s'. queues_guar n (snd s) (snd s'))
     (\<lambda>_ _. False) (\<lambda>r _. Q r) (zoom snd (\<lambda>w s. (fst s, w)) t) s"
  by (erule safe_zoom) simp_all

lemma safe_handle:
  assumes "queues_fresh n (snd s)"
  shows "safe (\<lambda>s s'. queues_rely n (snd s) (snd s')) (\<lambda>s s'. queues_guar n (snd s) (snd s'))
     (\<lambda>_ _. False) (\<lambda>r _. req = Stats \<longrightarrow> stats_answer r) (handle workTime n req) s"
proof (cases req)
  case Stats
  have "queues_safe n stats_answer stats (snd s)"
    by (rule safe_weaken [OF safe_stats [OF assms]]) (use stats_answer_iff in blast)+
  with Stats show ?thesis by (simp add: handle_def safe_zoom_server)
next
  case (Operation variant)
  have "safe (\<lambda>s s'. queues_rely n (snd s) (snd s')) (\<lambda>s s'. queues_guar n (snd s) (snd s'))
     (\<lambda>_ _. False) (\<lambda>r _. True) (operation n variant workTime) s"
    unfolding operation_def Limit_def
  proof (intro safe_atomically conjI)
    fix s1 :: "64 word \<times> server" and i b s2
    assume "queues_rely n (snd s) (snd s1)" "served_Add i s1 = (b, s2)"
    then have s2: "snd s2 = snd s1" and fresh: "queues_fresh n (snd s2)"
      using queues_fresh_rely [OF assms] by (auto simp: served_Add_def)
    from s2 show "queues_guar n (snd s1) (snd s2)" by (simp add: queues_guar_def)
    from safe_zoom_server [OF safe_dispatch [OF fresh, of variant workTime]] show "safe (\<lambda>s s'. queues_rely n (snd s) (snd s')) (\<lambda>s s'. queues_guar n (snd s) (snd s'))
        (\<lambda>_ _. False) (\<lambda>r _. True) (if 100000 < b then Done (Fail 429 ''run limit reached'')
        else zoom snd (\<lambda>w s. (fst s, w)) (dispatch n variant workTime)) s2"
      by (simp add: safe_Done)
  qed
  with Operation show ?thesis by (simp add: handle_def)
qed

definition empty_queue :: queue where
  "empty_queue = \<lparr>q_db = \<lparr>jobs_rows = [], last_id = 0, row_locks = Map.empty, tx_writes = (\<lambda>_. []),
     commits = []\<rparr>, q_enqueued = 0, q_empty = 0, q_failed = 0, q_claims = 0, q_jobs = [],
     q_recorders = []\<rparr>"

definition start :: "int \<Rightarrow> request list \<Rightarrow> (tick, 64 word \<times> server, Response) system" where
  "start workTime reqs = ((0, \<lparr>sv_blocking = empty_queue, sv_skip_locked = empty_queue\<rparr>),
     map (\<lambda>n. handle workTime n (reqs ! n)) [0..<length reqs])"

definition exactly_once :: "queue \<Rightarrow> bool" where
  "exactly_once q \<longleftrightarrow> q_claims q = int (card (set (q_jobs q)))
     \<and> list_all (\<lambda>job. job_status (q_db q) job = Some ''done'') (q_jobs q)"

lemma stats_inv_exactly_once: "stats_inv q \<Longrightarrow> exactly_once q"
  by (fastforce simp: stats_inv_def exactly_once_def list_all_iff queue_inv_def distinct_card)

lemma start_safe: "server.all_safe (\<lambda>n r _. reqs ! n = Stats \<longrightarrow> stats_answer r) (start workTime reqs)"
proof -
  have "fresh n empty_queue" for n
    by (simp add: fresh_def empty_queue_def idle_def holds_def stats_inv_def queue_inv_def)
  then show ?thesis
    by (auto simp: server.all_safe_def start_def queues_fresh_def intro!: safe_handle)
qed

text \<open>
  C7. The exactly-once invariant the adapter exists to show: whatever operations and statistics
  requests run concurrently, on both queues, with whatever failures, the number of recorded
  claims is the number of distinct jobs claimed, and each of these jobs is done in the table, at
  every moment.
\<close>

theorem requests_count_jobs_exactly_once:
  assumes "reaches (start workTime reqs) ((served, s), ts)"
  shows "exactly_once (sv_blocking s) \<and> exactly_once (sv_skip_locked s)"
proof -
  have "stats_inv (sv_blocking (snd (fst ((served, s), ts)))) \<and> stats_inv (sv_skip_locked (snd (fst ((served, s), ts))))"
  proof (rule server.invariant [OF assms start_safe])
    show "stats_inv (sv_blocking (snd (fst (start workTime reqs)))) \<and> stats_inv (sv_skip_locked (snd (fst (start workTime reqs))))"
      by (simp add: start_def empty_queue_def stats_inv_def queue_inv_def)
    show "stats_inv (sv_blocking (snd s')) \<and> stats_inv (sv_skip_locked (snd s'))"
      if "queues_guar n (snd s) (snd s')" "stats_inv (sv_blocking (snd s)) \<and> stats_inv (sv_skip_locked (snd s))"
      for n and s s' :: "64 word \<times> server"
      using that unfolding queues_guar_def queues_rely_def request_rely_def by (metis n_not_Suc_n)
  qed
  then show ?thesis by (simp add: stats_inv_exactly_once)
qed

text \<open>
  Every answer of \<^verbatim>\<open>GET /stats\<close>, also one given while operations are under way, is an
  error 503 or shows as many claims as distinct jobs for both variants: the two numbers are read
  under the mutex that changes them together.
\<close>

theorem stats_report_exactly_once:
  assumes "reaches (start workTime reqs) (s, ts)" "n < length ts" "reqs ! n = Stats" "ts ! n = Done r"
  shows "stats_answer r"
  using server.post [OF assms(1) start_safe, of n r] assms by simp


definition demo_operation :: "(tick, 64 word \<times> server, Response) system" where
  "demo_operation = schedule (turns (replicate 14 0)) (start 100 [Operation ''blocking''])"

theorem requests_count_jobs_exactly_once_witness:
  "q_claims (sv_blocking (snd (fst demo_operation))) = 1 \<and> exactly_once (sv_blocking (snd (fst demo_operation)))"
proof -
  have "q_claims (sv_blocking (snd (fst demo_operation))) = 1" by code_simp
  moreover have "reaches (start 100 [Operation ''blocking'']) demo_operation"
    unfolding demo_operation_def by (rule schedule_reaches)
  ultimately show ?thesis
    using requests_count_jobs_exactly_once [of 100 "[Operation ''blocking'']" "fst (fst demo_operation)"
        "snd (fst demo_operation)" "snd demo_operation"] by (simp only: prod.collapse)
qed

definition demo_stats :: "(tick, 64 word \<times> server, Response) system" where
  "demo_stats = schedule (turns (replicate 10 0)) (start 100 [Stats])"

theorem stats_report_exactly_once_witness:
  "\<exists>r. result_of (snd demo_stats ! 0) = Some r \<and> resp_status r = 200 \<and> stats_answer r"
proof -
  have reach: "reaches (start 100 [Stats]) (fst demo_stats, snd demo_stats)"
    using schedule_reaches [of "start 100 [Stats]"] by (simp add: demo_stats_def)
  have "map_option resp_status (result_of (snd demo_stats ! 0)) = Some 200" by code_simp
  then obtain r where r: "snd demo_stats ! 0 = Done r" "resp_status r = 200"
    by (cases "snd demo_stats ! 0") auto
  have "length (snd demo_stats) = 1" using reaches_length [OF reach] by (simp add: start_def)
  with stats_report_exactly_once [OF reach, of 0 r] r show ?thesis by simp
qed
end
