(* ===== verification/Job_Counter.thy ===== *)
theory Job_Counter
  imports Perf
begin

section \<open>The completed-job counter\<close>

text \<open>
  \<^verbatim>\<open>lessons/go/completed-job-counter/core/core.go\<close>: event deliveries that increment a counter,
  either all of them (\<^verbatim>\<open>Naive\<close>) or each event once (\<^verbatim>\<open>Idempotent\<close>). The state is what the SQL
  of the source sees of Postgres: the committed rows of \<^verbatim>\<open>job_counter\<close> and \<^verbatim>\<open>job_seen\<close>, the
  lock on a counter row, the claim on a key that a transaction has inserted and not committed,
  and what each open transaction has written. A transaction carries the number of the goroutine
  that runs it. \<open>applied_log\<close> is the history of the committed increments (who, which counter,
  which event); no statement reads it.

  An insert of a key that another open transaction has inserted waits for that transaction, as
  does an update of a row another one has updated. Both columns are Postgres \<^verbatim>\<open>integer\<close>s of 32
  bits: an increment past the largest one is refused, and so is an event id outside the range.
\<close>

datatype Strategy = Naive | Idempotent

definition strategy_Name :: "Strategy \<Rightarrow> string" where
  "strategy_Name s = (case s of Naive \<Rightarrow> ''naive'' | Idempotent \<Rightarrow> ''idempotent'')"

datatype apply_err = ApplyErr string | CounterRowMissing

record counter_db =
  totals :: "string \<Rightarrow> int option"
  seen :: "int list"
  counter_locks :: "string \<Rightarrow> nat option"
  seen_locks :: "int \<Rightarrow> nat option"
  tx_totals :: "nat \<Rightarrow> (string \<times> int) list"
  tx_seen :: "nat \<Rightarrow> int list"
  applied_log :: "(nat \<times> string \<times> int) list"

definition is_int32 :: "int \<Rightarrow> bool" where
  "is_int32 i \<longleftrightarrow> - (2 ^ 31) \<le> i \<and> i < 2 ^ 31"

definition out_of_range :: string where
  "out_of_range = ''integer out of range''"

definition held_by_other :: "nat option \<Rightarrow> nat \<Rightarrow> bool" where
  "held_by_other l tx \<longleftrightarrow> l \<noteq> None \<and> l \<noteq> Some tx"

definition end_tx :: "nat \<Rightarrow> counter_db \<Rightarrow> counter_db" where
  "end_tx tx w = w\<lparr>
     counter_locks := (\<lambda>m. if counter_locks w m = Some tx then None else counter_locks w m),
     seen_locks := (\<lambda>e. if seen_locks w e = Some tx then None else seen_locks w e),
     tx_totals := (tx_totals w)(tx := []), tx_seen := (tx_seen w)(tx := [])\<rparr>"

definition begin_tx :: "nat \<Rightarrow> tick \<Rightarrow> counter_db \<Rightarrow> apply_err option \<times> counter_db" where
  "begin_tx tx i w = (map_option ApplyErr (fault_err (tick_fault i)), w)"

text \<open>The claim of the idempotent strategy: whether the insert affected one row.\<close>

definition insert_seen :: "nat \<Rightarrow> int \<Rightarrow> tick \<Rightarrow> counter_db
    \<Rightarrow> ((apply_err, bool) result \<times> counter_db) option" where
  "insert_seen tx event i w =
     (case fault_err (tick_fault i) of
        Some e \<Rightarrow> Some (Inl (ApplyErr e), w)
      | None \<Rightarrow>
          if \<not> is_int32 event then Some (Inl (ApplyErr out_of_range), w)
          else if event \<in> set (seen w) then Some (Inr False, w)
          else if held_by_other (seen_locks w event) tx then None
          else if event \<in> set (tx_seen w tx) then Some (Inr False, w)
          else Some (Inr True, w\<lparr>seen_locks := (seen_locks w)(event := Some tx),
            tx_seen := (tx_seen w)(tx := tx_seen w tx @ [event])\<rparr>))"

definition Claim_event :: "Strategy \<Rightarrow> nat \<Rightarrow> int \<Rightarrow> tick \<Rightarrow> counter_db
    \<Rightarrow> ((apply_err, bool) result \<times> counter_db) option" where
  "Claim_event s tx event i w = (case s of
       Naive \<Rightarrow> Some (Inr True, w)
     | Idempotent \<Rightarrow> insert_seen tx event i w)"

definition update_counter :: "nat \<Rightarrow> string \<Rightarrow> tick \<Rightarrow> counter_db
    \<Rightarrow> ((apply_err, int) result \<times> counter_db) option" where
  "update_counter tx mode i w =
     (case fault_err (tick_fault i) of
        Some e \<Rightarrow> Some (Inl (ApplyErr e), w)
      | None \<Rightarrow> (case totals w mode of
          None \<Rightarrow> Some (Inl CounterRowMissing, w)
        | Some committed \<Rightarrow>
            if held_by_other (counter_locks w mode) tx then None
            else let t = (case map_of (tx_totals w tx) mode of None \<Rightarrow> committed | Some t \<Rightarrow> t) + 1 in
              if \<not> is_int32 t then Some (Inl (ApplyErr out_of_range), w)
              else Some (Inr t, w\<lparr>counter_locks := (counter_locks w)(mode := Some tx),
                tx_totals := (tx_totals w)(tx := (mode, t) # tx_totals w tx)\<rparr>)))"

definition commit_writes :: "nat \<Rightarrow> int \<Rightarrow> counter_db \<Rightarrow> counter_db" where
  "commit_writes tx event w = end_tx tx (w\<lparr>
     totals := totals w ++ map_of (tx_totals w tx), seen := seen w @ tx_seen w tx,
     applied_log := applied_log w @ map (\<lambda>m. (tx, fst m, event)) (tx_totals w tx)\<rparr>)"

definition commit_tx :: "nat \<Rightarrow> int \<Rightarrow> tick \<Rightarrow> counter_db \<Rightarrow> apply_err option \<times> counter_db" where
  "commit_tx tx event i w = (case tick_fault i of
       Fine \<Rightarrow> (None, commit_writes tx event w)
     | Fails e \<Rightarrow> (Some (ApplyErr e), w)
     | FailsApplied e \<Rightarrow> (Some (ApplyErr e), commit_writes tx event w))"

definition rollback_tx :: "nat \<Rightarrow> tick \<Rightarrow> counter_db \<Rightarrow> unit \<times> counter_db" where
  "rollback_tx tx i w = ((), end_tx tx w)"

definition after_rollback :: "nat \<Rightarrow> 'a \<Rightarrow> (tick, counter_db, 'a) thread" where
  "after_rollback tx r = atomically (rollback_tx tx) (\<lambda>_. Done r)"

definition finish_apply :: "nat \<Rightarrow> int \<Rightarrow> int \<times> bool \<Rightarrow> (tick, counter_db, (apply_err, int \<times> bool) result) thread" where
  "finish_apply tx event r = atomically (commit_tx tx event) (\<lambda>e. case e of
       Some e \<Rightarrow> after_rollback tx (Inl e)
     | None \<Rightarrow> after_rollback tx (Inr r))"

definition apply_claimed :: "nat \<Rightarrow> Strategy \<Rightarrow> int \<Rightarrow> bool \<Rightarrow> (tick, counter_db, (apply_err, int \<times> bool) result) thread" where
  "apply_claimed tx s event claimed =
     (if claimed then waiting (update_counter tx (strategy_Name s)) (\<lambda>r. case r of
          Inl e \<Rightarrow> after_rollback tx (Inl e)
        | Inr t \<Rightarrow> finish_apply tx event (t, True))
      else finish_apply tx event (0, False))"

definition Apply :: "nat \<Rightarrow> Strategy \<Rightarrow> int \<Rightarrow> (tick, counter_db, (apply_err, int \<times> bool) result) thread" where
  "Apply tx s event = atomically (begin_tx tx) (\<lambda>r. case r of
       Some e \<Rightarrow> Done (Inl e)
     | None \<Rightarrow> waiting (Claim_event s tx event) (\<lambda>r. case r of
         Inl e \<Rightarrow> after_rollback tx (Inl e)
       | Inr claimed \<Rightarrow> apply_claimed tx s event claimed))"

text \<open>The tables as the lesson's \<^verbatim>\<open>reset\<close> leaves them: one counter row per strategy.\<close>

definition reset_db :: "counter_db \<Rightarrow> counter_db" where
  "reset_db w = w\<lparr>totals := [''naive'' \<mapsto> 0, ''idempotent'' \<mapsto> 0], seen := [], counter_locks := Map.empty,
     seen_locks := Map.empty, tx_totals := (\<lambda>_. []), tx_seen := (\<lambda>_. []), applied_log := []\<rparr>"

subsection \<open>What deliveries owe each other\<close>

definition increments :: "string \<Rightarrow> counter_db \<Rightarrow> (nat \<times> string \<times> int) list" where
  "increments mode w = filter (\<lambda>l. fst (snd l) = mode) (applied_log w)"

definition counter_inv :: "counter_db \<Rightarrow> bool" where
  "counter_inv w \<longleftrightarrow>
     (\<forall>s. totals w (strategy_Name s) = Some (int (length (increments (strategy_Name s) w))))
   \<and> distinct (map fst (applied_log w))
   \<and> distinct (seen w)
   \<and> seen w = map (\<lambda>l. snd (snd l)) (increments ''idempotent'' w)"

text \<open>What a transaction has locked and written, and whether it has been applied.\<close>

definition tx_view :: "nat \<Rightarrow> counter_db \<Rightarrow> _" where
  "tx_view n w = ({m. counter_locks w m = Some n}, {e. seen_locks w e = Some n}, tx_totals w n,
     tx_seen w n, n \<in> fst ` set (applied_log w))"

definition counter_rely :: "nat \<Rightarrow> counter_db \<Rightarrow> counter_db \<Rightarrow> bool" where
  "counter_rely n w w' \<longleftrightarrow> tx_view n w' = tx_view n w
   \<and> (\<forall>m. counter_locks w m = Some n \<longrightarrow> totals w' m = totals w m)
   \<and> (\<forall>e. seen_locks w e = Some n \<longrightarrow> (e \<in> set (seen w') \<longleftrightarrow> e \<in> set (seen w)))
   \<and> set (seen w) \<subseteq> set (seen w') \<and> set (applied_log w) \<subseteq> set (applied_log w')
   \<and> (counter_inv w \<longrightarrow> counter_inv w')"

text \<open>\<open>d\<close> says which delivery each goroutine makes: it adds no other entry to the history.\<close>

definition counter_guar :: "(nat \<Rightarrow> Strategy \<times> int) \<Rightarrow> nat \<Rightarrow> counter_db \<Rightarrow> counter_db \<Rightarrow> bool" where
  "counter_guar d n w w' \<longleftrightarrow> (\<forall>m. m \<noteq> n \<longrightarrow> counter_rely m w w')
   \<and> (\<forall>l \<in> set (applied_log w'). l \<in> set (applied_log w) \<or> l = (n, strategy_Name (fst (d n)), snd (d n)))"

lemma tx_view_eq:
  assumes "tx_view n w' = tx_view n w"
  shows "counter_locks w' m = Some n \<longleftrightarrow> counter_locks w m = Some n"
    and "seen_locks w' e = Some n \<longleftrightarrow> seen_locks w e = Some n"
    and "tx_totals w' n = tx_totals w n" and "tx_seen w' n = tx_seen w n"
    and "n \<in> fst ` set (applied_log w') \<longleftrightarrow> n \<in> fst ` set (applied_log w)"
  using assms unfolding tx_view_def by blast+

lemma counter_rely_trans:
  assumes "counter_rely n w w'" "counter_rely n w' w''"
  shows "counter_rely n w w''"
proof -
  have "tx_view n w' = tx_view n w" using assms(1) by (simp add: counter_rely_def)
  note v = tx_view_eq [OF this]
  show ?thesis
    using assms unfolding counter_rely_def v by (metis order.trans)
qed

interpretation counter: rely_guarantee counter_rely "counter_guar d" "\<lambda>_ _ _. False" for d
proof
  show "counter_rely n w w" for n w by (simp add: counter_rely_def)
  show "counter_rely n w w' \<Longrightarrow> counter_rely n w' w'' \<Longrightarrow> counter_rely n w w''" for n w w' w''
    by (rule counter_rely_trans)
  show "m \<noteq> n \<Longrightarrow> counter_guar d m w w' \<Longrightarrow> counter_rely n w w'" for m n w w'
    by (simp add: counter_guar_def)
qed

lemma counter_guar_refl [simp]: "counter_guar d n w w"
  by (simp add: counter_guar_def counter_rely_def)

lemma end_tx_simps [simp]:
  "totals (end_tx n w) = totals w" "seen (end_tx n w) = seen w" "applied_log (end_tx n w) = applied_log w"
  "counter_inv (end_tx n w) = counter_inv w" "increments mode (end_tx n w) = increments mode w"
  by (simp_all add: end_tx_def counter_inv_def increments_def)

lemma tx_view_end_tx: "m \<noteq> n \<Longrightarrow> tx_view m (end_tx n w) = tx_view m w"
  by (auto simp: tx_view_def end_tx_def)

lemma guar_end_tx [simp]: "counter_guar d n w (end_tx n w)"
  by (simp add: counter_guar_def counter_rely_def tx_view_end_tx)

lemma guar_insert_seen:
  assumes "\<not> held_by_other (seen_locks w event) n"
  shows "counter_guar d n w (w\<lparr>seen_locks := (seen_locks w)(event := Some n), tx_seen := (tx_seen w)(n := es)\<rparr>)"
proof -
  let ?w = "w\<lparr>seen_locks := (seen_locks w)(event := Some n), tx_seen := (tx_seen w)(n := es)\<rparr>"
  have "tx_view m ?w = tx_view m w" if "m \<noteq> n" for m
    using assms that by (auto simp: tx_view_def held_by_other_def)
  moreover have "counter_inv ?w = counter_inv w" by (simp add: counter_inv_def increments_def)
  ultimately show ?thesis by (simp add: counter_guar_def counter_rely_def)
qed

lemma guar_update_counter:
  assumes "\<not> held_by_other (counter_locks w mode) n"
  shows "counter_guar d n w (w\<lparr>counter_locks := (counter_locks w)(mode := Some n), tx_totals := (tx_totals w)(n := ts)\<rparr>)"
proof -
  let ?w = "w\<lparr>counter_locks := (counter_locks w)(mode := Some n), tx_totals := (tx_totals w)(n := ts)\<rparr>"
  have "tx_view m ?w = tx_view m w" if "m \<noteq> n" for m
    using assms that by (auto simp: tx_view_def held_by_other_def)
  moreover have "counter_inv ?w = counter_inv w" by (simp add: counter_inv_def increments_def)
  ultimately show ?thesis by (simp add: counter_guar_def counter_rely_def)
qed

text \<open>A transaction that may commit: what it has written fits what it has locked.\<close>

definition fresh_tx :: "nat \<Rightarrow> counter_db \<Rightarrow> bool" where
  "fresh_tx n w \<longleftrightarrow> n \<notin> fst ` set (applied_log w) \<and> tx_totals w n = [] \<and> tx_seen w n = []"

definition claimed_tx :: "nat \<Rightarrow> Strategy \<Rightarrow> int \<Rightarrow> counter_db \<Rightarrow> bool" where
  "claimed_tx n s event w \<longleftrightarrow> n \<notin> fst ` set (applied_log w) \<and> tx_totals w n = []
     \<and> (case s of Naive \<Rightarrow> tx_seen w n = []
        | Idempotent \<Rightarrow> tx_seen w n = [event] \<and> seen_locks w event = Some n \<and> event \<notin> set (seen w))"

definition counted_tx :: "nat \<Rightarrow> Strategy \<Rightarrow> int \<Rightarrow> counter_db \<Rightarrow> bool" where
  "counted_tx n s event w \<longleftrightarrow> n \<notin> fst ` set (applied_log w)
     \<and> (case s of Naive \<Rightarrow> tx_seen w n = []
        | Idempotent \<Rightarrow> tx_seen w n = [event] \<and> seen_locks w event = Some n \<and> event \<notin> set (seen w))
     \<and> counter_locks w (strategy_Name s) = Some n
     \<and> (\<exists>t. totals w (strategy_Name s) = Some t \<and> tx_totals w n = [(strategy_Name s, t + 1)])"

lemma tx_rely:
  assumes "counter_rely n w w'"
  shows "fresh_tx n w \<Longrightarrow> fresh_tx n w'" "claimed_tx n s event w \<Longrightarrow> claimed_tx n s event w'"
    "counted_tx n s event w \<Longrightarrow> counted_tx n s event w'"
proof -
  from assms have "tx_view n w' = tx_view n w" by (simp add: counter_rely_def)
  note v = tx_view_eq [OF this]
  have t: "counter_locks w m = Some n \<Longrightarrow> totals w' m = totals w m"
    and e: "seen_locks w e = Some n \<Longrightarrow> e \<in> set (seen w') \<longleftrightarrow> e \<in> set (seen w)" for m e
    using assms by (simp_all add: counter_rely_def)
  show "fresh_tx n w \<Longrightarrow> fresh_tx n w'" unfolding fresh_tx_def v .
  show "claimed_tx n s event w \<Longrightarrow> claimed_tx n s event w'"
    unfolding claimed_tx_def v using e by (auto split: Strategy.splits)
  show "counted_tx n s event w \<Longrightarrow> counted_tx n s event w'"
    unfolding counted_tx_def v using e t by (auto split: Strategy.splits)
qed

lemma commit_simps:
  "applied_log (commit_writes n event w) = applied_log w @ map (\<lambda>m. (n, fst m, event)) (tx_totals w n)"
  "totals (commit_writes n event w) = totals w ++ map_of (tx_totals w n)"
  "seen (commit_writes n event w) = seen w @ tx_seen w n"
  "m \<noteq> n \<Longrightarrow> counter_locks (commit_writes n event w) x = Some m \<longleftrightarrow> counter_locks w x = Some m"
  "m \<noteq> n \<Longrightarrow> seen_locks (commit_writes n event w) e = Some m \<longleftrightarrow> seen_locks w e = Some m"
  "m \<noteq> n \<Longrightarrow> tx_totals (commit_writes n event w) m = tx_totals w m"
  "m \<noteq> n \<Longrightarrow> tx_seen (commit_writes n event w) m = tx_seen w m"
  by (simp_all add: commit_writes_def end_tx_def)

lemma inv_commit_counted:
  assumes "counted_tx n s event w" "counter_inv w"
  shows "counter_inv (commit_writes n event w)"
proof -
  obtain t where t: "totals w (strategy_Name s) = Some t" "tx_totals w n = [(strategy_Name s, t + 1)]"
    using assms(1) by (auto simp: counted_tx_def)
  have inc: "increments m (commit_writes n event w) = increments m w @ (if m = strategy_Name s then [(n, m, event)] else [])" for m
    by (simp add: increments_def commit_simps t)
  have old: "totals w (strategy_Name s') = Some (int (length (increments (strategy_Name s') w)))" for s'
    using assms(2) unfolding counter_inv_def by blast
  have "totals (commit_writes n event w) (strategy_Name s') =
      Some (int (length (increments (strategy_Name s') (commit_writes n event w))))" for s'
    using old [of s'] old [of s] t unfolding inc by (simp add: commit_simps(2) split: if_splits)
  moreover have "distinct (map fst (applied_log (commit_writes n event w)))"
    using assms unfolding counter_inv_def counted_tx_def commit_simps(1) t(2) by simp
  moreover have "distinct (seen (commit_writes n event w))"
  proof -
    have "distinct (seen w)" using assms(2) unfolding counter_inv_def by blast
    then show ?thesis using assms(1) unfolding counted_tx_def commit_simps(3) by (cases s) simp_all
  qed
  moreover have "seen (commit_writes n event w) = map (\<lambda>l. snd (snd l)) (increments ''idempotent'' (commit_writes n event w))"
    using assms unfolding inc commit_simps(3) counter_inv_def counted_tx_def
    by (cases s) (simp_all add: strategy_Name_def)
  ultimately show ?thesis unfolding counter_inv_def by blast
qed

lemma counted_tx_totals:
  "counted_tx n s event w \<Longrightarrow> \<exists>t. totals w (strategy_Name s) = Some t \<and> tx_totals w n = [(strategy_Name s, t + 1)]"
  by (simp add: counted_tx_def)

lemma guar_commit_counted:
  assumes "counted_tx n s event w" "d n = (s, event)"
  shows "counter_guar d n w (commit_writes n event w)"
proof -
  let ?w = "commit_writes n event w"
  obtain t where t: "totals w (strategy_Name s) = Some t" "tx_totals w n = [(strategy_Name s, t + 1)]"
    using counted_tx_totals [OF assms(1)] by blast
  have log: "applied_log ?w = applied_log w @ [(n, strategy_Name s, event)]" by (simp add: commit_simps t)
  have "counter_rely m w ?w" if "m \<noteq> n" for m
  proof -
    have "tx_view m ?w = tx_view m w" using that by (auto simp: tx_view_def commit_simps(4-7) log)
    moreover have "totals ?w x = totals w x" if "counter_locks w x = Some m" for x
      using that \<open>m \<noteq> n\<close> assms(1) by (auto simp: commit_simps(2) t counted_tx_def)
    moreover have "e \<in> set (seen ?w) \<longleftrightarrow> e \<in> set (seen w)" if "seen_locks w e = Some m" for e
      using that \<open>m \<noteq> n\<close> assms(1) by (cases s) (auto simp: commit_simps(3) counted_tx_def)
    moreover have "counter_inv w \<longrightarrow> counter_inv ?w" using inv_commit_counted [OF assms(1)] by blast
    ultimately show ?thesis unfolding counter_rely_def by (auto simp: log commit_simps(3))
  qed
  then show ?thesis using assms(2) by (simp add: counter_guar_def log)
qed

lemma guar_commit_fresh:
  assumes "fresh_tx n w"
  shows "counter_guar d n w (commit_writes n event w)"
proof -
  have "w\<lparr>totals := totals w, seen := seen w, applied_log := applied_log w\<rparr> = w" by simp
  then have "commit_writes n event w = end_tx n w"
    using assms by (simp add: commit_writes_def fresh_tx_def)
  then show ?thesis by simp
qed

definition delivery_post :: "(nat \<Rightarrow> Strategy \<times> int) \<Rightarrow> nat \<Rightarrow> (apply_err, int \<times> bool) result \<Rightarrow> counter_db \<Rightarrow> bool" where
  "delivery_post d n r w \<longleftrightarrow> (case r of Inl e \<Rightarrow> True
      | Inr (t, applied) \<Rightarrow> if applied then (n, strategy_Name (fst (d n)), snd (d n)) \<in> set (applied_log w)
          else fst (d n) = Idempotent \<and> snd (d n) \<in> set (seen w))"

abbreviation delivery_safe :: "(nat \<Rightarrow> Strategy \<times> int) \<Rightarrow> nat
    \<Rightarrow> (tick, counter_db, (apply_err, int \<times> bool) result) thread \<Rightarrow> counter_db \<Rightarrow> bool" where
  "delivery_safe d n \<equiv> safe (counter_rely n) (counter_guar d n) (\<lambda>_ _. False) (delivery_post d n)"

lemma post_mono:
  "delivery_post d n r w \<Longrightarrow> set (seen w) \<subseteq> set (seen w') \<Longrightarrow> set (applied_log w) \<subseteq> set (applied_log w')
   \<Longrightarrow> delivery_post d n r w'"
  unfolding delivery_post_def by (auto split: sum.splits if_splits)

lemma post_error [simp]: "delivery_post d n (Inl e) w"
  by (simp add: delivery_post_def)

lemma safe_after_rollback:
  assumes "delivery_post d n r w"
  shows "delivery_safe d n (after_rollback n r) w"
  unfolding after_rollback_def
proof (intro safe_atomically conjI safe_Done)
  fix w1 i b w2
  assume "counter_rely n w w1" "rollback_tx n i w1 = (b, w2)"
  then have w2: "w2 = end_tx n w1" and mono: "set (seen w) \<subseteq> set (seen w1)" "set (applied_log w) \<subseteq> set (applied_log w1)"
    by (simp_all add: rollback_tx_def counter_rely_def)
  then show "counter_guar d n w1 w2" by simp
  fix w3
  assume "counter_rely n w2 w3"
  then have "set (seen w1) \<subseteq> set (seen w3)" "set (applied_log w1) \<subseteq> set (applied_log w3)"
    using w2 by (simp_all add: counter_rely_def)
  with mono show "delivery_post d n r w3" by (intro post_mono [OF assms]) auto
qed

lemma safe_finish:
  assumes "\<And>w1. counter_rely n w w1 \<Longrightarrow> counter_guar d n w1 (commit_writes n event w1)
      \<and> delivery_post d n (Inr r) (commit_writes n event w1)"
  shows "delivery_safe d n (finish_apply n event r) w"
  unfolding finish_apply_def
proof (intro safe_atomically)
  fix w1 i b w2
  assume "counter_rely n w w1" and c: "commit_tx n event i w1 = (b, w2)"
  with assms have "counter_guar d n w1 (commit_writes n event w1)"
    "delivery_post d n (Inr r) (commit_writes n event w1)" by blast+
  with c show "counter_guar d n w1 w2 \<and> delivery_safe d n (case b of
       Some e \<Rightarrow> after_rollback n (Inl e) | None \<Rightarrow> after_rollback n (Inr r)) w2"
    by (cases "tick_fault i") (auto simp: commit_tx_def safe_after_rollback)
qed

lemma safe_finish_counted:
  assumes "counted_tx n s event w" "d n = (s, event)"
  shows "delivery_safe d n (finish_apply n event (t, True)) w"
proof (rule safe_finish)
  fix w1
  assume "counter_rely n w w1"
  then have k: "counted_tx n s event w1" using assms(1) tx_rely by blast
  with counted_tx_totals [OF this] assms(2)
  show "counter_guar d n w1 (commit_writes n event w1) \<and> delivery_post d n (Inr (t, True)) (commit_writes n event w1)"
    by (auto simp: delivery_post_def commit_simps(1) intro: guar_commit_counted)
qed

lemma safe_finish_duplicate:
  assumes "fresh_tx n w" "d n = (Idempotent, event)" "event \<in> set (seen w)"
  shows "delivery_safe d n (finish_apply n event (0, False)) w"
proof (rule safe_finish)
  fix w1
  assume "counter_rely n w w1"
  then have "fresh_tx n w1" "event \<in> set (seen w1)"
    using assms(1,3) tx_rely(1) by (auto simp: counter_rely_def)
  with assms(2) show "counter_guar d n w1 (commit_writes n event w1) \<and> delivery_post d n (Inr (0, False)) (commit_writes n event w1)"
    by (simp add: delivery_post_def commit_simps(3) guar_commit_fresh)
qed

lemma update_counter_cases:
  assumes "update_counter n mode i w = Some (r, w')" "tx_totals w n = []"
  obtains e where "r = Inl e" "w' = w"
  | t where "r = Inr (t + 1)" "totals w mode = Some t" "\<not> held_by_other (counter_locks w mode) n"
      "w' = w\<lparr>counter_locks := (counter_locks w)(mode := Some n), tx_totals := (tx_totals w)(n := [(mode, t + 1)])\<rparr>"
proof (cases "fault_err (tick_fault i)")
  case None
  with assms show ?thesis
    by (cases "totals w mode"; cases "held_by_other (counter_locks w mode) n"; cases "is_int32 (the (totals w mode) + 1)")
      (auto simp: update_counter_def Let_def intro: that)
next
  case (Some e)
  with assms(1) have "r = Inl (ApplyErr e)" "w' = w" by (simp_all add: update_counter_def)
  then show ?thesis by (rule that(1))
qed

lemma insert_seen_cases:
  assumes "insert_seen n event i w = Some (r, w')" "tx_seen w n = []"
  obtains e where "r = Inl e" "w' = w" | "r = Inr False" "w' = w" "event \<in> set (seen w)"
  | "r = Inr True" "event \<notin> set (seen w)" "\<not> held_by_other (seen_locks w event) n"
      "w' = w\<lparr>seen_locks := (seen_locks w)(event := Some n), tx_seen := (tx_seen w)(n := [event])\<rparr>"
proof (cases "fault_err (tick_fault i)")
  case None
  with assms show ?thesis
    by (cases "is_int32 event"; cases "event \<in> set (seen w)"; cases "held_by_other (seen_locks w event) n")
      (auto simp: insert_seen_def intro: that)
next
  case (Some e)
  with assms(1) have "r = Inl (ApplyErr e)" "w' = w" by (simp_all add: insert_seen_def)
  then show ?thesis by (rule that(1))
qed

lemma update_counter_counted:
  assumes "claimed_tx n s event w" "update_counter n (strategy_Name s) i w = Some (r, w')"
  shows "counter_guar d n w w' \<and> (\<forall>t. r = Inr t \<longrightarrow> counted_tx n s event w')"
proof -
  have "tx_totals w n = []" using assms(1) by (simp add: claimed_tx_def)
  with assms(2) show ?thesis
  proof (cases rule: update_counter_cases)
    case (2 t)
    have "counted_tx n s event w'"
      using assms(1) 2(2) unfolding 2(4) claimed_tx_def counted_tx_def by (cases s) simp_all
    then show ?thesis using guar_update_counter [OF 2(3)] 2(4) by simp
  qed simp
qed

lemma Claim_event_claimed:
  assumes "fresh_tx n w" "Claim_event s n event i w = Some (r, w')"
  shows "counter_guar d n w w' \<and> (r = Inr True \<longrightarrow> claimed_tx n s event w')
    \<and> (r = Inr False \<longrightarrow> s = Idempotent \<and> fresh_tx n w' \<and> event \<in> set (seen w'))"
proof (cases s)
  case Naive
  then show ?thesis using assms by (auto simp: Claim_event_def fresh_tx_def claimed_tx_def)
next
  case Idempotent
  then have "insert_seen n event i w = Some (r, w')" "tx_seen w n = []"
    using assms by (simp_all add: Claim_event_def fresh_tx_def)
  then show ?thesis
  proof (cases rule: insert_seen_cases)
    case 3
    have "claimed_tx n s event w'"
      using assms(1) 3(2) Idempotent unfolding 3(4) claimed_tx_def fresh_tx_def by simp
    then show ?thesis using guar_insert_seen [OF 3(3)] 3(1,4) by simp
  qed (use assms(1) Idempotent in simp_all)
qed

lemma safe_apply_claimed:
  assumes "claimed_tx n s event w" "d n = (s, event)"
  shows "delivery_safe d n (apply_claimed n s event True) w"
proof -
  have "delivery_safe d n (waiting (update_counter n (strategy_Name s)) (\<lambda>r. case r of
          Inl e \<Rightarrow> after_rollback n (Inl e)
        | Inr t \<Rightarrow> finish_apply n event (t, True))) w"
  proof (rule safe_waiting)
    fix w1 i r w2
    assume rely: "counter_rely n w w1" and u: "update_counter n (strategy_Name s) i w1 = Some (r, w2)"
    from update_counter_counted [OF tx_rely(2) [OF rely assms(1)] u, of d] assms(2)
    show "counter_guar d n w1 w2 \<and> delivery_safe d n (case r of
          Inl e \<Rightarrow> after_rollback n (Inl e)
        | Inr t \<Rightarrow> finish_apply n event (t, True)) w2"
      by (cases r) (auto simp: safe_after_rollback intro: safe_finish_counted)
  qed simp
  then show ?thesis by (simp add: apply_claimed_def)
qed

lemma safe_Apply:
  assumes "fresh_tx n w" "d n = (s, event)"
  shows "delivery_safe d n (Apply n s event) w"
proof -
  have claim: "delivery_safe d n (waiting (Claim_event s n event) (\<lambda>r. case r of
         Inl e \<Rightarrow> after_rollback n (Inl e)
       | Inr claimed \<Rightarrow> apply_claimed n s event claimed)) w" if "fresh_tx n w" for w
  proof (rule safe_waiting)
    fix w1 i r w2
    assume rely: "counter_rely n w w1" and c: "Claim_event s n event i w1 = Some (r, w2)"
    note k = Claim_event_claimed [OF tx_rely(1) [OF rely that] c, of d]
    have "delivery_safe d n (apply_claimed n s event b) w2" if "r = Inr b" for b
      using k that safe_apply_claimed [of n s event w2 d] safe_finish_duplicate [of n w2 d event] assms(2)
      by (cases b) (simp_all add: apply_claimed_def)
    with k show "counter_guar d n w1 w2 \<and> delivery_safe d n (case r of
         Inl e \<Rightarrow> after_rollback n (Inl e)
       | Inr claimed \<Rightarrow> apply_claimed n s event claimed) w2"
      by (cases r) (simp_all add: safe_after_rollback)
  qed simp
  show ?thesis
    unfolding Apply_def
  proof (rule safe_atomically)
    fix w1 i b w2
    assume "counter_rely n w w1" "begin_tx n i w1 = (b, w2)"
    then have "fresh_tx n w2" "w2 = w1" using assms(1) tx_rely(1) by (auto simp: begin_tx_def)
    with claim show "counter_guar d n w1 w2 \<and> delivery_safe d n (case b of
       Some e \<Rightarrow> Done (Inl e)
     | None \<Rightarrow> waiting (Claim_event s n event) (\<lambda>r. case r of
         Inl e \<Rightarrow> after_rollback n (Inl e)
       | Inr claimed \<Rightarrow> apply_claimed n s event claimed)) w2"
      by (cases b) (auto intro: safe_Done)
  qed
qed

definition delivery_threads :: "(Strategy \<times> int) list \<Rightarrow> (tick, counter_db, (apply_err, int \<times> bool) result) thread list" where
  "delivery_threads ds = map (\<lambda>n. Apply n (fst (ds ! n)) (snd (ds ! n))) [0..<length ds]"

definition delivered :: "Strategy \<Rightarrow> (Strategy \<times> int) list \<Rightarrow> nat list" where
  "delivered s ds = filter (\<lambda>n. fst (ds ! n) = s) [0..<length ds]"

definition acknowledged :: "Strategy \<Rightarrow> (Strategy \<times> int) list
    \<Rightarrow> (tick, counter_db, (apply_err, int \<times> bool) result) thread list \<Rightarrow> nat list" where
  "acknowledged s ds ts = filter (\<lambda>n. case ts ! n of Done (Inr _) \<Rightarrow> True | _ \<Rightarrow> False) (delivered s ds)"

lemma reset_inv: "counter_inv (reset_db w)"
  by (auto simp: counter_inv_def reset_db_def increments_def strategy_Name_def split: Strategy.splits)

lemma reset_fresh: "fresh_tx n (reset_db w)"
  by (simp add: fresh_tx_def reset_db_def)

lemma deliveries_safe: "counter.all_safe ((!) ds) (delivery_post ((!) ds)) (reset_db w, delivery_threads ds)"
  by (simp add: counter.all_safe_def delivery_threads_def safe_Apply reset_fresh)

lemma reach_inv:
  assumes "reaches (reset_db w, delivery_threads ds) (w', ts)"
  shows "counter_inv w'"
proof -
  have "counter_inv (fst (w', ts))"
    by (rule counter.invariant [OF assms deliveries_safe])
      (simp_all add: reset_inv, metis counter_guar_def counter_rely_def n_not_Suc_n)
  then show ?thesis by simp
qed

lemma reach_log:
  assumes "reaches (reset_db w, delivery_threads ds) (w', ts)" "(n, mode, event) \<in> set (applied_log w')"
  shows "n < length ds \<and> mode = strategy_Name (fst (ds ! n)) \<and> event = snd (ds ! n)"
proof -
  have "reaches c c' \<Longrightarrow> counter.all_safe ((!) ds) (delivery_post ((!) ds)) c \<Longrightarrow> length (snd c) = length ds \<Longrightarrow>
      \<forall>l \<in> set (applied_log (fst c)). fst l < length ds \<and> snd l = (strategy_Name (fst (ds ! fst l)), snd (ds ! fst l)) \<Longrightarrow>
      \<forall>l \<in> set (applied_log (fst c')). fst l < length ds \<and> snd l = (strategy_Name (fst (ds ! fst l)), snd (ds ! fst l))"
    for c c' :: "(tick, counter_db, (apply_err, int \<times> bool) result) system"
  proof (induction rule: reaches.induct)
    case (reaches_step c c' n c'')
    from counter.step_guar [OF counter.all_safe_reaches [OF reaches_step.hyps(1) reaches_step.prems(1)] reaches_step.hyps(2)]
    have "\<forall>l \<in> set (applied_log (fst c'')). l \<in> set (applied_log (fst c')) \<or> l = (n, strategy_Name (fst (ds ! n)), snd (ds ! n))"
      by (simp add: counter_guar_def)
    moreover have "n < length ds"
      using reaches_step.hyps(2) reaches_length [OF reaches_step.hyps(1)] reaches_step.prems(2)
      by (auto elim: sys_step.cases)
    ultimately show ?case using reaches_step by fastforce
  qed simp
  from this [OF assms(1) deliveries_safe] assms(2) show ?thesis
    by (fastforce simp: delivery_threads_def reset_db_def)
qed

lemma reach_acknowledged:
  assumes "reaches (reset_db w, delivery_threads ds) (w', ts)" "n \<in> set (acknowledged s ds ts)"
  shows "if s = Naive then (n, ''naive'', snd (ds ! n)) \<in> set (applied_log w') else snd (ds ! n) \<in> set (seen w')"
proof -
  from assms(2) obtain t a where n: "n < length ds" "fst (ds ! n) = s" "ts ! n = Done (Inr (t, a))"
    by (auto simp: acknowledged_def delivered_def split: thread.splits sum.splits)
  have "length ts = length ds" using reaches_length [OF assms(1)] by (simp add: delivery_threads_def)
  with counter.post [OF assms(1) deliveries_safe, of n "Inr (t, a)"] n
  have p: "if a then (n, strategy_Name s, snd (ds ! n)) \<in> set (applied_log w')
      else s = Idempotent \<and> snd (ds ! n) \<in> set (seen w')"
    by (simp add: delivery_post_def split: if_splits)
  have "snd (ds ! n) \<in> set (seen w')" if "(n, ''idempotent'', snd (ds ! n)) \<in> set (applied_log w')"
    using that reach_inv [OF assms(1)] unfolding counter_inv_def increments_def by force
  with p show ?thesis by (cases s) (auto simp: strategy_Name_def split: if_splits)
qed

lemma naive_counts:
  assumes "reaches (reset_db w, delivery_threads ds) (w', ts)"
  shows "\<exists>t. totals w' ''naive'' = Some t \<and> int (length (acknowledged Naive ds ts)) \<le> t
    \<and> t \<le> int (length (delivered Naive ds))"
proof -
  note inv = reach_inv [OF assms, unfolded counter_inv_def]
  let ?I = "increments ''naive'' w'"
  have t: "totals w' ''naive'' = Some (int (length ?I))" using inv by (metis Strategy.case(1) strategy_Name_def)
  have "distinct (map fst ?I)"
    using inv unfolding increments_def by (simp add: distinct_map_filter)
  then have len: "length ?I = card (fst ` set ?I)" by (metis distinct_card length_map list.set_map)
  have "fst ` set ?I \<subseteq> set (delivered Naive ds)"
    using reach_log [OF assms] by (fastforce simp: increments_def delivered_def strategy_Name_def split: Strategy.splits)
  then have "card (fst ` set ?I) \<le> length (delivered Naive ds)"
    by (meson List.finite_set card_length card_mono le_trans)
  moreover have "set (acknowledged Naive ds ts) \<subseteq> fst ` set ?I"
    using reach_acknowledged [OF assms, of _ Naive] by (force simp: increments_def)
  then have "length (acknowledged Naive ds ts) \<le> card (fst ` set ?I)"
    by (metis List.finite_set acknowledged_def card_mono delivered_def distinct_card distinct_filter distinct_upt finite_imageI)
  ultimately show ?thesis using t len by simp
qed

lemma idempotent_counts:
  assumes "reaches (reset_db w, delivery_threads ds) (w', ts)"
  shows "\<exists>t. totals w' ''idempotent'' = Some t
    \<and> int (card (set (map (\<lambda>n. snd (ds ! n)) (acknowledged Idempotent ds ts)))) \<le> t
    \<and> t \<le> int (card (set (map (\<lambda>n. snd (ds ! n)) (delivered Idempotent ds))))
    \<and> t = int (length (seen w'))"
proof -
  note inv = reach_inv [OF assms, unfolded counter_inv_def]
  let ?I = "increments ''idempotent'' w'"
  have seen: "seen w' = map (\<lambda>l. snd (snd l)) ?I" and dist: "distinct (seen w')" using inv by blast+
  have t: "totals w' ''idempotent'' = Some (int (length ?I))" using inv by (metis Strategy.case(2) strategy_Name_def)
  have "length (seen w') = length ?I" by (simp only: seen length_map)
  then have len: "length ?I = card (set (seen w'))" using distinct_card [OF dist] by simp
  have "set (seen w') \<subseteq> set (map (\<lambda>n. snd (ds ! n)) (delivered Idempotent ds))"
  proof
    fix e
    assume "e \<in> set (seen w')"
    then obtain n where "(n, ''idempotent'', e) \<in> set (applied_log w')"
      unfolding seen by (auto simp: increments_def)
    from reach_log [OF assms this] have "n < length ds" "fst (ds ! n) = Idempotent" "e = snd (ds ! n)"
      by (auto simp: strategy_Name_def split: Strategy.splits)
    then show "e \<in> set (map (\<lambda>n. snd (ds ! n)) (delivered Idempotent ds))" by (auto simp: delivered_def)
  qed
  then have "card (set (seen w')) \<le> card (set (map (\<lambda>n. snd (ds ! n)) (delivered Idempotent ds)))"
    by (rule card_mono [OF finite_set])
  moreover have "set (map (\<lambda>n. snd (ds ! n)) (acknowledged Idempotent ds ts)) \<subseteq> set (seen w')"
    using reach_acknowledged [OF assms, of _ Idempotent] by auto
  then have "card (set (map (\<lambda>n. snd (ds ! n)) (acknowledged Idempotent ds ts))) \<le> card (set (seen w'))"
    by (rule card_mono [OF finite_set])
  ultimately show ?thesis using t len seen by simp
qed

text \<open>
  C8. The counters under concurrent deliveries and failures: at every moment the naive total lies
  between the acknowledged and the attempted deliveries, and the idempotent total between the
  number of distinct acknowledged and distinct attempted events; it is the number of rows in
  \<^verbatim>\<open>job_seen\<close>. No update is lost, and no event counts twice, although a commit may take effect
  and still be reported as failed, so that the client delivers it again.
\<close>

theorem Apply_counts_deliveries:
  assumes "reaches (reset_db w, delivery_threads ds) (w', ts)"
  shows "(\<exists>t. totals w' ''naive'' = Some t \<and> int (length (acknowledged Naive ds ts)) \<le> t
      \<and> t \<le> int (length (delivered Naive ds)))
    \<and> (\<exists>t. totals w' ''idempotent'' = Some t
      \<and> int (card (set (map (\<lambda>n. snd (ds ! n)) (acknowledged Idempotent ds ts)))) \<le> t
      \<and> t \<le> int (card (set (map (\<lambda>n. snd (ds ! n)) (delivered Idempotent ds))))
      \<and> t = int (length (seen w')))"
  using naive_counts [OF assms] idempotent_counts [OF assms] by blast

definition all_acknowledged :: "(tick, counter_db, (apply_err, int \<times> bool) result) thread list \<Rightarrow> bool" where
  "all_acknowledged ts \<longleftrightarrow> list_all (\<lambda>t. case t of Done (Inr _) \<Rightarrow> True | _ \<Rightarrow> False) ts"

lemma all_acknowledged_delivered:
  assumes "all_acknowledged ts" "length ts = length ds"
  shows "acknowledged s ds ts = delivered s ds"
  using assms unfolding acknowledged_def all_acknowledged_def
  by (intro filter_True) (auto simp: delivered_def list_all_length)

text \<open>
  When every delivery has been acknowledged, the naive total is the number of deliveries and
  the idempotent total the number of distinct events: the overcount the lesson shows is exactly
  the number of repeated deliveries.
\<close>

theorem Apply_totals_exact:
  assumes "reaches (reset_db w, delivery_threads ds) (w', ts)" "all_acknowledged ts"
  shows "totals w' ''naive'' = Some (int (length (delivered Naive ds)))
    \<and> totals w' ''idempotent'' = Some (int (card (set (map (\<lambda>n. snd (ds ! n)) (delivered Idempotent ds)))))"
proof -
  have "length ts = length ds" using reaches_length [OF assms(1)] by (simp add: delivery_threads_def)
  note ack = all_acknowledged_delivered [OF assms(2) this]
  from naive_counts [OF assms(1)] idempotent_counts [OF assms(1)] show ?thesis
    unfolding ack by fastforce
qed

definition empty_counter :: counter_db where
  "empty_counter = \<lparr>totals = Map.empty, seen = [], counter_locks = Map.empty, seen_locks = Map.empty,
     tx_totals = (\<lambda>_. []), tx_seen = (\<lambda>_. []), applied_log = []\<rparr>"

definition demo_deliveries :: "(tick, counter_db, (apply_err, int \<times> bool) result) system" where
  "demo_deliveries = schedule (map (\<lambda>n. (n, \<lparr>tick_fault = Fine, tick_clock = 0\<rparr>)) [0, 1, 0, 1, 0, 1, 0, 0, 1, 1, 1])
     (reset_db empty_counter, delivery_threads [(Idempotent, 7), (Idempotent, 7)])"

lemma demo_reached:
  "reaches (reset_db empty_counter, delivery_threads [(Idempotent, 7), (Idempotent, 7)]) (fst demo_deliveries, snd demo_deliveries)"
  unfolding demo_deliveries_def prod.collapse by (rule schedule_reaches)

theorem Apply_counts_deliveries_witness:
  "totals (fst demo_deliveries) ''idempotent'' = Some 1
   \<and> (\<exists>t. totals (fst demo_deliveries) ''naive'' = Some t \<and> t \<le> int (length (delivered Naive [(Idempotent, 7), (Idempotent, 7)])))"
proof -
  have "totals (fst demo_deliveries) ''idempotent'' = Some 1" by code_simp
  with Apply_counts_deliveries [OF demo_reached] show ?thesis by blast
qed

theorem Apply_totals_exact_witness:
  "all_acknowledged (snd demo_deliveries)
   \<and> totals (fst demo_deliveries) ''idempotent'' = Some (int (card {7 :: int}))"
proof -
  have a: "all_acknowledged (snd demo_deliveries)" by code_simp
  have "set (map (\<lambda>n. snd ([(Idempotent, 7), (Idempotent, 7)] ! n)) (delivered Idempotent [(Idempotent, 7), (Idempotent, 7)])) = {7 :: int}"
    by code_simp
  with Apply_totals_exact [OF demo_reached a] a show ?thesis by simp
qed
end
