(* ===== verification/Counter_Lesson.thy ===== *)
theory Counter_Lesson
  imports Job_Counter Measurements
begin

section \<open>The counter lesson and its HTTP adapter\<close>

text \<open>
  \<^verbatim>\<open>lessons/go/completed-job-counter/main.go\<close>, the experiment of 100 events delivered three
  times under each strategy on one connection, and \<^verbatim>\<open>perf/main.go\<close>, the same operation behind
  HTTP. The answers of the service and the clock are inputs; \<^term>\<open>None\<close> is a run whose inputs
  are used up before it ends. The state is the measurements file and the tables; \<open>fmt\<close> prints a
  latency. The progress lines and closing the connection, whose result is dropped, are left out.
\<close>

subsection \<open>The experiment\<close>

definition lesson_err :: "apply_err \<Rightarrow> string" where
  "lesson_err e = (case e of ApplyErr m \<Rightarrow> m | CounterRowMissing \<Rightarrow> ''counter row is missing'')"

definition deliver :: "file_writer \<Rightarrow> (int \<Rightarrow> string) \<Rightarrow> tick list \<Rightarrow> int \<Rightarrow> Strategy \<Rightarrow> int \<Rightarrow> int \<Rightarrow> int
    \<Rightarrow> Measurements \<times> counter_db \<Rightarrow> (panic, int) result option \<times> (Measurements \<times> counter_db)" where
  "deliver wr fmt is elapsed s event attempt prevTotal st =
     (case run (Apply 0 s event) is (snd st) of
        (Step _, w) \<Rightarrow> (None, (fst st, w))
      | (Done (Inl e), w) \<Rightarrow> (Some (Inl (PanicError (lesson_err e))), (fst st, w))
      | (Done (Inr (t, applied)), w) \<Rightarrow>
          (let t' = (if applied then t else prevTotal) in
           case Write_row wr [strategy_Name s, Itoa event, Itoa attempt,
              if applied then ''1'' else ''0'', Itoa t', fmt elapsed] (fst st) of
             (Inl p, m) \<Rightarrow> (Some (Inl p), (m, w))
           | (Inr _, m) \<Rightarrow> (Some (Inr t'), (m, w))))"

fun deliver_all :: "file_writer \<Rightarrow> (int \<Rightarrow> string) \<Rightarrow> Strategy \<Rightarrow> (int \<times> int \<times> tick list \<times> int) list \<Rightarrow> int
    \<Rightarrow> Measurements \<times> counter_db \<Rightarrow> (panic, int) result option \<times> (Measurements \<times> counter_db)" where
  "deliver_all wr fmt s [] t st = (Some (Inr t), st)"
| "deliver_all wr fmt s ((event, attempt, is, elapsed) # ds) t st =
     (case deliver wr fmt is elapsed s event attempt t st of
        (Some (Inr t), st) \<Rightarrow> deliver_all wr fmt s ds t st
      | other \<Rightarrow> other)"

definition run_strategy :: "file_writer \<Rightarrow> (int \<Rightarrow> string) \<Rightarrow> Strategy \<Rightarrow> int \<Rightarrow> (int \<times> int \<times> tick list \<times> int) list
    \<Rightarrow> Measurements \<times> counter_db \<Rightarrow> (panic, int) result option \<times> (Measurements \<times> counter_db)" where
  "run_strategy wr fmt s wantTotal ds st =
     (case deliver_all wr fmt s ds 0 st of
        (Some (Inr t), st) \<Rightarrow>
          (if t \<noteq> wantTotal
           then (Some (Inl (PanicMessage (''invariant failed: '' @ strategy_Name s @ '' total is '' @ Itoa t
             @ '', want '' @ Itoa wantTotal))), st)
           else (Some (Inr t), st))
      | other \<Rightarrow> other)"

definition truncate_counters :: "tick \<Rightarrow> counter_db \<Rightarrow> string option \<times> counter_db" where
  "truncate_counters i w = (case fault_err (tick_fault i) of
       Some e \<Rightarrow> (Some e, w)
     | None \<Rightarrow> (None, w\<lparr>totals := Map.empty, seen := [], counter_locks := Map.empty, seen_locks := Map.empty,
         tx_totals := (\<lambda>_. []), tx_seen := (\<lambda>_. []), applied_log := []\<rparr>))"

definition seed_counters :: "tick \<Rightarrow> counter_db \<Rightarrow> string option \<times> counter_db" where
  "seed_counters i w = (case fault_err (tick_fault i) of
       Some e \<Rightarrow> (Some e, w)
     | None \<Rightarrow> (None, w\<lparr>totals := (totals w)(''naive'' \<mapsto> 0, ''idempotent'' \<mapsto> 0)\<rparr>))"

definition reset :: "tick \<Rightarrow> tick \<Rightarrow> counter_db \<Rightarrow> (panic, unit) result \<times> counter_db" where
  "reset i1 i2 w = (case truncate_counters i1 w of
       (Some e, w) \<Rightarrow> (Inl (PanicError e), w)
     | (None, w) \<Rightarrow> (case seed_counters i2 w of
         (Some e, w) \<Rightarrow> (Inl (PanicError e), w)
       | (None, w) \<Rightarrow> (Inr (), w)))"

definition warm_up :: "tick list \<Rightarrow> tick list \<Rightarrow> counter_db \<Rightarrow> (panic, unit) result option \<times> counter_db" where
  "warm_up is1 is2 w = (case run (Apply 0 Naive 0) is1 w of
       (Step _, w) \<Rightarrow> (None, w)
     | (Done (Inl e), w) \<Rightarrow> (Some (Inl (PanicError (lesson_err e))), w)
     | (Done (Inr _), w) \<Rightarrow> (case run (Apply 0 Idempotent 0) is2 w of
         (Step _, w) \<Rightarrow> (None, w)
       | (Done (Inl e), w) \<Rightarrow> (Some (Inl (PanicError (lesson_err e))), w)
       | (Done (Inr _), w) \<Rightarrow> (Some (Inr ()), w)))"

definition lesson_deliveries :: "int \<Rightarrow> int \<Rightarrow> (int \<Rightarrow> int \<Rightarrow> tick list \<times> int) \<Rightarrow> (int \<times> int \<times> tick list \<times> int) list" where
  "lesson_deliveries uniqueEvents attempts inputs =
     concat (map (\<lambda>event. map (\<lambda>attempt. (event, attempt, inputs event attempt)) [1..attempts]) [1..uniqueEvents])"

record lesson_inputs =
  li_connect :: "string option"
  li_schema :: "string option"
  li_create :: "string option"
  li_close :: "string option"
  li_writer :: file_writer
  li_reset :: "nat \<Rightarrow> tick"
  li_warm :: "Strategy \<Rightarrow> tick list"
  li_deliver :: "Strategy \<Rightarrow> int \<Rightarrow> int \<Rightarrow> tick list \<times> int"

text \<open>The measured part, from the open file to its \<^verbatim>\<open>Close\<close>, which is not deferred.\<close>

definition counter_measure :: "(int \<Rightarrow> string) \<Rightarrow> lesson_inputs \<Rightarrow> Measurements \<Rightarrow> counter_db
    \<Rightarrow> (panic, int \<times> int) result option \<times> Measurements" where
  "counter_measure fmt li m w =
     (case run_strategy (li_writer li) fmt Naive (100 * 3) (lesson_deliveries 100 3 (li_deliver li Naive)) (m, w) of
        (None, m, _) \<Rightarrow> (None, m)
      | (Some (Inl p), m, _) \<Rightarrow> (Some (Inl p), m)
      | (Some (Inr n), st) \<Rightarrow>
          (case run_strategy (li_writer li) fmt Idempotent 100 (lesson_deliveries 100 3 (li_deliver li Idempotent)) st of
             (None, m, _) \<Rightarrow> (None, m)
           | (Some (Inl p), m, _) \<Rightarrow> (Some (Inl p), m)
           | (Some (Inr k), m, _) \<Rightarrow> (case Close (li_writer li) (li_close li) m of
               (Inl p, m) \<Rightarrow> (Some (Inl p), m)
             | (Inr _, m) \<Rightarrow> (Some (Inr (n, k)), m))))"

definition counter_columns :: "string list" where
  "counter_columns = [''mode'', ''event_id'', ''attempt'', ''applied'', ''observed_total'', ''latency_ms'']"

text \<open>Connecting and creating the tables, which exist afterwards whatever was there, can only fail.\<close>

definition counter_main :: "(int \<Rightarrow> string) \<Rightarrow> lesson_inputs \<Rightarrow> counter_db \<Rightarrow> (panic, int \<times> int) result option \<times> Measurements" where
  "counter_main fmt li w =
     (let no_file = \<lparr>ms_file = [], ms_buf = [], ms_err = None\<rparr> in
      case Check (li_connect li) of Inl p \<Rightarrow> (Some (Inl p), no_file) | Inr _ \<Rightarrow>
      (case Check (li_schema li) of Inl p \<Rightarrow> (Some (Inl p), no_file) | Inr _ \<Rightarrow>
      (case reset (li_reset li 0) (li_reset li 1) w of
        (Inl p, w) \<Rightarrow> (Some (Inl p), no_file)
      | (Inr _, w) \<Rightarrow> (case warm_up (li_warm li Naive) (li_warm li Idempotent) w of
          (None, w) \<Rightarrow> (None, no_file)
        | (Some (Inl p), w) \<Rightarrow> (Some (Inl p), no_file)
        | (Some (Inr _), w) \<Rightarrow> (case reset (li_reset li 2) (li_reset li 3) w of
            (Inl p, w) \<Rightarrow> (Some (Inl p), no_file)
          | (Inr _, w) \<Rightarrow> (case NewMeasurements (li_writer li) (li_create li) counter_columns of
              (Inl p, m) \<Rightarrow> (Some (Inl p), m)
            | (Inr _, m) \<Rightarrow> counter_measure fmt li m w))))))"

definition quiet_counter :: "counter_db \<Rightarrow> bool" where
  "quiet_counter w \<longleftrightarrow> counter_locks w = Map.empty \<and> seen_locks w = Map.empty
     \<and> tx_totals w = (\<lambda>_. []) \<and> tx_seen w = (\<lambda>_. [])"

definition enough :: "tick list \<Rightarrow> bool" where
  "enough is \<longleftrightarrow> 5 \<le> length is \<and> list_all calm is"

lemma enoughE:
  assumes "enough is"
  obtains a b c d e rest where "is = a # b # c # d # e # rest" "calm a" "calm b" "calm c" "calm d" "calm e"
  using assms by (auto simp: enough_def numeral_eq_Suc Suc_le_length_iff)

lemmas apply_simps = Apply_def atomically_def waiting_def begin_tx_def Claim_event_def insert_seen_def
  apply_claimed_def update_counter_def finish_apply_def commit_tx_def after_rollback_def rollback_tx_def
  calm_def fault_err_def held_by_other_def Let_def

lemma run_Apply_claimed:
  assumes "enough is" "quiet_counter w" "totals w (strategy_Name s) = Some t" "is_int32 (t + 1)"
    "s = Idempotent \<Longrightarrow> is_int32 event \<and> event \<notin> set (seen w)"
  shows "\<exists>w'. run (Apply 0 s event) is w = (Done (Inr (t + 1, True)), w') \<and> quiet_counter w'
    \<and> totals w' = (totals w)(strategy_Name s \<mapsto> t + 1)
    \<and> seen w' = (if s = Idempotent then seen w @ [event] else seen w)"
proof -
  from assms(1) obtain a b c d e rest where i: "is = a # b # c # d # e # rest"
    "calm a" "calm b" "calm c" "calm d" "calm e" by (rule enoughE)
  show ?thesis
    using assms(2-) i
    by (cases s) (auto simp: apply_simps quiet_counter_def commit_writes_def end_tx_def strategy_Name_def fun_eq_iff split: option.splits)
qed

lemma run_Apply_duplicate:
  assumes "enough is" "quiet_counter w" "is_int32 event" "event \<in> set (seen w)"
  shows "\<exists>w'. run (Apply 0 Idempotent event) is w = (Done (Inr (0, False)), w') \<and> quiet_counter w'
    \<and> totals w' = totals w \<and> seen w' = seen w"
proof -
  from assms(1) obtain a b c d e rest where i: "is = a # b # c # d # e # rest"
    "calm a" "calm b" "calm c" "calm d" "calm e" by (rule enoughE)
  show ?thesis
    using assms(2-) i
    by (auto simp: apply_simps quiet_counter_def commit_writes_def end_tx_def fun_eq_iff split: option.splits)
qed

definition well_timed :: "(int \<times> int \<times> tick list \<times> int) list \<Rightarrow> bool" where
  "well_timed ds \<longleftrightarrow> list_all (\<lambda>(event, attempt, is, elapsed). is_int32 event \<and> enough is) ds"

text \<open>A file that works, to which the text \<open>s\<close> was written.\<close>

definition holds_text :: "file_writer \<Rightarrow> Measurements \<Rightarrow> string \<Rightarrow> bool" where
  "holds_text wr m s \<longleftrightarrow> file_laws wr \<and> no_errors wr \<and> follows m s \<and> ms_err m = None"

lemma Write_row_holds:
  assumes "holds_text wr m s"
  shows "\<exists>m'. Write_row wr row m = (Inr (), m') \<and> holds_text wr m' (s @ csv_record row)"
  using assms no_errors_put [of wr m "csv_record row"] follows_Write [of wr m s row]
  by (auto simp: holds_text_def Write_row_def Let_def Check_def)

definition wrote_rows :: "file_writer \<Rightarrow> string \<Rightarrow> nat \<Rightarrow> Measurements \<Rightarrow> bool" where
  "wrote_rows wr s n m \<longleftrightarrow> (\<exists>rows. length rows = n \<and> (\<forall>row \<in> set rows. row \<noteq> []) \<and> holds_text wr m (s @ csv_text rows))"

lemma wrote_rows_Suc: "row \<noteq> [] \<Longrightarrow> wrote_rows wr (s @ csv_record row) n m \<Longrightarrow> wrote_rows wr s (Suc n) m"
  unfolding wrote_rows_def
proof (elim exE conjE)
  fix rows
  assume "row \<noteq> []" "length rows = n" "\<forall>row \<in> set rows. row \<noteq> []" "holds_text wr m ((s @ csv_record row) @ csv_text rows)"
  then show "\<exists>rows. length rows = Suc n \<and> (\<forall>row \<in> set rows. row \<noteq> []) \<and> holds_text wr m (s @ csv_text rows)"
    by (intro exI [of _ "row # rows"]) (simp add: csv_text_def)
qed

lemma wrote_rows_append:
  assumes "wrote_rows wr s n m" "\<And>s'. holds_text wr m s' \<Longrightarrow> wrote_rows wr s' k m'"
  shows "wrote_rows wr s (n + k) m'"
proof -
  from assms(1) obtain rows where r: "length rows = n" "\<forall>row \<in> set rows. row \<noteq> []" "holds_text wr m (s @ csv_text rows)"
    unfolding wrote_rows_def by blast
  from assms(2) [OF r(3)] obtain rows' where "length rows' = k" "\<forall>row \<in> set rows'. row \<noteq> []"
    "holds_text wr m' ((s @ csv_text rows) @ csv_text rows')" unfolding wrote_rows_def by blast
  with r show ?thesis unfolding wrote_rows_def by (intro exI [of _ "rows @ rows'"]) (auto simp: csv_text_def)
qed

lemma wrote_rows_0: "holds_text wr m s \<Longrightarrow> wrote_rows wr s 0 m"
  by (simp add: wrote_rows_def csv_text_def)

lemma deliver_all_naive:
  assumes "well_timed ds" "quiet_counter w" "totals w ''naive'' = Some t" "0 \<le> t" "t + int (length ds) < 2 ^ 31" "holds_text wr m sofar"
  shows "\<exists>m' w'. deliver_all wr fmt Naive ds t (m, w) = (Some (Inr (t + int (length ds))), (m', w'))
    \<and> quiet_counter w' \<and> totals w' ''idempotent'' = totals w ''idempotent'' \<and> seen w' = seen w \<and> wrote_rows wr sofar (length ds) m'"
  using assms
proof (induction ds arbitrary: t m w sofar)
  case (Cons d ds)
  obtain event attempt "is" elapsed where d: "d = (event, attempt, is, elapsed)" by (cases d)
  have "enough is" "is_int32 (t + 1)" using Cons.prems d by (auto simp: well_timed_def is_int32_def)
  from run_Apply_claimed [OF this(1) Cons.prems(2), of Naive t event] this(2) Cons.prems(3)
  obtain w' where w': "run (Apply 0 Naive event) is w = (Done (Inr (t + 1, True)), w')" "quiet_counter w'"
    "totals w' = (totals w)(''naive'' \<mapsto> t + 1)" "seen w' = seen w"
    by (auto simp: strategy_Name_def)
  let ?row = "[strategy_Name Naive, Itoa event, Itoa attempt, ''1'', Itoa (t + 1), fmt elapsed]"
  from Write_row_holds [OF Cons.prems(6)] obtain m' where m': "Write_row wr ?row m = (Inr (), m')"
    "holds_text wr m' (sofar @ csv_record ?row)" by blast
  have ds: "well_timed ds" using Cons.prems(1) by (simp add: well_timed_def)
  from Cons.IH [OF ds w'(2) _ _ _ m'(2), of "t + 1"] w' m' Cons.prems d show ?case
    by (auto simp: deliver_def Let_def add.assoc intro!: wrote_rows_Suc [of ?row])
qed (simp add: wrote_rows_0)

lemma deliver_all_idempotent:
  assumes "well_timed ds" "quiet_counter w" "totals w ''idempotent'' = Some t" "t = int (card (set (seen w)))"
    "int (card (set (seen w)) + length ds) < 2 ^ 31" "holds_text wr m sofar"
  shows "\<exists>m' w'. deliver_all wr fmt Idempotent ds t (m, w) =
      (Some (Inr (int (card (set (seen w) \<union> set (map fst ds))))), (m', w')) \<and> quiet_counter w' \<and> wrote_rows wr sofar (length ds) m'"
  using assms
proof (induction ds arbitrary: t m w sofar)
  case (Cons d ds)
  obtain event attempt "is" elapsed where d: "d = (event, attempt, is, elapsed)" by (cases d)
  have i: "enough is" "is_int32 event" "well_timed ds" using Cons.prems(1) d by (auto simp: well_timed_def)
  show ?case
  proof (cases "event \<in> set (seen w)")
    case True
    from run_Apply_duplicate [OF i(1) Cons.prems(2) i(2) True] obtain w' where
      w': "run (Apply 0 Idempotent event) is w = (Done (Inr (0, False)), w')" "quiet_counter w'"
      "totals w' = totals w" "seen w' = seen w" by blast
    let ?row = "[strategy_Name Idempotent, Itoa event, Itoa attempt, ''0'', Itoa t, fmt elapsed]"
    from Write_row_holds [OF Cons.prems(6)] obtain m' where m': "Write_row wr ?row m = (Inr (), m')"
      "holds_text wr m' (sofar @ csv_record ?row)" by blast
    from Cons.IH [OF i(3) w'(2) _ _ _ m'(2), of t] w' m' Cons.prems d True show ?thesis
      by (auto simp: deliver_def Let_def insert_absorb intro!: wrote_rows_Suc [of ?row])
  next
    case False
    have "is_int32 (t + 1)" using Cons.prems by (simp add: is_int32_def)
    with run_Apply_claimed [OF i(1) Cons.prems(2), of Idempotent t event] i(2) False Cons.prems(3)
    obtain w' where w': "run (Apply 0 Idempotent event) is w = (Done (Inr (t + 1, True)), w')" "quiet_counter w'"
      "totals w' = (totals w)(''idempotent'' \<mapsto> t + 1)" "seen w' = seen w @ [event]"
      by (auto simp: strategy_Name_def)
    let ?row = "[strategy_Name Idempotent, Itoa event, Itoa attempt, ''1'', Itoa (t + 1), fmt elapsed]"
    from Write_row_holds [OF Cons.prems(6)] obtain m' where m': "Write_row wr ?row m = (Inr (), m')"
      "holds_text wr m' (sofar @ csv_record ?row)" by blast
    from Cons.IH [OF i(3) w'(2) _ _ _ m'(2), of "t + 1"] w' m' Cons.prems d False show ?thesis
      by (auto simp: deliver_def Let_def intro!: wrote_rows_Suc [of ?row])
  qed
qed (simp add: wrote_rows_0)

definition calm_lesson :: "lesson_inputs \<Rightarrow> bool" where
  "calm_lesson li \<longleftrightarrow> li_connect li = None \<and> li_schema li = None \<and> li_create li = None \<and> li_close li = None
     \<and> file_laws (li_writer li) \<and> no_errors (li_writer li) \<and> (\<forall>n. calm (li_reset li n)) \<and> (\<forall>s. enough (li_warm li s)) \<and> (\<forall>s e a. enough (fst (li_deliver li s e a)))"

lemma reset_calm: "calm i1 \<Longrightarrow> calm i2 \<Longrightarrow> reset i1 i2 w = (Inr (), reset_db w)"
  by (simp add: reset_def truncate_counters_def seed_counters_def calm_def fault_err_def reset_db_def)

lemma quiet_reset: "quiet_counter (reset_db w)"
  by (simp add: quiet_counter_def reset_db_def)

lemma warm_up_calm:
  assumes "enough is1" "enough is2"
  shows "\<exists>w'. warm_up is1 is2 (reset_db w) = (Some (Inr ()), w')"
proof -
  obtain w1 where w1: "run (Apply 0 Naive 0) is1 (reset_db w) = (Done (Inr (1, True)), w1)" "quiet_counter w1"
    "totals w1 ''idempotent'' = Some 0" "seen w1 = []"
    using run_Apply_claimed [OF assms(1) quiet_reset, of w Naive 0 0]
    by (auto simp: reset_db_def strategy_Name_def is_int32_def)
  then show ?thesis
    using run_Apply_claimed [OF assms(2) w1(2), of Idempotent 0 0]
    by (auto simp: warm_up_def strategy_Name_def is_int32_def)
qed

lemma lesson_deliveries_props:
  assumes "\<forall>e a. enough (fst (inputs e a))" "u < 2 ^ 31"
  shows "well_timed (lesson_deliveries u d inputs)"
    and "length (lesson_deliveries u d inputs) = nat u * nat d"
    and "1 \<le> d \<Longrightarrow> set (map fst (lesson_deliveries u d inputs)) = {1..u}"
proof -
  show "well_timed (lesson_deliveries u d inputs)"
    using assms by (auto simp: well_timed_def lesson_deliveries_def list_all_iff is_int32_def)
      (metis fst_conv)
  show "length (lesson_deliveries u d inputs) = nat u * nat d"
    by (simp add: lesson_deliveries_def length_concat comp_def sum_list_triv)
  show "1 \<le> d \<Longrightarrow> set (map fst (lesson_deliveries u d inputs)) = {1..u}"
    by (auto simp: lesson_deliveries_def image_iff)
qed

lemma NewMeasurements_holds:
  assumes "file_laws wr" "no_errors wr"
  shows "\<exists>m. NewMeasurements wr None columns = (Inr (), m) \<and> holds_text wr m (csv_record columns)"
  using Write_row_holds [of wr "\<lparr>ms_file = [], ms_buf = [], ms_err = None\<rparr>" "[]" columns] assms
  by (auto simp: NewMeasurements_def holds_text_def follows_def)

lemma Close_holds:
  assumes "wrote_rows wr (csv_record columns) n m" "columns \<noteq> []"
  shows "\<exists>m' rows. Close wr None m = (Inr (), m') \<and> csv_rows (ms_file m') = columns # rows \<and> length rows = n"
proof -
  from assms(1) obtain rows where r: "length rows = n" "\<forall>row \<in> set rows. row \<noteq> []" "holds_text wr m (csv_text (columns # rows))"
    unfolding wrote_rows_def csv_text_def by auto
  let ?m = "Flush wr m"
  have none: "ms_err ?m = None" using r(3) no_errors_Flush by (auto simp: holds_text_def)
  with follows_Flush [of wr m "csv_text (columns # rows)"] r(3) have "ms_file ?m = csv_text (columns # rows)"
    by (simp add: holds_text_def follows_def)
  with none r assms(2) show ?thesis by (auto simp: Close_def Let_def Check_def csv_rows_text)
qed

text \<open>
  The experiment shows what it claims: when no call fails, \<^verbatim>\<open>main\<close> ends without a panic, with a
  naive total of 300 and an idempotent total of 100, for every state the tables had before, and its file gives back the
  header and one row for each of the 600 deliveries. Five
  answers per delivery are enough: begin, claim, update, commit and the deferred rollback.
\<close>

theorem counter_main_totals:
  assumes "calm_lesson li"
  shows "\<exists>m rows. counter_main fmt li w = (Some (Inr (300, 100)), m)
    \<and> csv_rows (ms_file m) = counter_columns # rows \<and> length rows = 600"
proof -
  from assms have r: "calm (li_reset li n)" "enough (li_warm li s)" "\<forall>e a. enough (fst (li_deliver li s e a))" for n s
    by (simp_all add: calm_lesson_def)
  from assms have f: "li_connect li = None" "li_schema li = None" "li_create li = None" "li_close li = None"
    "file_laws (li_writer li)" "no_errors (li_writer li)" by (simp_all add: calm_lesson_def)
  obtain w1 where w1: "warm_up (li_warm li Naive) (li_warm li Idempotent) (reset_db w) = (Some (Inr ()), w1)"
    using warm_up_calm r(2) by blast
  obtain m1 where m1: "NewMeasurements (li_writer li) None counter_columns = (Inr (), m1)"
    "holds_text (li_writer li) m1 (csv_record counter_columns)" using NewMeasurements_holds [OF f(5,6)] by blast
  note naive_props = lesson_deliveries_props [where u = 100 and d = 3, OF r(3) [of Naive]]
  note props = lesson_deliveries_props [where u = 100 and d = 3, OF r(3) [of Idempotent]]
  obtain m2 w2 where naive: "deliver_all (li_writer li) fmt Naive (lesson_deliveries 100 3 (li_deliver li Naive)) 0 (m1, reset_db w1)
      = (Some (Inr 300), (m2, w2))" "quiet_counter w2" "totals w2 ''idempotent'' = Some 0" "seen w2 = []"
      "wrote_rows (li_writer li) (csv_record counter_columns) 300 m2"
    using deliver_all_naive [OF naive_props(1) quiet_reset [of w1] _ _ _ m1(2), where t = 0 and fmt = fmt] naive_props(2)
    by (auto simp: reset_db_def)
  have idem: "\<exists>m3 w3. deliver_all (li_writer li) fmt Idempotent (lesson_deliveries 100 3 (li_deliver li Idempotent)) 0 (m2, w2)
      = (Some (Inr 100), (m3, w3)) \<and> wrote_rows (li_writer li) sofar 300 m3" if "holds_text (li_writer li) m2 sofar" for sofar
    using deliver_all_idempotent [OF props(1) naive(2,3) _ _ that, where fmt = fmt] props(2,3) naive(4) by auto
  obtain m3 w3 where i: "deliver_all (li_writer li) fmt Idempotent (lesson_deliveries 100 3 (li_deliver li Idempotent)) 0 (m2, w2)
      = (Some (Inr 100), (m3, w3))"
  proof -
    from naive(5) obtain sofar where "holds_text (li_writer li) m2 sofar" unfolding wrote_rows_def by blast
    from idem [OF this] that show thesis by blast
  qed
  have "wrote_rows (li_writer li) (csv_record counter_columns) (300 + 300) m3"
  proof (rule wrote_rows_append [OF naive(5)])
    fix sofar
    assume "holds_text (li_writer li) m2 sofar"
    from idem [OF this] i show "wrote_rows (li_writer li) sofar 300 m3" by simp
  qed
  from Close_holds [OF this] obtain m4 rows where "Close (li_writer li) None m3 = (Inr (), m4)"
    "csv_rows (ms_file m4) = counter_columns # rows" "length rows = 600" by (auto simp: counter_columns_def)
  then show ?thesis using naive(1) w1 m1(1) i f(1-4)
    by (simp add: counter_main_def counter_measure_def reset_calm r(1) run_strategy_def Check_def)
qed

theorem counter_main_totals_witness:
  "\<exists>li m rows. calm_lesson li \<and> counter_main (\<lambda>_. ''0.000'') li empty_counter = (Some (Inr (300, 100)), m)
     \<and> csv_rows (ms_file m) = counter_columns # rows \<and> length rows = 600"
proof -
  let ?i = "\<lparr>tick_fault = Fine, tick_clock = 0\<rparr>"
  let ?li = "\<lparr>li_connect = None, li_schema = None, li_create = None, li_close = None, li_writer = working_file,
    li_reset = (\<lambda>_. ?i), li_warm = (\<lambda>_. replicate 5 ?i), li_deliver = (\<lambda>_ _ _. (replicate 5 ?i, 0))\<rparr>"
  have "calm_lesson ?li" by (simp add: calm_lesson_def calm_def enough_def list_all_iff working_file_laws)
  with counter_main_totals show ?thesis by blast
qed
end
