(* ===== verification/Counter_Server.thy ===== *)
theory Counter_Server
  imports Job_Counter
begin

section \<open>The counter's HTTP adapter\<close>

text \<open>
  \<^verbatim>\<open>lessons/go/completed-job-counter/perf/main.go\<close>: the handlers of \<^verbatim>\<open>POST /operation\<close> and
  \<^verbatim>\<open>GET /stats\<close> and the tally of confirmed deliveries they share. Each request is a thread, and
  its number names its transaction. \<open>v_confirmed\<close> is the history of the requests whose delivery
  was confirmed; no handler reads it.
\<close>

record variant =
  v_deliveries :: int
  v_failed :: int
  v_events :: "int list"
  v_confirmed :: "nat list"

record counter_server =
  cs_db :: counter_db
  cs_variants :: "Strategy \<Rightarrow> variant"

definition maxEventID :: int where "maxEventID = 999999"
definition maxRequests :: int where "maxRequests = 300000"

definition on_variant :: "Strategy \<Rightarrow> (variant \<Rightarrow> variant) \<Rightarrow> tick \<Rightarrow> counter_server \<Rightarrow> unit \<times> counter_server" where
  "on_variant s f i cs = ((), cs\<lparr>cs_variants := (cs_variants cs)(s := f (cs_variants cs s))\<rparr>)"

definition tally_failed_Add :: "variant \<Rightarrow> variant" where
  "tally_failed_Add v = v\<lparr>v_failed := v_failed v + 1\<rparr>"

definition deliveries_Add :: "nat \<Rightarrow> variant \<Rightarrow> variant" where
  "deliveries_Add n v = v\<lparr>v_deliveries := v_deliveries v + 1, v_confirmed := n # v_confirmed v\<rparr>"

definition add_event :: "int \<Rightarrow> variant \<Rightarrow> variant" where
  "add_event event v = v\<lparr>v_events := List.insert event (v_events v)\<rparr>"

definition acquire :: "tick \<Rightarrow> counter_server \<Rightarrow> string option \<times> counter_server" where
  "acquire i cs = (fault_err (tick_fault i), cs)"

definition apply_err_text :: "apply_err \<Rightarrow> string" where
  "apply_err_text e = (case e of ApplyErr m \<Rightarrow> m | CounterRowMissing \<Rightarrow> ''counter row is missing'')"

definition confirm :: "nat \<Rightarrow> Strategy \<Rightarrow> int \<Rightarrow> int \<Rightarrow> int \<Rightarrow> (apply_err, int \<times> bool) result
    \<Rightarrow> (tick, counter_server, Response) thread" where
  "confirm n s event attempt start r = atomically time_Now (\<lambda>now. case r of
       Inl e \<Rightarrow> atomically (on_variant s tally_failed_Add) (\<lambda>_. Done (Fail 503 (apply_err_text e)))
     | Inr (t, applied) \<Rightarrow> atomically (on_variant s (deliveries_Add n)) (\<lambda>_.
         atomically (on_variant s (add_event event)) (\<lambda>_.
           Done (JSON 200 (JObject ([(''variant'', JString (strategy_Name s)), (''attempt'', JInt attempt),
             (''applied'', JBool applied), (''elapsed_ms'', JMs (now - start))]
             @ (if applied then [(''total'', JInt t)] else [])))))))"

definition apply_request :: "nat \<Rightarrow> Strategy \<Rightarrow> int \<Rightarrow> int \<Rightarrow> (tick, counter_server, Response) thread" where
  "apply_request n s event attempt = atomically acquire (\<lambda>r. case r of
       Some e \<Rightarrow> atomically (on_variant s tally_failed_Add) (\<lambda>_. Done (Fail 503 e))
     | None \<Rightarrow> atomically time_Now (\<lambda>start.
         and_then (zoom cs_db (\<lambda>d cs. cs\<lparr>cs_db := d\<rparr>) (Apply n s event)) (confirm n s event attempt start)))"

definition byName :: "string \<Rightarrow> Strategy option" where
  "byName name = (if name = ''naive'' then Some Naive else if name = ''idempotent'' then Some Idempotent else None)"

text \<open>The query parameters: \<^term>\<open>Inl\<close> is the answer 400 to a request that is refused.\<close>

definition parse_request :: "int \<Rightarrow> string \<Rightarrow> string \<Rightarrow> string \<Rightarrow> (Response, Strategy \<times> int \<times> int) result" where
  "parse_request deliveries name eventText attemptText =
     (case byName name of
        None \<Rightarrow> Inl (Fail 400 ''variant must be naive or idempotent'')
      | Some s \<Rightarrow>
          (let bad_id = Inl (Fail 400 (''id must be 1..'' @ Itoa maxEventID)) in
           case Atoi eventText of
             None \<Rightarrow> bad_id
           | Some event \<Rightarrow>
               if event < 1 \<or> event > maxEventID then bad_id
               else let bad_attempt = Inl (Fail 400 (''attempt must be 1..DELIVERIES ('' @ Itoa deliveries @ '')'')) in
                 case Atoi attemptText of
                   None \<Rightarrow> bad_attempt
                 | Some attempt \<Rightarrow> if attempt < 1 \<or> attempt > deliveries then bad_attempt
                     else Inr (s, event, attempt)))"

definition deliver_request :: "nat \<Rightarrow> int \<Rightarrow> string \<Rightarrow> string \<Rightarrow> string \<Rightarrow> (tick, counter_server, Response) thread" where
  "deliver_request n deliveries name eventText attemptText =
     (case parse_request deliveries name eventText attemptText of
        Inl refused \<Rightarrow> Done refused
      | Inr (s, event, attempt) \<Rightarrow> apply_request n s event attempt)"

definition query_totals :: "tick \<Rightarrow> counter_server \<Rightarrow> (string, (string \<Rightarrow> int) \<times> int) result \<times> counter_server" where
  "query_totals i cs = (case fault_err (tick_fault i) of
       Some e \<Rightarrow> (Inl e, cs)
     | None \<Rightarrow> (Inr ((\<lambda>m. case totals (cs_db cs) m of None \<Rightarrow> 0 | Some t \<Rightarrow> t),
         int (length (seen (cs_db cs)))), cs))"

text \<open>The events are counted under the mutex; the two counters are loaded afterwards, one at a time.\<close>

definition read_tally :: "Strategy \<Rightarrow> (int \<times> int \<times> int \<Rightarrow> (tick, counter_server, 'a) thread) \<Rightarrow> (tick, counter_server, 'a) thread" where
  "read_tally s k = atomically (load (\<lambda>cs. int (length (v_events (cs_variants cs s))))) (\<lambda>unique.
     atomically (load (\<lambda>cs. v_deliveries (cs_variants cs s))) (\<lambda>n.
     atomically (load (\<lambda>cs. v_failed (cs_variants cs s))) (\<lambda>n_failed. k (unique, n, n_failed))))"

definition tally_row :: "Strategy \<Rightarrow> (string \<Rightarrow> int) \<times> int \<Rightarrow> int \<times> int \<times> int \<Rightarrow> jvalue" where
  "tally_row s q v = (case q of (ts, n_seen) \<Rightarrow> case v of (unique, n, n_failed) \<Rightarrow>
     JObject [(''variant'', JString (strategy_Name s)), (''deliveries'', JInt n),
       (''failed_deliveries'', JInt n_failed), (''unique_events'', JInt unique),
       (''seen'', if s = Naive then JNull else JInt n_seen), (''expected_total'', JInt (if s = Naive then n else unique)),
          (''actual_total'', JInt (ts (strategy_Name s)))])"

definition counter_stats :: "(tick, counter_server, Response) thread" where
  "counter_stats = atomically query_totals (\<lambda>r. case r of
       Inl e \<Rightarrow> Done (Fail 503 e)
     | Inr q \<Rightarrow> read_tally Naive (\<lambda>v1. read_tally Idempotent (\<lambda>v2.
         Done (JSON 200 (JObject [(''variants'', JArray [tally_row Naive q v1, tally_row Idempotent q v2])])))))"

datatype counter_request = Deliver string string string | CounterStats

definition counter_handle :: "int \<Rightarrow> nat \<Rightarrow> counter_request \<Rightarrow> (tick, 64 word \<times> counter_server, Response) thread" where
  "counter_handle deliveries n r = (case r of
       Deliver name eventText attemptText \<Rightarrow>
         Limit maxRequests (deliver_request n deliveries name eventText attemptText)
     | CounterStats \<Rightarrow> zoom snd (\<lambda>w s. (fst s, w)) counter_stats)"

subsection \<open>Confirmed deliveries\<close>

definition tally_inv :: "counter_server \<Rightarrow> bool" where
  "tally_inv cs \<longleftrightarrow> counter_inv (cs_db cs)
   \<and> (\<forall>s. distinct (v_confirmed (cs_variants cs s))
        \<and> v_deliveries (cs_variants cs s) = int (length (v_confirmed (cs_variants cs s))))
   \<and> (\<forall>n \<in> set (v_confirmed (cs_variants cs Naive)). n \<in> fst ` set (increments ''naive'' (cs_db cs)))
   \<and> distinct (v_events (cs_variants cs Idempotent))
   \<and> set (v_events (cs_variants cs Idempotent)) \<subseteq> set (seen (cs_db cs))"

definition tally_rely :: "nat \<Rightarrow> counter_server \<Rightarrow> counter_server \<Rightarrow> bool" where
  "tally_rely n cs cs' \<longleftrightarrow> counter_rely n (cs_db cs) (cs_db cs')
   \<and> (\<forall>s. n \<in> set (v_confirmed (cs_variants cs' s)) \<longleftrightarrow> n \<in> set (v_confirmed (cs_variants cs s)))
   \<and> (tally_inv cs \<longrightarrow> tally_inv cs')"

definition tally_guar :: "nat \<Rightarrow> counter_server \<Rightarrow> counter_server \<Rightarrow> bool" where
  "tally_guar n cs cs' \<longleftrightarrow> (\<forall>m. m \<noteq> n \<longrightarrow> tally_rely m cs cs')"

lemma tally_rely_refl [simp]: "tally_rely n cs cs"
  by (simp add: tally_rely_def counter_rely_def)

lemma tally_rely_trans: "tally_rely n cs cs' \<Longrightarrow> tally_rely n cs' cs'' \<Longrightarrow> tally_rely n cs cs''"
  by (auto simp: tally_rely_def intro: counter_rely_trans)

interpretation tally: rely_guarantee
  "\<lambda>n s s'. tally_rely n (snd s) (snd s')" "\<lambda>n s s'. tally_guar n (snd s) (snd s')" "\<lambda>_ _ _. False"
  by unfold_locales (auto simp: tally_guar_def intro: tally_rely_trans)

abbreviation tally_safe :: "nat \<Rightarrow> ('a \<Rightarrow> counter_server \<Rightarrow> bool) \<Rightarrow> (tick, counter_server, 'a) thread \<Rightarrow> counter_server \<Rightarrow> bool" where
  "tally_safe n Q \<equiv> safe (tally_rely n) (tally_guar n) (\<lambda>_ _. False) Q"

lemma tally_guar_refl [simp]: "tally_guar n cs cs"
  by (simp add: tally_guar_def)

lemma guar_on_variant:
  assumes "\<And>m. m \<noteq> n \<Longrightarrow> m \<in> set (v_confirmed (f (cs_variants cs s))) \<longleftrightarrow> m \<in> set (v_confirmed (cs_variants cs s))"
    and "tally_inv cs \<Longrightarrow> tally_inv (snd (on_variant s f i cs))"
  shows "tally_guar n cs (snd (on_variant s f i cs))"
  using assms by (auto simp: tally_guar_def tally_rely_def on_variant_def counter_rely_def)

lemma guar_failed: "tally_guar n cs (snd (on_variant s tally_failed_Add i cs))"
  by (rule guar_on_variant) (auto simp: tally_failed_Add_def tally_inv_def on_variant_def)

lemma tally_failed: "tally_safe n (\<lambda>_ _. True) (atomically (on_variant s tally_failed_Add) (\<lambda>_. Done r)) cs"
  using guar_failed by (intro safe_atomically conjI safe_Done) (metis snd_conv)+

lemma increments_mono:
  "set (applied_log w) \<subseteq> set (applied_log w') \<Longrightarrow> set (increments m w) \<subseteq> set (increments m w')"
  by (auto simp: increments_def)

lemma guar_cs_db:
  assumes "counter_guar d n (cs_db cs) w"
  shows "tally_guar n cs (cs\<lparr>cs_db := w\<rparr>)"
proof -
  have r: "counter_rely (Suc n) (cs_db cs) w" using assms by (simp add: counter_guar_def)
  then have inc: "set (increments ''naive'' (cs_db cs)) \<subseteq> set (increments ''naive'' w)"
    and seen: "set (seen (cs_db cs)) \<subseteq> set (seen w)" and inv: "counter_inv (cs_db cs) \<longrightarrow> counter_inv w"
    by (auto simp: counter_rely_def dest: increments_mono)
  from image_mono [OF inc, of fst] have "tally_inv cs \<Longrightarrow> tally_inv (cs\<lparr>cs_db := w\<rparr>)"
    using seen inv unfolding tally_inv_def by (auto dest: subsetD)
  with assms show ?thesis by (simp add: tally_guar_def tally_rely_def counter_guar_def)
qed

definition unconfirmed :: "nat \<Rightarrow> counter_server \<Rightarrow> bool" where
  "unconfirmed n cs \<longleftrightarrow> (\<forall>s. n \<notin> set (v_confirmed (cs_variants cs s))) \<and> tally_inv cs"

lemma unconfirmed_rely: "unconfirmed n cs \<Longrightarrow> tally_rely n cs cs' \<Longrightarrow> unconfirmed n cs'"
  by (auto simp: unconfirmed_def tally_rely_def)

definition request_post :: "nat \<Rightarrow> Strategy \<Rightarrow> int \<Rightarrow> (apply_err, int \<times> bool) result \<Rightarrow> counter_server \<Rightarrow> bool" where
  "request_post n s event r cs \<longleftrightarrow> delivery_post (\<lambda>_. (s, event)) n r (cs_db cs)"

lemma safe_zoomed_Apply:
  assumes "unconfirmed n cs" "fresh_tx n (cs_db cs)"
  shows "tally_safe n (\<lambda>r cs. request_post n s event r cs \<and> unconfirmed n cs)
    (zoom cs_db (\<lambda>d cs. cs\<lparr>cs_db := d\<rparr>) (Apply n s event)) cs"
proof -
  let ?G = "\<lambda>cs cs'. tally_guar n cs cs' \<and> cs_variants cs' = cs_variants cs"
  have "safe (tally_rely n) ?G (\<lambda>_ _. False) (\<lambda>r cs. request_post n s event r cs)
      (zoom cs_db (\<lambda>d cs. cs\<lparr>cs_db := d\<rparr>) (Apply n s event)) cs"
    unfolding request_post_def
  proof (rule safe_zoom)
    show "delivery_safe (\<lambda>_. (s, event)) n (Apply n s event) (cs_db cs)"
      by (rule safe_Apply [OF assms(2)]) simp
    show "?G cs (cs\<lparr>cs_db := w\<rparr>)" if "counter_guar (\<lambda>_. (s, event)) n (cs_db cs) w" for cs w
      using guar_cs_db [OF that] by simp
  qed (simp_all add: tally_rely_def)
  then have "safe (tally_rely n) ?G (\<lambda>_ _. False) (\<lambda>r cs. request_post n s event r cs \<and> unconfirmed n cs)
      (zoom cs_db (\<lambda>d cs. cs\<lparr>cs_db := d\<rparr>) (Apply n s event)) cs"
  proof (rule safe_frame)
    show "unconfirmed n cs'" if "?G cs cs'" "unconfirmed n cs" for cs cs'
      using that by (simp add: unconfirmed_def tally_guar_def tally_rely_def) (metis n_not_Suc_n)
  qed (use assms unconfirmed_rely in auto)
  then show ?thesis by (rule safe_weaken) simp_all
qed

lemma guar_deliveries:
  assumes "unconfirmed n cs" "s = Naive \<Longrightarrow> n \<in> fst ` set (increments ''naive'' (cs_db cs))"
  shows "tally_guar n cs (snd (on_variant s (deliveries_Add n) i cs))"
proof (rule guar_on_variant)
  show "tally_inv (snd (on_variant s (deliveries_Add n) i cs))" if "tally_inv cs"
    using that assms by (cases s) (auto simp: tally_inv_def on_variant_def deliveries_Add_def unconfirmed_def)
qed (auto simp: deliveries_Add_def)

lemma guar_add_event:
  assumes "s = Idempotent \<Longrightarrow> event \<in> set (seen (cs_db cs))"
  shows "tally_guar n cs (snd (on_variant s (add_event event) i cs))"
proof (rule guar_on_variant)
  show "tally_inv (snd (on_variant s (add_event event) i cs))" if "tally_inv cs"
    using that assms by (cases s) (auto simp: tally_inv_def on_variant_def add_event_def)
qed (auto simp: add_event_def)

lemma request_post_counted:
  assumes "request_post n s event (Inr (t, applied)) cs" "tally_inv cs"
  shows "s = Naive \<Longrightarrow> n \<in> fst ` set (increments ''naive'' (cs_db cs))"
    and "s = Idempotent \<Longrightarrow> event \<in> set (seen (cs_db cs))"
proof -
  show "s = Naive \<Longrightarrow> n \<in> fst ` set (increments ''naive'' (cs_db cs))"
    using assms(1) by (cases applied) (force simp: request_post_def delivery_post_def strategy_Name_def increments_def)+
  have "seen (cs_db cs) = map (\<lambda>l. snd (snd l)) (increments ''idempotent'' (cs_db cs))"
    using assms(2) unfolding tally_inv_def counter_inv_def by blast
  then show "s = Idempotent \<Longrightarrow> event \<in> set (seen (cs_db cs))"
    using assms(1) by (cases applied) (force simp: request_post_def delivery_post_def strategy_Name_def increments_def)+
qed

lemma request_post_rely: "request_post n s event r cs \<Longrightarrow> tally_rely n cs cs' \<Longrightarrow> request_post n s event r cs'"
  unfolding request_post_def by (erule post_mono) (simp_all add: tally_rely_def counter_rely_def)

lemma safe_add_event:
  assumes "s = Idempotent \<Longrightarrow> event \<in> set (seen (cs_db cs))"
  shows "tally_safe n (\<lambda>_ _. True) (atomically (on_variant s (add_event event)) (\<lambda>_. Done r)) cs"
proof (intro safe_atomically conjI safe_Done)
  fix cs1 i b cs2
  assume "tally_rely n cs cs1" "on_variant s (add_event event) i cs1 = (b, cs2)"
  then show "tally_guar n cs1 cs2"
    using guar_add_event [of s event cs1 n i] assms by (auto simp: tally_rely_def counter_rely_def)
qed simp

lemma safe_confirmed:
  assumes "request_post n s event (Inr (t, applied)) cs" "unconfirmed n cs"
  shows "tally_safe n (\<lambda>_ _. True) (atomically (on_variant s (deliveries_Add n)) (\<lambda>_.
    atomically (on_variant s (add_event event)) (\<lambda>_. Done r))) cs"
proof (rule safe_atomically, rule conjI)
  fix cs1 i b cs2
  assume r: "tally_rely n cs cs1" and o: "on_variant s (deliveries_Add n) i cs1 = (b, cs2)"
  have u: "unconfirmed n cs1" using assms(2) r by (rule unconfirmed_rely)
  then have "tally_inv cs1" by (simp add: unconfirmed_def)
  note k = request_post_counted [OF request_post_rely [OF assms(1) r] this]
  from guar_deliveries [where s = s and i = i, OF u k(1)] o show "tally_guar n cs1 cs2" by simp
  from k(2) o have "event \<in> set (seen (cs_db cs2))" if "s = Idempotent" using that by (auto simp: on_variant_def)
  then show "tally_safe n (\<lambda>_ _. True) (atomically (on_variant s (add_event event)) (\<lambda>_. Done r)) cs2"
    by (rule safe_add_event)
qed

lemma tally_read:
  assumes "\<And>i cs. snd (f i cs) = cs" "\<And>i cs'. tally_rely n cs cs' \<Longrightarrow> tally_safe n Q (k (fst (f i cs'))) cs'"
  shows "tally_safe n Q (atomically f k) cs"
proof (rule safe_atomically)
  fix cs' i b cs''
  assume r: "tally_rely n cs cs'" and f: "f i cs' = (b, cs'')"
  then have "b = fst (f i cs')" "cs'' = cs'" using assms(1) [of i cs'] by auto
  with assms(2) [OF r, of i] show "tally_guar n cs' cs'' \<and> tally_safe n Q (k b) cs''" by simp
qed

lemma safe_confirm:
  assumes "request_post n s event r cs" "unconfirmed n cs"
  shows "tally_safe n (\<lambda>_ _. True) (confirm n s event attempt start r) cs"
  unfolding confirm_def
proof (rule tally_read)
  fix i cs'
  assume rely: "tally_rely n cs cs'"
  note p = request_post_rely [OF assms(1) rely] unconfirmed_rely [OF assms(2) rely]
  show "tally_safe n (\<lambda>_ _. True) (case r of
       Inl e \<Rightarrow> atomically (on_variant s tally_failed_Add) (\<lambda>_. Done (Fail 503 (apply_err_text e)))
     | Inr (t, applied) \<Rightarrow> atomically (on_variant s (deliveries_Add n)) (\<lambda>_.
         atomically (on_variant s (add_event event)) (\<lambda>_.
           Done (JSON 200 (JObject ([(''variant'', JString (strategy_Name s)), (''attempt'', JInt attempt),
             (''applied'', JBool applied), (''elapsed_ms'', JMs (fst (time_Now i cs') - start))]
             @ (if applied then [(''total'', JInt t)] else []))))))) cs'"
  proof (cases r)
    case (Inl e)
    then show ?thesis by (simp add: tally_failed)
  next
    case (Inr ta)
    obtain t applied where "ta = (t, applied)" by (cases ta)
    with p Inr show ?thesis by (simp only: sum.case prod.case) (rule safe_confirmed)
  qed
qed (simp add: time_Now_def)

lemma safe_apply_request:
  assumes "unconfirmed n cs" "fresh_tx n (cs_db cs)"
  shows "tally_safe n (\<lambda>_ _. True) (apply_request n s event attempt) cs"
proof -
  have fresh: "fresh_tx n (cs_db cs')" if "fresh_tx n (cs_db cs)" "tally_rely n cs cs'" for cs cs'
    using that tx_rely(1) by (auto simp: tally_rely_def)
  have go: "tally_safe n (\<lambda>_ _. True) (and_then (zoom cs_db (\<lambda>d cs. cs\<lparr>cs_db := d\<rparr>) (Apply n s event))
      (confirm n s event attempt start)) cs" if "unconfirmed n cs" "fresh_tx n (cs_db cs)" for start cs
    by (rule safe_and_then [OF safe_zoomed_Apply [OF that]]) (auto intro: safe_confirm)
  have timed: "tally_safe n (\<lambda>_ _. True) (atomically time_Now (\<lambda>start.
      and_then (zoom cs_db (\<lambda>d cs. cs\<lparr>cs_db := d\<rparr>) (Apply n s event)) (confirm n s event attempt start))) cs"
    if "unconfirmed n cs" "fresh_tx n (cs_db cs)" for cs
    using that by (intro tally_read go) (auto simp: time_Now_def intro: unconfirmed_rely fresh)
  show ?thesis
    unfolding apply_request_def
  proof (rule tally_read)
    fix i cs'
    assume "tally_rely n cs cs'"
    with assms have "unconfirmed n cs'" "fresh_tx n (cs_db cs')" by (auto intro: unconfirmed_rely fresh)
    with timed tally_failed show "tally_safe n (\<lambda>_ _. True) (case fst (acquire i cs') of
       Some e \<Rightarrow> atomically (on_variant s tally_failed_Add) (\<lambda>_. Done (Fail 503 e))
     | None \<Rightarrow> atomically time_Now (\<lambda>start.
         and_then (zoom cs_db (\<lambda>d cs. cs\<lparr>cs_db := d\<rparr>) (Apply n s event)) (confirm n s event attempt start))) cs'"
      by (cases "fst (acquire i cs')") simp_all
  qed (simp add: acquire_def)
qed

lemma safe_counter_stats: "tally_safe n (\<lambda>_ _. True) counter_stats cs"
proof -
  have "tally_safe n (\<lambda>_ _. True) (case r of Inl e \<Rightarrow> Done (Fail 503 e)
     | Inr q \<Rightarrow> read_tally Naive (\<lambda>v1. read_tally Idempotent (\<lambda>v2.
         Done (JSON 200 (JObject [(''variants'', JArray [tally_row Naive q v1, tally_row Idempotent q v2])]))))) cs"
    for r cs
    by (cases r) (auto intro!: tally_read safe_Done simp: read_tally_def load_def)
  then show ?thesis
    unfolding counter_stats_def by (intro tally_read) (simp_all add: query_totals_def split: option.splits)
qed

lemma safe_counter_handle:
  assumes "unconfirmed n (snd s)" "fresh_tx n (cs_db (snd s))"
  shows "safe (\<lambda>s s'. tally_rely n (snd s) (snd s')) (\<lambda>s s'. tally_guar n (snd s) (snd s')) (\<lambda>_ _. False)
    (\<lambda>_ _. True) (counter_handle deliveries n req) s"
proof -
  have lift: "safe (\<lambda>s s'. tally_rely n (snd s) (snd s')) (\<lambda>s s'. tally_guar n (snd s) (snd s')) (\<lambda>_ _. False)
      (\<lambda>_ _. True) (zoom snd (\<lambda>w s. (fst s, w)) t) s"
    if "tally_safe n (\<lambda>_ _. True) t (snd s)" for t and s :: "64 word \<times> counter_server"
    using that by (rule safe_zoom [where Q = "\<lambda>_ _. True"]) simp_all
  have op: "tally_safe n (\<lambda>_ _. True) (deliver_request n deliveries name eventText attemptText) cs"
    if "unconfirmed n cs" "fresh_tx n (cs_db cs)" for name eventText attemptText cs
    using safe_apply_request [OF that] by (auto simp: deliver_request_def intro: safe_Done split: sum.splits)
  show ?thesis
  proof (cases req)
    case (Deliver name eventText attemptText)
    have "safe (\<lambda>s s'. tally_rely n (snd s) (snd s')) (\<lambda>s s'. tally_guar n (snd s) (snd s')) (\<lambda>_ _. False)
      (\<lambda>_ _. True) (Limit maxRequests (deliver_request n deliveries name eventText attemptText)) s"
      unfolding Limit_def
    proof (intro safe_atomically conjI)
      fix s1 :: "64 word \<times> counter_server" and i b s2
      assume "tally_rely n (snd s) (snd s1)" "served_Add i s1 = (b, s2)"
      moreover from this have "snd s2 = snd s1" by (auto simp: served_Add_def)
      ultimately have s2: "unconfirmed n (snd s2)" "fresh_tx n (cs_db (snd s2))"
        using assms tx_rely(1) by (auto simp: tally_rely_def intro: unconfirmed_rely)
      from \<open>snd s2 = snd s1\<close> show "tally_guar n (snd s1) (snd s2)" by simp
      show "safe (\<lambda>s s'. tally_rely n (snd s) (snd s')) (\<lambda>s s'. tally_guar n (snd s) (snd s')) (\<lambda>_ _. False)
        (\<lambda>_ _. True) (if b > maxRequests then Done (Fail 429 ''run limit reached'')
        else zoom snd (\<lambda>w s. (fst s, w)) (deliver_request n deliveries name eventText attemptText)) s2"
        using lift [OF op [OF s2]] by (simp add: safe_Done)
    qed
    with Deliver show ?thesis by (simp add: counter_handle_def)
  qed (use lift [OF safe_counter_stats] in \<open>simp add: counter_handle_def\<close>)
qed

definition counter_start :: "counter_db \<Rightarrow> int \<Rightarrow> counter_request list \<Rightarrow> (tick, 64 word \<times> counter_server, Response) system" where
  "counter_start w deliveries reqs =
     ((0, \<lparr>cs_db = reset_db w, cs_variants = (\<lambda>_. \<lparr>v_deliveries = 0, v_failed = 0, v_events = [], v_confirmed = []\<rparr>)\<rparr>),
      map (\<lambda>n. counter_handle deliveries n (reqs ! n)) [0..<length reqs])"

lemma counter_start_inv: "tally_inv (snd (fst (counter_start w deliveries reqs)))"
  using reset_inv by (simp add: counter_start_def tally_inv_def)

lemma counter_start_safe: "tally.all_safe (\<lambda>_ _ _. True) (counter_start w deliveries reqs)"
  using counter_start_inv [of w deliveries reqs]
  by (auto simp: tally.all_safe_def counter_start_def unconfirmed_def reset_fresh intro!: safe_counter_handle)

lemma tally_inv_totals:
  assumes "tally_inv cs"
  shows "\<exists>t. totals (cs_db cs) ''naive'' = Some t \<and> v_deliveries (cs_variants cs Naive) \<le> t"
    and "\<exists>t. totals (cs_db cs) ''idempotent'' = Some t \<and> int (length (v_events (cs_variants cs Idempotent))) \<le> t"
proof -
  note inv = assms [unfolded tally_inv_def]
  have tot: "totals (cs_db cs) (strategy_Name s) = Some (int (length (increments (strategy_Name s) (cs_db cs))))" for s
    using inv unfolding counter_inv_def by blast
  have "card (set (v_confirmed (cs_variants cs Naive))) \<le> card (fst ` set (increments ''naive'' (cs_db cs)))"
    using inv by (intro card_mono) auto
  also have "\<dots> \<le> length (increments ''naive'' (cs_db cs))"
    using card_length [of "map fst (increments ''naive'' (cs_db cs))"] by simp
  finally have "length (v_confirmed (cs_variants cs Naive)) \<le> length (increments ''naive'' (cs_db cs))"
    using inv distinct_card [of "v_confirmed (cs_variants cs Naive)"] by simp
  then show "\<exists>t. totals (cs_db cs) ''naive'' = Some t \<and> v_deliveries (cs_variants cs Naive) \<le> t"
    using tot [of Naive] inv by (simp add: strategy_Name_def)
  have "seen (cs_db cs) = map (\<lambda>l. snd (snd l)) (increments ''idempotent'' (cs_db cs))"
    using inv unfolding counter_inv_def by blast
  then have "length (seen (cs_db cs)) = length (increments ''idempotent'' (cs_db cs))" by simp
  moreover have "length (v_events (cs_variants cs Idempotent)) \<le> length (seen (cs_db cs))"
    using inv card_mono [OF finite_set, of "set (v_events (cs_variants cs Idempotent))" "seen (cs_db cs)"]
      card_length [of "seen (cs_db cs)"] distinct_card [of "v_events (cs_variants cs Idempotent)"] by simp
  ultimately show "\<exists>t. totals (cs_db cs) ''idempotent'' = Some t \<and> int (length (v_events (cs_variants cs Idempotent))) \<le> t"
    using tot [of Idempotent] by (simp add: strategy_Name_def)
qed

lemma reach_tally:
  assumes "reaches (counter_start w deliveries reqs) ((served, cs), ts)"
  shows "tally_inv cs"
proof -
  have "tally_inv (snd (fst ((served, cs), ts)))"
    by (rule tally.invariant [OF assms counter_start_safe, where I = "\<lambda>s. tally_inv (snd s)"])
      (rule counter_start_inv, metis tally_guar_def tally_rely_def n_not_Suc_n)
  then show ?thesis by simp
qed

text \<open>
  C18. What the adapter has confirmed the tables hold: whatever deliveries and statistics requests
  run concurrently and whatever fails, the naive counter is at least the number of confirmed
  naive deliveries and the idempotent counter at least the number of distinct confirmed events,
  at every moment. An increment is never acknowledged before it is committed, and none is lost.
\<close>

theorem confirmed_deliveries_are_stored:
  assumes "reaches (counter_start w deliveries reqs) ((served, cs), ts)"
  shows "(\<exists>t. totals (cs_db cs) ''naive'' = Some t \<and> v_deliveries (cs_variants cs Naive) \<le> t)
    \<and> (\<exists>t. totals (cs_db cs) ''idempotent'' = Some t \<and> int (length (v_events (cs_variants cs Idempotent))) \<le> t)"
  using tally_inv_totals [OF reach_tally [OF assms]] by blast

definition demo_tally :: "(tick, 64 word \<times> counter_server, Response) system" where
  "demo_tally = schedule (map (\<lambda>n. (n, \<lparr>tick_fault = Fine, tick_clock = 0\<rparr>)) (replicate 11 0))
     (counter_start empty_counter 3 [Deliver ''naive'' ''7'' ''1''])"

lemma demo_request: "parse_request 3 ''naive'' ''7'' ''1'' = Inr (Naive, 7, 1)"
  by code_simp

lemma demo_start:
  "counter_start empty_counter 3 [Deliver ''naive'' ''7'' ''1''] =
     ((0, \<lparr>cs_db = reset_db empty_counter, cs_variants = (\<lambda>_. \<lparr>v_deliveries = 0, v_failed = 0, v_events = [], v_confirmed = []\<rparr>)\<rparr>),
      [Limit maxRequests (apply_request 0 Naive 7 1)])"
  by (simp add: counter_start_def counter_handle_def deliver_request_def demo_request)

theorem confirmed_deliveries_are_stored_witness:
  "v_deliveries (cs_variants (snd (fst demo_tally)) Naive) = 1
   \<and> (\<exists>t. totals (cs_db (snd (fst demo_tally))) ''naive'' = Some t
        \<and> v_deliveries (cs_variants (snd (fst demo_tally)) Naive) \<le> t)"
proof -
  have "v_deliveries (cs_variants (snd (fst demo_tally)) Naive) = 1"
    unfolding demo_tally_def demo_start by code_simp
  moreover have "reaches (counter_start empty_counter 3 [Deliver ''naive'' ''7'' ''1''])
      ((fst (fst demo_tally), snd (fst demo_tally)), snd demo_tally)"
    unfolding demo_tally_def prod.collapse by (rule schedule_reaches)
  ultimately show ?thesis using confirmed_deliveries_are_stored by blast
qed

text \<open>
  Only requests within the documented bounds reach the core: a known variant, an event id of
  1 to 999999, which fits the 32-bit column, and an attempt of 1 to DELIVERIES.
\<close>

theorem parse_request_bounds:
  assumes "parse_request deliveries name eventText attemptText = Inr (s, event, attempt)"
  shows "1 \<le> event \<and> event \<le> 999999 \<and> is_int32 event \<and> 1 \<le> attempt \<and> attempt \<le> deliveries \<and> name = strategy_Name s"
  using assms by (auto simp: parse_request_def Let_def byName_def maxEventID_def is_int32_def strategy_Name_def
      split: option.splits if_splits)

theorem parse_request_bounds_witness:
  "parse_request 3 ''naive'' ''7'' ''1'' = Inr (Naive, 7, 1) \<and> is_int32 7 \<and> ''naive'' = strategy_Name Naive"
  using parse_request_bounds [OF demo_request] demo_request by blast
end
