(* ===== verification/Cache_Aside.thy ===== *)
theory Cache_Aside
  imports Perf
begin

section \<open>Cache-aside reads\<close>

text \<open>
  \<^verbatim>\<open>lessons/go/cache-aside\<close>: a read tries the cache, falls back to Postgres and fills the cache.
  The two services are parameters: a record of the calls the lesson makes, each a function of
  the input of the environment and the world. \<open>service_laws\<close> states what the calls are
  documented to do to the table (\<open>rows w\<close>, by id) and the cache (\<open>cached w\<close>, by key).
\<close>

datatype get_reply = Hit string | Nil_reply | GetErr string

record 'w services =
  svc_Get :: "string \<Rightarrow> tick \<Rightarrow> 'w \<Rightarrow> get_reply \<times> 'w"
  svc_Query :: "int \<Rightarrow> tick \<Rightarrow> 'w \<Rightarrow> (string, string) result \<times> 'w"
  svc_Set :: "string \<Rightarrow> string \<Rightarrow> int \<Rightarrow> tick \<Rightarrow> 'w \<Rightarrow> string option \<times> 'w"
  svc_Rows :: "tick \<Rightarrow> 'w \<Rightarrow> (string, (int \<times> string) list) result \<times> 'w"
  svc_MGet :: "string list \<Rightarrow> tick \<Rightarrow> 'w \<Rightarrow> (string, string option list) result \<times> 'w"

definition ProfileKey :: "int \<Rightarrow> string" where
  "ProfileKey pid = ''profile:'' @ Itoa pid"

definition ReadProfile :: "'w services \<Rightarrow> int \<Rightarrow> int \<Rightarrow> (tick, 'w, (string, string \<times> string) result) thread" where
  "ReadProfile svc pid ttl = atomically (svc_Get svc (ProfileKey pid)) (\<lambda>r. case r of
       Hit name \<Rightarrow> Done (Inr (name, ''cache''))
     | GetErr e \<Rightarrow> Done (Inl e)
     | Nil_reply \<Rightarrow> atomically (svc_Query svc pid) (\<lambda>r. case r of
         Inl e \<Rightarrow> Done (Inl e)
       | Inr name \<Rightarrow> atomically (svc_Set svc (ProfileKey pid) name ttl) (\<lambda>e. case e of
           Some e \<Rightarrow> Done (Inl e)
         | None \<Rightarrow> Done (Inr (name, ''postgres'')))))"

subsection \<open>The experiment\<close>

text \<open>
  The measured loop of \<^verbatim>\<open>main.go\<close>: \<open>inputs\<close> gives each request the inputs of its calls;
  \<^term>\<open>None\<close> is a request whose inputs are used up.
\<close>

fun cache_requests :: "'w services \<Rightarrow> int \<Rightarrow> int \<Rightarrow> string \<Rightarrow> nat \<Rightarrow> tick list list \<Rightarrow> 'w
    \<Rightarrow> (panic, string list) result option \<times> 'w" where
  "cache_requests svc pid ttl want i [] w = (Some (Inr []), w)"
| "cache_requests svc pid ttl want i (is # inputs) w =
     (case run (ReadProfile svc pid ttl) is w of
        (Step _, w) \<Rightarrow> (None, w)
      | (Done (Inl e), w) \<Rightarrow> (Some (Inl (PanicError e)), w)
      | (Done (Inr (name, source)), w) \<Rightarrow>
          (if name \<noteq> want
           then (Some (Inl (PanicMessage (''invariant failed: request '' @ Itoa (int i) @ '' read '' @ name
             @ '' from '' @ source @ '', want '' @ want))), w)
           else (case cache_requests svc pid ttl want (Suc i) inputs w of
               (Some (Inr sources), w) \<Rightarrow> (Some (Inr (source # sources)), w)
             | other \<Rightarrow> other)))"

subsection \<open>The HTTP adapter\<close>

text \<open>
  The server's counters, and for each profile the end of its latest miss. \<open>cv_counting\<close> is the
  history variable of the requests that have been counted as served and not yet as a hit or a
  miss; no handler reads it.
\<close>

record 'w profile_server =
  cv_world :: 'w
  cv_served :: int
  cv_hits :: int
  cv_misses :: int
  cv_redundant :: int
  cv_failed :: int
  cv_lastMissEnd :: "int \<Rightarrow> int"
  cv_counting :: "nat list"

text \<open>\<^verbatim>\<open>strconv.ParseInt(s, 16, 64)\<close>.\<close>

definition hex_value :: "char \<Rightarrow> nat option" where
  "hex_value c = (let v = (of_char c :: nat) in
     if 48 \<le> v \<and> v \<le> 57 then Some (v - 48)
     else if 97 \<le> v \<and> v \<le> 102 then Some (v - 87)
     else if 65 \<le> v \<and> v \<le> 70 then Some (v - 55) else None)"

fun hex_acc :: "nat \<Rightarrow> string \<Rightarrow> nat option" where
  "hex_acc acc [] = Some acc"
| "hex_acc acc (c # cs) = (case hex_value c of None \<Rightarrow> None | Some d \<Rightarrow> hex_acc (acc * 16 + d) cs)"

definition ParseHex :: "string \<Rightarrow> int option" where
  "ParseHex s =
     (let neg = (s \<noteq> [] \<and> hd s = CHR ''-'');
          rest = (if s \<noteq> [] \<and> (hd s = CHR ''-'' \<or> hd s = CHR ''+'') then tl s else s)
      in if rest = [] then None
         else case hex_acc 0 rest of
           None \<Rightarrow> None
         | Some n \<Rightarrow> let i = (if neg then - int n else int n) in if is_int64 i then Some i else None)"

definition profile_base :: "string \<Rightarrow> (panic, int) result" where
  "profile_base token = (case ParseHex (take 12 token) of
       None \<Rightarrow> Inl (PanicError ''strconv.ParseInt'')
     | Some b \<Rightarrow> Inr (sint (word_of_int (b * 10000) :: 64 word)))"

definition on_world :: "('w \<Rightarrow> 'a \<times> 'w) \<Rightarrow> 'w profile_server \<Rightarrow> 'a \<times> 'w profile_server" where
  "on_world f s = (case f (cv_world s) of (a, w) \<Rightarrow> (a, s\<lparr>cv_world := w\<rparr>))"

definition failed_step :: "tick \<Rightarrow> 'w profile_server \<Rightarrow> unit \<times> 'w profile_server" where
  "failed_step i s = ((), s\<lparr>cv_failed := cv_failed s + 1\<rparr>)"

definition served_step :: "nat \<Rightarrow> tick \<Rightarrow> 'w profile_server \<Rightarrow> unit \<times> 'w profile_server" where
  "served_step n i s = ((), s\<lparr>cv_served := cv_served s + 1, cv_counting := n # cv_counting s\<rparr>)"

definition hits_step :: "nat \<Rightarrow> tick \<Rightarrow> 'w profile_server \<Rightarrow> unit \<times> 'w profile_server" where
  "hits_step n i s = ((), s\<lparr>cv_hits := cv_hits s + 1, cv_counting := remove1 n (cv_counting s)\<rparr>)"

definition misses_step :: "nat \<Rightarrow> tick \<Rightarrow> 'w profile_server \<Rightarrow> unit \<times> 'w profile_server" where
  "misses_step n i s = ((), s\<lparr>cv_misses := cv_misses s + 1, cv_counting := remove1 n (cv_counting s)\<rparr>)"

definition miss_section :: "int \<Rightarrow> int \<Rightarrow> int \<Rightarrow> tick \<Rightarrow> 'w profile_server \<Rightarrow> unit \<times> 'w profile_server" where
  "miss_section pid start fin i s =
     (let latest = cv_lastMissEnd s pid;
          s1 = (if start < latest then s\<lparr>cv_redundant := cv_redundant s + 1\<rparr> else s);
          s2 = (if fin > latest then s1\<lparr>cv_lastMissEnd := (cv_lastMissEnd s1)(pid := fin)\<rparr> else s1)
      in ((), s2))"

definition count_read :: "nat \<Rightarrow> int \<Rightarrow> int \<Rightarrow> int \<Rightarrow> int \<Rightarrow> (string, string \<times> string) result
    \<Rightarrow> (tick, 'w profile_server, Response) thread" where
  "count_read n number pid start fin r = (case r of
       Inl e \<Rightarrow> atomically failed_step (\<lambda>_. Done (Fail 503 e))
     | Inr (name, source) \<Rightarrow>
         (let answer = Done (JSON 200 (JObject [(''id'', JInt number), (''name'', JString name),
                (''source'', JString source), (''elapsed_ms'', JMs (fin - start))]))
          in atomically (served_step n) (\<lambda>_.
            if source = ''cache'' then atomically (hits_step n) (\<lambda>_. answer)
            else atomically (misses_step n) (\<lambda>_. atomically (miss_section pid start fin) (\<lambda>_. answer)))))"

definition profile_read :: "'w services \<Rightarrow> int \<Rightarrow> nat \<Rightarrow> int \<Rightarrow> int \<Rightarrow> (tick, 'w profile_server, Response) thread" where
  "profile_read svc ttl n number pid = atomically time_Now (\<lambda>start.
     and_then (zoom cv_world (\<lambda>w s. s\<lparr>cv_world := w\<rparr>) (ReadProfile svc pid ttl)) (\<lambda>r.
       atomically time_Now (\<lambda>fin. count_read n number pid start fin r)))"

definition profile_operation :: "'w services \<Rightarrow> int \<Rightarrow> int \<Rightarrow> int \<Rightarrow> nat \<Rightarrow> string \<Rightarrow> (tick, 'w profile_server, Response) thread" where
  "profile_operation svc ttl base count n idText =
     (let refuse = Done (Fail 400 (''id must be 1..'' @ Itoa count)) in
      case Atoi idText of
        None \<Rightarrow> refuse
      | Some i \<Rightarrow> if i < 1 \<or> i > count then refuse else profile_read svc ttl n i (base + i))"

definition stored_name :: "(int \<times> string) list \<Rightarrow> int \<Rightarrow> string" where
  "stored_name rows pid = (case map_of (rev rows) pid of None \<Rightarrow> [] | Some name \<Rightarrow> name)"

definition count_cached :: "(int \<times> string) list \<Rightarrow> (int \<times> string option) list \<Rightarrow> int \<times> int" where
  "count_cached rows values =
     (let held = List.map_filter (\<lambda>(pid, v). map_option (Pair pid) v) values
      in (int (length held), int (length (filter (\<lambda>(pid, v). v = stored_name rows pid) held))))"

definition report_cached :: "int \<Rightarrow> int \<Rightarrow> int list \<Rightarrow> (int \<times> string) list \<Rightarrow> string option list
    \<Rightarrow> (tick, 'w profile_server, Response) thread" where
  "report_cached ttlMs count pids rows values = (case count_cached rows (zip pids values) of (n_cached, n_agree) \<Rightarrow>
     atomically (load cv_served) (\<lambda>served. atomically (load cv_hits) (\<lambda>hits. atomically (load cv_misses) (\<lambda>misses.
     atomically (load cv_failed) (\<lambda>n_failed. atomically (load cv_redundant) (\<lambda>redundant.
         Done (JSON 200 (JObject [(''ttl_ms'', JInt ttlMs), (''profiles'', JInt count), (''served'', JInt served),
           (''hits'', JInt hits), (''misses'', JInt misses), (''failed'', JInt n_failed),
           (''redundant_misses'', JInt redundant), (''stored'', JInt (int (card (fst ` set rows)))),
           (''cached'', JInt n_cached), (''cached_agree'', JInt n_agree)]))))))))"

definition profile_stats :: "'w services \<Rightarrow> int \<Rightarrow> int \<Rightarrow> int list \<Rightarrow> (tick, 'w profile_server, Response) thread" where
  "profile_stats svc ttlMs count pids = atomically (\<lambda>i. on_world (svc_Rows svc i)) (\<lambda>r. case r of
       Inl e \<Rightarrow> Done (Fail 503 e)
     | Inr rows \<Rightarrow> atomically (\<lambda>i. on_world (svc_MGet svc (map ProfileKey pids) i)) (\<lambda>r. case r of
         Inl e \<Rightarrow> Done (Fail 503 e)
       | Inr values \<Rightarrow> report_cached ttlMs count pids rows values))"

datatype profile_request = ReadRequest string | ProfileStats

definition profile_handle :: "'w services \<Rightarrow> int \<Rightarrow> int \<Rightarrow> int \<Rightarrow> int list \<Rightarrow> nat \<Rightarrow> profile_request
    \<Rightarrow> (tick, 'w profile_server, Response) thread" where
  "profile_handle svc ttl base count pids n r = (case r of
       ReadRequest idText \<Rightarrow> profile_operation svc ttl base count n idText
     | ProfileStats \<Rightarrow> profile_stats svc (ttl div 1000000) count pids)"

subsection \<open>What the services are documented to do\<close>

text \<open>
  A key may disappear from the cache at any call, as its time to live runs out, but nothing else
  enters it than what was set; a set that failed may have taken effect. A hit is the stored
  value, and a row read is the row. The row iteration of \<^verbatim>\<open>GET /stats\<close> gives rows of the table,
  each once, and possibly not all of them: the handler does not ask \<^verbatim>\<open>rows.Err()\<close> why the
  iteration ended.
\<close>

definition shrinks :: "(string \<rightharpoonup> string) \<Rightarrow> (string \<rightharpoonup> string) \<Rightarrow> bool" where
  "shrinks c c' \<longleftrightarrow> (\<forall>k v. c' k = Some v \<longrightarrow> c k = Some v)"

definition get_law :: "'w services \<Rightarrow> ('w \<Rightarrow> int \<rightharpoonup> string) \<Rightarrow> ('w \<Rightarrow> string \<rightharpoonup> string) \<Rightarrow> bool" where
  "get_law svc rows cached \<longleftrightarrow> (\<forall>k i w r w'. svc_Get svc k i w = (r, w') \<longrightarrow>
     rows w' = rows w \<and> shrinks (cached w) (cached w') \<and> (\<forall>v. r = Hit v \<longrightarrow> cached w k = Some v))"

definition query_law :: "'w services \<Rightarrow> ('w \<Rightarrow> int \<rightharpoonup> string) \<Rightarrow> ('w \<Rightarrow> string \<rightharpoonup> string) \<Rightarrow> bool" where
  "query_law svc rows cached \<longleftrightarrow> (\<forall>pid i w r w'. svc_Query svc pid i w = (r, w') \<longrightarrow>
     rows w' = rows w \<and> shrinks (cached w) (cached w') \<and> (\<forall>v. r = Inr v \<longrightarrow> rows w pid = Some v))"

definition set_law :: "'w services \<Rightarrow> ('w \<Rightarrow> int \<rightharpoonup> string) \<Rightarrow> ('w \<Rightarrow> string \<rightharpoonup> string) \<Rightarrow> bool" where
  "set_law svc rows cached \<longleftrightarrow> (\<forall>k v ttl i w e w'. svc_Set svc k v ttl i w = (e, w') \<longrightarrow>
     rows w' = rows w \<and> shrinks ((cached w)(k \<mapsto> v)) ((cached w')(k := None))
     \<and> (\<forall>u. cached w' k = Some u \<longrightarrow> u = v \<or> cached w k = Some u))"

definition stats_law :: "'w services \<Rightarrow> ('w \<Rightarrow> int \<rightharpoonup> string) \<Rightarrow> ('w \<Rightarrow> string \<rightharpoonup> string) \<Rightarrow> bool" where
  "stats_law svc rows cached \<longleftrightarrow>
     (\<forall>i w r w'. svc_Rows svc i w = (r, w') \<longrightarrow> rows w' = rows w \<and> shrinks (cached w) (cached w')
        \<and> (\<forall>rs. r = Inr rs \<longrightarrow> distinct (map fst rs) \<and> map_of rs \<subseteq>\<^sub>m rows w))
   \<and> (\<forall>ks i w r w'. svc_MGet svc ks i w = (r, w') \<longrightarrow> rows w' = rows w \<and> shrinks (cached w) (cached w')
        \<and> (\<forall>vs. r = Inr vs \<longrightarrow> length vs = length ks
            \<and> (\<forall>j < length ks. \<forall>v. vs ! j = Some v \<longrightarrow> cached w (ks ! j) = Some v)))"

definition service_laws :: "'w services \<Rightarrow> ('w \<Rightarrow> int \<rightharpoonup> string) \<Rightarrow> ('w \<Rightarrow> string \<rightharpoonup> string) \<Rightarrow> bool" where
  "service_laws svc rows cached \<longleftrightarrow> get_law svc rows cached \<and> query_law svc rows cached
     \<and> set_law svc rows cached \<and> stats_law svc rows cached"

subsection \<open>Coherence\<close>

definition coherent :: "('w \<Rightarrow> int \<rightharpoonup> string) \<Rightarrow> ('w \<Rightarrow> string \<rightharpoonup> string) \<Rightarrow> 'w \<Rightarrow> bool" where
  "coherent rows cached w \<longleftrightarrow> (\<forall>pid v. is_int64 pid \<longrightarrow> cached w (ProfileKey pid) = Some v \<longrightarrow> rows w pid = Some v)"

definition reads_keep :: "('w \<Rightarrow> int \<rightharpoonup> string) \<Rightarrow> ('w \<Rightarrow> string \<rightharpoonup> string) \<Rightarrow> 'w \<Rightarrow> 'w \<Rightarrow> bool" where
  "reads_keep rows cached w w' \<longleftrightarrow> rows w' = rows w \<and> (coherent rows cached w \<longrightarrow> coherent rows cached w')"

interpretation reads: rely_guarantee "\<lambda>_. reads_keep rows cached" "\<lambda>_. reads_keep rows cached" "\<lambda>_ _ _. False"
  for rows cached
  by unfold_locales (auto simp: reads_keep_def)

lemma ProfileKey_inject: "is_int64 p \<Longrightarrow> is_int64 q \<Longrightarrow> ProfileKey p = ProfileKey q \<longleftrightarrow> p = q"
  by (simp add: ProfileKey_def Itoa_inject)

lemma coherent_shrinks:
  "coherent rows cached w \<Longrightarrow> rows w' = rows w \<Longrightarrow> shrinks (cached w) (cached w') \<Longrightarrow> coherent rows cached w'"
  by (simp add: coherent_def shrinks_def)

lemma keep_shrinks: "rows w' = rows w \<Longrightarrow> shrinks (cached w) (cached w') \<Longrightarrow> reads_keep rows cached w w'"
  using coherent_shrinks by (auto simp: reads_keep_def)

lemma keep_set:
  assumes "service_laws svc rows cached" "svc_Set svc (ProfileKey pid) name ttl i w = (e, w')"
    "rows w pid = Some name" "is_int64 pid"
  shows "reads_keep rows cached w w'"
proof -
  from assms(1,2) have s: "rows w' = rows w" "shrinks ((cached w)(ProfileKey pid \<mapsto> name)) ((cached w')(ProfileKey pid := None))"
    "\<forall>u. cached w' (ProfileKey pid) = Some u \<longrightarrow> u = name \<or> cached w (ProfileKey pid) = Some u"
    unfolding service_laws_def set_law_def by blast+
  have "rows w q = Some v" if c: "coherent rows cached w" and q: "is_int64 q" "cached w' (ProfileKey q) = Some v" for q v
  proof (cases "q = pid")
    case True
    with s(3) q c assms(3,4) show ?thesis by (auto simp: coherent_def)
  next
    case False
    with assms(4) q(1) have "ProfileKey q \<noteq> ProfileKey pid" by (simp add: ProfileKey_inject)
    with s(2) q(2) have "cached w (ProfileKey q) = Some v" by (auto simp: shrinks_def split: if_splits)
    with c q(1) show ?thesis by (simp add: coherent_def)
  qed
  then have "coherent rows cached w'" if "coherent rows cached w"
    using that s(1) unfolding coherent_def [of rows cached w'] by simp
  with s(1) show ?thesis by (simp add: reads_keep_def)
qed

abbreviation read_safe :: "('w \<Rightarrow> int \<rightharpoonup> string) \<Rightarrow> ('w \<Rightarrow> string \<rightharpoonup> string) \<Rightarrow> ('a \<Rightarrow> 'w \<Rightarrow> bool)
    \<Rightarrow> (tick, 'w, 'a) thread \<Rightarrow> 'w \<Rightarrow> bool" where
  "read_safe rows cached \<equiv> safe (reads_keep rows cached) (reads_keep rows cached) (\<lambda>_ _. False)"

definition names_row :: "('w \<Rightarrow> int \<rightharpoonup> string) \<Rightarrow> int \<Rightarrow> (string, string \<times> string) result \<Rightarrow> 'w \<Rightarrow> bool" where
  "names_row rows pid r w \<longleftrightarrow> (case r of Inl e \<Rightarrow> True | Inr (name, source) \<Rightarrow> rows w pid = Some name)"

lemma names_row_Done: "names_row rows pid r w \<Longrightarrow> read_safe rows cached (names_row rows pid) (Done r) w"
  by (rule safe_Done) (auto simp: names_row_def reads_keep_def split: sum.splits prod.splits)

lemma safe_ReadProfile:
  assumes "service_laws svc rows cached" "is_int64 pid" "coherent rows cached w"
  shows "read_safe rows cached (names_row rows pid) (ReadProfile svc pid ttl) w"
  unfolding ReadProfile_def
proof (rule safe_atomically)
  fix w1 i r w2
  assume k1: "reads_keep rows cached w w1" and g: "svc_Get svc (ProfileKey pid) i w1 = (r, w2)"
  then have g': "rows w2 = rows w1" "shrinks (cached w1) (cached w2)" "\<forall>v. r = Hit v \<longrightarrow> cached w1 (ProfileKey pid) = Some v"
    using assms(1) unfolding service_laws_def get_law_def by blast+
  have c1: "coherent rows cached w1" using assms(3) k1 by (simp add: reads_keep_def)
  have fill: "read_safe rows cached (names_row rows pid) (atomically (svc_Set svc (ProfileKey pid) name ttl) (\<lambda>e. case e of
           Some e \<Rightarrow> Done (Inl e) | None \<Rightarrow> Done (Inr (name, ''postgres'')))) w" if "rows w pid = Some name" for name w
  proof (rule safe_atomically)
    fix v1 j e v2
    assume "reads_keep rows cached w v1" and s: "svc_Set svc (ProfileKey pid) name ttl j v1 = (e, v2)"
    with that have "rows v1 pid = Some name" by (simp add: reads_keep_def)
    with keep_set [OF assms(1) s _ assms(2)] show "reads_keep rows cached v1 v2 \<and> read_safe rows cached (names_row rows pid)
        (case e of Some e \<Rightarrow> Done (Inl e) | None \<Rightarrow> Done (Inr (name, ''postgres''))) v2"
      by (cases e) (auto intro!: names_row_Done simp: names_row_def reads_keep_def)
  qed
  have query: "read_safe rows cached (names_row rows pid) (atomically (svc_Query svc pid) (\<lambda>r. case r of
         Inl e \<Rightarrow> Done (Inl e)
       | Inr name \<Rightarrow> atomically (svc_Set svc (ProfileKey pid) name ttl) (\<lambda>e. case e of
           Some e \<Rightarrow> Done (Inl e) | None \<Rightarrow> Done (Inr (name, ''postgres''))))) w2"
  proof (rule safe_atomically)
    fix v1 j q v2
    assume "svc_Query svc pid j v1 = (q, v2)"
    then have "rows v2 = rows v1" "shrinks (cached v1) (cached v2)" "\<forall>v. q = Inr v \<longrightarrow> rows v1 pid = Some v"
      using assms(1) unfolding service_laws_def query_law_def by blast+
    then show "reads_keep rows cached v1 v2 \<and> read_safe rows cached (names_row rows pid) (case q of
         Inl e \<Rightarrow> Done (Inl e)
       | Inr name \<Rightarrow> atomically (svc_Set svc (ProfileKey pid) name ttl) (\<lambda>e. case e of
           Some e \<Rightarrow> Done (Inl e) | None \<Rightarrow> Done (Inr (name, ''postgres'')))) v2"
      by (cases q) (auto intro!: names_row_Done fill keep_shrinks simp: names_row_def)
  qed
  show "reads_keep rows cached w1 w2 \<and> read_safe rows cached (names_row rows pid) (case r of
       Hit name \<Rightarrow> Done (Inr (name, ''cache''))
     | GetErr e \<Rightarrow> Done (Inl e)
     | Nil_reply \<Rightarrow> atomically (svc_Query svc pid) (\<lambda>r. case r of
         Inl e \<Rightarrow> Done (Inl e)
       | Inr name \<Rightarrow> atomically (svc_Set svc (ProfileKey pid) name ttl) (\<lambda>e. case e of
           Some e \<Rightarrow> Done (Inl e) | None \<Rightarrow> Done (Inr (name, ''postgres''))))) w2"
    using g' c1 assms(2) query
    by (cases r) (auto intro!: names_row_Done keep_shrinks simp: names_row_def coherent_def)
qed

definition readers :: "'w services \<Rightarrow> int \<Rightarrow> int list \<Rightarrow> (tick, 'w, (string, string \<times> string) result) thread list" where
  "readers svc ttl pids = map (\<lambda>pid. ReadProfile svc pid ttl) pids"

text \<open>
  C9. Concurrent reads keep the cache coherent with the table, whatever their interleaving,
  whatever fails and whatever expires: the cache never holds another name than the row's, the
  rows do not change, and every read that succeeds, from the cache or from Postgres, returns the
  row's name.
\<close>

theorem ReadProfile_coherent:
  assumes "service_laws svc rows cached" "list_all is_int64 pids" "coherent rows cached w"
    and "reaches (w, readers svc ttl pids) (w', ts)"
  shows "rows w' = rows w \<and> coherent rows cached w'
    \<and> list_all2 (\<lambda>pid t. case result_of t of Some (Inr (name, source)) \<Rightarrow> rows w pid = Some name | _ \<Rightarrow> True) pids ts"
proof -
  have safe: "reads.all_safe rows cached (\<lambda>n. names_row rows (pids ! n)) (w, readers svc ttl pids)"
    using assms(1-3) by (auto simp: reads.all_safe_def readers_def list_all_length intro: safe_ReadProfile)
  have "reads_keep rows cached w (fst (w', ts))"
    by (rule reads.invariant [OF assms(4) safe]) (auto simp: reads_keep_def)
  then have k: "rows w' = rows w" "coherent rows cached w'" using assms(3) by (simp_all add: reads_keep_def)
  have len: "length ts = length pids" using reaches_length [OF assms(4)] by (simp add: readers_def)
  have "case result_of (ts ! n) of Some (Inr (name, source)) \<Rightarrow> rows w (pids ! n) = Some name | _ \<Rightarrow> True"
    if "n < length pids" for n
  proof (cases "ts ! n")
    case (Done r)
    from reads.post [OF assms(4) safe, of n r] that len Done have "names_row rows (pids ! n) r w'" by simp
    with Done k(1) show ?thesis by (auto simp: names_row_def split: sum.splits prod.splits)
  qed simp
  with k len show ?thesis by (simp add: list_all2_conv_all_nth)
qed

text \<open>Services kept in maps, for the examples.\<close>

definition map_services :: "((int \<rightharpoonup> string) \<times> (string \<rightharpoonup> string)) services" where
  "map_services = \<lparr>
     svc_Get = (\<lambda>k i w. (case tick_fault i of Fine \<Rightarrow> (case snd w k of None \<Rightarrow> Nil_reply | Some v \<Rightarrow> Hit v) | Fails e \<Rightarrow> GetErr e | FailsApplied e \<Rightarrow> GetErr e, w)),
     svc_Query = (\<lambda>pid i w. (case fst w pid of None \<Rightarrow> Inl ''no rows in result set'' | Some v \<Rightarrow> Inr v, w)),
     svc_Set = (\<lambda>k v ttl i w. (None, (fst w, (snd w)(k \<mapsto> v)))),
     svc_Rows = (\<lambda>i w. (Inl ''statement timeout'', w)),
     svc_MGet = (\<lambda>ks i w. (Inr (map (snd w) ks), w))\<rparr>"

lemma map_services_laws: "service_laws map_services fst snd"
proof -
  have "get_law map_services fst snd"
    by (auto simp: get_law_def map_services_def shrinks_def split: fault.splits option.splits)
  moreover have "query_law map_services fst snd"
    by (auto simp: query_law_def map_services_def shrinks_def split: option.splits)
  moreover have "set_law map_services fst snd"
    by (auto simp: set_law_def map_services_def shrinks_def split: if_splits)
  moreover have "stats_law map_services fst snd"
    by (auto simp: stats_law_def map_services_def shrinks_def)
  ultimately show ?thesis by (simp add: service_laws_def)
qed

theorem ReadProfile_coherent_witness:
  "\<exists>w' ts. reaches (([42 \<mapsto> ''Ada''], Map.empty), readers map_services 30 [42, 42]) (w', ts)
     \<and> snd w' (ProfileKey 42) = Some ''Ada''
     \<and> list_all2 (\<lambda>pid t. case result_of t of Some (Inr (name, source)) \<Rightarrow> name = ''Ada'' | _ \<Rightarrow> True) [42, 42 :: int] ts"
proof -
  let ?i = "\<lparr>tick_fault = Fine, tick_clock = 0\<rparr>"
  let ?c = "(([42 \<mapsto> ''Ada''], Map.empty), readers map_services 30 [42, 42])"
  let ?d = "schedule [(0, ?i), (1, ?i), (0, ?i), (1, ?i), (0, ?i), (1, ?i)] ?c"
  have r: "reaches ?c (fst ?d, snd ?d)" unfolding prod.collapse by (rule schedule_reaches)
  have "coherent fst snd ([42 \<mapsto> ''Ada''], Map.empty)" "list_all is_int64 [42, 42]"
    by (simp_all add: coherent_def is_int64_def)
  note conjunct2 [OF conjunct2 [OF ReadProfile_coherent [OF map_services_laws this(2,1) r]]]
  then have "list_all2 (\<lambda>pid t. case result_of t of Some (Inr (name, source)) \<Rightarrow> name = ''Ada'' | _ \<Rightarrow> True) [42, 42 :: int] (snd ?d)"
    by (rule list.rel_mono_strong) (auto split: option.splits sum.splits if_splits)
  moreover have "snd (fst ?d) (ProfileKey 42) = Some ''Ada''" by code_simp
  ultimately show ?thesis using r by blast
qed

lemma keep_refl [simp]: "reads_keep rows cached w w"
  by (simp add: reads_keep_def)

lemma keep_trans: "reads_keep rows cached w w' \<Longrightarrow> reads_keep rows cached w' w'' \<Longrightarrow> reads_keep rows cached w w''"
  by (simp add: reads_keep_def)

lemma read_safe_run:
  "run t is w = (t', w') \<Longrightarrow> read_safe rows cached Q t w \<Longrightarrow> read_safe rows cached Q t' w' \<and> reads_keep rows cached w w'"
proof (induction t "is" w rule: run.induct)
  case (1 a "is" w)
  then show ?case by simp
next
  case (2 f w)
  then show ?case by auto
next
  case (3 f i "is" w)
  show ?case
  proof (cases "f i w")
    case None
    with 3 show ?thesis by simp
  next
    case (Some p)
    obtain t1 w1 where p: "p = (t1, w1)" by (cases p)
    have "reads_keep rows cached w w1" "read_safe rows cached Q t1 w1"
      using reads.safe_move [OF 3(4), of i t1 w1] Some p by auto
    with 3(2) [OF Some p [symmetric]] 3(3) Some p show ?thesis by (auto intro: keep_trans)
  qed
qed

lemma run_ReadProfile_name:
  assumes "service_laws svc rows cached" "is_int64 pid" "coherent rows cached w"
    "run (ReadProfile svc pid ttl) is w = (Done (Inr (name, source)), w')"
  shows "rows w pid = Some name \<and> rows w' = rows w \<and> coherent rows cached w'"
proof -
  from read_safe_run [OF assms(4) safe_ReadProfile [OF assms(1-3)]]
  have "read_safe rows cached (names_row rows pid) (Done (Inr (name, source))) w'" "reads_keep rows cached w w'" by blast+
  moreover have "reads_keep rows cached w' w'" by (simp add: reads_keep_def)
  ultimately have "names_row rows pid (Inr (name, source)) w'" by (blast elim: safe_DoneE)
  with \<open>reads_keep rows cached w w'\<close> assms(3) show ?thesis by (simp add: names_row_def reads_keep_def)
qed

text \<open>
  The experiment's assertion never fires: its loop panics only with an error that a service
  reported, never because a request read another name.
\<close>

theorem cache_requests_invariant:
  assumes "service_laws svc rows cached" "is_int64 pid" "coherent rows cached w" "rows w pid = Some want"
    "cache_requests svc pid ttl want i inputs w = (Some (Inl p), w')"
  shows "\<exists>e. p = PanicError e"
  using assms(3-5)
proof (induction inputs arbitrary: i w)
  case (Cons "is" inputs)
  obtain t w1 where r: "run (ReadProfile svc pid ttl) is w = (t, w1)" by fastforce
  show ?case
  proof (cases t)
    case (Done res)
    show ?thesis
    proof (cases res)
      case (Inr ns)
      obtain name source where ns: "ns = (name, source)" by (cases ns)
      with run_ReadProfile_name [OF assms(1,2) Cons.prems(1)] r Done Inr
      have n: "rows w pid = Some name" "rows w1 = rows w" "coherent rows cached w1" by blast+
      obtain x w2 where x: "cache_requests svc pid ttl want (Suc i) inputs w1 = (x, w2)" by fastforce
      with Cons.prems(3) r Done Inr ns n(1) Cons.prems(2) have "x = Some (Inl p)"
        by (auto split: option.splits sum.splits)
      with Cons.IH [OF n(3), of "Suc i"] x n Cons.prems(2,3) r Done Inr ns show ?thesis by auto
    qed (use Cons.prems(3) r Done in auto)
  qed (use Cons.prems(3) r in auto)
qed simp

text \<open>A cache whose entries outlast the run, as the experiment's time to live is chosen.\<close>

definition lasting :: "'w services \<Rightarrow> ('w \<Rightarrow> string \<rightharpoonup> string) \<Rightarrow> bool" where
  "lasting svc cached \<longleftrightarrow>
     (\<forall>k i w r w'. svc_Get svc k i w = (r, w') \<longrightarrow> cached w' = cached w
        \<and> (\<forall>v. cached w k = Some v \<longrightarrow> r \<noteq> Nil_reply))
   \<and> (\<forall>k v ttl i w w'. svc_Set svc k v ttl i w = (None, w') \<longrightarrow> cached w' k = Some v)"

lemma run_StepD:
  assumes "run (Step f) is w = (Done r, w')"
  shows "\<exists>i is' t w1. f i w = Some (t, w1) \<and> run t is' w1 = (Done r, w')"
  using assms
proof (induction "is")
  case (Cons i "is")
  then show ?case by (cases "f i w") auto
qed simp

lemma run_atomicallyD:
  "run (atomically f k) is w = (Done r, w') \<Longrightarrow> \<exists>i is' b w1. f i w = (b, w1) \<and> run (k b) is' w1 = (Done r, w')"
  unfolding atomically_def by (drule run_StepD) (metis (no_types, lifting) case_prod_conv option.inject prod.collapse prod.inject)

lemma ReadProfile_source:
  assumes "lasting svc cached" "service_laws svc rows cached"
    "run (ReadProfile svc pid ttl) is w = (Done (Inr (name, source)), w')"
  shows "cached w' (ProfileKey pid) \<noteq> None \<and> source = (if cached w (ProfileKey pid) = None then ''postgres'' else ''cache'')"
proof -
  obtain i is1 r w1 where g: "svc_Get svc (ProfileKey pid) i w = (r, w1)"
    and k: "run (case r of
       Hit name \<Rightarrow> Done (Inr (name, ''cache''))
     | GetErr e \<Rightarrow> Done (Inl e)
     | Nil_reply \<Rightarrow> atomically (svc_Query svc pid) (\<lambda>r. case r of
         Inl e \<Rightarrow> Done (Inl e)
       | Inr name \<Rightarrow> atomically (svc_Set svc (ProfileKey pid) name ttl) (\<lambda>e. case e of
           Some e \<Rightarrow> Done (Inl e)
         | None \<Rightarrow> Done (Inr (name, ''postgres''))))) is1 w1 = (Done (Inr (name, source)), w')"
    using run_atomicallyD [OF assms(3) [unfolded ReadProfile_def]] by blast
  have c: "cached w1 = cached w" "\<forall>v. cached w (ProfileKey pid) = Some v \<longrightarrow> r \<noteq> Nil_reply"
    using assms(1) g unfolding lasting_def by blast+
  show ?thesis
  proof (cases r)
    case (Hit v)
    with assms(2) g have "cached w (ProfileKey pid) = Some v" unfolding service_laws_def get_law_def by blast
    with k Hit c show ?thesis by auto
  next
    case Nil_reply
    with k obtain j is2 q w2 where "run (case q of
         Inl e \<Rightarrow> Done (Inl e)
       | Inr name \<Rightarrow> atomically (svc_Set svc (ProfileKey pid) name ttl) (\<lambda>e. case e of
           Some e \<Rightarrow> Done (Inl e)
         | None \<Rightarrow> Done (Inr (name, ''postgres'')))) is2 w2 = (Done (Inr (name, source)), w')"
      by (auto dest!: run_atomicallyD)
    then obtain m where m: "run (atomically (svc_Set svc (ProfileKey pid) m ttl) (\<lambda>e. case e of
           Some e \<Rightarrow> Done (Inl e) | None \<Rightarrow> Done (Inr (m, ''postgres'')))) is2 w2 = (Done (Inr (name, source)), w')"
      by (cases q) auto
    from run_atomicallyD [OF m] obtain l e w3 and is3 :: "tick list" where e: "svc_Set svc (ProfileKey pid) m ttl l w2 = (e, w3)"
      "run (case e of Some e \<Rightarrow> Done (Inl e) | None \<Rightarrow> Done (Inr (m, ''postgres''))) is3 w3 = (Done (Inr (name, source)), w')"
      by blast
    then have "e = None" "source = ''postgres''" "w3 = w'" by (cases e; auto)+
    moreover from e(1) this assms(1) have "cached w' (ProfileKey pid) = Some m" unfolding lasting_def by blast
    moreover have "cached w (ProfileKey pid) = None" using c(2) Nil_reply by (cases "cached w (ProfileKey pid)") auto
    ultimately show ?thesis by simp
  qed (use k in simp)
qed

text \<open>
  With entries that outlast the run and a cold cache, the measured requests are one miss
  followed only by hits: the first name comes from Postgres, every later one from the cache.
\<close>

theorem cache_requests_sources:
  assumes "lasting svc cached" "service_laws svc rows cached"
    "cache_requests svc pid ttl want i inputs w = (Some (Inr sources), w')"
    "cached w (ProfileKey pid) = None"
  shows "sources = take (length inputs) (''postgres'' # replicate (length inputs - 1) ''cache'')"
proof -
  have hot: "cache_requests svc pid ttl want i inputs w = (Some (Inr sources), w') \<Longrightarrow> cached w (ProfileKey pid) \<noteq> None
      \<Longrightarrow> sources = replicate (length inputs) ''cache''" for i inputs sources w
  proof (induction inputs arbitrary: i w sources)
    case (Cons "is" inputs)
    then obtain name source w1 rest where "run (ReadProfile svc pid ttl) is w = (Done (Inr (name, source)), w1)"
      "cache_requests svc pid ttl want (Suc i) inputs w1 = (Some (Inr rest), w')" "sources = source # rest"
      by (auto split: prod.splits thread.splits sum.splits if_splits option.splits)
    with Cons.IH ReadProfile_source [OF assms(1,2)] Cons.prems(2) show ?case by fastforce
  qed simp
  show ?thesis
  proof (cases inputs)
    case Nil
    with assms(3) show ?thesis by simp
  next
    case (Cons "is" inps)
    with assms(3) obtain name source w1 rest where "run (ReadProfile svc pid ttl) is w = (Done (Inr (name, source)), w1)"
      "cache_requests svc pid ttl want (Suc i) inps w1 = (Some (Inr rest), w')" "sources = source # rest"
      by (auto split: prod.splits thread.splits sum.splits if_splits option.splits)
    with ReadProfile_source [OF assms(1,2), of pid ttl "is" w name source w1] assms(4) hot Cons show ?thesis by fastforce
  qed
qed

lemma map_services_lasting: "lasting map_services snd"
  by (auto simp: lasting_def map_services_def split: fault.splits option.splits)

definition demo_profiles :: "(panic, string list) result option \<times> ((int \<rightharpoonup> string) \<times> (string \<rightharpoonup> string))" where
  "demo_profiles = cache_requests map_services 42 30 ''Ada'' 0
     (replicate 3 (replicate 3 \<lparr>tick_fault = Fine, tick_clock = 0\<rparr>)) ([42 \<mapsto> ''Ada''], Map.empty)"

theorem cache_requests_sources_witness:
  "fst demo_profiles = Some (Inr (take 3 (''postgres'' # replicate 2 ''cache'')))"
proof -
  have "fst demo_profiles = Some (Inr [''postgres'', ''cache'', ''cache''])" by code_simp
  then obtain sources where s: "fst demo_profiles = Some (Inr sources)" by blast
  then have "cache_requests map_services 42 30 ''Ada'' 0
     (replicate 3 (replicate 3 \<lparr>tick_fault = Fine, tick_clock = 0\<rparr>)) ([42 \<mapsto> ''Ada''], Map.empty)
     = (Some (Inr sources), snd demo_profiles)"
    unfolding demo_profiles_def by (metis prod.collapse)
  from cache_requests_sources [OF map_services_lasting map_services_laws this] s show ?thesis by simp
qed

theorem cache_requests_invariant_witness:
  "\<exists>p. fst (cache_requests map_services 42 30 ''Ada'' 0 [[\<lparr>tick_fault = Fails ''timeout'', tick_clock = 0\<rparr>]]
     ([42 \<mapsto> ''Ada''], Map.empty)) = Some (Inl p) \<and> (\<exists>e. p = PanicError e)"
proof -
  let ?r = "cache_requests map_services 42 30 ''Ada'' 0 [[\<lparr>tick_fault = Fails ''timeout'', tick_clock = 0\<rparr>]]
     ([42 \<mapsto> ''Ada''], Map.empty)"
  have r: "?r = (Some (Inl (PanicError ''timeout'')), ([42 \<mapsto> ''Ada''], Map.empty))"
    by (simp add: ReadProfile_def atomically_def map_services_def)
  have "is_int64 42" "coherent fst snd ([42 \<mapsto> ''Ada''], Map.empty)" by (simp_all add: is_int64_def coherent_def)
  from cache_requests_invariant [OF map_services_laws this _ r] r show ?thesis by simp
qed

end
