(* ===== verification/Pipelining.thy ===== *)
theory Pipelining
  imports Perf
begin

section \<open>Pipelining\<close>

text \<open>
  \<^verbatim>\<open>lessons/go/pipelining-work\<close>: a batch of counters incremented one command at a time or in one
  pipeline, the sum that checks the stored state, and the handlers of \<^verbatim>\<open>perf/main.go\<close>. The experiment
  of \<^verbatim>\<open>main.go\<close> is in \<open>Pipeline_Lesson\<close>. The Valkey client is a parameter: a record of its commands on a world of its
  own. \<open>store_laws\<close> states what the commands are documented to do to the stored counters.
\<close>

datatype pipe_cmd = IncrCmd string

record 'w Store =
  st_Incr :: "string \<Rightarrow> 'w \<Rightarrow> string option \<times> 'w"
  st_MGet :: "string list \<Rightarrow> 'w \<Rightarrow> (string, string option list) result \<times> 'w"
  st_Pipelined :: "pipe_cmd list \<Rightarrow> 'w \<Rightarrow> string option \<times> 'w"
  st_Del :: "string list \<Rightarrow> 'w \<Rightarrow> string option \<times> 'w"

fun IncrementSequential :: "'w Store \<Rightarrow> string list \<Rightarrow> 'w \<Rightarrow> string option \<times> 'w" where
  "IncrementSequential st [] w = (None, w)"
| "IncrementSequential st (key # keys) w =
     (case st_Incr st key w of
        (Some e, w) \<Rightarrow> (Some e, w)
      | (None, w) \<Rightarrow> IncrementSequential st keys w)"

definition IncrementPipelined :: "'w Store \<Rightarrow> string list \<Rightarrow> 'w \<Rightarrow> string option \<times> 'w" where
  "IncrementPipelined st keys w = st_Pipelined st (map IncrCmd keys) w"

datatype sum_err = StoreErr string | AtoiErr string

text \<open>Go's \<^verbatim>\<open>int\<close> has 64 bits: the running sum wraps.\<close>

definition wrap64 :: "int \<Rightarrow> int" where
  "wrap64 i = sint (word_of_int i :: 64 word)"

fun sum_values :: "string option list \<Rightarrow> int \<Rightarrow> (sum_err, int) result" where
  "sum_values [] acc = Inr acc"
| "sum_values (None # vs) acc = sum_values vs acc"
| "sum_values (Some v # vs) acc =
     (case Atoi v of None \<Rightarrow> Inl (AtoiErr v) | Some n \<Rightarrow> sum_values vs (wrap64 (acc + n)))"

definition Sum :: "'w Store \<Rightarrow> string list \<Rightarrow> 'w \<Rightarrow> (sum_err, int) result \<times> 'w" where
  "Sum st keys w = (case st_MGet st keys w of
       (Inl e, w) \<Rightarrow> (Inl (StoreErr e), w)
     | (Inr vs, w) \<Rightarrow> (sum_values vs 0, w))"

datatype pipe_variant = Sequential | Pipeline

definition variant_name :: "pipe_variant \<Rightarrow> string" where
  "variant_name v = (case v of Sequential \<Rightarrow> ''sequential'' | Pipeline \<Rightarrow> ''pipeline'')"

definition variant_op :: "pipe_variant \<Rightarrow> 'w Store \<Rightarrow> string list \<Rightarrow> 'w \<Rightarrow> string option \<times> 'w" where
  "variant_op v = (case v of Sequential \<Rightarrow> IncrementSequential | Pipeline \<Rightarrow> IncrementPipelined)"

definition sum_err_text :: "sum_err \<Rightarrow> string" where
  "sum_err_text e = (case e of StoreErr m \<Rightarrow> m | AtoiErr v \<Rightarrow> ''strconv.Atoi: parsing '' @ v)"

subsection \<open>The HTTP adapter\<close>

record pipe_server =
  ps_batches :: "pipe_variant \<Rightarrow> int"
  ps_failed :: "pipe_variant \<Rightarrow> int"

definition variant_keys :: "string \<Rightarrow> nat \<Rightarrow> pipe_variant \<Rightarrow> string list" where
  "variant_keys pre batchSize v =
     map (\<lambda>i. pre @ '':'' @ variant_name v @ '':'' @ Itoa (int i)) [0..<batchSize]"

definition pipe_byName :: "string \<Rightarrow> pipe_variant option" where
  "pipe_byName name = (if name = ''sequential'' then Some Sequential
     else if name = ''pipeline'' then Some Pipeline else None)"

definition pipe_operation :: "'w Store \<Rightarrow> (pipe_variant \<Rightarrow> string list) \<Rightarrow> int \<Rightarrow> string \<Rightarrow> pipe_server \<times> 'w
    \<Rightarrow> Response \<times> (pipe_server \<times> 'w)" where
  "pipe_operation st keys elapsed name s =
     (case pipe_byName name of
        None \<Rightarrow> (Fail 400 ''variant must be sequential or pipeline'', s)
      | Some v \<Rightarrow> (case variant_op v st (keys v) (snd s) of
          (Some e, w) \<Rightarrow> (Fail 503 e,
             ((fst s)\<lparr>ps_failed := (ps_failed (fst s))(v := ps_failed (fst s) v + 1)\<rparr>, w))
        | (None, w) \<Rightarrow> (JSON 200 (JObject [(''variant'', JString (variant_name v)), (''elapsed_ms'', JMs elapsed)]),
             ((fst s)\<lparr>ps_batches := (ps_batches (fst s))(v := ps_batches (fst s) v + 1)\<rparr>, w))))"

definition pipe_stats_row :: "nat \<Rightarrow> pipe_server \<Rightarrow> pipe_variant \<Rightarrow> int \<Rightarrow> jvalue" where
  "pipe_stats_row batchSize s v actual =
     JObject [(''variant'', JString (variant_name v)), (''batches'', JInt (ps_batches s v)),
       (''failed_batches'', JInt (ps_failed s v)),
       (''expected_sum'', JInt (wrap64 (ps_batches s v * int batchSize))), (''actual_sum'', JInt actual)]"

fun pipe_stats :: "'w Store \<Rightarrow> nat \<Rightarrow> (pipe_variant \<Rightarrow> string list) \<Rightarrow> pipe_variant list \<Rightarrow> jvalue list
    \<Rightarrow> pipe_server \<times> 'w \<Rightarrow> Response \<times> (pipe_server \<times> 'w)" where
  "pipe_stats st batchSize keys [] rows s =
     (JSON 200 (JObject [(''batch_size'', JInt (int batchSize)), (''variants'', JArray rows)]), s)"
| "pipe_stats st batchSize keys (v # vs) rows s =
     (case Sum st (keys v) (snd s) of
        (Inl e, w) \<Rightarrow> (Fail 503 (sum_err_text e), (fst s, w))
      | (Inr n, w) \<Rightarrow> pipe_stats st batchSize keys vs (rows @ [pipe_stats_row batchSize (fst s) v n]) (fst s, w))"

fun pipe_serve :: "'w Store \<Rightarrow> (pipe_variant \<Rightarrow> string list) \<Rightarrow> (string \<times> int) list \<Rightarrow> pipe_server \<times> 'w
    \<Rightarrow> pipe_server \<times> 'w" where
  "pipe_serve st keys [] s = s"
| "pipe_serve st keys ((name, elapsed) # rs) s = pipe_serve st keys rs (snd (pipe_operation st keys elapsed name s))"

subsection \<open>What the client is documented to do\<close>

text \<open>
  \<open>val w\<close> is the stored integer of each key. go-redis documents that a command which failed in
  transit is sent again, at most \<open>r\<close> times (\<^verbatim>\<open>MaxRetries\<close>, 3 unless the options say otherwise, and
  \<^verbatim>\<open>valkey.Connect\<close> leaves it), so one call is up to \<open>Suc r\<close> attempts. An attempt may have been
  executed although its answer was lost. The last attempt of an acknowledged call was executed. A
  pipeline runs its commands in order and is not atomic: each attempt executes some of the first
  commands, and the last attempt of an acknowledged pipeline all of them. \<^verbatim>\<open>MGET\<close> answers the decimal
  texts and changes nothing; an acknowledged deletion, however often it was sent, has deleted
  the keys.
\<close>

definition incr :: "string \<Rightarrow> (string \<rightharpoonup> int) \<Rightarrow> (string \<rightharpoonup> int)" where
  "incr k f = f(k \<mapsto> (case f k of None \<Rightarrow> 0 | Some n \<Rightarrow> n) + 1)"

definition incr_law :: "nat \<Rightarrow> 'w Store \<Rightarrow> ('w \<Rightarrow> string \<rightharpoonup> int) \<Rightarrow> bool" where
  "incr_law r st val \<longleftrightarrow> (\<forall>k w e w'. st_Incr st k w = (e, w') \<longrightarrow>
     (\<exists>n \<le> Suc r. val w' = (incr k ^^ n) (val w) \<and> (e = None \<longrightarrow> 0 < n)))"

definition attempts :: "string list \<Rightarrow> nat list \<Rightarrow> (string \<rightharpoonup> int) \<Rightarrow> (string \<rightharpoonup> int)" where
  "attempts ks ns f = fold (\<lambda>n. fold incr (take n ks)) ns f"

definition pipelined_law :: "nat \<Rightarrow> 'w Store \<Rightarrow> ('w \<Rightarrow> string \<rightharpoonup> int) \<Rightarrow> bool" where
  "pipelined_law r st val \<longleftrightarrow> (\<forall>ks w e w'. st_Pipelined st (map IncrCmd ks) w = (e, w') \<longrightarrow>
     (\<exists>ns. length ns \<le> Suc r \<and> val w' = attempts ks ns (val w)
        \<and> (e = None \<longrightarrow> ns \<noteq> [] \<and> last ns = length ks)))"

definition mget_law :: "'w Store \<Rightarrow> ('w \<Rightarrow> string \<rightharpoonup> int) \<Rightarrow> bool" where
  "mget_law st val \<longleftrightarrow> (\<forall>ks w r w'. st_MGet st ks w = (r, w') \<longrightarrow>
     val w' = val w \<and> (\<forall>vs. r = Inr vs \<longrightarrow> vs = map (\<lambda>k. map_option Itoa (val w k)) ks))"

definition del_law :: "'w Store \<Rightarrow> ('w \<Rightarrow> string \<rightharpoonup> int) \<Rightarrow> bool" where
  "del_law st val \<longleftrightarrow> (\<forall>ks w e w'. st_Del st ks w = (e, w') \<longrightarrow>
     e = None \<longrightarrow> val w' = (val w) |` (- set ks))"

definition store_laws :: "nat \<Rightarrow> 'w Store \<Rightarrow> ('w \<Rightarrow> string \<rightharpoonup> int) \<Rightarrow> bool" where
  "store_laws r st val \<longleftrightarrow> incr_law r st val \<and> pipelined_law r st val \<and> mget_law st val \<and> del_law st val"

definition counted :: "(string \<rightharpoonup> int) \<Rightarrow> string \<Rightarrow> int" where
  "counted f k = (case f k of None \<Rightarrow> 0 | Some n \<Rightarrow> n)"

definition total_of :: "(string \<rightharpoonup> int) \<Rightarrow> string list \<Rightarrow> int" where
  "total_of f ks = sum_list (map (counted f) ks)"

lemma counted_incr: "counted (incr k f) j = counted f j + (if j = k then 1 else 0)"
  by (simp add: counted_def incr_def)

lemma counted_fold: "counted (fold incr ks f) j = counted f j + int (count_list ks j)"
  by (induction ks arbitrary: f) (simp_all add: counted_incr)

lemma fold_incr_other: "j \<notin> set ks \<Longrightarrow> fold incr ks f j = f j"
  by (induction ks arbitrary: f) (auto simp: incr_def)

lemma count_list_take: "count_list (take n ks) j \<le> count_list ks j"
  by (metis append_take_drop_id count_list_append le_add1)

lemma count_distinct: "distinct ks \<Longrightarrow> count_list ks k = (if k \<in> set ks then 1 else 0)"
  by (induction ks) auto

lemma counted_repeat: "counted ((incr k ^^ n) f) j = counted f j + (if j = k then int n else 0)"
  by (induction n) (simp_all add: counted_incr)

lemma repeat_other: "j \<noteq> k \<Longrightarrow> (incr k ^^ n) f j = f j"
  by (induction n) (simp_all add: incr_def)

lemma attempts_simps [simp]: "attempts ks [] f = f" "attempts ks (ns @ [n]) f = fold incr (take n ks) (attempts ks ns f)"
  by (simp_all add: attempts_def)

lemma counted_attempts:
  "counted f j \<le> counted (attempts ks ns f) j
   \<and> counted (attempts ks ns f) j \<le> counted f j + int (length ns * count_list ks j)"
proof (induction ns rule: rev_induct)
  case (snoc n ns)
  with count_list_take [of n ks j] show ?case by (simp add: counted_fold)
qed simp

lemma attempts_other: "j \<notin> set ks \<Longrightarrow> attempts ks ns f j = f j"
proof (induction ns rule: rev_induct)
  case (snoc n ns)
  then have "j \<notin> set (take n ks)" using in_set_takeD by fastforce
  with snoc show ?case by (simp add: fold_incr_other)
qed simp

text \<open>
  What a batch does to the counters, when each command may be executed up to \<open>Suc r\<close> times: a key
  is incremented at most that often per occurrence in the batch, at least once per occurrence when
  the batch succeeded, and other keys are not touched.
\<close>

definition batch_done :: "nat \<Rightarrow> string list \<Rightarrow> string option \<Rightarrow> (string \<rightharpoonup> int) \<Rightarrow> (string \<rightharpoonup> int) \<Rightarrow> bool" where
  "batch_done r ks e f f' \<longleftrightarrow>
     (\<forall>k. counted f k \<le> counted f' k \<and> counted f' k \<le> counted f k + int (Suc r * count_list ks k))
     \<and> (e = None \<longrightarrow> (\<forall>k. counted f k + int (count_list ks k) \<le> counted f' k))
     \<and> (\<forall>k. k \<notin> set ks \<longrightarrow> f' k = f k)"

lemma batch_done_Cons:
  assumes "n \<le> Suc r" "0 < n" "batch_done r ks e ((incr k ^^ n) f) f'"
  shows "batch_done r (k # ks) e f f'"
proof -
  have n: "int n \<le> 1 + int r" "1 \<le> int n" using assms(1,2) by simp_all
  have c: "counted ((incr k ^^ n) f) j = counted f j + (if j = k then int n else 0)" for j
    by (rule counted_repeat)
  show ?thesis
    unfolding batch_done_def
  proof (intro conjI allI impI)
    fix j
    from assms(3) have "counted ((incr k ^^ n) f) j \<le> counted f' j"
      "counted f' j \<le> counted ((incr k ^^ n) f) j + int (Suc r * count_list ks j)" by (simp_all add: batch_done_def)
    then show "counted f j \<le> counted f' j" "counted f' j \<le> counted f j + int (Suc r * count_list (k # ks) j)"
      using n by (auto simp: c algebra_simps split: if_splits)
  next
    fix j
    assume "e = None"
    with assms(3) have "counted ((incr k ^^ n) f) j + int (count_list ks j) \<le> counted f' j" by (simp add: batch_done_def)
    then show "counted f j + int (count_list (k # ks) j) \<le> counted f' j" using n by (auto simp: c split: if_splits)
  next
    fix j
    assume "j \<notin> set (k # ks)"
    with assms(3) show "f' j = f j" by (simp add: batch_done_def repeat_other)
  qed
qed

lemma batch_done_stop:
  assumes "n \<le> Suc r"
  shows "batch_done r (k # ks) (Some e) f ((incr k ^^ n) f)"
proof -
  have "n \<le> Suc r * count_list (k # ks) k" using assms by simp
  then have "int n \<le> int (Suc r * count_list (k # ks) k)" by (rule of_nat_mono)
  then have "counted ((incr k ^^ n) f) j \<le> counted f j + int (Suc r * count_list (k # ks) j)" for j
    unfolding counted_repeat by (cases "j = k") (simp_all del: mult_Suc of_nat_mult)
  then show ?thesis unfolding batch_done_def by (simp add: counted_repeat repeat_other del: mult_Suc of_nat_mult)
qed

lemma IncrementSequential_done:
  assumes "incr_law r st val" "IncrementSequential st ks w = (e, w')"
  shows "batch_done r ks e (val w) (val w')"
  using assms(2)
proof (induction ks arbitrary: w)
  case (Cons k ks)
  obtain e1 w1 where i: "st_Incr st k w = (e1, w1)" by fastforce
  with assms(1) obtain n where n: "n \<le> Suc r" "val w1 = (incr k ^^ n) (val w)" "e1 = None \<longrightarrow> 0 < n"
    unfolding incr_law_def by blast
  show ?case
  proof (cases e1)
    case None
    with Cons i have "batch_done r ks e (val w1) (val w')" by simp
    with None n show ?thesis using batch_done_Cons by simp
  next
    case (Some x)
    with Cons.prems i n batch_done_stop show ?thesis by auto
  qed
qed (simp add: batch_done_def)

lemma IncrementPipelined_done:
  assumes "pipelined_law r st val" "IncrementPipelined st ks w = (e, w')"
  shows "batch_done r ks e (val w) (val w')"
proof -
  from assms obtain ns where ns: "length ns \<le> Suc r" "val w' = attempts ks ns (val w)"
    "e = None \<longrightarrow> ns \<noteq> [] \<and> last ns = length ks"
    unfolding pipelined_law_def IncrementPipelined_def by blast
  have up: "int (length ns * count_list ks k) \<le> int (Suc r * count_list ks k)" for k
    using ns(1) by (intro of_nat_mono mult_right_mono) simp_all
  have full: "counted (val w) k + int (count_list ks k) \<le> counted (val w') k" if "e = None" for k
  proof -
    from ns(3) that have "ns = butlast ns @ [length ks]" by (metis append_butlast_last_id)
    then have "val w' = fold incr ks (attempts ks (butlast ns) (val w))" using ns(2) by (metis attempts_simps(2) order_refl take_all)
    with counted_attempts [of "val w" k ks "butlast ns"] show ?thesis by (simp add: counted_fold)
  qed
  show ?thesis unfolding batch_done_def
  proof (intro conjI allI impI full)
    fix k
    show "counted (val w) k \<le> counted (val w') k" "counted (val w') k \<le> counted (val w) k + int (Suc r * count_list ks k)"
      using counted_attempts [of "val w" k ks ns] up [of k] unfolding ns(2) by linarith+
  next
    fix k
    assume "k \<notin> set ks"
    then show "val w' k = val w k" using attempts_other ns(2) by simp
  qed
qed

lemma variant_op_done:
  assumes "store_laws r st val" "variant_op v st ks w = (e, w')"
  shows "batch_done r ks e (val w) (val w')"
  using assms IncrementSequential_done IncrementPipelined_done
  by (cases v) (auto simp: variant_op_def store_laws_def)

lemma batch_done_total:
  assumes "batch_done r ks e f f'" "distinct ks"
  shows "total_of f ks \<le> total_of f' ks" "total_of f' ks \<le> total_of f ks + int (Suc r * length ks)"
    "e = None \<Longrightarrow> total_of f ks + int (length ks) \<le> total_of f' ks"
proof -
  have one: "count_list ks k = 1" if "k \<in> set ks" for k using that assms(2) by (simp add: count_distinct)
  show "total_of f ks \<le> total_of f' ks"
    unfolding total_of_def by (rule sum_list_mono) (use assms(1) in \<open>simp add: batch_done_def\<close>)
  have "total_of f' ks \<le> sum_list (map (\<lambda>k. counted f k + int (Suc r)) ks)"
    unfolding total_of_def
  proof (rule sum_list_mono)
    fix k assume "k \<in> set ks"
    moreover from assms(1) have "counted f' k \<le> counted f k + int (Suc r * count_list ks k)"
      by (simp add: batch_done_def)
    ultimately show "counted f' k \<le> counted f k + int (Suc r)" using one by simp
  qed
  then show "total_of f' ks \<le> total_of f ks + int (Suc r * length ks)"
    by (simp add: total_of_def sum_list_addf sum_list_triv mult.commute)
  show "total_of f ks + int (length ks) \<le> total_of f' ks" if "e = None"
  proof -
    have "sum_list (map (\<lambda>k. counted f k + 1) ks) \<le> total_of f' ks"
      unfolding total_of_def
    proof (rule sum_list_mono)
      fix k assume "k \<in> set ks"
      moreover from assms(1) that have "counted f k + int (count_list ks k) \<le> counted f' k"
        by (simp add: batch_done_def)
      ultimately show "counted f k + 1 \<le> counted f' k" using one by simp
    qed
    then show ?thesis by (simp add: total_of_def sum_list_addf sum_list_triv)
  qed
qed

lemma total_of_other:
  assumes "batch_done r ks e f f'" "set ks \<inter> set js = {}"
  shows "total_of f' js = total_of f js"
proof -
  have "map (counted f') js = map (counted f) js"
    using assms by (auto simp: counted_def batch_done_def)
  then show ?thesis unfolding total_of_def by (simp only:)
qed

lemma wrap64_id: "is_int64 i \<Longrightarrow> wrap64 i = i"
  unfolding wrap64_def is_int64_def by (simp add: sint_sbintrunc' signed_take_bit_int_eq_self)

lemma sum_values_total:
  assumes "\<forall>k \<in> set ks. 0 \<le> counted f k" "0 \<le> acc" "acc + total_of f ks < 2 ^ 63"
  shows "sum_values (map (\<lambda>k. map_option Itoa (f k)) ks) acc = Inr (acc + total_of f ks)"
  using assms
proof (induction ks arbitrary: acc)
  case (Cons k ks)
  have nn: "0 \<le> total_of f ks" unfolding total_of_def using Cons.prems(1) by (intro sum_list_nonneg) auto
  show ?case
  proof (cases "f k")
    case None
    with Cons show ?thesis by (simp add: total_of_def counted_def)
  next
    case (Some n)
    then have n: "0 \<le> n" "acc + n + total_of f ks < 2 ^ 63" using Cons.prems by (auto simp: total_of_def counted_def)
    with nn Cons.prems(2) have "is_int64 n" "is_int64 (acc + n)" by (auto simp: is_int64_def)
    then have "Atoi (Itoa n) = Some n" "wrap64 (acc + n) = acc + n"
      by (simp_all add: Atoi_def ParseInt_Itoa wrap64_id del: Itoa_nat)
    with Some n Cons.IH [of "acc + n"] Cons.prems show ?thesis
      by (simp add: total_of_def counted_def add.assoc del: Itoa_nat)
  qed
qed (simp add: total_of_def)

lemma Sum_total:
  assumes "store_laws r st val" "Sum st ks w = (x, w')"
    "\<forall>k \<in> set ks. 0 \<le> counted (val w) k" "total_of (val w) ks < 2 ^ 63"
  shows "val w' = val w \<and> (x = Inr (total_of (val w) ks) \<or> (\<exists>e. st_MGet st ks w = (Inl e, w') \<and> x = Inl (StoreErr e)))"
proof -
  obtain y where y: "st_MGet st ks w = (y, w')" "x = (case y of Inl e \<Rightarrow> Inl (StoreErr e) | Inr vs \<Rightarrow> sum_values vs 0)"
    using assms(2) by (auto simp: Sum_def split: prod.splits sum.splits)
  with assms(1) have "val w' = val w" "\<forall>vs. y = Inr vs \<longrightarrow> vs = map (\<lambda>k. map_option Itoa (val w k)) ks"
    unfolding store_laws_def mget_law_def by blast+
  with y sum_values_total [OF assms(3), of 0] assms(4) show ?thesis by (cases y) auto
qed

text \<open>
  C20. One pipeline does to the counters what the commands one by one do, up to the commands the
  client sent again: whatever either of them reports, every key was incremented at most
  \<open>Suc r\<close> times per occurrence in the batch, at least once per occurrence when success is reported, and
  no other key was touched. With a client that sends nothing again, two batches that succeed on the same
  state leave the same counters.
\<close>

theorem IncrementPipelined_equivalent:
  assumes "store_laws r st val" "IncrementSequential st keys w = (e1, w1)" "IncrementPipelined st keys w = (e2, w2)"
  shows "batch_done r keys e1 (val w) (val w1) \<and> batch_done r keys e2 (val w) (val w2)
    \<and> (r = 0 \<and> e1 = None \<and> e2 = None \<longrightarrow> (\<forall>k. counted (val w1) k = counted (val w2) k))"
proof -
  from assms have d: "batch_done r keys e1 (val w) (val w1)" "batch_done r keys e2 (val w) (val w2)"
    using IncrementSequential_done IncrementPipelined_done by (auto simp: store_laws_def)
  moreover have "counted (val w1) k = counted (val w2) k" if "r = 0" "e1 = None" "e2 = None" for k
  proof -
    have "counted (val w1) k = counted (val w) k + int (count_list keys k)"
      "counted (val w2) k = counted (val w) k + int (count_list keys k)"
      using d that unfolding batch_done_def by (simp_all add: order_antisym)
    then show ?thesis by simp
  qed
  ultimately show ?thesis by blast
qed

definition keys_apart :: "(pipe_variant \<Rightarrow> string list) \<Rightarrow> nat \<Rightarrow> bool" where
  "keys_apart keys n \<longleftrightarrow> (\<forall>v. distinct (keys v) \<and> length (keys v) = n) \<and> set (keys Sequential) \<inter> set (keys Pipeline) = {}"

lemma variant_keys_apart: "keys_apart (variant_keys pre n) n"
  by (auto simp: keys_apart_def variant_keys_def distinct_map inj_on_def variant_name_def)

definition batches_inv :: "nat \<Rightarrow> (string \<rightharpoonup> int) \<Rightarrow> (pipe_variant \<Rightarrow> string list) \<Rightarrow> nat \<Rightarrow> pipe_server \<Rightarrow> bool" where
  "batches_inv r f keys n s \<longleftrightarrow> (\<forall>v. 0 \<le> ps_failed s v \<and> ps_batches s v * int n \<le> total_of f (keys v)
     \<and> total_of f (keys v) \<le> (ps_batches s v + ps_failed s v) * int (Suc r * n))"

lemma pipe_operation_inv:
  assumes "store_laws r st val" "keys_apart keys n" "batches_inv r (val (snd s)) keys n (fst s)"
  shows "batches_inv r (val (snd (snd (pipe_operation st keys elapsed name s)))) keys n (fst (snd (pipe_operation st keys elapsed name s)))"
proof (cases "pipe_byName name")
  case None
  with assms(3) show ?thesis by (simp add: pipe_operation_def)
next
  case (Some v)
  obtain e w where o: "variant_op v st (keys v) (snd s) = (e, w)" by fastforce
  note eff = variant_op_done [OF assms(1) o]
  have k: "distinct (keys v)" "length (keys v) = n" using assms(2) by (auto simp: keys_apart_def)
  have other: "total_of (val w) (keys u) = total_of (val (snd s)) (keys u)" if "u \<noteq> v" for u
    by (rule total_of_other [OF eff]) (use assms(2) that in \<open>cases u; cases v; auto simp: keys_apart_def\<close>)
  note part = batch_done_total [OF eff k(1), unfolded k(2)]
  let ?r = "snd (pipe_operation st keys elapsed name s)"
  show ?thesis
    unfolding batches_inv_def
  proof
    fix u
    have old: "0 \<le> ps_failed (fst s) u" "ps_batches (fst s) u * int n \<le> total_of (val (snd s)) (keys u)"
      "total_of (val (snd s)) (keys u) \<le> (ps_batches (fst s) u + ps_failed (fst s) u) * int (Suc r * n)"
      using assms(3) by (simp_all add: batches_inv_def)
    show "0 \<le> ps_failed (fst ?r) u \<and> ps_batches (fst ?r) u * int n \<le> total_of (val (snd ?r)) (keys u)
      \<and> total_of (val (snd ?r)) (keys u) \<le> (ps_batches (fst ?r) u + ps_failed (fst ?r) u) * int (Suc r * n)"
      using old part other [of u] Some o
      by (cases "u = v"; cases e) (auto simp: pipe_operation_def distrib_right simp del: of_nat_mult mult_Suc)
  qed
qed

lemma pipe_serve_inv:
  assumes "store_laws r st val" "keys_apart keys n"
  shows "batches_inv r (val (snd s)) keys n (fst s)
    \<Longrightarrow> batches_inv r (val (snd (pipe_serve st keys reqs s))) keys n (fst (pipe_serve st keys reqs s))"
proof (induction reqs arbitrary: s)
  case (Cons r reqs)
  obtain name elapsed where "r = (name, elapsed)" by (cases r)
  with Cons pipe_operation_inv [OF assms Cons.prems] show ?case by simp
qed simp

text \<open>
  The adapter's invariant under any sequence of operation requests: the stored sum of a
  variant's counters is at least what its confirmed batches account for and at most what its
  confirmed and failed batches together could have added when every command is sent \<open>Suc r\<close> times.
  The two variants' keys never meet.
\<close>

theorem pipe_serve_sums:
  assumes "store_laws r st val" "\<forall>k. val w k = None"
    and "pipe_serve st (variant_keys pre n) reqs (\<lparr>ps_batches = (\<lambda>_. 0), ps_failed = (\<lambda>_. 0)\<rparr>, w) = (s, w')"
  shows "ps_batches s v * int n \<le> total_of (val w') (variant_keys pre n v)
    \<and> total_of (val w') (variant_keys pre n v) \<le> (ps_batches s v + ps_failed s v) * int (Suc r * n)"
proof -
  have "total_of (val w) ks = 0" for ks
    using assms(2) by (induction ks) (simp_all add: total_of_def counted_def)
  then have "batches_inv r (val (snd (\<lparr>ps_batches = (\<lambda>_. 0), ps_failed = (\<lambda>_. 0)\<rparr> :: pipe_server, w)))
      (variant_keys pre n) n (fst (\<lparr>ps_batches = (\<lambda>_. 0), ps_failed = (\<lambda>_. 0)\<rparr>, w))"
    by (simp add: batches_inv_def)
  from pipe_serve_inv [OF assms(1) variant_keys_apart this, of reqs] assms(3) show ?thesis
    by (simp add: batches_inv_def)
qed

text \<open>A store kept in a map, and one whose increments fail, for the examples.\<close>

definition map_store :: "(string \<rightharpoonup> int) Store" where
  "map_store = \<lparr>st_Incr = (\<lambda>k w. (None, incr k w)),
     st_MGet = (\<lambda>ks w. (Inr (map (\<lambda>k. map_option Itoa (w k)) ks), w)),
     st_Pipelined = (\<lambda>cs w. (None, fold (\<lambda>c. case c of IncrCmd k \<Rightarrow> incr k) cs w)),
     st_Del = (\<lambda>ks w. if ks = [] then (Some ''ERR wrong number of arguments'', w) else (None, w |` (- set ks)))\<rparr>"

lemma map_store_laws: "store_laws r map_store (\<lambda>w. w)"
proof -
  have "incr_law r map_store (\<lambda>w. w)"
    by (auto simp: incr_law_def map_store_def intro: exI [of _ 1])
  moreover have "pipelined_law r map_store (\<lambda>w. w)"
    unfolding pipelined_law_def
  proof (intro allI impI)
    fix ks w e w'
    assume "st_Pipelined map_store (map IncrCmd ks) w = (e, w')"
    then show "\<exists>ns. length ns \<le> Suc r \<and> w' = attempts ks ns w \<and> (e = None \<longrightarrow> ns \<noteq> [] \<and> last ns = length ks)"
      by (intro exI [of _ "[length ks]"]) (simp add: map_store_def attempts_def fold_map comp_def)
  qed
  ultimately show ?thesis
    by (auto simp: store_laws_def mget_law_def del_law_def map_store_def split: if_splits)
qed

text \<open>A client that sends every command twice, because the first answer is always lost.\<close>

definition twice_store :: "(string \<rightharpoonup> int) Store" where
  "twice_store = map_store\<lparr>st_Incr := (\<lambda>k w. (None, incr k (incr k w))),
     st_Pipelined := (\<lambda>cs w. (None, fold (\<lambda>c. case c of IncrCmd k \<Rightarrow> incr k) (cs @ cs) w))\<rparr>"

lemma twice_store_laws: "store_laws 1 twice_store (\<lambda>w. w)"
proof -
  have "incr_law 1 twice_store (\<lambda>w. w)"
    by (auto simp: incr_law_def twice_store_def numeral_2_eq_2 intro!: exI [of _ 2])
  moreover have "pipelined_law 1 twice_store (\<lambda>w. w)"
    unfolding pipelined_law_def
  proof (intro allI impI)
    fix ks w e w'
    assume "st_Pipelined twice_store (map IncrCmd ks) w = (e, w')"
    then show "\<exists>ns. length ns \<le> Suc 1 \<and> w' = attempts ks ns w \<and> (e = None \<longrightarrow> ns \<noteq> [] \<and> last ns = length ks)"
      by (intro exI [of _ "[length ks, length ks]"]) (simp add: twice_store_def attempts_def fold_map comp_def)
  qed
  ultimately show ?thesis
    by (auto simp: store_laws_def mget_law_def del_law_def twice_store_def map_store_def split: if_splits)
qed

theorem IncrementPipelined_equivalent_witness:
  "\<exists>w1 w2. IncrementSequential twice_store [''a'', ''b'', ''a''] Map.empty = (None, w1)
     \<and> IncrementPipelined map_store [''a'', ''b'', ''a''] Map.empty = (None, w2)
     \<and> batch_done 1 [''a'', ''b'', ''a''] None Map.empty w1 \<and> batch_done 0 [''a'', ''b'', ''a''] None Map.empty w2
     \<and> (\<exists>w3. IncrementSequential map_store [''a'', ''b'', ''a''] Map.empty = (None, w3) \<and> (\<forall>k. counted w3 k = counted w2 k))"
proof -
  let ?ks = "[''a'', ''b'', ''a'']"
  let ?w = "fold incr ?ks Map.empty"
  have m: "IncrementSequential map_store ?ks Map.empty = (None, ?w)" "IncrementPipelined map_store ?ks Map.empty = (None, ?w)"
    by (simp_all add: map_store_def IncrementPipelined_def)
  obtain w1 where t: "IncrementSequential twice_store ?ks Map.empty = (None, w1)"
    by (simp add: twice_store_def)
  obtain e2 w2 where p: "IncrementPipelined twice_store ?ks Map.empty = (e2, w2)" by fastforce
  from IncrementPipelined_equivalent [OF twice_store_laws t p] IncrementPipelined_equivalent [OF map_store_laws [of 0] m] m t
  show ?thesis by blast
qed

theorem pipe_serve_sums_witness:
  "\<exists>s w. pipe_serve map_store (variant_keys ''p'' 2) [(''pipeline'', 0), (''sequential'', 0), (''x'', 0)]
       (\<lparr>ps_batches = (\<lambda>_. 0), ps_failed = (\<lambda>_. 0)\<rparr>, Map.empty) = (s, w)
     \<and> ps_batches s Pipeline * 2 \<le> total_of w (variant_keys ''p'' 2 Pipeline)"
proof -
  obtain s w where r: "pipe_serve map_store (variant_keys ''p'' 2) [(''pipeline'', 0), (''sequential'', 0), (''x'', 0)]
       (\<lparr>ps_batches = (\<lambda>_. 0), ps_failed = (\<lambda>_. 0)\<rparr>, Map.empty) = (s, w)" by fastforce
  with pipe_serve_sums [OF map_store_laws [of 0] _ r, of Pipeline] show ?thesis by auto
qed
end
