(* ===== verification/Perf_Serve.thy ===== *)
theory Perf_Serve
  imports Perf
begin

section \<open>Serving until a signal\<close>

text \<open>
  \<^verbatim>\<open>Serve\<close> of \<^verbatim>\<open>internal/lab/perf/perf.go\<close>: it binds the port, starts a goroutine that waits for a signal and
  shuts the server down, writes the ready file, serves, and returns when the goroutine is done. The
  goroutine, the sender of the signal and the clients run at the same time; each is a thread. A
  call of the HTTP server is one step: \<^verbatim>\<open>server.Serve\<close> returns when it was shut down or accepting fails,
  \<^verbatim>\<open>server.Shutdown\<close> stops it from accepting and returns when no connection is active or, as an
  error of the input, when its 15 seconds are over. \<open>addr\<close> is the address the listener got. Not
  modelled is the \<^verbatim>\<open>GET /health\<close> handler, which prints the settings.
\<close>

record serve_world =
  sv_bound :: "string option"
  sv_ready :: "string option"
  sv_started :: bool
  sv_stop :: bool
  sv_serving :: bool
  sv_shutdown :: bool
  sv_closed :: bool
  sv_done :: bool
  sv_active :: "nat set"

type_synonym serve_thread = "(tick, serve_world, (panic, unit) result) thread"

definition net_Listen :: "(string \<Rightarrow> tick \<Rightarrow> string) \<Rightarrow> int \<Rightarrow> tick \<Rightarrow> serve_world \<Rightarrow> (string, string) result \<times> serve_world" where
  "net_Listen addr port i w = (case fault_err (tick_fault i) of
       Some e \<Rightarrow> (Inl e, w)
     | None \<Rightarrow> (let url = ''http://'' @ addr (''127.0.0.1:'' @ Itoa port) i in (Inr url, w\<lparr>sv_bound := Some url\<rparr>)))"

text \<open>\<^verbatim>\<open>signal.NotifyContext\<close> and the \<^verbatim>\<open>go\<close> statement: from here on a signal is seen.\<close>

definition go_watch :: "tick \<Rightarrow> serve_world \<Rightarrow> unit \<times> serve_world" where
  "go_watch i w = ((), w\<lparr>sv_started := True\<rparr>)"

definition WriteFile_ready :: "string \<Rightarrow> tick \<Rightarrow> serve_world \<Rightarrow> string option \<times> serve_world" where
  "WriteFile_ready url i w = (case fault_err (tick_fault i) of Some e \<Rightarrow> (Some e, w) | None \<Rightarrow> (None, w\<lparr>sv_ready := Some url\<rparr>))"

definition cancel_step :: "tick \<Rightarrow> serve_world \<Rightarrow> unit \<times> serve_world" where
  "cancel_step i w = ((), w\<lparr>sv_stop := True\<rparr>)"

definition serve_start :: "tick \<Rightarrow> serve_world \<Rightarrow> unit \<times> serve_world" where
  "serve_start i w = ((), w\<lparr>sv_serving := True\<rparr>)"

text \<open>\<^term>\<open>None\<close> is \<^verbatim>\<open>http.ErrServerClosed\<close>.\<close>

definition server_Serve :: "tick \<Rightarrow> serve_world \<Rightarrow> (string option \<times> serve_world) option" where
  "server_Serve i w =
     (if sv_shutdown w then Some (None, w\<lparr>sv_serving := False\<rparr>)
      else case fault_err (tick_fault i) of Some e \<Rightarrow> Some (Some e, w\<lparr>sv_serving := False\<rparr>) | None \<Rightarrow> None)"

definition receive_done :: "tick \<Rightarrow> serve_world \<Rightarrow> (unit \<times> serve_world) option" where
  "receive_done i w = (if sv_done w then Some ((), w) else None)"

definition panic_cancelled :: "string \<Rightarrow> serve_thread" where
  "panic_cancelled e = atomically cancel_step (\<lambda>_. Done (Inl (PanicError e)))"

definition serve_until_done :: serve_thread where
  "serve_until_done = atomically serve_start (\<lambda>_. waiting server_Serve (\<lambda>e. case e of
       Some e \<Rightarrow> panic_cancelled e
     | None \<Rightarrow> atomically cancel_step (\<lambda>_. waiting receive_done (\<lambda>_. Done (Inr ())))))"

definition serve_bound :: "(string \<Rightarrow> string) \<Rightarrow> string \<Rightarrow> serve_thread" where
  "serve_bound getenv url = atomically go_watch (\<lambda>_.
     if getenv ''READY_FILE'' \<noteq> []
     then atomically (WriteFile_ready url) (\<lambda>e. case e of
         Some e \<Rightarrow> panic_cancelled e
       | None \<Rightarrow> serve_until_done)
     else serve_until_done)"

definition Serve :: "(string \<Rightarrow> string) \<Rightarrow> (string \<Rightarrow> tick \<Rightarrow> string) \<Rightarrow> settings \<Rightarrow> serve_thread" where
  "Serve getenv addr st = (case Int_setting getenv ''PORT'' 8080 0 65535 st of
       Inl p \<Rightarrow> Done (Inl p)
     | Inr (port, st) \<Rightarrow> atomically (net_Listen addr port) (\<lambda>r. case r of
         Inl e \<Rightarrow> Done (Inl (PanicError e))
       | Inr url \<Rightarrow> serve_bound getenv url))"

text \<open>The goroutine.\<close>

definition stop_Done :: "tick \<Rightarrow> serve_world \<Rightarrow> (unit \<times> serve_world) option" where
  "stop_Done i w = (if sv_started w \<and> sv_stop w then Some ((), w) else None)"

definition Shutdown_begin :: "tick \<Rightarrow> serve_world \<Rightarrow> unit \<times> serve_world" where
  "Shutdown_begin i w = ((), w\<lparr>sv_shutdown := True\<rparr>)"

definition Shutdown_wait :: "tick \<Rightarrow> serve_world \<Rightarrow> (string option \<times> serve_world) option" where
  "Shutdown_wait i w = (if sv_active w = {} then Some (None, w)
     else case fault_err (tick_fault i) of Some e \<Rightarrow> Some (Some e, w) | None \<Rightarrow> None)"

definition server_Close :: "tick \<Rightarrow> serve_world \<Rightarrow> unit \<times> serve_world" where
  "server_Close i w = ((), w\<lparr>sv_closed := True\<rparr>)"

definition close_done :: "tick \<Rightarrow> serve_world \<Rightarrow> unit \<times> serve_world" where
  "close_done i w = ((), w\<lparr>sv_done := True\<rparr>)"

definition watch :: serve_thread where
  "watch = waiting stop_Done (\<lambda>_. atomically Shutdown_begin (\<lambda>_. waiting Shutdown_wait (\<lambda>e. case e of
       None \<Rightarrow> atomically close_done (\<lambda>_. Done (Inr ()))
     | Some e \<Rightarrow> atomically server_Close (\<lambda>_. atomically close_done (\<lambda>_. Done (Inr ()))))))"

text \<open>
  The environment: the sender of the signal, and client \<open>n\<close>, which is accepted while the server
  serves, is answered by a handler, and is gone when it has been answered; a client that comes too
  late is refused.
\<close>

definition signal :: serve_thread where
  "signal = atomically cancel_step (\<lambda>_. Done (Inr ()))"

definition accept_client :: "nat \<Rightarrow> tick \<Rightarrow> serve_world \<Rightarrow> (bool \<times> serve_world) option" where
  "accept_client n i w =
     (if sv_shutdown w then Some (False, w)
      else if sv_serving w then Some (True, w\<lparr>sv_active := insert n (sv_active w)\<rparr>) else None)"

definition answer_client :: "nat \<Rightarrow> tick \<Rightarrow> serve_world \<Rightarrow> unit \<times> serve_world" where
  "answer_client n i w = ((), w\<lparr>sv_active := sv_active w - {n}\<rparr>)"

definition client :: "nat \<Rightarrow> serve_thread" where
  "client n = waiting (accept_client n) (\<lambda>ok. if ok then atomically (answer_client n) (\<lambda>_. Done (Inr ())) else Done (Inr ()))"

definition serve_threads :: "(string \<Rightarrow> string) \<Rightarrow> (string \<Rightarrow> tick \<Rightarrow> string) \<Rightarrow> settings \<Rightarrow> nat \<Rightarrow> serve_thread list" where
  "serve_threads getenv addr st k = [Serve getenv addr st, watch, signal] @ map client [3..<3 + k]"

definition serve_init :: serve_world where
  "serve_init = \<lparr>sv_bound = None, sv_ready = None, sv_started = False, sv_stop = False, sv_serving = False,
     sv_shutdown = False, sv_closed = False, sv_done = False, sv_active = {}\<rparr>"

subsection \<open>What the threads do to the world\<close>

definition drained :: "serve_world \<Rightarrow> bool" where
  "drained w \<longleftrightarrow> sv_shutdown w \<and> (sv_active w = {} \<or> sv_closed w)"

definition serve_inv :: "serve_world \<Rightarrow> bool" where
  "serve_inv w \<longleftrightarrow> (sv_done w \<longrightarrow> drained w) \<and> (\<forall>u. sv_ready w = Some u \<longrightarrow> sv_bound w = Some u)"

text \<open>Changes every thread may rely on; \<open>n\<close> is the thread whose own connection is not touched by the others.\<close>

definition steady :: "serve_world \<Rightarrow> serve_world \<Rightarrow> bool" where
  "steady w w' \<longleftrightarrow> (serve_inv w \<longrightarrow> serve_inv w')
     \<and> (sv_shutdown w \<longrightarrow> sv_shutdown w' \<and> sv_active w' \<subseteq> sv_active w)
     \<and> (sv_closed w \<longrightarrow> sv_closed w') \<and> (sv_done w \<longrightarrow> sv_done w')
     \<and> (sv_stop w \<longrightarrow> sv_stop w') \<and> (sv_started w \<longrightarrow> sv_started w')"

definition serve_rely :: "nat \<Rightarrow> serve_world \<Rightarrow> serve_world \<Rightarrow> bool" where
  "serve_rely n w w' \<longleftrightarrow> steady w w' \<and> (n \<in> sv_active w' \<longleftrightarrow> n \<in> sv_active w)
     \<and> (n = 0 \<longrightarrow> sv_bound w' = sv_bound w \<and> sv_ready w' = sv_ready w \<and> sv_started w' = sv_started w)"

definition serve_guar :: "nat \<Rightarrow> serve_world \<Rightarrow> serve_world \<Rightarrow> bool" where
  "serve_guar n w w' \<longleftrightarrow> steady w w' \<and> (n < 3 \<longrightarrow> sv_active w' = sv_active w) \<and> (\<forall>m. m \<noteq> n \<longrightarrow> (m \<in> sv_active w' \<longleftrightarrow> m \<in> sv_active w))
     \<and> (n \<noteq> 0 \<longrightarrow> sv_bound w' = sv_bound w \<and> sv_ready w' = sv_ready w \<and> sv_started w' = sv_started w)"

text \<open>When the next call of a thread goes through at once.\<close>

definition serve_must :: "nat \<Rightarrow> tick \<Rightarrow> serve_world \<Rightarrow> bool" where
  "serve_must n i w \<longleftrightarrow> (
     if n = 0 then \<not> sv_started w \<or> (sv_shutdown w \<and> sv_done w)
     else if n = 1 then sv_started w \<and> sv_stop w \<and> (sv_shutdown w \<longrightarrow> sv_active w = {})
     else if n = 2 then True
     else sv_shutdown w \<or> n \<in> sv_active w)"

lemma steady_refl: "steady w w"
  by (simp add: steady_def)

lemma steady_trans: "steady w w' \<Longrightarrow> steady w' w'' \<Longrightarrow> steady w w''"
  unfolding steady_def by blast

interpretation srv: rely_guarantee serve_rely serve_guar serve_must
proof
  show "serve_rely n w w" for n w by (simp add: serve_rely_def steady_refl)
  show "serve_rely n w w''" if "serve_rely n w w'" "serve_rely n w' w''" for n w w' w''
    using that unfolding serve_rely_def using steady_trans by metis
  show "serve_rely n w w'" if "m \<noteq> n" "serve_guar m w w'" for m n w w'
    using that unfolding serve_rely_def serve_guar_def by metis
qed

abbreviation serve_safe :: "nat \<Rightarrow> ((panic, unit) result \<Rightarrow> serve_world \<Rightarrow> bool) \<Rightarrow> serve_thread \<Rightarrow> serve_world \<Rightarrow> bool" where
  "serve_safe n \<equiv> safe (serve_rely n) (serve_guar n) (serve_must n)"

lemmas serve_steps = net_Listen_def go_watch_def WriteFile_ready_def cancel_step_def serve_start_def server_Serve_def
  receive_done_def stop_Done_def Shutdown_begin_def Shutdown_wait_def server_Close_def close_done_def accept_client_def answer_client_def

text \<open>A step that only sets flags which the others may see set at any time.\<close>

lemma guar_flags:
  "serve_guar n w (w\<lparr>sv_stop := True\<rparr>)" "serve_guar n w (w\<lparr>sv_serving := b\<rparr>)" "serve_guar n w w"
  "serve_guar n w (w\<lparr>sv_shutdown := True\<rparr>)" "serve_guar n w (w\<lparr>sv_closed := True\<rparr>)"
  "serve_guar 0 w (w\<lparr>sv_started := True\<rparr>)"
  "drained w \<Longrightarrow> serve_guar n w (w\<lparr>sv_done := True\<rparr>)"
  "sv_bound w = Some u \<Longrightarrow> serve_guar 0 w (w\<lparr>sv_ready := Some u\<rparr>)"
  "\<not> sv_shutdown w \<Longrightarrow> 3 \<le> n \<Longrightarrow> serve_guar n w (w\<lparr>sv_active := insert n (sv_active w)\<rparr>)"
  "3 \<le> n \<Longrightarrow> serve_guar n w (w\<lparr>sv_active := sv_active w - {n}\<rparr>)"
  by (auto simp: serve_guar_def steady_def serve_inv_def drained_def)

lemma guar_bound: "sv_ready w = None \<Longrightarrow> serve_guar 0 w (w\<lparr>sv_bound := b\<rparr>)"
  by (auto simp: serve_guar_def steady_def serve_inv_def drained_def)

lemma rely_facts:
  assumes "serve_rely n w w'"
  shows "sv_shutdown w \<longrightarrow> sv_shutdown w'" "sv_closed w \<longrightarrow> sv_closed w'" "sv_done w \<longrightarrow> sv_done w'"
    "sv_stop w \<longrightarrow> sv_stop w'" "sv_started w \<longrightarrow> sv_started w'" "n \<in> sv_active w' \<longleftrightarrow> n \<in> sv_active w"
    "drained w \<longrightarrow> drained w'" "n = 0 \<longrightarrow> sv_bound w' = sv_bound w" "n = 0 \<longrightarrow> sv_ready w' = sv_ready w"
  using assms unfolding serve_rely_def steady_def drained_def by blast+

lemma signal_safe: "serve_safe 2 (\<lambda>r w. sv_stop w) signal w"
  unfolding signal_def
  by (auto intro!: safe_atomically safe_Done guar_flags simp: cancel_step_def) (use rely_facts(4) in fastforce)

lemma close_done_safe: "drained w \<Longrightarrow> serve_safe 1 (\<lambda>r w. sv_done w) (atomically close_done (\<lambda>_. Done (Inr ()))) w"
  by (rule safe_atomically) (auto intro!: safe_Done guar_flags simp: close_done_def dest: rely_facts(3,7))

lemma watch_safe: "serve_safe 1 (\<lambda>r w. sv_done w) watch w"
  unfolding watch_def
proof (rule safe_waiting)
  fix w' i b w''
  assume "stop_Done i w' = Some (b, w'')"
  then have [simp]: "w'' = w'" by (simp add: stop_Done_def split: if_splits)
  have wait: "serve_safe 1 (\<lambda>r w. sv_done w) (waiting Shutdown_wait (\<lambda>e. case e of
       None \<Rightarrow> atomically close_done (\<lambda>_. Done (Inr ()))
     | Some e \<Rightarrow> atomically server_Close (\<lambda>_. atomically close_done (\<lambda>_. Done (Inr ()))))) w" if "sv_shutdown w" for w
  proof (rule safe_waiting)
    fix v j e v'
    assume v: "serve_rely 1 w v" "Shutdown_wait j v = Some (e, v')"
    then have [simp]: "v' = v" by (auto simp: Shutdown_wait_def split: if_splits option.splits)
    have sh: "sv_shutdown v" using that rely_facts(1) [OF v(1)] by blast
    show "serve_guar 1 v v' \<and> serve_safe 1 (\<lambda>r w. sv_done w) (case e of None \<Rightarrow> atomically close_done (\<lambda>_. Done (Inr ()))
        | Some e \<Rightarrow> atomically server_Close (\<lambda>_. atomically close_done (\<lambda>_. Done (Inr ())))) v'"
    proof (cases e)
      case None
      with v(2) sh have "drained v" by (auto simp: Shutdown_wait_def drained_def split: if_splits option.splits)
      with None show ?thesis by (simp add: guar_flags close_done_safe del: One_nat_def)
    next
      case (Some x)
      have "serve_safe 1 (\<lambda>r w. sv_done w) (atomically server_Close (\<lambda>_. atomically close_done (\<lambda>_. Done (Inr ())))) v"
      proof (rule safe_atomically)
        fix u j b u'
        assume u: "serve_rely 1 v u" "server_Close j u = (b, u')"
        have "drained u'" using u(2) sh rely_facts(1) [OF u(1)] by (auto simp: server_Close_def drained_def)
        then show "serve_guar 1 u u' \<and> serve_safe 1 (\<lambda>r w. sv_done w) (atomically close_done (\<lambda>_. Done (Inr ()))) u'"
          using u(2) by (auto simp: server_Close_def guar_flags close_done_safe simp del: One_nat_def)
      qed
      with Some show ?thesis by (simp add: guar_flags)
    qed
  qed (use that in \<open>auto simp: serve_must_def Shutdown_wait_def dest: rely_facts(1)\<close>)
  have "serve_safe 1 (\<lambda>r w. sv_done w) (atomically Shutdown_begin (\<lambda>_. waiting Shutdown_wait (\<lambda>e. case e of
       None \<Rightarrow> atomically close_done (\<lambda>_. Done (Inr ()))
     | Some e \<Rightarrow> atomically server_Close (\<lambda>_. atomically close_done (\<lambda>_. Done (Inr ())))))) w'"
    by (rule safe_atomically) (auto simp: Shutdown_begin_def simp del: One_nat_def intro!: guar_flags wait)
  then show "serve_guar 1 w' w'' \<and> serve_safe 1 (\<lambda>r w. sv_done w) (atomically Shutdown_begin (\<lambda>_. waiting Shutdown_wait (\<lambda>e. case e of
       None \<Rightarrow> atomically close_done (\<lambda>_. Done (Inr ()))
     | Some e \<Rightarrow> atomically server_Close (\<lambda>_. atomically close_done (\<lambda>_. Done (Inr ())))))) w''"
    by (simp add: guar_flags)
qed (simp add: serve_must_def stop_Done_def)

lemma client_safe:
  assumes "n \<notin> sv_active w" "3 \<le> n"
  shows "serve_safe n (\<lambda>r w. n \<notin> sv_active w) (client n) w"
  unfolding client_def
proof (rule safe_waiting)
  fix w' i ok w''
  assume w': "serve_rely n w w'" "accept_client n i w' = Some (ok, w'')"
  have "serve_safe n (\<lambda>r w. n \<notin> sv_active w) (atomically (answer_client n) (\<lambda>_. Done (Inr ()))) v" for v
    by (rule safe_atomically) (auto simp: answer_client_def assms(2) intro!: guar_flags safe_Done dest: rely_facts(6))
  moreover have "serve_guar n w' w''"
    using w'(2) by (auto simp: accept_client_def guar_flags assms(2) split: if_splits)
  moreover have "n \<notin> sv_active w''" if "\<not> ok"
    using that w' assms(1) by (auto simp: accept_client_def rely_facts(6) split: if_splits)
  ultimately show "serve_guar n w' w'' \<and> serve_safe n (\<lambda>r w. n \<notin> sv_active w)
      (if ok then atomically (answer_client n) (\<lambda>_. Done (Inr ())) else Done (Inr ())) w''"
    by (auto intro!: safe_Done dest: rely_facts(6))
qed (use assms in \<open>auto simp: serve_must_def accept_client_def dest: rely_facts(6)\<close>)

definition serve_post :: "(panic, unit) result \<Rightarrow> serve_world \<Rightarrow> bool" where
  "serve_post r w \<longleftrightarrow> (r = Inr () \<longrightarrow> sv_done w)"

lemma panic_safe: "serve_safe 0 serve_post (panic_cancelled e) w"
  unfolding panic_cancelled_def
  by (rule safe_atomically) (auto simp: cancel_step_def serve_post_def intro!: guar_flags safe_Done)

lemma until_done_safe: "sv_started w \<Longrightarrow> serve_safe 0 serve_post serve_until_done w"
  unfolding serve_until_done_def
proof (rule safe_atomically)
  fix w' i b w''
  assume st: "sv_started w" and w': "serve_rely 0 w w'" "serve_start i w' = (b, w'')"
  have receive: "serve_safe 0 serve_post (waiting receive_done (\<lambda>_. Done (Inr ()))) v" if "sv_started v" for v
    by (rule safe_waiting)
      (use that in \<open>auto simp: receive_done_def serve_must_def serve_post_def guar_flags intro!: safe_Done split: if_splits dest: rely_facts(3,5)\<close>)
  have "serve_safe 0 serve_post (waiting server_Serve (\<lambda>e. case e of Some e \<Rightarrow> panic_cancelled e
     | None \<Rightarrow> atomically cancel_step (\<lambda>_. waiting receive_done (\<lambda>_. Done (Inr ()))))) v" if v: "sv_started v" for v
  proof (rule safe_waiting)
    fix v' j e v''
    assume v': "serve_rely 0 v v'" "server_Serve j v' = Some (e, v'')"
    then have [simp]: "v'' = v'\<lparr>sv_serving := False\<rparr>" by (auto simp: server_Serve_def split: if_splits option.splits)
    have s: "sv_started v'" using v rely_facts(5) [OF v'(1)] by blast
    have "serve_safe 0 serve_post (atomically cancel_step (\<lambda>_. waiting receive_done (\<lambda>_. Done (Inr ())))) v''"
      by (rule safe_atomically) (auto simp: cancel_step_def s intro!: guar_flags receive dest: rely_facts(5))
    then show "serve_guar 0 v' v'' \<and> serve_safe 0 serve_post (case e of Some e \<Rightarrow> panic_cancelled e
        | None \<Rightarrow> atomically cancel_step (\<lambda>_. waiting receive_done (\<lambda>_. Done (Inr ())))) v''"
      by (auto intro: guar_flags panic_safe split: option.splits)
  qed (use v in \<open>auto simp: serve_must_def server_Serve_def dest: rely_facts(5)\<close>)
  with w' rely_facts(5) [OF w'(1)] st show "serve_guar 0 w' w'' \<and> serve_safe 0 serve_post (waiting server_Serve (\<lambda>e. case e of Some e \<Rightarrow> panic_cancelled e
     | None \<Rightarrow> atomically cancel_step (\<lambda>_. waiting receive_done (\<lambda>_. Done (Inr ()))))) w''"
    by (auto simp: serve_start_def intro: guar_flags)
qed

lemma Serve_safe: "sv_ready w = None \<Longrightarrow> serve_safe 0 serve_post (Serve getenv addr st) w"
proof -
  assume ready: "sv_ready w = None"
  have filed: "serve_safe 0 serve_post (atomically (WriteFile_ready url) (\<lambda>e. case e of
      Some e \<Rightarrow> panic_cancelled e | None \<Rightarrow> serve_until_done)) v" if "sv_started v" "sv_bound v = Some url" for url v
    by (rule safe_atomically)
      (use that in \<open>auto simp: WriteFile_ready_def rely_facts(8) intro!: guar_flags panic_safe until_done_safe split: option.splits dest: rely_facts(5)\<close>)
  have go: "serve_safe 0 serve_post (serve_bound getenv url) v" if "sv_bound v = Some url" for url v
    unfolding serve_bound_def
    by (rule safe_atomically) (use that in \<open>auto simp: go_watch_def rely_facts(8) intro!: guar_flags filed until_done_safe\<close>)
  have "serve_safe 0 serve_post (atomically (net_Listen addr port) (\<lambda>r. case r of Inl e \<Rightarrow> Done (Inl (PanicError e))
      | Inr url \<Rightarrow> serve_bound getenv url)) w" for port
  proof (rule safe_atomically)
    fix w' i r w''
    assume w': "serve_rely 0 w w'" "net_Listen addr port i w' = (r, w'')"
    have "sv_ready w' = None" using rely_facts(9) [OF w'(1)] ready by simp
    then show "serve_guar 0 w' w'' \<and> serve_safe 0 serve_post (case r of Inl e \<Rightarrow> Done (Inl (PanicError e)) | Inr url \<Rightarrow> serve_bound getenv url) w''"
      using w'(2) by (auto simp: net_Listen_def Let_def serve_post_def guar_flags guar_bound split: option.splits intro!: safe_Done go)
  qed
  then show ?thesis unfolding Serve_def
    by (auto intro!: safe_Done simp: serve_post_def split: sum.splits)
qed

subsection \<open>Safety and progress\<close>

definition thread_post :: "nat \<Rightarrow> (panic, unit) result \<Rightarrow> serve_world \<Rightarrow> bool" where
  "thread_post n = (if n = 0 then serve_post else if n = 1 then (\<lambda>r w. sv_done w) else if n = 2 then (\<lambda>r w. sv_stop w)
     else (\<lambda>r w. n \<notin> sv_active w))"

lemma serve_all_safe: "srv.all_safe thread_post (serve_init, serve_threads getenv addr st k)"
  unfolding srv.all_safe_def
proof (intro allI impI)
  fix n
  assume "n < length (snd (serve_init, serve_threads getenv addr st k))"
  then consider "n = 0" | "n = 1" | "n = 2" | j where "n = 3 + j" "j < k" by (fastforce simp: serve_threads_def less_Suc_eq_0_disj)
  then show "serve_safe n (thread_post n) (snd (serve_init, serve_threads getenv addr st k) ! n) (fst (serve_init, serve_threads getenv addr st k))"
  proof cases
    case 4
    then have "serve_threads getenv addr st k ! n = client n" by (simp add: serve_threads_def)
    with 4 client_safe [of n serve_init] show ?thesis by (simp add: thread_post_def serve_init_def numeral_eq_Suc)
  qed (use Serve_safe watch_safe signal_safe in \<open>simp_all add: serve_threads_def thread_post_def serve_init_def\<close>)
qed

definition clients_in :: "nat \<Rightarrow> serve_world \<Rightarrow> bool" where
  "clients_in k w \<longleftrightarrow> serve_inv w \<and> sv_active w \<subseteq> {3..<3 + k}"

lemma clients_in_step: "n < 3 + k \<Longrightarrow> serve_guar n w w' \<Longrightarrow> clients_in k w \<Longrightarrow> clients_in k w'"
  unfolding clients_in_def serve_guar_def steady_def by (metis atLeastLessThan_iff linorder_not_less subset_iff)

lemma serve_reaches_inv:
  assumes "reaches (serve_init, serve_threads getenv addr st k) (w, ts)"
  shows "clients_in k w"
proof -
  have "clients_in k serve_init" by (simp add: clients_in_def serve_inv_def serve_init_def)
  moreover have "length (serve_threads getenv addr st k) = 3 + k" by (simp add: serve_threads_def)
  ultimately show ?thesis
    using srv.invariant_within [OF assms serve_all_safe, of "clients_in k"] clients_in_step by (metis fst_conv snd_conv)
qed

text \<open>
  C19. \<^verbatim>\<open>Serve\<close> drains before it returns, whatever the interleaving with the signal and the clients:
  once it has returned normally the goroutine is done, the server accepts no more, and every connection was
  finished or, when the drain took too long, closed by force. The ready file never names
  an address that is not bound, and bound before.
\<close>

theorem Serve_drains:
  assumes "reaches (serve_init, serve_threads getenv addr st k) (w, ts)"
  shows "(result_of (ts ! 0) = Some (Inr ()) \<longrightarrow> sv_done w \<and> sv_shutdown w \<and> (sv_active w = {} \<or> sv_closed w))
    \<and> (\<forall>u. sv_ready w = Some u \<longrightarrow> sv_bound w = Some u)"
proof -
  have inv: "serve_inv w" using serve_reaches_inv [OF assms] by (simp add: clients_in_def)
  have len: "0 < length ts" using reaches_length [OF assms] by (simp add: serve_threads_def)
  have "sv_done w" if "result_of (ts ! 0) = Some (Inr ())"
  proof -
    have "ts ! 0 = Done (Inr ())" using that by (cases "ts ! 0") auto
    then have "thread_post 0 (Inr ()) w" using srv.post [OF assms serve_all_safe, of 0] len by simp
    then show ?thesis by (simp add: thread_post_def serve_post_def)
  qed
  with inv show ?thesis by (simp add: serve_inv_def drained_def)
qed

lemma serve_progress:
  assumes r: "reaches (serve_init, serve_threads getenv addr st k) (w, ts)" and "result_of (ts ! 0) = None"
  shows "\<exists>n f. n < length ts \<and> ts ! n = Step f \<and> f i w \<noteq> None"
proof -
  have len: "length ts = 3 + k" using reaches_length [OF r] by (simp add: serve_threads_def)
  have safe: "srv.all_safe thread_post (w, ts)" by (rule srv.all_safe_reaches [OF r serve_all_safe])
  have inv: "clients_in k w" by (rule serve_reaches_inv [OF r])
  have move: ?thesis if "n < 3 + k" "result_of (ts ! n) = None" "serve_must n i w" for n
  proof -
    from that(2) obtain f where f: "ts ! n = Step f" by (cases "ts ! n") auto
    have "serve_safe n (thread_post n) (Step f) w" using srv.all_safeD [OF safe, of n] that(1) len f by simp
    then have "f i w \<noteq> None" using that(3) by (rule srv.safe_must)
    with f that(1) len show ?thesis by (intro exI [of _ n] exI [of _ f]) simp
  qed
  have post: "thread_post n a w" if "n < 3 + k" "result_of (ts ! n) = Some a" for n a
    using srv.post [OF r serve_all_safe, of n a] that len by (cases "ts ! n") auto
  consider "\<not> sv_started w" | "result_of (ts ! 2) = None" | "sv_started w" "sv_stop w" "result_of (ts ! 1) = None" "sv_shutdown w \<longrightarrow> sv_active w = {}"
    | n where "sv_shutdown w" "n \<in> sv_active w" | "result_of (ts ! 1) \<noteq> None"
    using post [of 2] by (cases "result_of (ts ! 2)") (auto simp: thread_post_def)
  then show ?thesis
  proof cases
    case 1
    then show ?thesis using assms(2) by (intro move [of 0]) (simp_all add: serve_must_def)
  next
    case 2
    then show ?thesis by (intro move [of 2]) (simp_all add: serve_must_def)
  next
    case 3
    then show ?thesis by (intro move [of 1]) (simp_all add: serve_must_def)
  next
    case 4
    then have "3 \<le> n" "n < 3 + k" using inv by (auto simp: clients_in_def)
    moreover have "result_of (ts ! n) = None"
      using post [of n] 4 calculation by (cases "result_of (ts ! n)") (auto simp: thread_post_def)
    ultimately show ?thesis using 4 by (intro move [of n]) (simp_all add: serve_must_def)
  next
    case 5
    then have "sv_done w" using post [of 1] by (auto simp: thread_post_def)
    with inv have "sv_shutdown w" by (simp add: clients_in_def serve_inv_def drained_def)
    with \<open>sv_done w\<close> assms(2) show ?thesis by (intro move [of 0]) (simp_all add: serve_must_def)
  qed
qed

text \<open>
  C38. \<^verbatim>\<open>Serve\<close>, its goroutine and the clients never deadlock: from every reachable state they can be
  run, whatever the answers, until \<^verbatim>\<open>Serve\<close> has returned or panicked, even when the clients are not
  served in time; and no interleaving is infinite.
\<close>

theorem Serve_ends:
  assumes "reaches (serve_init, serve_threads getenv addr st k) c"
  shows "\<exists>s. list_all (\<lambda>e. snd e = i) s \<and> result_of (snd (schedule s c) ! 0) \<noteq> None"
proof (rule can_reach [where E = "\<lambda>c. result_of (snd c ! 0) \<noteq> None"])
  fix w ts
  assume "reaches c (w, ts)" "\<not> result_of (snd (w, ts) ! 0) \<noteq> None"
  then show "\<exists>n f. n < length ts \<and> ts ! n = Step f \<and> f i w \<noteq> None"
    using serve_progress [OF reaches_trans [OF _ assms]] by simp
qed

theorem Serve_drains_witness:
  "\<exists>s w ts. schedule s (serve_init, serve_threads (\<lambda>_. []) (\<lambda>a i. a) Map.empty 1) = (w, ts)
     \<and> result_of (ts ! 0) = Some (Inr ()) \<and> sv_done w \<and> sv_active w = {}"
proof -
  let ?i = "\<lparr>tick_fault = Fine, tick_clock = 0\<rparr>"
  let ?c = "(serve_init, serve_threads (\<lambda>_. []) (\<lambda>a i. a) Map.empty 1)"
  let ?s = "map (\<lambda>n. (n, ?i)) [0, 0, 0, 3, 2, 1, 1, 0, 3, 1, 0, 1, 0 :: nat]"
  obtain w ts where c: "schedule ?s ?c = (w, ts)" by (cases "schedule ?s ?c") auto
  have "result_of (snd (schedule ?s ?c) ! 0) = Some (Inr ())" "\<not> sv_closed (fst (schedule ?s ?c))" by code_simp+
  with Serve_drains [of _ _ _ 1 w ts] c schedule_reaches [of ?c ?s] show ?thesis
    by (intro exI [of _ ?s] exI [of _ w] exI [of _ ts]) (metis fst_conv snd_conv)
qed

theorem Serve_ends_witness:
  "\<exists>s. result_of (snd (schedule s (serve_init, serve_threads (\<lambda>_. ''8080'') (\<lambda>a i. a) Map.empty 2)) ! 0) \<noteq> None"
  using Serve_ends [OF reaches_refl, where getenv = "\<lambda>_. ''8080''" and addr = "\<lambda>a i. a" and st = Map.empty and k = 2] by blast

end
