(* ===== verification/Cache_Lesson.thy ===== *)
theory Cache_Lesson
  imports Cache_Aside
begin

section \<open>The cache-aside experiment\<close>

text \<open>
  \<^verbatim>\<open>main\<close> of \<^verbatim>\<open>lessons/go/cache-aside/main.go\<close>: the connections, the table with its one row, an untimed
  miss and hit, and the 21 measured requests of \<open>cache_requests\<close>. The statements of the set-up are a
  record of calls like the services. The rows are those given to the CSV writer, with \<open>latency\<close> the
  measured microseconds as text; the printed progress lines are left out.
\<close>

definition profileID :: int where
  "profileID = 42"

definition cache_count :: nat where
  "cache_count = 21"

definition cacheTTL :: int where
  "cacheTTL = 30 * 1000000000"

record 'w setup_calls =
  su_Create :: "tick \<Rightarrow> 'w \<Rightarrow> string option \<times> 'w"
  su_Insert :: "int \<Rightarrow> string \<Rightarrow> tick \<Rightarrow> 'w \<Rightarrow> string option \<times> 'w"
  su_Del :: "string \<Rightarrow> tick \<Rightarrow> 'w \<Rightarrow> string option \<times> 'w"

record cache_inputs =
  ci_postgres :: "string option"
  ci_valkey :: "string option"
  ci_schema :: tick
  ci_insert :: tick
  ci_clear :: tick
  ci_warm :: "nat \<Rightarrow> tick list"
  ci_reset :: tick
  ci_file :: "string option"
  ci_request :: "nat \<Rightarrow> tick list"

text \<open>\<open>check_then r k\<close>: a call whose error goes to \<^verbatim>\<open>lab.Check\<close>.\<close>

definition check_then :: "string option \<times> 'w \<Rightarrow> ('w \<Rightarrow> (panic, 'a) result option \<times> 'w) \<Rightarrow> (panic, 'a) result option \<times> 'w" where
  "check_then r k = (case r of (Some e, w) \<Rightarrow> (Some (Inl (PanicError e)), w) | (None, w) \<Rightarrow> k w)"

fun warm_reads :: "'w services \<Rightarrow> tick list list \<Rightarrow> 'w \<Rightarrow> (panic, unit) result option \<times> 'w" where
  "warm_reads svc [] w = (Some (Inr ()), w)"
| "warm_reads svc (is # inputs) w = (case run (ReadProfile svc profileID cacheTTL) is w of
       (Step _, w) \<Rightarrow> (None, w)
     | (Done (Inl e), w) \<Rightarrow> (Some (Inl (PanicError e)), w)
     | (Done (Inr _), w) \<Rightarrow> warm_reads svc inputs w)"

definition cache_columns :: "string list" where
  "cache_columns = [''request'', ''source'', ''latency_us'']"

definition cache_rows :: "(nat \<Rightarrow> string) \<Rightarrow> string list \<Rightarrow> string list list" where
  "cache_rows latency sources = cache_columns # map (\<lambda>(i, source). [Itoa (int i), source, latency i]) (enumerate 0 sources)"

definition cache_measure :: "'w services \<Rightarrow> cache_inputs \<Rightarrow> (nat \<Rightarrow> string) \<Rightarrow> 'w \<Rightarrow> (panic, string list list) result option \<times> 'w" where
  "cache_measure svc ci latency w =
     (case cache_requests svc profileID cacheTTL ''Ada'' 0 (map (ci_request ci) [0..<cache_count]) w of
        (None, w) \<Rightarrow> (None, w)
      | (Some (Inl p), w) \<Rightarrow> (Some (Inl p), w)
      | (Some (Inr sources), w) \<Rightarrow> (Some (Inr (cache_rows latency sources)), w))"

definition cache_main :: "'w services \<Rightarrow> 'w setup_calls \<Rightarrow> cache_inputs \<Rightarrow> (nat \<Rightarrow> string) \<Rightarrow> 'w
    \<Rightarrow> (panic, string list list) result option \<times> 'w" where
  "cache_main svc su ci latency w =
     check_then (ci_postgres ci, w) (\<lambda>w.
     check_then (ci_valkey ci, w) (\<lambda>w.
     check_then (su_Create su (ci_schema ci) w) (\<lambda>w.
     check_then (su_Insert su profileID ''Ada'' (ci_insert ci) w) (\<lambda>w.
     check_then (su_Del su (ProfileKey profileID) (ci_clear ci) w) (\<lambda>w.
     case warm_reads svc (map (ci_warm ci) [0..<2]) w of
       (None, w) \<Rightarrow> (None, w)
     | (Some (Inl p), w) \<Rightarrow> (Some (Inl p), w)
     | (Some (Inr _), w) \<Rightarrow>
         check_then (su_Del su (ProfileKey profileID) (ci_reset ci) w) (\<lambda>w.
         check_then (ci_file ci, w) (\<lambda>w. cache_measure svc ci latency w)))))))"

lemma check_then_cases:
  "check_then x k = (Some r, w') \<Longrightarrow> \<not> (\<exists>e. r = Inl (PanicError e)) \<Longrightarrow> \<exists>w. x = (None, w) \<and> k w = (Some r, w')"
  by (auto simp: check_then_def split: prod.splits option.splits)

subsection \<open>What the set-up is documented to do\<close>

definition setup_laws :: "'w setup_calls \<Rightarrow> ('w \<Rightarrow> int \<rightharpoonup> string) \<Rightarrow> ('w \<Rightarrow> string \<rightharpoonup> string) \<Rightarrow> bool" where
  "setup_laws su rows cached \<longleftrightarrow>
     (\<forall>i w w'. su_Create su i w = (None, w') \<longrightarrow> rows w' = Map.empty)
   \<and> (\<forall>pid name i w w'. su_Insert su pid name i w = (None, w') \<longrightarrow> rows w' = (rows w)(pid \<mapsto> name))
   \<and> (\<forall>k i w w'. su_Del su k i w = (None, w') \<longrightarrow> rows w' = rows w \<and> cached w' k = None)"

text \<open>
  The experiment deletes its own key only, so the cache may hold anything else. Seen through this
  key the services obey the same laws, and the cache is coherent once the key is deleted.
\<close>

definition one_key :: "string \<Rightarrow> (string \<rightharpoonup> string) \<Rightarrow> string \<rightharpoonup> string" where
  "one_key key c = (\<lambda>k. if k = key then c k else None)"

definition through_key :: "string \<Rightarrow> 'w services \<Rightarrow> 'w services" where
  "through_key key svc = svc\<lparr>
     svc_Get := (\<lambda>k i w. if k = key then svc_Get svc k i w else (Nil_reply, w)),
     svc_Set := (\<lambda>k v ttl i w. if k = key then svc_Set svc k v ttl i w else (None, w)),
     svc_MGet := (\<lambda>ks i w. (Inl ''not used'', w))\<rparr>"

lemma shrinks_one_key: "shrinks c c' \<Longrightarrow> shrinks (one_key key c) (one_key key c')"
  by (simp add: shrinks_def one_key_def)

lemma through_key_laws:
  assumes "service_laws svc rows cached"
  shows "service_laws (through_key key svc) rows (\<lambda>w. one_key key (cached w))"
proof -
  have "get_law (through_key key svc) rows (\<lambda>w. one_key key (cached w))"
    using assms shrinks_one_key unfolding service_laws_def get_law_def through_key_def
    by (auto simp: one_key_def shrinks_def split: if_splits)
  moreover have "query_law (through_key key svc) rows (\<lambda>w. one_key key (cached w))"
    using assms shrinks_one_key unfolding service_laws_def query_law_def through_key_def by simp
  moreover have "set_law (through_key key svc) rows (\<lambda>w. one_key key (cached w))"
    using assms unfolding service_laws_def set_law_def through_key_def
    by (auto simp: one_key_def shrinks_def split: if_splits)
  moreover have "stats_law (through_key key svc) rows (\<lambda>w. one_key key (cached w))"
    using assms unfolding service_laws_def stats_law_def through_key_def by (auto simp: shrinks_one_key) (auto simp: shrinks_def)
  ultimately show ?thesis by (simp add: service_laws_def)
qed

lemma through_key_calls:
  "svc_Get (through_key key svc) key = svc_Get svc key" "svc_Query (through_key key svc) = svc_Query svc"
  "svc_Set (through_key key svc) key = svc_Set svc key"
  by (simp_all add: through_key_def)

lemma ReadProfile_through_key: "ReadProfile (through_key (ProfileKey pid) svc) pid ttl = ReadProfile svc pid ttl"
  unfolding ReadProfile_def through_key_calls ..

lemma cache_requests_through_key:
  "cache_requests (through_key (ProfileKey pid) svc) pid ttl want i inputs w = cache_requests svc pid ttl want i inputs w"
  by (induction inputs arbitrary: i w) (simp_all add: ReadProfile_through_key split: prod.splits thread.splits sum.splits)

lemma cleared_coherent: "is_int64 pid \<Longrightarrow> cached w (ProfileKey pid) = None \<Longrightarrow> coherent rows (\<lambda>w. one_key (ProfileKey pid) (cached w)) w"
  by (auto simp: coherent_def one_key_def ProfileKey_inject)

lemma profileID_int64: "is_int64 profileID"
  by (simp add: profileID_def is_int64_def)

lemma warm_reads_keep:
  assumes "service_laws svc rows cached" "coherent rows (\<lambda>w. one_key (ProfileKey profileID) (cached w)) w"
    "warm_reads svc inputs w = (r, w')"
  shows "(\<forall>p. r = Some (Inl p) \<longrightarrow> (\<exists>e. p = PanicError e)) \<and> (r = Some (Inr ()) \<longrightarrow> rows w' = rows w)"
  using assms(2,3)
proof (induction inputs arbitrary: w)
  case (Cons "is" inputs)
  obtain t w1 where run: "run (ReadProfile svc profileID cacheTTL) is w = (t, w1)" by fastforce
  show ?case
  proof (cases t)
    case (Done res)
    show ?thesis
    proof (cases res)
      case (Inr ns)
      have "rows w1 = rows w \<and> coherent rows (\<lambda>w. one_key (ProfileKey profileID) (cached w)) w1"
        using run_ReadProfile_name [OF through_key_laws [OF assms(1)] profileID_int64 Cons.prems(1)] run Done Inr
        by (cases ns) (auto simp: ReadProfile_through_key)
      with Cons.IH [of w1] Cons.prems(2) run Done Inr show ?thesis by simp
    qed (use Cons.prems(2) run Done in auto)
  qed (use Cons.prems(2) run in auto)
qed auto

text \<open>
  C34. The cache-aside experiment shows what it claims, from whatever table and cache it starts: it
  panics only with an error that a service reported, never by its own assertion; and when cached
  entries outlast the run, its 21 measured requests are one miss and twenty hits.
\<close>

theorem cache_main_shows:
  assumes "service_laws svc rows cached" "setup_laws su rows cached" "cache_main svc su ci latency w = (Some r, w')"
  shows "(\<forall>p. r = Inl p \<longrightarrow> (\<exists>e. p = PanicError e))
    \<and> (lasting svc cached \<longrightarrow> (\<forall>rws. r = Inr rws \<longrightarrow> rws = cache_rows latency (''postgres'' # replicate 20 ''cache'')))"
proof -
  have measure: ?thesis if m: "cache_measure svc ci latency v = (Some r, w')" and "cached v (ProfileKey profileID) = None" "rows v profileID = Some ''Ada''" for v
  proof -
    let ?in = "map (ci_request ci) [0..<cache_count]"
    from m consider p where "r = Inl p" "cache_requests svc profileID cacheTTL ''Ada'' 0 ?in v = (Some (Inl p), w')"
      | sources where "r = Inr (cache_rows latency sources)" "cache_requests svc profileID cacheTTL ''Ada'' 0 ?in v = (Some (Inr sources), w')"
      by (auto simp: cache_measure_def split: prod.splits option.splits sum.splits)
    then show ?thesis
    proof cases
      case 1
      then show ?thesis
        using cache_requests_invariant [OF through_key_laws [OF assms(1)] profileID_int64 cleared_coherent [where cached = cached, OF profileID_int64 that(2)] that(3)]
        by (simp add: cache_requests_through_key)
    next
      case 2
      then show ?thesis
        using cache_requests_sources [OF _ assms(1) 2(2) that(2)] by (auto simp: cache_count_def eval_nat_numeral)
    qed
  qed
  show ?thesis
  proof (cases "\<exists>e. r = Inl (PanicError e)")
    case False
    note goes = check_then_cases [OF _ False]
    from assms(3) obtain w1 w2 w3 where prep: "su_Create su (ci_schema ci) w = (None, w1)"
      "su_Insert su profileID ''Ada'' (ci_insert ci) w1 = (None, w2)" "su_Del su (ProfileKey profileID) (ci_clear ci) w2 = (None, w3)"
      and warm: "(case warm_reads svc (map (ci_warm ci) [0..<2]) w3 of
         (None, w) \<Rightarrow> (None, w)
       | (Some (Inl p), w) \<Rightarrow> (Some (Inl p), w)
       | (Some (Inr _), w) \<Rightarrow>
           check_then (su_Del su (ProfileKey profileID) (ci_reset ci) w) (\<lambda>w.
           check_then (ci_file ci, w) (\<lambda>w. cache_measure svc ci latency w))) = (Some r, w')"
      unfolding cache_main_def by (auto dest!: goes)
    have row: "rows w3 profileID = Some ''Ada''" "cached w3 (ProfileKey profileID) = None"
      using assms(2) prep unfolding setup_laws_def by fastforce+
    obtain x w4 where x: "warm_reads svc (map (ci_warm ci) [0..<2]) w3 = (x, w4)" by fastforce
    note kept = warm_reads_keep [OF assms(1) cleared_coherent [where cached = cached, OF profileID_int64 row(2)] x]
    show ?thesis
    proof (cases "x = Some (Inr ())")
      case True
      with warm x obtain w5 where "su_Del su (ProfileKey profileID) (ci_reset ci) w4 = (None, w5)"
        and m: "cache_measure svc ci latency w5 = (Some r, w')"
        by (auto dest!: goes)
      then have "rows w5 = rows w4" "cached w5 (ProfileKey profileID) = None" using assms(2) unfolding setup_laws_def by blast+
      with True kept row(1) m show ?thesis by (intro measure [of w5]) auto
    next
      case False
      with warm x obtain p where "x = Some (Inl p)" "r = Inl p" by (auto split: option.splits sum.splits)
      with kept show ?thesis by simp
    qed
  qed auto
qed

definition map_setup :: "((int \<rightharpoonup> string) \<times> (string \<rightharpoonup> string)) setup_calls" where
  "map_setup = \<lparr>su_Create = (\<lambda>i w. (None, (Map.empty, snd w))), su_Insert = (\<lambda>pid name i w. (None, ((fst w)(pid \<mapsto> name), snd w))),
     su_Del = (\<lambda>k i w. (None, (fst w, (snd w)(k := None))))\<rparr>"

definition calm_cache_inputs :: cache_inputs where
  "calm_cache_inputs = (let i = \<lparr>tick_fault = Fine, tick_clock = 0\<rparr> in
     \<lparr>ci_postgres = None, ci_valkey = None, ci_schema = i, ci_insert = i, ci_clear = i, ci_warm = (\<lambda>_. [i, i, i]),
      ci_reset = i, ci_file = None, ci_request = (\<lambda>_. [i, i, i])\<rparr>)"

definition demo_cache_main :: "(panic, string list list) result option \<times> ((int \<rightharpoonup> string) \<times> (string \<rightharpoonup> string))" where
  "demo_cache_main = cache_main map_services map_setup calm_cache_inputs (\<lambda>i. ''7'') (Map.empty, [''profile:42'' \<mapsto> ''Eve''])"

lemma demo_cache_main_returns: "case demo_cache_main of (Some (Inr rws), w) \<Rightarrow> True | _ \<Rightarrow> False"
  by code_simp

theorem cache_main_shows_witness:
  "\<exists>rws. fst demo_cache_main = Some (Inr rws) \<and> rws = cache_rows (\<lambda>i. ''7'') (''postgres'' # replicate 20 ''cache'')"
proof -
  obtain rws w' where r: "demo_cache_main = (Some (Inr rws), w')"
    using demo_cache_main_returns by (auto split: prod.splits option.splits sum.splits)
  have "setup_laws map_setup fst snd" by (simp add: setup_laws_def map_setup_def)
  from cache_main_shows [OF map_services_laws this r [unfolded demo_cache_main_def]] map_services_lasting
  have "rws = cache_rows (\<lambda>i. ''7'') (''postgres'' # replicate 20 ''cache'')" by blast
  moreover have "fst demo_cache_main = Some (Inr rws)" using arg_cong [OF r, of fst] unfolding fst_conv .
  ultimately show ?thesis by blast
qed

end
