(* ===== verification/Profile_Server.thy ===== *)
theory Profile_Server
  imports Cache_Aside
begin

section \<open>The cache-aside adapter\<close>

text \<open>
  What concurrent requests to \<^verbatim>\<open>lessons/go/cache-aside/perf\<close> can rely on: the counters add up,
  the cache stays coherent with the table, and every answer with status 200 names the row. The
  world of the requests is the server's record; \<open>waits\<close> tells whether a request has been
  counted as served and not yet as a hit or a miss. Times count from Go's zero time.
\<close>

definition count_inv :: "'w profile_server \<Rightarrow> bool" where
  "count_inv s \<longleftrightarrow> cv_served s = cv_hits s + cv_misses s + int (length (cv_counting s))"

definition profile_rely :: "('w \<Rightarrow> int \<rightharpoonup> string) \<Rightarrow> ('w \<Rightarrow> string \<rightharpoonup> string) \<Rightarrow> nat
    \<Rightarrow> 'w profile_server \<Rightarrow> 'w profile_server \<Rightarrow> bool" where
  "profile_rely rows cached n s s' \<longleftrightarrow> reads_keep rows cached (cv_world s) (cv_world s')
   \<and> count_list (cv_counting s') n = count_list (cv_counting s) n \<and> (count_inv s \<longrightarrow> count_inv s')"

definition profile_guar :: "('w \<Rightarrow> int \<rightharpoonup> string) \<Rightarrow> ('w \<Rightarrow> string \<rightharpoonup> string) \<Rightarrow> nat
    \<Rightarrow> 'w profile_server \<Rightarrow> 'w profile_server \<Rightarrow> bool" where
  "profile_guar rows cached n s s' \<longleftrightarrow> reads_keep rows cached (cv_world s) (cv_world s')
   \<and> (\<forall>m. m \<noteq> n \<longrightarrow> count_list (cv_counting s') m = count_list (cv_counting s) m) \<and> (count_inv s \<longrightarrow> count_inv s')"

lemma profile_rely_refl [simp]: "profile_rely rows cached n s s"
  by (simp add: profile_rely_def)

lemma profile_guar_refl [simp]: "profile_guar rows cached n s s"
  by (simp add: profile_guar_def)

lemma profile_rely_trans:
  "profile_rely rows cached n s s' \<Longrightarrow> profile_rely rows cached n s' s'' \<Longrightarrow> profile_rely rows cached n s s''"
  unfolding profile_rely_def using keep_trans by metis

interpretation profile: rely_guarantee "profile_rely rows cached" "profile_guar rows cached" "\<lambda>_ _ _. False"
  for rows cached
proof
  show "profile_rely rows cached n w w''" if "profile_rely rows cached n w w'" "profile_rely rows cached n w' w''" for n w w' w''
    using that by (rule profile_rely_trans)
  show "profile_rely rows cached n w w'" if "m \<noteq> n" "profile_guar rows cached m w w'" for m n w w'
    using that by (simp add: profile_rely_def profile_guar_def)
qed simp

abbreviation profile_safe :: "('w \<Rightarrow> int \<rightharpoonup> string) \<Rightarrow> ('w \<Rightarrow> string \<rightharpoonup> string) \<Rightarrow> nat \<Rightarrow> ('a \<Rightarrow> 'w profile_server \<Rightarrow> bool)
    \<Rightarrow> (tick, 'w profile_server, 'a) thread \<Rightarrow> 'w profile_server \<Rightarrow> bool" where
  "profile_safe rows cached n \<equiv> safe (profile_rely rows cached n) (profile_guar rows cached n) (\<lambda>_ _. False)"

text \<open>\<open>waits n c s\<close>: request \<open>n\<close> is \<open>c\<close> times between the two counters, and the cache is coherent.\<close>

definition waits :: "('w \<Rightarrow> int \<rightharpoonup> string) \<Rightarrow> ('w \<Rightarrow> string \<rightharpoonup> string) \<Rightarrow> (int \<rightharpoonup> string) \<Rightarrow> nat \<Rightarrow> nat
    \<Rightarrow> 'w profile_server \<Rightarrow> bool" where
  "waits rows cached R n c s \<longleftrightarrow> count_list (cv_counting s) n = c \<and> count_inv s
     \<and> coherent rows cached (cv_world s) \<and> rows (cv_world s) = R"

lemma waits_rely: "waits rows cached R n c s \<Longrightarrow> profile_rely rows cached n s s' \<Longrightarrow> waits rows cached R n c s'"
  by (simp add: waits_def profile_rely_def reads_keep_def)

lemma count_list_remove1: "count_list (remove1 n xs) m = count_list xs m - (if m = n then 1 else 0)"
proof (induction xs)
  case (Cons x xs)
  show ?case using Cons by (cases "x = n"; cases "x = m"; cases "n \<in> set xs") (auto simp: count_notin)
qed simp

lemma served_waits:
  assumes "waits rows cached R n 0 s"
  shows "profile_guar rows cached n s (snd (served_step n i s)) \<and> waits rows cached R n 1 (snd (served_step n i s))"
  using assms by (simp add: served_step_def profile_guar_def count_inv_def waits_def)

lemma remove1_waits:
  assumes "waits rows cached R n 1 s" "cv_counting s' = remove1 n (cv_counting s)" "cv_world s' = cv_world s"
    "cv_served s' = cv_served s" "cv_hits s' + cv_misses s' = cv_hits s + cv_misses s + 1"
  shows "profile_guar rows cached n s s' \<and> waits rows cached R n 0 s'"
proof -
  have "n \<in> set (cv_counting s)" using assms(1) by (metis count_notin waits_def zero_neq_one)
  then have "length (cv_counting s) = Suc (length (remove1 n (cv_counting s)))"
    by (simp add: length_remove1) (metis Suc_pred length_pos_if_in_set)
  with assms show ?thesis by (simp add: waits_def profile_guar_def count_inv_def count_list_remove1)
qed

lemma profile_step:
  assumes "waits rows cached R n c s"
    and "\<And>i s. waits rows cached R n c s \<Longrightarrow> profile_guar rows cached n s (snd (f i s))
      \<and> profile_safe rows cached n Q (k (fst (f i s))) (snd (f i s))"
  shows "profile_safe rows cached n Q (atomically f k) s"
proof (rule safe_atomically)
  fix s1 i b s2
  assume r: "profile_rely rows cached n s s1" and f: "f i s1 = (b, s2)"
  from assms(2) [OF waits_rely [OF assms(1) r], of i] f
  show "profile_guar rows cached n s1 s2 \<and> profile_safe rows cached n Q (k b) s2" by simp
qed

lemma profile_done:
  assumes "waits rows cached R n 0 s" "P r"
  shows "profile_safe rows cached n (\<lambda>r s. waits rows cached R n 0 s \<and> P r) (Done r) s"
  using assms by (intro safe_Done) (blast intro: waits_rely)

lemma frame_waits:
  assumes "waits rows cached R n c s" "cv_counting s' = cv_counting s" "cv_world s' = cv_world s"
    "cv_served s' = cv_served s" "cv_hits s' = cv_hits s" "cv_misses s' = cv_misses s"
  shows "profile_guar rows cached n s s' \<and> waits rows cached R n c s'"
  using assms by (simp add: waits_def profile_guar_def count_inv_def)

lemma miss_section_frame:
  "cv_counting (snd (miss_section pid a b i s)) = cv_counting s" "cv_world (snd (miss_section pid a b i s)) = cv_world s"
  "cv_served (snd (miss_section pid a b i s)) = cv_served s" "cv_hits (snd (miss_section pid a b i s)) = cv_hits s"
  "cv_misses (snd (miss_section pid a b i s)) = cv_misses s"
  by (simp_all add: miss_section_def Let_def)

definition field :: "Response \<Rightarrow> string \<Rightarrow> jvalue option" where
  "field resp name = (case resp_body resp of JObject fs \<Rightarrow> map_of fs name | _ \<Rightarrow> None)"

definition read_reply :: "(int \<rightharpoonup> string) \<Rightarrow> int \<Rightarrow> int \<Rightarrow> Response \<Rightarrow> bool" where
  "read_reply R number pid resp \<longleftrightarrow> (resp_status resp = 200 \<longrightarrow> field resp ''id'' = Some (JInt number)
     \<and> R pid \<noteq> None \<and> field resp ''name'' = map_option JString (R pid))"

lemma count_read_safe:
  assumes "waits rows cached R n 0 s" "names_row (\<lambda>_. R) pid r ()"
  shows "profile_safe rows cached n (\<lambda>resp s. waits rows cached R n 0 s \<and> read_reply R number pid resp)
     (count_read n number pid start fin r) s"
proof (cases r)
  case (Inl e)
  have f: "profile_guar rows cached n s (snd (failed_step i s)) \<and> waits rows cached R n 0 (snd (failed_step i s))"
    if "waits rows cached R n 0 s" for i s
    by (rule frame_waits [OF that]) (simp_all add: failed_step_def)
  have "read_reply R number pid (Fail 503 e)" by (simp add: read_reply_def Fail_def JSON_def)
  then have "profile_safe rows cached n (\<lambda>resp s. waits rows cached R n 0 s \<and> read_reply R number pid resp)
     (atomically failed_step (\<lambda>_. Done (Fail 503 e))) s"
    by (intro profile_step [OF assms(1)] conjI profile_done) (use f in blast)+
  with Inl show ?thesis by (simp add: count_read_def)
next
  case (Inr ns)
  obtain name source where ns: "ns = (name, source)" by (cases ns)
  with assms Inr have R: "R pid = Some name" by (simp add: names_row_def)
  let ?answer = "Done (JSON 200 (JObject [(''id'', JInt number), (''name'', JString name),
                (''source'', JString source), (''elapsed_ms'', JMs (fin - start))]))"
  let ?Q = "\<lambda>resp s. waits rows cached R n 0 s \<and> read_reply R number pid resp"
  have answer: "profile_safe rows cached n ?Q ?answer s" if "waits rows cached R n 0 s" for s
    using that R by (intro profile_done) (simp_all add: read_reply_def field_def JSON_def)
  have miss: "profile_safe rows cached n ?Q (atomically (miss_section pid start fin) (\<lambda>_. ?answer)) s" if "waits rows cached R n 0 s" for s
    using that frame_waits [OF _ miss_section_frame] by (intro profile_step [OF that] conjI answer) blast+
  have hits: "profile_guar rows cached n s (snd (hits_step n i s)) \<and> waits rows cached R n 0 (snd (hits_step n i s))"
    if "waits rows cached R n 1 s" for i s
    by (rule remove1_waits [OF that]) (simp_all add: hits_step_def)
  have misses: "profile_guar rows cached n s (snd (misses_step n i s)) \<and> waits rows cached R n 0 (snd (misses_step n i s))"
    if "waits rows cached R n 1 s" for i s
    by (rule remove1_waits [OF that]) (simp_all add: misses_step_def)
  have counted: "profile_safe rows cached n ?Q (if source = ''cache'' then atomically (hits_step n) (\<lambda>_. ?answer)
            else atomically (misses_step n) (\<lambda>_. atomically (miss_section pid start fin) (\<lambda>_. ?answer))) s"
    if "waits rows cached R n 1 s" for s
  proof (cases "source = ''cache''")
    case True
    show ?thesis unfolding if_P [OF True]
      by (rule profile_step [OF that]) (blast intro: answer hits [THEN conjunct1] hits [THEN conjunct2])
  next
    case False
    show ?thesis unfolding if_not_P [OF False]
      by (rule profile_step [OF that]) (blast intro: miss misses [THEN conjunct1] misses [THEN conjunct2])
  qed
  have "profile_safe rows cached n ?Q (atomically (served_step n) (\<lambda>_. if source = ''cache'' then atomically (hits_step n) (\<lambda>_. ?answer)
            else atomically (misses_step n) (\<lambda>_. atomically (miss_section pid start fin) (\<lambda>_. ?answer)))) s"
    by (intro profile_step [OF assms(1)] conjI counted) (use served_waits in blast)+
  with Inr ns show ?thesis by (simp add: count_read_def Let_def)
qed

lemma profile_read_safe:
  assumes "service_laws svc rows cached" "is_int64 pid" "waits rows cached R n 0 s"
  shows "profile_safe rows cached n (\<lambda>resp s. waits rows cached R n 0 s \<and> read_reply R number pid resp)
     (profile_read svc ttl n number pid) s"
  unfolding profile_read_def
proof (intro profile_step [OF assms(3)] conjI)
  fix i s1 
  assume w: "waits rows cached R n 0 (s1 :: 'a profile_server)"
  let ?start = "fst (time_Now i s1)"
  have world: "snd (time_Now i s1) = s1" by (simp add: time_Now_def)
  show "profile_guar rows cached n s1 (snd (time_Now i s1))" by (simp add: time_Now_def)
  let ?zoom = "zoom cv_world (\<lambda>w s. s\<lparr>cv_world := w\<rparr>) (ReadProfile svc pid ttl)"
  let ?G = "\<lambda>s s'. profile_guar rows cached n s s' \<and> cv_counting s' = cv_counting s"
  have "coherent rows cached (cv_world s1)" using w by (simp add: waits_def)
  from safe_ReadProfile [OF assms(1,2) this, of ttl]
  have "safe (profile_rely rows cached n) ?G (\<lambda>_ _. False) (\<lambda>r s. names_row rows pid r (cv_world s)) ?zoom s1"
    by (rule safe_zoom) (simp_all add: profile_rely_def profile_guar_def count_inv_def)
  then have "safe (profile_rely rows cached n) ?G (\<lambda>_ _. False)
      (\<lambda>r s. names_row rows pid r (cv_world s) \<and> waits rows cached R n 0 s) ?zoom s1"
  proof (rule safe_frame)
    show "waits rows cached R n 0 s'" if "?G s s'" "waits rows cached R n 0 s" for s s'
      using that by (simp add: waits_def profile_guar_def reads_keep_def)
  qed (use w waits_rely in blast)+
  then have read: "profile_safe rows cached n (\<lambda>r s. names_row (\<lambda>_. R) pid r () \<and> waits rows cached R n 0 s) ?zoom s1"
    by (rule safe_weaken) (auto simp: names_row_def waits_def split: sum.splits)
  show "profile_safe rows cached n (\<lambda>resp s. waits rows cached R n 0 s \<and> read_reply R number pid resp)
     (and_then (zoom cv_world (\<lambda>w s. s\<lparr>cv_world := w\<rparr>) (ReadProfile svc pid ttl)) (\<lambda>r.
       atomically time_Now (\<lambda>fin. count_read n number pid ?start fin r))) (snd (time_Now i s1))"
    unfolding world
  proof (rule safe_and_then [OF read])
    fix r s2
    assume "names_row (\<lambda>_. R) pid r () \<and> waits rows cached R n 0 s2"
    then have r: "names_row (\<lambda>_. R) pid r ()" "waits rows cached R n 0 s2" by blast+
    show "profile_safe rows cached n (\<lambda>resp s. waits rows cached R n 0 s \<and> read_reply R number pid resp)
      (atomically time_Now (\<lambda>fin. count_read n number pid ?start fin r)) s2"
      by (rule profile_step [OF r(2)]) (simp add: time_Now_def count_read_safe r(1))
  qed simp_all
qed

lemma profile_operation_safe:
  assumes "service_laws svc rows cached" "\<And>i. 1 \<le> i \<Longrightarrow> i \<le> count \<Longrightarrow> is_int64 (base + i)" "waits rows cached R n 0 s"
  shows "profile_safe rows cached n (\<lambda>resp s. waits rows cached R n 0 s \<and> (resp_status resp = 200 \<longrightarrow>
       (\<exists>i. Atoi idText = Some i \<and> 1 \<le> i \<and> i \<le> count \<and> read_reply R i (base + i) resp)))
     (profile_operation svc ttl base count n idText) s"
proof -
  let ?Q = "\<lambda>resp s. waits rows cached R n 0 s \<and> (resp_status resp = 200 \<longrightarrow>
       (\<exists>i. Atoi idText = Some i \<and> 1 \<le> i \<and> i \<le> count \<and> read_reply R i (base + i) resp))"
  have refuse: "profile_safe rows cached n ?Q (Done (Fail 400 (''id must be 1..'' @ Itoa count))) s"
    by (rule profile_done [OF assms(3)]) (simp add: Fail_def JSON_def)
  have read: "profile_safe rows cached n ?Q (profile_read svc ttl n i (base + i)) s"
    if "Atoi idText = Some i" "1 \<le> i" "i \<le> count" for i
    by (rule safe_weaken [OF profile_read_safe [OF assms(1) assms(2) [OF that(2,3)] assms(3)]]) (use that in auto)
  show ?thesis
  proof (cases "Atoi idText")
    case None
    with refuse show ?thesis by (simp add: profile_operation_def Let_def)
  next
    case (Some i)
    with refuse read [of i] show ?thesis by (cases "i < 1 \<or> i > count") (auto simp: profile_operation_def Let_def)
  qed
qed

definition stats_reply :: "(int \<rightharpoonup> string) \<Rightarrow> Response \<Rightarrow> bool" where
  "stats_reply R resp \<longleftrightarrow> (resp_status resp = 200 \<longrightarrow>
     (case (field resp ''stored'', field resp ''cached'', field resp ''cached_agree'') of
        (Some (JInt st), Some (JInt c), Some (JInt a)) \<Rightarrow> a \<le> c \<and> (st = int (card (dom R)) \<longrightarrow> a = c)
      | _ \<Rightarrow> False))"

lemma map_of_rev_distinct:
  assumes "distinct (map fst xs)"
  shows "map_of (rev xs) = map_of xs"
proof
  fix k
  have "distinct (map fst (rev xs))" using assms by (simp add: rev_map [symmetric])
  then have "map_of (rev xs) k = Some v \<longleftrightarrow> map_of xs k = Some v" for v
    using assms by (simp add: map_of_eq_Some_iff)
  then show "map_of (rev xs) k = map_of xs k" by (metis not_Some_eq)
qed

lemma held_agree:
  assumes "\<And>j v. j < length pids \<Longrightarrow> values ! j = Some v \<Longrightarrow> R (pids ! j) = Some v"
    "length values = length pids" "map_of rs \<subseteq>\<^sub>m R" "distinct (map fst rs)" "finite (dom R)"
    "count_cached rs (zip pids values) = (c, a)"
  shows "a \<le> c \<and> (int (card (fst ` set rs)) = int (card (dom R)) \<longrightarrow> a = c)"
proof -
  let ?held = "List.map_filter (\<lambda>(pid, v). map_option (Pair pid) v) (zip pids values)"
  have ca: "c = int (length ?held)" "a = int (length (filter (\<lambda>(pid, v). v = stored_name rs pid) ?held))"
    using assms(6) by (simp_all add: count_cached_def Let_def)
  have "filter (\<lambda>(pid, v). v = stored_name rs pid) ?held = ?held" if eq: "card (fst ` set rs) = card (dom R)"
  proof (rule filter_True, clarify)
    fix pid v
    assume "(pid, v) \<in> set ?held"
    then have "(pid, Some v) \<in> set (zip pids values)" by (auto simp: List.map_filter_def)
    then obtain j where "j < length pids" "pids ! j = pid" "values ! j = Some v"
      using assms(2) by (auto simp: in_set_zip)
    with assms(1) have Rv: "R pid = Some v" by blast
    have "dom (map_of rs) \<subseteq> dom R" using assms(3) by (rule map_le_implies_dom_le)
    with eq assms(5) have "dom (map_of rs) = dom R" by (simp add: dom_map_of_conv_image_fst card_subset_eq)
    with assms(3) Rv have "map_of rs pid = Some v" by (metis domI map_le_def)
    with assms(4) show "v = stored_name rs pid" by (simp add: stored_name_def map_of_rev_distinct)
  qed
  then show ?thesis using ca by simp
qed

lemma service_step:
  assumes "waits rows cached R n 0 s"
    and "\<And>i w r w'. f i w = (r, w') \<Longrightarrow> rows w' = rows w \<and> shrinks (cached w) (cached w')"
    and "\<And>i r w w' s. f i w = (r, w') \<Longrightarrow> coherent rows cached w \<Longrightarrow> rows w = R \<Longrightarrow> waits rows cached R n 0 s
      \<Longrightarrow> profile_safe rows cached n Q (k r) s"
  shows "profile_safe rows cached n Q (atomically (\<lambda>i. on_world (f i)) k) s"
proof (rule profile_step [OF assms(1)])
  fix i and s1 :: "'a profile_server"
  assume w: "waits rows cached R n 0 s1"
  obtain r w' where r: "f i (cv_world s1) = (r, w')" by fastforce
  with assms(2) have keep: "reads_keep rows cached (cv_world s1) w'" by (intro keep_shrinks) blast+
  with w have "profile_guar rows cached n s1 (s1\<lparr>cv_world := w'\<rparr>)" "waits rows cached R n 0 (s1\<lparr>cv_world := w'\<rparr>)"
    by (simp_all add: waits_def profile_guar_def count_inv_def reads_keep_def)
  moreover have "coherent rows cached (cv_world s1)" "rows (cv_world s1) = R" using w by (simp_all add: waits_def)
  ultimately show "profile_guar rows cached n s1 (snd (on_world (f i) s1))
      \<and> profile_safe rows cached n Q (k (fst (on_world (f i) s1))) (snd (on_world (f i) s1))"
    using assms(3) r by (simp add: on_world_def)
qed

lemma load_step:
  assumes "waits rows cached R n c s" "\<And>v s. waits rows cached R n c s \<Longrightarrow> profile_safe rows cached n Q (k v) s"
  shows "profile_safe rows cached n Q (atomically (load f) k) s"
  by (rule profile_step [OF assms(1)]) (simp add: load_def assms(2))

lemma report_cached_safe:
  assumes "waits rows cached R n 0 s" "\<And>c a. count_cached rs (zip pids values) = (c, a) \<Longrightarrow>
     a \<le> c \<and> (int (card (fst ` set rs)) = int (card (dom R)) \<longrightarrow> a = c)"
  shows "profile_safe rows cached n (\<lambda>resp s. waits rows cached R n 0 s \<and> stats_reply R resp)
     (report_cached ttlMs count pids rs values) s"
proof -
  obtain c a where ca: "count_cached rs (zip pids values) = (c, a)" by fastforce
  have "stats_reply R (JSON 200 (JObject [(''ttl_ms'', JInt ttlMs), (''profiles'', JInt count), (''served'', JInt served),
           (''hits'', JInt hits), (''misses'', JInt misses), (''failed'', JInt n_failed),
           (''redundant_misses'', JInt redundant), (''stored'', JInt (int (card (fst ` set rs)))),
           (''cached'', JInt c), (''cached_agree'', JInt a)]))" for served hits misses n_failed redundant
    using assms(2) [OF ca] by (simp add: stats_reply_def field_def JSON_def)
  then show ?thesis unfolding report_cached_def ca prod.case
    by (intro load_step [OF assms(1)] load_step profile_done)
qed

lemma Rows_law:
  assumes "service_laws svc rows cached" "svc_Rows svc i w = (Inr rs, w')"
  shows "distinct (map fst rs)" "map_of rs \<subseteq>\<^sub>m rows w"
proof -
  from assms(1) have "stats_law svc rows cached" by (simp add: service_laws_def)
  note conjunct1 [OF this [unfolded stats_law_def], rule_format, OF assms(2)]
  then show "distinct (map fst rs)" "map_of rs \<subseteq>\<^sub>m rows w" by auto
qed

lemma MGet_law:
  assumes "service_laws svc rows cached" "svc_MGet svc ks i w = (Inr vs, w')"
  shows "length vs = length ks" "j < length ks \<Longrightarrow> vs ! j = Some v \<Longrightarrow> cached w (ks ! j) = Some v"
proof -
  from assms(1) have "stats_law svc rows cached" by (simp add: service_laws_def)
  note conjunct2 [OF this [unfolded stats_law_def], rule_format, OF assms(2)]
  then show "length vs = length ks" "j < length ks \<Longrightarrow> vs ! j = Some v \<Longrightarrow> cached w (ks ! j) = Some v" by auto
qed

lemma profile_stats_safe:
  assumes "service_laws svc rows cached" "list_all is_int64 pids" "waits rows cached R n 0 s" "finite (dom R)"
  shows "profile_safe rows cached n (\<lambda>resp s. waits rows cached R n 0 s \<and> stats_reply R resp)
     (profile_stats svc ttlMs count pids) s"
  unfolding profile_stats_def
proof (rule service_step [OF assms(3)])
  let ?Q = "\<lambda>resp s. waits rows cached R n 0 s \<and> stats_reply R resp"
  have fail: "profile_safe rows cached n ?Q (Done (Fail 503 e)) s" if "waits rows cached R n 0 s" for e s
    by (rule profile_done [OF that]) (simp add: stats_reply_def Fail_def JSON_def)
  fix i r w w' and s1 :: "'a profile_server"
  assume r: "svc_Rows svc i w = (r, w')" and w: "rows w = R" "waits rows cached R n 0 s1"
  have rl: "distinct (map fst rs)" "map_of rs \<subseteq>\<^sub>m R" if "r = Inr rs" for rs
    using Rows_law [OF assms(1), of i w rs w'] r w(1) that by simp_all
  have mget: "profile_safe rows cached n ?Q (atomically (\<lambda>i. on_world (svc_MGet svc (map ProfileKey pids) i))
      (\<lambda>r. case r of Inl e \<Rightarrow> Done (Fail 503 e) | Inr values \<Rightarrow> report_cached ttlMs count pids rs values)) s1"
    if rs: "r = Inr rs" for rs
  proof (rule service_step [OF w(2)])
    fix j q v v' and s2 :: "'a profile_server"
    assume q: "svc_MGet svc (map ProfileKey pids) j v = (q, v')" and v: "coherent rows cached v" "rows v = R" "waits rows cached R n 0 s2"
    show "profile_safe rows cached n ?Q (case q of Inl e \<Rightarrow> Done (Fail 503 e) | Inr values \<Rightarrow> report_cached ttlMs count pids rs values) s2"
    proof (cases q)
      case (Inr vals)
      with MGet_law [OF assms(1), of "map ProfileKey pids" j v vals v'] q
      have l: "length vals = length pids" "j < length pids \<Longrightarrow> vals ! j = Some u \<Longrightarrow> R (pids ! j) = Some u" for j u
        using v(1,2) assms(2) by (auto simp: coherent_def list_all_length)
      show ?thesis unfolding Inr sum.case
        by (rule report_cached_safe [OF v(3)]) (rule held_agree [OF l(2,1) rl(2,1) [OF rs] assms(4)])
    qed (simp add: fail v)
  qed (use assms(1) in \<open>auto simp: service_laws_def stats_law_def\<close>)
  show "profile_safe rows cached n ?Q (case r of Inl e \<Rightarrow> Done (Fail 503 e)
     | Inr rs \<Rightarrow> atomically (\<lambda>i. on_world (svc_MGet svc (map ProfileKey pids) i)) (\<lambda>r. case r of
         Inl e \<Rightarrow> Done (Fail 503 e) | Inr values \<Rightarrow> report_cached ttlMs count pids rs values)) s1"
    using fail [OF w(2)] mget by (cases r) simp_all
qed (use assms(1) in \<open>auto simp: service_laws_def stats_law_def\<close>)

definition profile_ids :: "int \<Rightarrow> int \<Rightarrow> int list" where
  "profile_ids base count = map (\<lambda>i. base + i) [1..count]"

definition profile_start :: "'w services \<Rightarrow> int \<Rightarrow> int \<Rightarrow> int \<Rightarrow> profile_request list \<Rightarrow> 'w
    \<Rightarrow> (tick, 'w profile_server, Response) system" where
  "profile_start svc ttl base count reqs w =
     (\<lparr>cv_world = w, cv_served = 0, cv_hits = 0, cv_misses = 0, cv_redundant = 0, cv_failed = 0,
        cv_lastMissEnd = (\<lambda>_. 0), cv_counting = []\<rparr>,
      map (\<lambda>n. profile_handle svc ttl base count (profile_ids base count) n (reqs ! n)) [0..<length reqs])"

definition reply_ok :: "(int \<rightharpoonup> string) \<Rightarrow> int \<Rightarrow> int \<Rightarrow> profile_request \<Rightarrow> Response \<Rightarrow> bool" where
  "reply_ok R base count r resp \<longleftrightarrow> (case r of
       ReadRequest idText \<Rightarrow> resp_status resp = 200 \<longrightarrow>
         (\<exists>i. Atoi idText = Some i \<and> 1 \<le> i \<and> i \<le> count \<and> read_reply R i (base + i) resp)
     | ProfileStats \<Rightarrow> stats_reply R resp)"

lemma profile_handle_safe:
  assumes "service_laws svc rows cached" "0 \<le> base" "base + count < 2 ^ 63" "waits rows cached R n 0 s" "finite (dom R)"
  shows "profile_safe rows cached n (\<lambda>resp s. waits rows cached R n 0 s \<and> reply_ok R base count r resp)
     (profile_handle svc ttl base count (profile_ids base count) n r) s"
proof -
  have i: "is_int64 (base + i)" if "1 \<le> i" "i \<le> count" for i
    using assms(2,3) that by (simp add: is_int64_def)
  have "is_int64 x" if "x \<in> set (profile_ids base count)" for x
    using i [of "x - base"] that by (auto simp: profile_ids_def)
  then have ids: "list_all is_int64 (profile_ids base count)" by (simp add: list_all_iff)
  show ?thesis
  proof (cases r)
    case (ReadRequest idText)
    with profile_operation_safe [OF assms(1) i assms(4)] show ?thesis by (simp add: profile_handle_def reply_ok_def)
  next
    case ProfileStats
    with profile_stats_safe [OF assms(1) ids assms(4,5)] show ?thesis by (simp add: profile_handle_def reply_ok_def)
  qed
qed

text \<open>
  C17. Whatever requests run concurrently, in whatever order, and whatever fails or expires, the
  rows do not change and the cache never holds another name than the row's; every answer 200 to
  a read has the name of the requested row; every answer 200 of \<^verbatim>\<open>GET /stats\<close> counts at most the
  cached keys as agreeing, and all of them when it read the whole table; and once all requests
  have been answered, those served are exactly the hits and the misses.
\<close>

theorem profile_requests_agree:
  assumes "service_laws svc rows cached" "coherent rows cached w" "finite (dom (rows w))"
    and "0 \<le> base" "base + count < 2 ^ 63"
    and "reaches (profile_start svc ttl base count reqs w) (s, ts)"
  shows "rows (cv_world s) = rows w \<and> coherent rows cached (cv_world s)
    \<and> cv_hits s + cv_misses s \<le> cv_served s \<and> (finished (s, ts) \<longrightarrow> cv_served s = cv_hits s + cv_misses s)
    \<and> list_all2 (\<lambda>r t. case result_of t of None \<Rightarrow> True | Some resp \<Rightarrow> reply_ok (rows w) base count r resp) reqs ts"
proof -
  let ?c = "profile_start svc ttl base count reqs w"
  let ?Q = "\<lambda>n resp s. waits rows cached (rows w) n 0 s \<and> reply_ok (rows w) base count (reqs ! n) resp"
  let ?I = "\<lambda>s. count_inv s \<and> coherent rows cached (cv_world s) \<and> rows (cv_world s) = rows w
     \<and> (\<forall>m. length reqs \<le> m \<longrightarrow> count_list (cv_counting s) m = 0)"
  have "waits rows cached (rows w) n 0 (fst ?c)" for n
    using assms(2) by (simp add: profile_start_def waits_def count_inv_def)
  then have safe: "profile.all_safe rows cached ?Q ?c"
    using profile_handle_safe [OF assms(1,4,5) _ assms(3)] by (simp add: profile.all_safe_def profile_start_def)
  have "?I (fst (s, ts))"
  proof (rule profile.invariant_within [OF assms(6) safe])
    show "?I (fst ?c)" using assms(2) by (simp add: profile_start_def count_inv_def)
    show "?I s'" if "n < length (snd ?c)" "profile_guar rows cached n s s'" "?I s" for n s s'
      using that by (auto simp: profile_guar_def reads_keep_def profile_start_def)
  qed
  then have I: "?I s" by simp
  have len: "length ts = length reqs" using reaches_length [OF assms(6)] by (simp add: profile_start_def)
  have post: "?Q n resp s" if "n < length ts" "ts ! n = Done resp" for n resp
    using profile.post [OF assms(6) safe, of n resp] that by simp
  have "cv_counting s = []" if "finished (s, ts)"
  proof -
    have "count_list (cv_counting s) m = 0" for m
    proof (cases "m < length ts")
      case True
      with that obtain resp where "ts ! m = Done resp" by (cases "ts ! m") (auto simp: finished_def list_all_length)
      with post [OF True] show ?thesis by (simp add: waits_def)
    qed (use I len in simp)
    then show ?thesis by (metis count_list_0_iff list.set_intros(1) neq_Nil_conv)
  qed
  moreover have "case result_of (ts ! n) of None \<Rightarrow> True | Some resp \<Rightarrow> reply_ok (rows w) base count (reqs ! n) resp"
    if "n < length ts" for n
    using post [OF that] by (cases "ts ! n") auto
  ultimately show ?thesis using I len by (auto simp: count_inv_def list_all2_conv_all_nth)
qed

text \<open>The number that eight random bytes spell, most significant byte first.\<close>

fun byte_value :: "nat \<Rightarrow> string \<Rightarrow> nat" where
  "byte_value acc [] = acc"
| "byte_value acc (b # bs) = byte_value (acc * 256 + of_char b) bs"

lemma hex_value_hex_digit: "d < 16 \<Longrightarrow> hex_value (hex_digit d) = Some d"
  by (auto simp: hex_value_def hex_digit_def Let_def of_char_of)

lemma hex_acc_EncodeToString: "hex_acc acc (EncodeToString bs) = Some (byte_value acc bs)"
proof (induction bs arbitrary: acc)
  case (Cons b bs)
  have "of_char b div 16 < (16 :: nat)" "of_char b mod 16 < (16 :: nat)"
    by (simp_all add: less_mult_imp_div_less)
  moreover have "(acc * 16 + of_char b div 16) * 16 + of_char b mod 16 = acc * 256 + of_char b"
    by (simp add: algebra_simps)
  ultimately show ?case using Cons by (simp add: EncodeToString_def hex_value_hex_digit mult.commute add.commute)
qed (simp add: EncodeToString_def)

lemma byte_value_bounds: "byte_value acc bs < (acc + 1) * 256 ^ length bs"
proof (induction bs arbitrary: acc)
  case (Cons b bs)
  have le: "acc * 256 + x + 1 \<le> (acc + 1) * 256" if "x < 256" for x :: nat using that by simp
  have "acc * 256 + of_char b + 1 \<le> (acc + 1) * 256" by (rule le [OF nat_of_char_less_256])
  then have "(acc * 256 + of_char b + 1) * 256 ^ length bs \<le> (acc + 1) * 256 * 256 ^ length bs"
    by (rule mult_right_mono) simp
  with Cons [of "acc * 256 + of_char b"] have "byte_value (acc * 256 + of_char b) bs < (acc + 1) * 256 * 256 ^ length bs"
    by (rule less_le_trans)
  then show ?case by (simp add: algebra_simps)
qed simp

lemma base256_inject: "x < 256 \<Longrightarrow> y < 256 \<Longrightarrow> a * 256 + x = b * 256 + y \<longleftrightarrow> a = b \<and> x = y" for a b x y :: nat
proof
  assume lt: "x < 256" "y < 256" and eq: "a * 256 + x = b * 256 + y"
  from eq have "(a * 256 + x) div 256 = (b * 256 + y) div 256" by (rule arg_cong)
  with lt have "a = b" by simp
  with eq show "a = b \<and> x = y" by simp
qed simp

lemma byte_value_inject:
  "length bs = length cs \<Longrightarrow> byte_value acc bs = byte_value acc' cs \<longleftrightarrow> acc = acc' \<and> bs = cs"
proof (induction bs cs arbitrary: acc acc' rule: list_induct2)
  case (Cons b bs c cs)
  have "acc * 256 + of_char b = acc' * 256 + of_char c \<longleftrightarrow> acc = acc' \<and> of_char b = (of_char c :: nat)"
    by (rule base256_inject) simp_all
  with Cons show ?case by auto
qed simp

lemma hex_digit_sign: "d < 16 \<Longrightarrow> hex_digit d \<noteq> CHR ''-'' \<and> hex_digit d \<noteq> CHR ''+''"
proof -
  assume "d < 16"
  then have "of_char (hex_digit d) \<in> {48 :: nat..57} \<union> {97..102}" by (auto simp: hex_digit_def of_char_of)
  then show ?thesis by auto
qed

lemma take_EncodeToString: "take (2 * n) (EncodeToString bs) = EncodeToString (take n bs)"
proof (induction bs arbitrary: n)
  case (Cons b bs)
  then show ?case by (cases n) (simp_all add: EncodeToString_def)
qed (simp add: EncodeToString_def)

lemma ParseHex_EncodeToString:
  assumes "bs \<noteq> []" "byte_value 0 bs < 2 ^ 48"
  shows "ParseHex (EncodeToString bs) = Some (int (byte_value 0 bs))"
proof -
  obtain b cs where b: "bs = b # cs" using assms(1) by (cases bs) auto
  have "hex_digit (of_char b div 16) \<noteq> CHR ''-'' \<and> hex_digit (of_char b div 16) \<noteq> CHR ''+''"
    by (rule hex_digit_sign) (simp add: less_mult_imp_div_less)
  then have "hd (EncodeToString bs) \<noteq> CHR ''-''" "hd (EncodeToString bs) \<noteq> CHR ''+''" "EncodeToString bs \<noteq> []"
    by (simp_all add: b EncodeToString_def)
  then show ?thesis using assms(2) by (simp add: ParseHex_def hex_acc_EncodeToString is_int64_def)
qed

text \<open>
  C24. The random base keeps servers apart: for any eight random bytes the base is computed
  without overflow, leaves room for the largest profile count, and servers whose tokens differ
  in the bytes that are used have disjoint ranges of profile ids.
\<close>

theorem profile_base_apart:
  assumes "length b1 = 8" "length b2 = 8"
  shows "\<exists>base1 base2. profile_base (EncodeToString b1) = Inr base1 \<and> profile_base (EncodeToString b2) = Inr base2
    \<and> 0 \<le> base1 \<and> base1 + 1000 < 2 ^ 63
    \<and> (take 6 b1 \<noteq> take 6 b2 \<longrightarrow> set (profile_ids base1 1000) \<inter> set (profile_ids base2 1000) = {})"
proof -
  let ?v = "\<lambda>b. byte_value 0 (take 6 b)"
  have base: "profile_base (EncodeToString b) = Inr (int (?v b) * 10000)" "?v b < 2 ^ 48" if "length b = 8" for b
  proof -
    have v: "?v b < 2 ^ 48" using byte_value_bounds [of 0 "take 6 b"] that by simp
    have e: "take 12 (EncodeToString b) = EncodeToString (take 6 b)"
      using take_EncodeToString [of 6 b] by simp
    have "ParseHex (EncodeToString (take 6 b)) = Some (int (?v b))"
      using that v by (intro ParseHex_EncodeToString) auto
    moreover have "sint (word_of_int (int (?v b) * 10000) :: 64 word) = int (?v b) * 10000"
      using v by (simp only: sint_sbintrunc') (simp add: signed_take_bit_int_eq_self)
    ultimately show "profile_base (EncodeToString b) = Inr (int (?v b) * 10000)" "?v b < 2 ^ 48"
      using v e by (simp_all add: profile_base_def)
  qed
  have "set (profile_ids (int (?v b1) * 10000) 1000) \<inter> set (profile_ids (int (?v b2) * 10000) 1000) = {}"
    if "take 6 b1 \<noteq> take 6 b2"
  proof -
    have "?v b1 \<noteq> ?v b2" using that assms by (simp add: byte_value_inject)
    then show ?thesis by (auto simp: profile_ids_def)
  qed
  with base [OF assms(1)] base [OF assms(2)] show ?thesis by simp
qed

definition two_profiles :: "(tick, ((int \<rightharpoonup> string) \<times> (string \<rightharpoonup> string)) profile_server, Response) system" where
  "two_profiles = schedule (map (\<lambda>n. (n, \<lparr>tick_fault = Fine, tick_clock = 7\<rparr>)) (replicate 8 0 @ replicate 8 1))
     (profile_start map_services 30000000 50000 2 [ReadRequest ''1'', ReadRequest ''1''] ([50001 \<mapsto> ''Ada 1''], Map.empty))"

lemma two_profiles_counts: "cv_served (fst two_profiles) = 2 \<and> cv_misses (fst two_profiles) = 1 \<and> finished two_profiles"
  by code_simp

theorem profile_requests_agree_witness:
  "cv_served (fst two_profiles) = 2 \<and> cv_misses (fst two_profiles) = 1
   \<and> cv_served (fst two_profiles) = cv_hits (fst two_profiles) + cv_misses (fst two_profiles)
   \<and> coherent fst snd (cv_world (fst two_profiles))"
proof -
  have r: "reaches (profile_start map_services 30000000 50000 2 [ReadRequest ''1'', ReadRequest ''1'']
     ([50001 \<mapsto> ''Ada 1''], Map.empty)) (fst two_profiles, snd two_profiles)"
    unfolding two_profiles_def prod.collapse by (rule schedule_reaches)
  have "coherent fst snd ([50001 \<mapsto> ''Ada 1''], Map.empty)" by (simp add: coherent_def)
  from profile_requests_agree [OF map_services_laws this _ _ _ r]
  have "coherent fst snd (cv_world (fst two_profiles)) \<and> (finished (fst two_profiles, snd two_profiles) \<longrightarrow>
     cv_served (fst two_profiles) = cv_hits (fst two_profiles) + cv_misses (fst two_profiles))" by simp
  with two_profiles_counts show ?thesis by (simp only: prod.collapse)
qed

theorem profile_base_apart_witness:
  "\<exists>base1 base2. profile_base ''0000000000010000'' = Inr base1 \<and> profile_base ''0000000000020000'' = Inr base2
    \<and> set (profile_ids base1 1000) \<inter> set (profile_ids base2 1000) = {}"
proof -
  let ?b = "\<lambda>n. replicate 5 (CHR 0x00) @ [char_of (n :: nat), CHR 0x00, CHR 0x00]"
  have "EncodeToString (?b 1) = ''0000000000010000''" "EncodeToString (?b 2) = ''0000000000020000''" by code_simp+
  moreover have "take 6 (?b 1) \<noteq> take 6 (?b 2)" by code_simp
  ultimately show ?thesis using profile_base_apart [of "?b 1" "?b 2"] by auto
qed

text \<open>The iteration over the rows was cut short: one row of two was read.\<close>

definition cut_services :: "((int \<rightharpoonup> string) \<times> (string \<rightharpoonup> string)) services" where
  "cut_services = map_services\<lparr>svc_Rows := \<lambda>i w. (Inr [(1, ''Ada 1'')], w)\<rparr>"

definition cut_world :: "(int \<rightharpoonup> string) \<times> (string \<rightharpoonup> string)" where
  "cut_world = ([1 \<mapsto> ''Ada 1'', 2 \<mapsto> ''Ada 2''], [ProfileKey 1 \<mapsto> ''Ada 1'', ProfileKey 2 \<mapsto> ''Ada 2''])"

definition cut_reply :: "Response option" where
  "cut_reply = result_of (snd (schedule (replicate 7 (0, \<lparr>tick_fault = Fine, tick_clock = 7\<rparr>))
     (profile_start cut_services 30000000 0 2 [ProfileStats] cut_world)) ! 0)"

text \<open>
  With an iteration that ended early, which the handler cannot tell from a complete one, a
  coherent cache is reported, with status 200, as disagreeing with the table.
\<close>

theorem cut_rows_show_disagreement:
  "map_option resp_status cut_reply = Some 200
   \<and> Option.bind cut_reply (\<lambda>r. field r ''cached'') = Some (JInt 2)
   \<and> Option.bind cut_reply (\<lambda>r. field r ''cached_agree'') = Some (JInt 1)"
  by code_simp
end
