(* ===== verification/Sqlite_WAL.thy ===== *)
theory Sqlite_WAL
  imports Perf Go_Path
begin

section \<open>Readers and writers of a SQLite file\<close>

text \<open>
  \<^verbatim>\<open>lessons/go/sqlite-wal-lab\<close>: a write while a reader holds a snapshot, in the two journal modes.
  \<^verbatim>\<open>core.go\<close>, a trial of \<^verbatim>\<open>main.go\<close> and the adapter \<^verbatim>\<open>perf/main.go\<close>; the experiment is in
  \<open>Sqlite_Lesson\<close>. The SQLite driver and the
  temporary directory are parameters: the record \<open>sqlite\<close> of the calls the lesson makes through the
  handle of a variant, each a function of an input of the environment and the world. The handle is named by the
  variant's journal mode, but that is only a name: \<open>sqlite_laws\<close> states what SQLite documents of the calls in terms
  of the committed rows (\<open>rows w j\<close>), what an open snapshot sees (\<open>snap w j\<close>) and the journal mode that the
  DSN given to \<^verbatim>\<open>sql.Open\<close> chose (\<open>mode w j\<close>).
\<close>

unbundle bit_operations_syntax

datatype journal = DELETE | WAL

definition journal_name :: "journal \<Rightarrow> string" where
  "journal_name j = (case j of DELETE \<Rightarrow> ''DELETE'' | WAL \<Rightarrow> ''WAL'')"

text \<open>An error of a write: its text and, when it is a \<^verbatim>\<open>*sqlite.Error\<close>, its code.\<close>

record sql_error =
  se_Error :: string
  se_Code :: "64 word option"

record 'w sqlite =
  sq_MkdirTemp :: "string \<Rightarrow> tick \<Rightarrow> 'w \<Rightarrow> (string, string) result \<times> 'w"
  sq_RemoveAll :: "string \<Rightarrow> tick \<Rightarrow> 'w \<Rightarrow> string option \<times> 'w"
  sq_Open :: "journal \<Rightarrow> string \<Rightarrow> tick \<Rightarrow> 'w \<Rightarrow> string option \<times> 'w"
  sq_SetConns :: "journal \<Rightarrow> int \<Rightarrow> tick \<Rightarrow> 'w \<Rightarrow> unit \<times> 'w"
  sq_Schema :: "journal \<Rightarrow> tick \<Rightarrow> 'w \<Rightarrow> string option \<times> 'w"
  sq_Mode :: "journal \<Rightarrow> tick \<Rightarrow> 'w \<Rightarrow> (string, string) result \<times> 'w"
  sq_Begin :: "journal \<Rightarrow> tick \<Rightarrow> 'w \<Rightarrow> string option \<times> 'w"
  sq_TxCount :: "journal \<Rightarrow> tick \<Rightarrow> 'w \<Rightarrow> (string, int) result \<times> 'w"
  sq_Rollback :: "journal \<Rightarrow> tick \<Rightarrow> 'w \<Rightarrow> unit \<times> 'w"
  sq_Conn :: "journal \<Rightarrow> tick \<Rightarrow> 'w \<Rightarrow> string option \<times> 'w"
  sq_Prepare :: "journal \<Rightarrow> tick \<Rightarrow> 'w \<Rightarrow> string option \<times> 'w"
  sq_Exec :: "journal \<Rightarrow> tick \<Rightarrow> 'w \<Rightarrow> sql_error option \<times> 'w"
  sq_CloseStmt :: "journal \<Rightarrow> tick \<Rightarrow> 'w \<Rightarrow> unit \<times> 'w"
  sq_CloseConn :: "journal \<Rightarrow> tick \<Rightarrow> 'w \<Rightarrow> string option \<times> 'w"
  sq_Count :: "journal \<Rightarrow> tick \<Rightarrow> 'w \<Rightarrow> (string, int) result \<times> 'w"
  sq_WalSize :: "journal \<Rightarrow> tick \<Rightarrow> 'w \<Rightarrow> int option \<times> 'w"
  sq_Close :: "journal \<Rightarrow> tick \<Rightarrow> 'w \<Rightarrow> unit \<times> 'w"

subsection \<open>The core\<close>

definition DSN :: "string \<Rightarrow> string \<Rightarrow> int \<Rightarrow> string" where
  "DSN path mode busyTimeoutMs =
     ''file:'' @ path @ ''?_pragma=busy_timeout('' @ Itoa busyTimeoutMs @ '')&_pragma=journal_mode('' @ mode @ '')''"

text \<open>\<^verbatim>\<open>filepath.Join\<close> of two elements that are not empty.\<close>

definition file_Join :: "string \<Rightarrow> string \<Rightarrow> string" where
  "file_Join dir name = Clean (dir @ ''/'' @ name)"

definition OpenSnapshot :: "'w sqlite \<Rightarrow> journal \<Rightarrow> (tick, 'w, (string, int) result) thread" where
  "OpenSnapshot db j = atomically (sq_Begin db j) (\<lambda>err. case err of
       Some e \<Rightarrow> Done (Inl e)
     | None \<Rightarrow> atomically (sq_TxCount db j) (\<lambda>r. case r of
         Inl e \<Rightarrow> atomically (sq_Rollback db j) (\<lambda>_. Done (Inl e))
       | Inr count \<Rightarrow> Done (Inr count)))"

record WriteResult =
  Elapsed :: int
  WriteErr :: "sql_error option"

definition WriteEvent :: "'w sqlite \<Rightarrow> journal \<Rightarrow> (tick, 'w, (string, WriteResult) result) thread" where
  "WriteEvent db j = atomically (sq_Conn db j) (\<lambda>err. case err of
       Some e \<Rightarrow> Done (Inl e)
     | None \<Rightarrow> atomically (sq_Prepare db j) (\<lambda>err. case err of
         Some e \<Rightarrow> atomically (sq_CloseConn db j) (\<lambda>_. Done (Inl e))
       | None \<Rightarrow> atomically time_Now (\<lambda>start.
           atomically (sq_Exec db j) (\<lambda>err.
           atomically time_Now (\<lambda>now.
           atomically (sq_CloseStmt db j) (\<lambda>_.
           atomically (sq_CloseConn db j) (\<lambda>_.
           Done (Inr \<lparr>Elapsed = now - start, WriteErr = err\<rparr>))))))))"

subsection \<open>The experiment\<close>

record measurement =
  m_mode :: journal
  m_trial :: nat
  m_writeNs :: int
  m_result :: string

text \<open>
  \<open>run_trial\<close> is \<^verbatim>\<open>run\<close>. A failed check panics, and the deferred calls registered so far run, in reverse
  order, whether it panics or returns. \<^verbatim>\<open>lab.Ms\<close> and the printing of the elapsed time are left out.
\<close>

definition deferred :: "(tick \<Rightarrow> 'w \<Rightarrow> 'b \<times> 'w) \<Rightarrow> (tick, 'w, 'a) thread \<Rightarrow> (tick, 'w, 'a) thread" where
  "deferred f t = and_then t (\<lambda>a. atomically f (\<lambda>_. Done a))"

definition measured :: "journal \<Rightarrow> nat \<Rightarrow> WriteResult \<Rightarrow> measurement" where
  "measured j trial write = \<lparr>m_mode = j, m_trial = trial, m_writeNs = Elapsed write,
     m_result = (case WriteErr write of None \<Rightarrow> ''ok'' | Some e \<Rightarrow> se_Error e)\<rparr>"

definition run_trial :: "'w sqlite \<Rightarrow> journal \<Rightarrow> nat \<Rightarrow> (tick, 'w, (panic, measurement) result) thread" where
  "run_trial db j trial = atomically (sq_MkdirTemp db ''wal-lab-'') (\<lambda>r. case r of
       Inl e \<Rightarrow> Done (Inl (PanicError e))
     | Inr dir \<Rightarrow> deferred (sq_RemoveAll db dir)
         (atomically (sq_Open db j (DSN (file_Join dir ''events.db'') (journal_name j) 2000)) (\<lambda>err. case err of
            Some e \<Rightarrow> Done (Inl (PanicError e))
          | None \<Rightarrow> deferred (sq_Close db j)
              (atomically (sq_Schema db j) (\<lambda>err. case err of
                 Some e \<Rightarrow> Done (Inl (PanicError e))
               | None \<Rightarrow> and_then (OpenSnapshot db j) (\<lambda>r. case r of
                   Inl e \<Rightarrow> Done (Inl (PanicError e))
                 | Inr count \<Rightarrow> deferred (sq_Rollback db j)
                     (and_then (WriteEvent db j) (\<lambda>r. case r of
                        Inl e \<Rightarrow> Done (Inl (PanicError e))
                      | Inr write \<Rightarrow> Done (Inr (measured j trial write))))))))))"

subsection \<open>The adapter: setting up\<close>

fun warm_open :: "'w sqlite \<Rightarrow> journal \<Rightarrow> nat \<Rightarrow> (tick, 'w, (panic, unit) result) thread" where
  "warm_open db j 0 = Done (Inr ())"
| "warm_open db j (Suc n) = atomically (sq_Conn db j) (\<lambda>err. case err of
       Some e \<Rightarrow> Done (Inl (PanicError e))
     | None \<Rightarrow> atomically (sq_Count db j) (\<lambda>r. case r of
         Inl e \<Rightarrow> Done (Inl (PanicError e))
       | Inr rows \<Rightarrow> warm_open db j n))"

fun warm_close :: "'w sqlite \<Rightarrow> journal \<Rightarrow> nat \<Rightarrow> (tick, 'w, (panic, unit) result) thread" where
  "warm_close db j 0 = Done (Inr ())"
| "warm_close db j (Suc n) = atomically (sq_CloseConn db j) (\<lambda>err. case err of
       Some e \<Rightarrow> Done (Inl (PanicError e))
     | None \<Rightarrow> warm_close db j n)"

definition warm :: "'w sqlite \<Rightarrow> journal \<Rightarrow> nat \<Rightarrow> (tick, 'w, (panic, unit) result) thread" where
  "warm db j n = and_then (warm_open db j n) (\<lambda>r. case r of
       Inl p \<Rightarrow> Done (Inl p)
     | Inr _ \<Rightarrow> warm_close db j n)"

text \<open>What \<^verbatim>\<open>open\<close> stores in the variant: the reported journal mode and the rows of the snapshot.\<close>

record opened_variant =
  ov_journalMode :: string
  ov_seedRows :: int

definition open_variant :: "'w sqlite \<Rightarrow> journal \<Rightarrow> string \<Rightarrow> int \<Rightarrow> nat
    \<Rightarrow> (tick, 'w, (panic, opened_variant) result) thread" where
  "open_variant db j dir busyMs poolSize =
     atomically (sq_Open db j (DSN (file_Join dir (journal_name j @ ''.db'')) (journal_name j) busyMs)) (\<lambda>err. case err of
       Some e \<Rightarrow> Done (Inl (PanicError e))
     | None \<Rightarrow> atomically (sq_SetConns db j (int poolSize + 1)) (\<lambda>_.
         atomically (sq_Schema db j) (\<lambda>err. case err of
           Some e \<Rightarrow> Done (Inl (PanicError e))
         | None \<Rightarrow> atomically (sq_Mode db j) (\<lambda>r. case r of
             Inl e \<Rightarrow> Done (Inl (PanicError e))
           | Inr mode \<Rightarrow> and_then (warm db j (poolSize + 1)) (\<lambda>r. case r of
               Inl p \<Rightarrow> Done (Inl p)
             | Inr _ \<Rightarrow> and_then (OpenSnapshot db j) (\<lambda>r. case r of
                 Inl e \<Rightarrow> Done (Inl (PanicError e))
               | Inr rows \<Rightarrow> Done (Inr \<lparr>ov_journalMode = mode, ov_seedRows = rows\<rparr>)))))))"

text \<open>
  \<^verbatim>\<open>main\<close> up to the handlers: the settings, the directory and the two variants, opened in turn. When the second one
  panics the deferred calls of the first run, then the directory is removed.
\<close>

definition close_variant :: "'w sqlite \<Rightarrow> journal \<Rightarrow> (tick, 'w, 'a) thread \<Rightarrow> (tick, 'w, 'a) thread" where
  "close_variant db j t = deferred (sq_Close db j) (deferred (sq_Rollback db j) t)"

definition open_variants :: "'w sqlite \<Rightarrow> string \<Rightarrow> int \<Rightarrow> nat
    \<Rightarrow> (tick, 'w, (panic, opened_variant \<times> opened_variant) result) thread" where
  "open_variants db dir busyMs poolSize = and_then (open_variant db DELETE dir busyMs poolSize) (\<lambda>r. case r of
       Inl p \<Rightarrow> Done (Inl p)
     | Inr a \<Rightarrow> and_then (open_variant db WAL dir busyMs poolSize) (\<lambda>r. case r of
         Inl p \<Rightarrow> close_variant db DELETE (Done (Inl p))
       | Inr b \<Rightarrow> Done (Inr (a, b))))"

definition wal_setup :: "(string \<Rightarrow> string) \<Rightarrow> 'w sqlite \<Rightarrow> settings
    \<Rightarrow> (tick, 'w, (panic, (opened_variant \<times> opened_variant) \<times> settings) result) thread" where
  "wal_setup getenv db settings = (case Int_setting getenv ''BUSY_MS'' 250 0 4000 settings of
       Inl p \<Rightarrow> Done (Inl p)
     | Inr (busyMs, settings) \<Rightarrow> (case Int_setting getenv ''POOL_SIZE'' 8 1 64 settings of
         Inl p \<Rightarrow> Done (Inl p)
       | Inr (poolSize, settings) \<Rightarrow> atomically (sq_MkdirTemp db ''sqlite-wal-perf-'') (\<lambda>r. case r of
           Inl e \<Rightarrow> Done (Inl (PanicError e))
         | Inr dir \<Rightarrow> and_then (open_variants db dir busyMs (nat poolSize)) (\<lambda>r. case r of
             Inl p \<Rightarrow> atomically (sq_RemoveAll db dir) (\<lambda>_. Done (Inl p))
           | Inr vs \<Rightarrow> Done (Inr (vs, settings))))))"

subsection \<open>The adapter: requests\<close>

definition isLocked :: "sql_error \<Rightarrow> bool" where
  "isLocked err = (case se_Code err of
       None \<Rightarrow> False
     | Some c \<Rightarrow> (let code = c AND 0xff in code = 5 \<or> code = 6))"

text \<open>
  The server: the databases and the outcome counters of both variants. \<open>ws_pending\<close> is the history
  variable of the requests whose write has been committed and not yet counted; no handler reads it.
\<close>

record 'w wal_server =
  ws_world :: 'w
  ws_ok :: "journal \<Rightarrow> int"
  ws_locked :: "journal \<Rightarrow> int"
  ws_failed :: "journal \<Rightarrow> int"
  ws_pending :: "(nat \<times> journal) list"

definition on_db :: "('w \<Rightarrow> 'a \<times> 'w) \<Rightarrow> 'w wal_server \<Rightarrow> 'a \<times> 'w wal_server" where
  "on_db f s = (case f (ws_world s) of (a, w) \<Rightarrow> (a, s\<lparr>ws_world := w\<rparr>))"

definition exec_on :: "nat \<Rightarrow> 'w sqlite \<Rightarrow> journal \<Rightarrow> tick \<Rightarrow> 'w wal_server \<Rightarrow> sql_error option \<times> 'w wal_server" where
  "exec_on n db j i s = (case sq_Exec db j i (ws_world s) of
       (None, w) \<Rightarrow> (None, s\<lparr>ws_world := w, ws_pending := (n, j) # ws_pending s\<rparr>)
     | (Some e, w) \<Rightarrow> (Some e, s\<lparr>ws_world := w\<rparr>))"

text \<open>The database as request \<open>n\<close> uses it.\<close>

definition db_of :: "nat \<Rightarrow> 'w sqlite \<Rightarrow> 'w wal_server sqlite" where
  "db_of n db =
     \<lparr>sq_MkdirTemp = \<lambda>p i. on_db (sq_MkdirTemp db p i), sq_RemoveAll = \<lambda>p i. on_db (sq_RemoveAll db p i),
      sq_Open = \<lambda>j d i. on_db (sq_Open db j d i), sq_SetConns = \<lambda>j k i. on_db (sq_SetConns db j k i),
      sq_Schema = \<lambda>j i. on_db (sq_Schema db j i), sq_Mode = \<lambda>j i. on_db (sq_Mode db j i),
      sq_Begin = \<lambda>j i. on_db (sq_Begin db j i), sq_TxCount = \<lambda>j i. on_db (sq_TxCount db j i),
      sq_Rollback = \<lambda>j i. on_db (sq_Rollback db j i), sq_Conn = \<lambda>j i. on_db (sq_Conn db j i),
      sq_Prepare = \<lambda>j i. on_db (sq_Prepare db j i), sq_Exec = exec_on n db,
      sq_CloseStmt = \<lambda>j i. on_db (sq_CloseStmt db j i), sq_CloseConn = \<lambda>j i. on_db (sq_CloseConn db j i),
      sq_Count = \<lambda>j i. on_db (sq_Count db j i), sq_WalSize = \<lambda>j i. on_db (sq_WalSize db j i),
      sq_Close = \<lambda>j i. on_db (sq_Close db j i)\<rparr>"

definition ok_Add :: "nat \<Rightarrow> journal \<Rightarrow> tick \<Rightarrow> 'w wal_server \<Rightarrow> unit \<times> 'w wal_server" where
  "ok_Add n j i s = ((), s\<lparr>ws_ok := (ws_ok s)(j := ws_ok s j + 1), ws_pending := remove1 (n, j) (ws_pending s)\<rparr>)"

definition locked_Add :: "journal \<Rightarrow> tick \<Rightarrow> 'w wal_server \<Rightarrow> unit \<times> 'w wal_server" where
  "locked_Add j i s = ((), s\<lparr>ws_locked := (ws_locked s)(j := ws_locked s j + 1)\<rparr>)"

definition writes_failed_Add :: "journal \<Rightarrow> tick \<Rightarrow> 'w wal_server \<Rightarrow> unit \<times> 'w wal_server" where
  "writes_failed_Add j i s = ((), s\<lparr>ws_failed := (ws_failed s)(j := ws_failed s j + 1)\<rparr>)"

definition journal_of :: "string \<Rightarrow> journal option" where
  "journal_of name = (if name = ''DELETE'' then Some DELETE else if name = ''WAL'' then Some WAL else None)"

definition wal_answer :: "nat \<Rightarrow> journal \<Rightarrow> (string, WriteResult) result \<Rightarrow> (tick, 'w wal_server, Response) thread" where
  "wal_answer n j r = (case r of
       Inl e \<Rightarrow> atomically (writes_failed_Add j) (\<lambda>_. Done (Fail 503 e))
     | Inr write \<Rightarrow> (case WriteErr write of
         None \<Rightarrow> atomically (ok_Add n j) (\<lambda>_. Done (JSON 200 (JObject
           [(''variant'', JString (journal_name j)), (''outcome'', JString ''ok''), (''elapsed_ms'', JMs (Elapsed write))])))
       | Some e \<Rightarrow>
           (if isLocked e
            then atomically (locked_Add j) (\<lambda>_. Done (JSON 200 (JObject
              [(''variant'', JString (journal_name j)), (''outcome'', JString ''locked''), (''elapsed_ms'', JMs (Elapsed write)),
               (''error'', JString (se_Error e))])))
            else atomically (writes_failed_Add j) (\<lambda>_. Done (Fail 500 (se_Error e))))))"

definition wal_operation :: "'w sqlite \<Rightarrow> nat \<Rightarrow> string \<Rightarrow> (tick, 'w wal_server, Response) thread" where
  "wal_operation db n name = (case journal_of name of
       None \<Rightarrow> Done (Fail 400 ''variant must be DELETE or WAL'')
     | Some j \<Rightarrow> and_then (WriteEvent (db_of n db) j) (wal_answer n j))"

definition variant_stats :: "'w sqlite \<Rightarrow> nat \<Rightarrow> journal \<Rightarrow> opened_variant
    \<Rightarrow> (tick, 'w wal_server, (string, jvalue) result) thread" where
  "variant_stats db n j v = atomically (sq_Count (db_of n db) j) (\<lambda>r. case r of
       Inl e \<Rightarrow> Done (Inl e)
     | Inr rows \<Rightarrow> atomically (sq_TxCount (db_of n db) j) (\<lambda>r. case r of
         Inl e \<Rightarrow> Done (Inl e)
       | Inr snapshotRows \<Rightarrow> atomically (sq_WalSize (db_of n db) j) (\<lambda>size.
           atomically (\<lambda>i s. (ws_ok s j, s)) (\<lambda>ok.
           atomically (\<lambda>i s. (ws_locked s j, s)) (\<lambda>locked.
           atomically (\<lambda>i s. (ws_failed s j, s)) (\<lambda>failed.
           Done (Inr (JObject
             [(''variant'', JString (journal_name j)), (''journal_mode'', JString (ov_journalMode v)),
              (''writes_ok'', JInt ok), (''writes_locked'', JInt locked), (''writes_failed'', JInt failed),
              (''seed_rows'', JInt (ov_seedRows v)), (''expected_rows'', JInt (ov_seedRows v + ok)),
              (''rows'', JInt rows), (''snapshot_rows'', JInt snapshotRows),
              (''wal_bytes'', JInt (case size of None \<Rightarrow> 0 | Some b \<Rightarrow> b))]))))))))"

definition wal_stats :: "'w sqlite \<Rightarrow> (journal \<Rightarrow> opened_variant) \<Rightarrow> nat \<Rightarrow> (tick, 'w wal_server, Response) thread" where
  "wal_stats db vs n = and_then (variant_stats db n DELETE (vs DELETE)) (\<lambda>r. case r of
       Inl e \<Rightarrow> Done (Fail 503 (''DELETE: '' @ e))
     | Inr a \<Rightarrow> and_then (variant_stats db n WAL (vs WAL)) (\<lambda>r. case r of
         Inl e \<Rightarrow> Done (Fail 503 (''WAL: '' @ e))
       | Inr b \<Rightarrow> Done (JSON 200 (JObject [(''variants'', JArray [a, b])]))))"

datatype wal_request = WriteRequest string | WalStats

definition wal_handle :: "'w sqlite \<Rightarrow> (journal \<Rightarrow> opened_variant) \<Rightarrow> nat \<Rightarrow> wal_request
    \<Rightarrow> (tick, 64 word \<times> 'w wal_server, Response) thread" where
  "wal_handle db vs n r = (case r of
       WriteRequest name \<Rightarrow> Limit 10000 (wal_operation db n name)
     | WalStats \<Rightarrow> zoom snd (\<lambda>w s. (fst s, w)) (wal_stats db vs n))"

subsection \<open>What SQLite promises\<close>

definition keeps :: "('w \<Rightarrow> 'v) \<Rightarrow> (tick \<Rightarrow> 'w \<Rightarrow> 'a \<times> 'w) \<Rightarrow> bool" where
  "keeps view f \<longleftrightarrow> (\<forall>i w. view (snd (f i w)) = view w)"

text \<open>
  The journal mode a DSN asks for: the driver documents that every \<^verbatim>\<open>_pragma=name(value)\<close> of the query
  after the first question mark is run on each new connection, in order.
\<close>

definition journal_pragma :: "string \<Rightarrow> string option" where
  "journal_pragma param = (case CutPrefix param ''_pragma=journal_mode('' of (v, ok) \<Rightarrow>
     if ok then Some (TrimSuffix v '')'') else None)"

definition dsn_journal :: "string \<Rightarrow> string option" where
  "dsn_journal dsn = (case Cut dsn ''?'' of (path, query, ok) \<Rightarrow>
     (case List.map_filter journal_pragma (split_on (CHR ''&'') query) of [] \<Rightarrow> None | ms \<Rightarrow> Some (last ms)))"

text \<open>
  Calls that neither begin nor end a read transaction nor write leave rows and snapshots alone, and only opening
  chooses a journal mode. A database just opened has no reader of its own. The
  schema creates the table with its seed row. A
  count sees the committed rows; in a transaction, it sees what the first count saw. A write adds its row,
  or fails and adds nothing: that a write whose context ends is either rolled back or reported as done
  is an assumption on the driver. In the mode with a rollback journal a write cannot commit while a reader
  holds its shared lock.
\<close>

definition table_laws :: "'w sqlite \<Rightarrow> ('w \<Rightarrow> journal \<Rightarrow> int) \<Rightarrow> ('w \<Rightarrow> journal \<rightharpoonup> int) \<Rightarrow> ('w \<Rightarrow> journal \<rightharpoonup> string) \<Rightarrow> bool" where
  "table_laws db rows snap mode \<longleftrightarrow> (\<forall>j.
     (\<forall>i w w'. sq_Schema db j i w = (None, w') \<longrightarrow> rows w' = (rows w)(j := 1) \<and> snap w' = snap w)
   \<and> (\<forall>i w n w'. sq_Count db j i w = (Inr n, w') \<longrightarrow> n = rows w j)
   \<and> (\<forall>i w n w'. sq_TxCount db j i w = (Inr n, w') \<longrightarrow>
        snap w' = (snap w)(j \<mapsto> n) \<and> n = (case snap w j of None \<Rightarrow> rows w j | Some m \<Rightarrow> m))
   \<and> (\<forall>i w e w'. sq_TxCount db j i w = (Inl e, w') \<longrightarrow> snap w j \<noteq> None \<longrightarrow> snap w' = snap w)
   \<and> keeps rows (sq_TxCount db j)
   \<and> (\<forall>i w w'. sq_Exec db j i w = (None, w') \<longrightarrow> rows w' = (rows w)(j := rows w j + 1))
   \<and> (\<forall>i w e w'. sq_Exec db j i w = (Some e, w') \<longrightarrow> rows w' = rows w \<and> se_Error e \<noteq> ''ok'')
   \<and> keeps snap (sq_Exec db j)
   \<and> keeps mode (sq_Schema db j) \<and> keeps mode (sq_TxCount db j) \<and> keeps mode (sq_Exec db j))"

definition lock_law :: "'w sqlite \<Rightarrow> ('w \<Rightarrow> journal \<rightharpoonup> int) \<Rightarrow> ('w \<Rightarrow> journal \<rightharpoonup> string) \<Rightarrow> bool" where
  "lock_law db snap mode \<longleftrightarrow> (\<forall>j i w. mode w j = Some ''DELETE'' \<and> snap w j \<noteq> None \<longrightarrow> fst (sq_Exec db j i w) \<noteq> None)"

definition open_law :: "'w sqlite \<Rightarrow> ('w \<Rightarrow> journal \<Rightarrow> int) \<Rightarrow> ('w \<Rightarrow> journal \<rightharpoonup> int) \<Rightarrow> ('w \<Rightarrow> journal \<rightharpoonup> string) \<Rightarrow> bool" where
  "open_law db rows snap mode \<longleftrightarrow> (\<forall>j dsn i w w'. sq_Open db j dsn i w = (None, w') \<longrightarrow>
     mode w' = (mode w)(j := dsn_journal dsn) \<and> snap w' = (snap w)(j := None) \<and> (\<forall>k. k \<noteq> j \<longrightarrow> rows w' k = rows w k))"

definition frame_laws :: "'w sqlite \<Rightarrow> ('w \<Rightarrow> journal \<Rightarrow> int) \<Rightarrow> ('w \<Rightarrow> journal \<rightharpoonup> int) \<Rightarrow> ('w \<Rightarrow> journal \<rightharpoonup> string) \<Rightarrow> bool" where
  "frame_laws db rows snap mode \<longleftrightarrow> (\<forall>j. let view = (\<lambda>w. (rows w, snap w, mode w)) in
     keeps view (sq_Begin db j) \<and> keeps view (sq_Conn db j) \<and> keeps view (sq_Prepare db j)
     \<and> keeps view (sq_CloseStmt db j) \<and> keeps view (sq_CloseConn db j) \<and> keeps view (sq_Count db j)
     \<and> keeps view (sq_WalSize db j) \<and> keeps view (sq_Mode db j)
     \<and> (\<forall>n. keeps view (sq_SetConns db j n)) \<and> (\<forall>p. keeps view (sq_MkdirTemp db p)))"

definition sqlite_laws :: "'w sqlite \<Rightarrow> ('w \<Rightarrow> journal \<Rightarrow> int) \<Rightarrow> ('w \<Rightarrow> journal \<rightharpoonup> int) \<Rightarrow> ('w \<Rightarrow> journal \<rightharpoonup> string) \<Rightarrow> bool" where
  "sqlite_laws db rows snap mode \<longleftrightarrow> table_laws db rows snap mode \<and> lock_law db snap mode \<and> open_law db rows snap mode
     \<and> frame_laws db rows snap mode"

text \<open>The temporary directory's name has no question mark, so that it does not end the path of a DSN.\<close>

definition plain_temp :: "'w sqlite \<Rightarrow> bool" where
  "plain_temp db \<longleftrightarrow> (\<forall>p i w dir w'. sq_MkdirTemp db p i w = (Inr dir, w') \<longrightarrow> CHR ''?'' \<notin> set dir)"

text \<open>
  When the environment is calm, a call fails only for a lock. \<open>writing w j\<close> is that some connection is inside a write
  transaction. Nobody writes to a database that was just opened, and a statement outside a transaction has ended its own
  when it returns. A write needs the write lock, which nobody may hold, and with a rollback journal also that nobody reads;
  in WAL mode readers do not matter.
\<close>

definition writable :: "('w \<Rightarrow> journal \<rightharpoonup> int) \<Rightarrow> ('w \<Rightarrow> journal \<rightharpoonup> string) \<Rightarrow> ('w \<Rightarrow> journal \<Rightarrow> bool) \<Rightarrow> 'w \<Rightarrow> journal \<Rightarrow> bool" where
  "writable snap mode writing w j \<longleftrightarrow> \<not> writing w j \<and> (mode w j = Some ''WAL'' \<or> snap w j = None)"

definition calm_laws :: "'w sqlite \<Rightarrow> ('w \<Rightarrow> journal \<rightharpoonup> int) \<Rightarrow> ('w \<Rightarrow> journal \<rightharpoonup> string) \<Rightarrow> ('w \<Rightarrow> journal \<Rightarrow> bool) \<Rightarrow> bool" where
  "calm_laws db snap mode writing \<longleftrightarrow> (\<forall>i w j. calm i \<longrightarrow>
     (\<exists>dir w'. sq_MkdirTemp db ''wal-lab-'' i w = (Inr dir, w'))
     \<and> (\<forall>d. \<exists>w'. sq_Open db j d i w = (None, w') \<and> \<not> writing w' j)
     \<and> fst (sq_Begin db j i w) = None \<and> (\<exists>n w'. sq_TxCount db j i w = (Inr n, w'))
     \<and> fst (sq_Conn db j i w) = None \<and> fst (sq_Prepare db j i w) = None
     \<and> (writable snap mode writing w j \<longrightarrow> fst (sq_Schema db j i w) = None \<and> fst (sq_Exec db j i w) = None))
   \<and> (\<forall>j. keeps writing (sq_Schema db j) \<and> keeps writing (sq_Begin db j) \<and> keeps writing (sq_TxCount db j)
     \<and> keeps writing (sq_Conn db j) \<and> keeps writing (sq_Prepare db j))"

lemma frame_law:
  assumes "sqlite_laws db rows snap mode"
  shows "sq_Begin db j i w = (a, w') \<Longrightarrow> rows w' = rows w \<and> snap w' = snap w \<and> mode w' = mode w"
    "sq_Conn db j i w = (a', w') \<Longrightarrow> rows w' = rows w \<and> snap w' = snap w \<and> mode w' = mode w"
    "sq_Prepare db j i w = (a'', w') \<Longrightarrow> rows w' = rows w \<and> snap w' = snap w \<and> mode w' = mode w"
    "sq_CloseStmt db j i w = (u, w') \<Longrightarrow> rows w' = rows w \<and> snap w' = snap w \<and> mode w' = mode w"
    "sq_CloseConn db j i w = (a, w') \<Longrightarrow> rows w' = rows w \<and> snap w' = snap w \<and> mode w' = mode w"
    "sq_Count db j i w = (c, w') \<Longrightarrow> rows w' = rows w \<and> snap w' = snap w \<and> mode w' = mode w"
    "sq_WalSize db j i w = (z, w') \<Longrightarrow> rows w' = rows w \<and> snap w' = snap w \<and> mode w' = mode w"
    "sq_Mode db j i w = (m, w') \<Longrightarrow> rows w' = rows w \<and> snap w' = snap w \<and> mode w' = mode w"
    "sq_SetConns db j n i w = (u, w') \<Longrightarrow> rows w' = rows w \<and> snap w' = snap w \<and> mode w' = mode w"
    "sq_MkdirTemp db p i w = (m, w') \<Longrightarrow> rows w' = rows w \<and> snap w' = snap w \<and> mode w' = mode w"
  using assms unfolding sqlite_laws_def frame_laws_def keeps_def Let_def by (metis snd_conv prod.inject)+

lemma Exec_law:
  assumes "sqlite_laws db rows snap mode" "sq_Exec db j i w = (r, w')"
  shows "snap w' = snap w" "r = None \<Longrightarrow> rows w' = (rows w)(j := rows w j + 1)"
    "r = Some e \<Longrightarrow> rows w' = rows w \<and> se_Error e \<noteq> ''ok''"
    "r = None \<Longrightarrow> mode w j = Some ''DELETE'' \<Longrightarrow> snap w j = None" "mode w' = mode w"
  using assms unfolding sqlite_laws_def table_laws_def keeps_def lock_law_def by (metis fst_conv snd_conv)+

lemmas table_law = sqlite_laws_def [THEN iffD1, THEN conjunct1, unfolded table_laws_def, THEN spec]

lemma TxCount_law:
  assumes "sqlite_laws db rows snap mode" "sq_TxCount db j i w = (r, w')"
  shows "rows w' = rows w" "r = Inr n \<Longrightarrow> snap w' = (snap w)(j \<mapsto> n)"
    "r = Inr n \<Longrightarrow> snap w j = Some m \<Longrightarrow> n = m" "snap w j \<noteq> None \<Longrightarrow> snap w' = snap w" "mode w' = mode w"
proof -
  note t = table_law [OF assms(1), of j]
  show "rows w' = rows w" "mode w' = mode w" using t assms(2) unfolding keeps_def by (metis snd_conv)+
  have i: "r = Inr n \<Longrightarrow> snap w' = (snap w)(j \<mapsto> n) \<and> n = (case snap w j of None \<Rightarrow> rows w j | Some m \<Rightarrow> m)" for n
    using t assms(2) by blast
  then show "r = Inr n \<Longrightarrow> snap w' = (snap w)(j \<mapsto> n)" "r = Inr n \<Longrightarrow> snap w j = Some m \<Longrightarrow> n = m" by auto
  show "snap w' = snap w" if "snap w j \<noteq> None"
  proof (cases r)
    case (Inl e)
    with t assms(2) that show ?thesis by blast
  next
    case (Inr n)
    with i that show ?thesis by auto
  qed
qed

lemma Count_law: "sqlite_laws db rows snap mode \<Longrightarrow> sq_Count db j i w = (Inr n, w') \<Longrightarrow> n = rows w j"
  using table_law [of db rows snap mode j] by blast

lemma Schema_law:
  "sqlite_laws db rows snap mode \<Longrightarrow> sq_Schema db j i w = (None, w') \<Longrightarrow>
   rows w' = (rows w)(j := 1) \<and> snap w' = snap w \<and> mode w' = mode w"
  using table_law [of db rows snap mode j] unfolding keeps_def by (metis snd_conv)

lemma Open_law:
  "sqlite_laws db rows snap mode \<Longrightarrow> sq_Open db j dsn i w = (None, w') \<Longrightarrow>
   mode w' = (mode w)(j := dsn_journal dsn) \<and> snap w' = (snap w)(j := None) \<and> (\<forall>k. k \<noteq> j \<longrightarrow> rows w' k = rows w k)"
  unfolding sqlite_laws_def open_law_def by blast

subsection \<open>The journal mode of a DSN\<close>

lemma Itoa_chars: "c \<in> set (Itoa i) \<Longrightarrow> is_digit c \<or> c = CHR ''-''"
  by (auto simp: Itoa_def dest: decimal_digits split: if_splits)

lemma dsn_journal_DSN:
  assumes "CHR ''?'' \<notin> set path" "CHR ''&'' \<notin> set m"
  shows "dsn_journal (DSN path m ms) = Some m"
proof -
  let ?b = "''_pragma=busy_timeout('' @ Itoa ms @ '')''" and ?j = "''_pragma=journal_mode('' @ m @ '')''"
  have "CHR ''&'' \<notin> set (Itoa ms)" using Itoa_chars [of "CHR ''&''" ms] by (auto simp: is_digit_def less_eq_char_def)
  then have b: "split_on (CHR ''&'') (?b @ CHR ''&'' # ?j) = [?b, ?j]"
    using assms(2) by (subst split_on_append_sep) (simp_all add: split_on_no_sep)
  have cut: "Cut (DSN path m ms) ''?'' = (''file:'' @ path, ?b @ CHR ''&'' # ?j, True)"
    using Cut_first_char [of "CHR ''?''" "''file:'' @ path" "?b @ CHR ''&'' # ?j"] assms(1) by (simp add: DSN_def)
  have "CutPrefix ?b ''_pragma=journal_mode('' = (?b, False)" "CutPrefix ?j ''_pragma=journal_mode('' = (m @ '')'', True)"
    by (simp_all add: CutPrefix_def)
  moreover have "TrimSuffix (m @ '')'') '')'' = m" by (rule TrimSuffix_append)
  ultimately have "journal_pragma ?b = None" "journal_pragma ?j = Some m"
    unfolding journal_pragma_def by simp_all
  with b cut show ?thesis
    unfolding dsn_journal_def by (simp add: map_filter_simps)
qed

lemma set_join_pieces: "q \<in> set ps \<Longrightarrow> set q \<subseteq> set (join_with sep ps)"
  by (induction sep ps rule: join_with.induct) auto

lemma clean_segs_set: "set (clean_segs rooted st segs) \<subseteq> set st \<union> set segs \<union> {''..''}"
  by (induction rooted st segs rule: clean_segs.induct) (auto split: list.splits if_splits)

lemma Clean_chars: "c \<in> set (Clean p) \<Longrightarrow> c \<in> set p \<or> c = CHR ''/'' \<or> c = CHR ''.''"
proof -
  assume c: "c \<in> set (Clean p)"
  let ?out = "clean_segs (IsAbs p) [] (split_on (CHR ''/'') p)"
  have pieces: "set q \<subseteq> set p" if "q \<in> set (split_on (CHR ''/'') p)" for q
    using that join_split [of "CHR ''/''" p] set_join_pieces by metis
  have "set (join_with ''/'' ?out) \<subseteq> insert (CHR ''/'') (insert (CHR ''.'') (set p))"
    using set_join_with [of "''/''" ?out] clean_segs_set [of "IsAbs p" "[]" "split_on (CHR ''/'') p"] pieces by fastforce
  with c show ?thesis by (auto simp: Clean_def Let_def split: if_splits)
qed

lemma file_Join_plain: "CHR ''?'' \<notin> set dir \<Longrightarrow> CHR ''?'' \<notin> set name \<Longrightarrow> CHR ''?'' \<notin> set (file_Join dir name)"
  unfolding file_Join_def using Clean_chars [of "CHR ''?''" "dir @ ''/'' @ name"] by auto

lemma opened_mode:
  assumes "CHR ''?'' \<notin> set dir" "CHR ''?'' \<notin> set name"
  shows "dsn_journal (DSN (file_Join dir name) (journal_name j) ms) = Some (journal_name j)"
  by (rule dsn_journal_DSN [OF file_Join_plain [OF assms]]) (cases j; simp add: journal_name_def)

subsection \<open>A file with both modes\<close>

text \<open>
  An instance of the laws: two tables, each with its rows and what the open snapshot sees. Every
  call fails when the environment says so.
\<close>

record files =
  fl_rows :: "journal \<Rightarrow> int"
  fl_snap :: "journal \<rightharpoonup> int"
  fl_mode :: "journal \<rightharpoonup> string"

definition faulty :: "tick \<Rightarrow> 'w \<Rightarrow> string option \<times> 'w" where
  "faulty i w = (fault_err (tick_fault i), w)"

definition file_db :: "files sqlite" where
  "file_db = \<lparr>sq_MkdirTemp = \<lambda>p i w. (case fault_err (tick_fault i) of None \<Rightarrow> Inr ''/tmp/d1'' | Some e \<Rightarrow> Inl e, w),
     sq_RemoveAll = \<lambda>p. faulty,
     sq_Open = \<lambda>j d i w. (case fault_err (tick_fault i) of
         None \<Rightarrow> (None, w\<lparr>fl_mode := (fl_mode w)(j := dsn_journal d), fl_snap := (fl_snap w)(j := None)\<rparr>)
       | Some e \<Rightarrow> (Some e, w)),
     sq_SetConns = \<lambda>j n i w. ((), w),
     sq_Schema = \<lambda>j i w. (case fault_err (tick_fault i) of None \<Rightarrow> (None, w\<lparr>fl_rows := (fl_rows w)(j := 1)\<rparr>) | Some e \<Rightarrow> (Some e, w)),
     sq_Mode = \<lambda>j i w. (case fault_err (tick_fault i) of None \<Rightarrow> Inr (case fl_mode w j of None \<Rightarrow> ''DELETE'' | Some m \<Rightarrow> m) | Some e \<Rightarrow> Inl e, w),
     sq_Begin = \<lambda>j. faulty,
     sq_TxCount = \<lambda>j i w. (case fault_err (tick_fault i) of Some e \<Rightarrow> (Inl e, w)
       | None \<Rightarrow> (let n = (case fl_snap w j of None \<Rightarrow> fl_rows w j | Some m \<Rightarrow> m) in (Inr n, w\<lparr>fl_snap := (fl_snap w)(j \<mapsto> n)\<rparr>))),
     sq_Rollback = \<lambda>j i w. ((), w\<lparr>fl_snap := (fl_snap w)(j := None)\<rparr>),
     sq_Conn = \<lambda>j. faulty, sq_Prepare = \<lambda>j. faulty,
     sq_Exec = \<lambda>j i w. (case fault_err (tick_fault i) of
         Some e \<Rightarrow> (Some \<lparr>se_Error = ''write: '' @ e, se_Code = None\<rparr>, w)
       | None \<Rightarrow> if fl_mode w j = Some ''DELETE'' \<and> fl_snap w j \<noteq> None
           then (Some \<lparr>se_Error = ''database is locked (5) (SQLITE_BUSY)'', se_Code = Some 5\<rparr>, w)
           else (None, w\<lparr>fl_rows := (fl_rows w)(j := fl_rows w j + 1)\<rparr>)),
     sq_CloseStmt = \<lambda>j i w. ((), w), sq_CloseConn = \<lambda>j. faulty,
     sq_Count = \<lambda>j i w. (case fault_err (tick_fault i) of None \<Rightarrow> Inr (fl_rows w j) | Some e \<Rightarrow> Inl e, w),
     sq_WalSize = \<lambda>j i w. (if j = WAL then Some 4152 else None, w), sq_Close = \<lambda>j i w. ((), w)\<rparr>"

lemma file_db_laws: "sqlite_laws file_db fl_rows fl_snap fl_mode" "plain_temp file_db"
  by (auto simp: sqlite_laws_def table_laws_def lock_law_def open_law_def frame_laws_def keeps_def file_db_def faulty_def Let_def
      plain_temp_def split: option.splits if_splits)

lemma file_db_calm: "calm_laws file_db fl_snap fl_mode (\<lambda>_ _. False)"
  by (auto simp: calm_laws_def file_db_def faulty_def calm_def fault_err_def Let_def keeps_def writable_def)

definition calm_tick :: tick where
  "calm_tick = \<lparr>tick_fault = Fine, tick_clock = 0\<rparr>"

end
