(* ===== verification/Sqlite_Server.thy ===== *)
theory Sqlite_Server
  imports Sqlite_WAL
begin

section \<open>The SQLite adapter\<close>

text \<open>
  What concurrent requests to \<^verbatim>\<open>lessons/go/sqlite-wal-lab/perf\<close> can rely on, for every driver that
  keeps \<open>sqlite_laws\<close>: the tables, the counters and the held snapshots fit together at every moment; and what setting up the two
  databases establishes.
\<close>

definition pending_on :: "journal \<Rightarrow> 'w wal_server \<Rightarrow> nat" where
  "pending_on j s = length (filter (\<lambda>p. snd p = j) (ws_pending s))"

definition mine :: "nat \<Rightarrow> 'w wal_server \<Rightarrow> (nat \<times> journal) list" where
  "mine n s = filter (\<lambda>p. fst p = n) (ws_pending s)"

definition wal_inv :: "('w \<Rightarrow> journal \<Rightarrow> int) \<Rightarrow> ('w \<Rightarrow> journal \<rightharpoonup> int) \<Rightarrow> ('w \<Rightarrow> journal \<rightharpoonup> string) \<Rightarrow> (journal \<Rightarrow> int) \<Rightarrow> 'w wal_server \<Rightarrow> bool" where
  "wal_inv rows snap mode seed s \<longleftrightarrow> (\<forall>j. rows (ws_world s) j = seed j + ws_ok s j + int (pending_on j s)
     \<and> snap (ws_world s) j = Some (seed j)) \<and> ws_ok s DELETE = 0 \<and> pending_on DELETE s = 0
     \<and> mode (ws_world s) DELETE = Some ''DELETE''"

definition wal_rely :: "('w \<Rightarrow> journal \<Rightarrow> int) \<Rightarrow> ('w \<Rightarrow> journal \<rightharpoonup> int) \<Rightarrow> ('w \<Rightarrow> journal \<rightharpoonup> string) \<Rightarrow> (journal \<Rightarrow> int) \<Rightarrow> nat
    \<Rightarrow> 'w wal_server \<Rightarrow> 'w wal_server \<Rightarrow> bool" where
  "wal_rely rows snap mode seed n s s' \<longleftrightarrow> (wal_inv rows snap mode seed s \<longrightarrow> wal_inv rows snap mode seed s') \<and> mine n s' = mine n s"

definition wal_guar :: "('w \<Rightarrow> journal \<Rightarrow> int) \<Rightarrow> ('w \<Rightarrow> journal \<rightharpoonup> int) \<Rightarrow> ('w \<Rightarrow> journal \<rightharpoonup> string) \<Rightarrow> (journal \<Rightarrow> int) \<Rightarrow> nat
    \<Rightarrow> 'w wal_server \<Rightarrow> 'w wal_server \<Rightarrow> bool" where
  "wal_guar rows snap mode seed n s s' \<longleftrightarrow> (wal_inv rows snap mode seed s \<longrightarrow> wal_inv rows snap mode seed s')
     \<and> (\<forall>m. m \<noteq> n \<longrightarrow> mine m s' = mine m s)"

interpretation wal: rely_guarantee "\<lambda>n s s'. wal_rely rows snap mode seed n (snd s) (snd s')"
    "\<lambda>n s s'. wal_guar rows snap mode seed n (snd s) (snd s')" "\<lambda>_ _ _. False" for rows snap mode seed
  by unfold_locales (auto simp: wal_rely_def wal_guar_def)

abbreviation wal_safe :: "('w \<Rightarrow> journal \<Rightarrow> int) \<Rightarrow> ('w \<Rightarrow> journal \<rightharpoonup> int) \<Rightarrow> ('w \<Rightarrow> journal \<rightharpoonup> string) \<Rightarrow> (journal \<Rightarrow> int) \<Rightarrow> nat
    \<Rightarrow> ('a \<Rightarrow> 'w wal_server \<Rightarrow> bool) \<Rightarrow> (tick, 'w wal_server, 'a) thread \<Rightarrow> 'w wal_server \<Rightarrow> bool" where
  "wal_safe rows snap mode seed n \<equiv> safe (wal_rely rows snap mode seed n) (wal_guar rows snap mode seed n) (\<lambda>_ _. False)"

text \<open>\<open>owes n ps s\<close>: the invariant holds and \<open>ps\<close> are the writes of request \<open>n\<close> still to be counted.\<close>

definition owes :: "('w \<Rightarrow> journal \<Rightarrow> int) \<Rightarrow> ('w \<Rightarrow> journal \<rightharpoonup> int) \<Rightarrow> ('w \<Rightarrow> journal \<rightharpoonup> string) \<Rightarrow> (journal \<Rightarrow> int) \<Rightarrow> nat \<Rightarrow> (nat \<times> journal) list
    \<Rightarrow> 'w wal_server \<Rightarrow> bool" where
  "owes rows snap mode seed n ps s \<longleftrightarrow> wal_inv rows snap mode seed s \<and> mine n s = ps"

lemma owes_rely: "owes rows snap mode seed n ps s \<Longrightarrow> wal_rely rows snap mode seed n s s' \<Longrightarrow> owes rows snap mode seed n ps s'"
  by (simp add: owes_def wal_rely_def)

lemma wal_step:
  assumes "owes rows snap mode seed n ps s"
    and "\<And>i s b s'. owes rows snap mode seed n ps s \<Longrightarrow> f i s = (b, s') \<Longrightarrow> wal_guar rows snap mode seed n s s' \<and> wal_safe rows snap mode seed n Q (k b) s'"
  shows "wal_safe rows snap mode seed n Q (atomically f k) s"
  by (rule safe_atomically) (use assms owes_rely in blast)

lemma wal_done:
  "owes rows snap mode seed n [] s \<Longrightarrow> P a \<Longrightarrow> wal_safe rows snap mode seed n (\<lambda>a s. owes rows snap mode seed n [] s \<and> P a) (Done a) s"
  by (rule safe_Done) (blast intro: owes_rely)

lemma frame_owes:
  assumes "owes rows snap mode seed n ps s" "rows (ws_world s') = rows (ws_world s)" "snap (ws_world s') = snap (ws_world s)" "mode (ws_world s') = mode (ws_world s)"
    "ws_ok s' = ws_ok s" "ws_pending s' = ws_pending s"
  shows "wal_guar rows snap mode seed n s s' \<and> owes rows snap mode seed n ps s'"
  using assms by (simp add: owes_def wal_guar_def wal_inv_def pending_on_def mine_def)

lemma wal_frame:
  assumes "owes rows snap mode seed n ps s"
    and "\<And>i s b s'. owes rows snap mode seed n ps s \<Longrightarrow> f i s = (b, s') \<Longrightarrow> rows (ws_world s') = rows (ws_world s)
      \<and> snap (ws_world s') = snap (ws_world s) \<and> mode (ws_world s') = mode (ws_world s) \<and> ws_ok s' = ws_ok s \<and> ws_pending s' = ws_pending s"
    and "\<And>i s0 b s. owes rows snap mode seed n ps s0 \<Longrightarrow> f i s0 = (b, s) \<Longrightarrow> owes rows snap mode seed n ps s \<Longrightarrow> wal_safe rows snap mode seed n Q (k b) s"
  shows "wal_safe rows snap mode seed n Q (atomically f k) s"
proof (rule wal_step [OF assms(1)])
  fix i s b s'
  assume s: "owes rows snap mode seed n ps s" "f i s = (b, s')"
  have "wal_guar rows snap mode seed n s s' \<and> owes rows snap mode seed n ps s'"
    using assms(2) [OF s] by (intro frame_owes [OF s(1)]) simp_all
  with assms(3) [OF s] show "wal_guar rows snap mode seed n s s' \<and> wal_safe rows snap mode seed n Q (k b) s'" by blast
qed

lemma on_db_frame:
  assumes "sqlite_laws db rows snap mode"
  shows "sq_Conn (db_of m db) j i s = (a, s') \<Longrightarrow> rows (ws_world s') = rows (ws_world s) \<and> snap (ws_world s') = snap (ws_world s) \<and> mode (ws_world s') = mode (ws_world s) \<and> ws_ok s' = ws_ok s \<and> ws_pending s' = ws_pending s"
    "sq_Prepare (db_of m db) j i s = (a, s') \<Longrightarrow> rows (ws_world s') = rows (ws_world s) \<and> snap (ws_world s') = snap (ws_world s) \<and> mode (ws_world s') = mode (ws_world s) \<and> ws_ok s' = ws_ok s \<and> ws_pending s' = ws_pending s"
    "sq_CloseStmt (db_of m db) j i s = (u, s') \<Longrightarrow> rows (ws_world s') = rows (ws_world s) \<and> snap (ws_world s') = snap (ws_world s) \<and> mode (ws_world s') = mode (ws_world s) \<and> ws_ok s' = ws_ok s \<and> ws_pending s' = ws_pending s"
    "sq_CloseConn (db_of m db) j i s = (a, s') \<Longrightarrow> rows (ws_world s') = rows (ws_world s) \<and> snap (ws_world s') = snap (ws_world s) \<and> mode (ws_world s') = mode (ws_world s) \<and> ws_ok s' = ws_ok s \<and> ws_pending s' = ws_pending s"
    "sq_Count (db_of m db) j i s = (c, s') \<Longrightarrow> rows (ws_world s') = rows (ws_world s) \<and> snap (ws_world s') = snap (ws_world s) \<and> mode (ws_world s') = mode (ws_world s) \<and> ws_ok s' = ws_ok s \<and> ws_pending s' = ws_pending s"
    "sq_WalSize (db_of m db) j i s = (z, s') \<Longrightarrow> rows (ws_world s') = rows (ws_world s) \<and> snap (ws_world s') = snap (ws_world s) \<and> mode (ws_world s') = mode (ws_world s) \<and> ws_ok s' = ws_ok s \<and> ws_pending s' = ws_pending s"
    "time_Now i s = (t, s') \<Longrightarrow> rows (ws_world s') = rows (ws_world s) \<and> snap (ws_world s') = snap (ws_world s) \<and> mode (ws_world s') = mode (ws_world s) \<and> ws_ok s' = ws_ok s \<and> ws_pending s' = ws_pending s"
  by (auto simp: db_of_def on_db_def time_Now_def dest: frame_law [OF assms] split: prod.splits)

definition wrote :: "nat \<Rightarrow> journal \<Rightarrow> (string, WriteResult) result \<Rightarrow> (nat \<times> journal) list" where
  "wrote n j r = (case r of Inl e \<Rightarrow> [] | Inr wr \<Rightarrow> (if WriteErr wr = None then [(n, j)] else []))"

lemma exec_owes:
  assumes "sqlite_laws db rows snap mode" "owes rows snap mode seed n [] s" "exec_on n db j i s = (r, s')"
  shows "wal_guar rows snap mode seed n s s' \<and> owes rows snap mode seed n (if r = None then [(n, j)] else []) s'"
proof (cases "sq_Exec db j i (ws_world s)")
  case (Pair q w)
  note law = Exec_law [OF assms(1) Pair]
  have snap: "snap (ws_world s) DELETE \<noteq> None" "mode (ws_world s) DELETE = Some ''DELETE''"
    using assms(2) by (auto simp: owes_def wal_inv_def)
  show ?thesis
  proof (cases q)
    case None
    with law(4) snap have j: "j = WAL" by (cases j) auto
    with None Pair assms(2,3) law(1,5) law(2) [OF None] show ?thesis
      by (auto simp: exec_on_def owes_def wal_guar_def wal_inv_def pending_on_def mine_def)
  next
    case (Some e)
    with Pair assms(3) have r: "r = Some e" "s' = s\<lparr>ws_world := w\<rparr>" by (simp_all add: exec_on_def)
    have "wal_guar rows snap mode seed n s s' \<and> owes rows snap mode seed n [] s'"
      by (rule frame_owes [OF assms(2)]) (use r law(1,5) law(3) [OF Some] in simp_all)
    with r show ?thesis by simp
  qed
qed

lemma WriteEvent_safe:
  assumes laws: "sqlite_laws db rows snap mode" and s: "owes rows snap mode seed n [] s"
  shows "wal_safe rows snap mode seed n (\<lambda>r s. owes rows snap mode seed n (wrote n j r) s) (WriteEvent (db_of n db) j) s"
proof -
  let ?Q = "\<lambda>r s. owes rows snap mode seed n (wrote n j r) s"
  note frames = on_db_frame [OF laws]
  have ret: "wal_safe rows snap mode seed n ?Q (Done r) s" if "owes rows snap mode seed n (wrote n j r) s" for r s
    by (rule safe_Done) (use that in \<open>blast intro: owes_rely\<close>)
  have stop: "wal_safe rows snap mode seed n ?Q (Done (Inl e)) s" if "owes rows snap mode seed n [] s" for e s
    by (rule ret) (use that in \<open>simp add: wrote_def\<close>)
  have finish: "wal_safe rows snap mode seed n ?Q (atomically time_Now (\<lambda>now. atomically (sq_CloseStmt (db_of n db) j) (\<lambda>_.
     atomically (sq_CloseConn (db_of n db) j) (\<lambda>_. Done (Inr \<lparr>Elapsed = now - start, WriteErr = r\<rparr>))))) s"
    if "owes rows snap mode seed n (if r = None then [(n, j)] else []) s" for start r s
    by (rule wal_frame [OF that frames(7)], assumption, rule wal_frame [OF _ frames(3)], assumption+,
        rule wal_frame [OF _ frames(4)], assumption+, rule ret) (simp add: wrote_def)
  have exec: "wal_safe rows snap mode seed n ?Q (atomically (sq_Exec (db_of n db) j) (\<lambda>r. atomically time_Now (\<lambda>now.
     atomically (sq_CloseStmt (db_of n db) j) (\<lambda>_. atomically (sq_CloseConn (db_of n db) j) (\<lambda>_.
       Done (Inr \<lparr>Elapsed = now - start, WriteErr = r\<rparr>)))))) s" if "owes rows snap mode seed n [] s" for start s
    by (rule wal_step [OF that]) (use exec_owes [OF laws] finish in \<open>auto simp: db_of_def\<close>)
  have timed: "wal_safe rows snap mode seed n ?Q (atomically time_Now (\<lambda>start. atomically (sq_Exec (db_of n db) j) (\<lambda>r. atomically time_Now (\<lambda>now.
     atomically (sq_CloseStmt (db_of n db) j) (\<lambda>_. atomically (sq_CloseConn (db_of n db) j) (\<lambda>_.
       Done (Inr \<lparr>Elapsed = now - start, WriteErr = r\<rparr>))))))) s" if "owes rows snap mode seed n [] s" for s
    by (rule wal_frame [OF that frames(7)], assumption, rule exec)
  have close: "wal_safe rows snap mode seed n ?Q (atomically (sq_CloseConn (db_of n db) j) (\<lambda>_. Done (Inl e))) s"
    if "owes rows snap mode seed n [] s" for e s
    by (rule wal_frame [OF that frames(4)], assumption, rule stop)
  show ?thesis unfolding WriteEvent_def
  proof (rule wal_frame [OF s frames(1)])
    fix i r s1
    assume s1: "owes rows snap mode seed n [] s1"
    have "wal_safe rows snap mode seed n ?Q (atomically (sq_Prepare (db_of n db) j) (\<lambda>err. case err of
         Some e \<Rightarrow> atomically (sq_CloseConn (db_of n db) j) (\<lambda>_. Done (Inl e))
       | None \<Rightarrow> atomically time_Now (\<lambda>start. atomically (sq_Exec (db_of n db) j) (\<lambda>err. atomically time_Now (\<lambda>now.
           atomically (sq_CloseStmt (db_of n db) j) (\<lambda>_. atomically (sq_CloseConn (db_of n db) j) (\<lambda>_.
           Done (Inr \<lparr>Elapsed = now - start, WriteErr = err\<rparr>)))))))) s1"
      by (rule wal_frame [OF s1 frames(2)]) (use timed close in \<open>auto split: option.splits\<close>)
    with s1 show "wal_safe rows snap mode seed n ?Q (case r of
       Some e \<Rightarrow> Done (Inl e)
     | None \<Rightarrow> atomically (sq_Prepare (db_of n db) j) (\<lambda>err. case err of
         Some e \<Rightarrow> atomically (sq_CloseConn (db_of n db) j) (\<lambda>_. Done (Inl e))
       | None \<Rightarrow> atomically time_Now (\<lambda>start. atomically (sq_Exec (db_of n db) j) (\<lambda>err. atomically time_Now (\<lambda>now.
           atomically (sq_CloseStmt (db_of n db) j) (\<lambda>_. atomically (sq_CloseConn (db_of n db) j) (\<lambda>_.
           Done (Inr \<lparr>Elapsed = now - start, WriteErr = err\<rparr>)))))))) s1"
      by (cases r) (simp_all add: stop)
  qed
qed

definition reply_field :: "jvalue \<Rightarrow> string \<Rightarrow> jvalue option" where
  "reply_field v name = (case v of JObject fs \<Rightarrow> map_of fs name | _ \<Rightarrow> None)"

text \<open>
  What an answer with status 200 tells: a write to the database with a rollback journal was locked;
  a row of the statistics has the seed rows in its snapshot, and no write for that database.
\<close>

definition write_reply :: "Response \<Rightarrow> bool" where
  "write_reply resp \<longleftrightarrow> (resp_status resp = 200 \<longrightarrow>
     (reply_field (resp_body resp) ''variant'' = Some (JString ''DELETE'') \<longrightarrow>
        reply_field (resp_body resp) ''outcome'' = Some (JString ''locked'')))"

definition stats_row_ok :: "(journal \<Rightarrow> int) \<Rightarrow> journal \<Rightarrow> jvalue \<Rightarrow> bool" where
  "stats_row_ok seed j v \<longleftrightarrow> reply_field v ''snapshot_rows'' = Some (JInt (seed j))
     \<and> (\<exists>ok. reply_field v ''writes_ok'' = Some (JInt ok) \<and> reply_field v ''expected_rows'' = Some (JInt (seed j + ok))
        \<and> (j = DELETE \<longrightarrow> ok = 0 \<and> reply_field v ''rows'' = Some (JInt (seed j))))"

definition stats_answer_ok :: "(journal \<Rightarrow> int) \<Rightarrow> Response \<Rightarrow> bool" where
  "stats_answer_ok seed resp \<longleftrightarrow> (resp_status resp = 200 \<longrightarrow>
     (\<exists>a b. resp_body resp = JObject [(''variants'', JArray [a, b])] \<and> stats_row_ok seed DELETE a \<and> stats_row_ok seed WAL b))"

lemma length_filter_remove1:
  "x \<in> set xs \<Longrightarrow> int (length (filter P (remove1 x xs))) = int (length (filter P xs)) - (if P x then 1 else 0)"
  by (induction xs) auto

lemma ok_Add_owes:
  assumes "owes rows snap mode seed n [(n, j)] s" "ok_Add n j i s = (u, s')"
  shows "wal_guar rows snap mode seed n s s' \<and> owes rows snap mode seed n [] s' \<and> j = WAL"
proof -
  have in_p: "(n, j) \<in> set (ws_pending s)" using assms(1) by (force simp: owes_def mine_def filter_eq_Cons_iff)
  have j: "j = WAL"
    using assms(1) in_p by (cases j) (auto simp: owes_def wal_inv_def pending_on_def filter_empty_conv)
  have "int (length (filter (\<lambda>p. snd p = k) (remove1 (n, j) (ws_pending s))))
      = int (length (filter (\<lambda>p. snd p = k) (ws_pending s))) - (if k = j then 1 else 0)" for k
    using length_filter_remove1 [OF in_p, of "\<lambda>p. snd p = k"] by auto
  moreover have "filter (\<lambda>p. fst p = m) (remove1 (n, j) (ws_pending s)) = (if m = n then [] else filter (\<lambda>p. fst p = m) (ws_pending s))" for m
    using assms(1) by (auto simp: filter_remove1 owes_def mine_def remove1_idem)
  ultimately show ?thesis
    using assms j by (auto simp: ok_Add_def owes_def wal_guar_def wal_inv_def pending_on_def mine_def) (auto simp: filter_remove1)
qed

lemma wal_answer_safe:
  assumes "owes rows snap mode seed n (wrote n j r) s"
  shows "wal_safe rows snap mode seed n (\<lambda>resp s. owes rows snap mode seed n [] s \<and> write_reply resp) (wal_answer n j r) s"
proof -
  let ?Q = "\<lambda>resp s. owes rows snap mode seed n [] s \<and> write_reply resp"
  have add: "wal_safe rows snap mode seed n ?Q (atomically (writes_failed_Add j) (\<lambda>_. Done resp)) s"
    "wal_safe rows snap mode seed n ?Q (atomically (locked_Add j) (\<lambda>_. Done resp)) s"
    if "owes rows snap mode seed n [] s" "write_reply resp" for s resp
    by (rule wal_frame [OF that(1)]; auto simp: writes_failed_Add_def locked_Add_def intro: wal_done that(2))+
  have ok: "wal_safe rows snap mode seed n ?Q (atomically (ok_Add n j) (\<lambda>_. Done (JSON 200 (JObject
           [(''variant'', JString (journal_name j)), (''outcome'', JString ''ok''), (''elapsed_ms'', JMs t)])))) s"
    if "owes rows snap mode seed n [(n, j)] s" for t s
    by (rule wal_step [OF that]) (auto dest!: ok_Add_owes intro!: wal_done simp: write_reply_def reply_field_def JSON_def journal_name_def)
  show ?thesis
  proof (cases r)
    case (Inl e)
    with assms add(1) show ?thesis by (simp add: wal_answer_def wrote_def write_reply_def Fail_def JSON_def)
  next
    case (Inr wr)
    with assms add ok show ?thesis
      by (cases "WriteErr wr") (auto simp: wal_answer_def wrote_def write_reply_def Fail_def JSON_def reply_field_def)
  qed
qed

lemma wal_operation_safe:
  assumes "sqlite_laws db rows snap mode" "owes rows snap mode seed n [] s"
  shows "wal_safe rows snap mode seed n (\<lambda>resp s. owes rows snap mode seed n [] s \<and> write_reply resp) (wal_operation db n name) s"
proof (cases "journal_of name")
  case None
  with assms(2) show ?thesis by (simp add: wal_operation_def wal_done write_reply_def Fail_def JSON_def)
next
  case (Some j)
  have "wal_safe rows snap mode seed n (\<lambda>resp s. owes rows snap mode seed n [] s \<and> write_reply resp)
    (and_then (WriteEvent (db_of n db) j) (wal_answer n j)) s"
    by (rule safe_and_then [OF WriteEvent_safe [OF assms]]) (auto simp: wal_rely_def intro: wal_answer_safe)
  with Some show ?thesis by (simp add: wal_operation_def)
qed

lemma variant_stats_safe:
  assumes "sqlite_laws db rows snap mode" "owes rows snap mode seed n [] s" "ov_seedRows v = seed j"
  shows "wal_safe rows snap mode seed n (\<lambda>r s. owes rows snap mode seed n [] s \<and> (\<forall>row. r = Inr row \<longrightarrow> stats_row_ok seed j row))
     (variant_stats db n j v) s"
proof -
  let ?Q = "\<lambda>r s. owes rows snap mode seed n [] s \<and> (\<forall>row. r = Inr row \<longrightarrow> stats_row_ok seed j row)"
  note frames = on_db_frame [OF assms(1)]
  let ?row = "\<lambda>count snapshot size ok locked failed. JObject
             [(''variant'', JString (journal_name j)), (''journal_mode'', JString (ov_journalMode v)),
              (''writes_ok'', JInt ok), (''writes_locked'', JInt locked), (''writes_failed'', JInt failed),
              (''seed_rows'', JInt (ov_seedRows v)), (''expected_rows'', JInt (ov_seedRows v + ok)),
              (''rows'', JInt count), (''snapshot_rows'', JInt snapshot),
              (''wal_bytes'', JInt (case size of None \<Rightarrow> 0 | Some b \<Rightarrow> b))]"
  have stop: "wal_safe rows snap mode seed n ?Q (Done (Inl e)) s" if "owes rows snap mode seed n [] s" for e s
    using that by (intro wal_done) auto
  have row: "stats_row_ok seed j (?row c (seed j) size ok locked failed)" if "j = DELETE \<longrightarrow> ok = 0 \<and> c = seed j" for c size ok locked failed
    using that assms(3) by (simp add: stats_row_ok_def reply_field_def)
  have load: "wal_safe rows snap mode seed n ?Q (atomically (\<lambda>i s. (ws_ok s j, s)) (\<lambda>ok.
           atomically (\<lambda>i s. (ws_locked s j, s)) (\<lambda>locked.
           atomically (\<lambda>i s. (ws_failed s j, s)) (\<lambda>failed. Done (Inr (?row c (seed j) size ok locked failed)))))) s"
    if "owes rows snap mode seed n [] s" "j = DELETE \<longrightarrow> c = seed j" for c size s
  proof (rule wal_frame [OF that(1)])
    fix i ok and s0 s :: "'a wal_server"
    assume o: "owes rows snap mode seed n [] s0" "(ws_ok s0 j, s0) = (ok, s)" "owes rows snap mode seed n [] s"
    then have "j = DELETE \<longrightarrow> ok = 0" by (auto simp: owes_def wal_inv_def)
    with that(2) row show "wal_safe rows snap mode seed n ?Q (atomically (\<lambda>i s. (ws_locked s j, s)) (\<lambda>locked.
           atomically (\<lambda>i s. (ws_failed s j, s)) (\<lambda>failed. Done (Inr (?row c (seed j) size ok locked failed))))) s"
      by (intro wal_frame [OF o(3)] wal_frame wal_done) auto
  qed auto
  have size: "wal_safe rows snap mode seed n ?Q (atomically (sq_WalSize (db_of n db) j) (\<lambda>size. atomically (\<lambda>i s. (ws_ok s j, s)) (\<lambda>ok.
           atomically (\<lambda>i s. (ws_locked s j, s)) (\<lambda>locked.
           atomically (\<lambda>i s. (ws_failed s j, s)) (\<lambda>failed. Done (Inr (?row c (seed j) size ok locked failed))))))) s"
    if "owes rows snap mode seed n [] s" "j = DELETE \<longrightarrow> c = seed j" for c s
    by (rule wal_frame [OF that(1) frames(6)], assumption, rule load) (use that(2) in simp_all)
  have tx: "rows (ws_world s') = rows (ws_world s) \<and> snap (ws_world s') = snap (ws_world s) \<and> mode (ws_world s') = mode (ws_world s) \<and> ws_ok s' = ws_ok s
      \<and> ws_pending s' = ws_pending s \<and> (\<forall>m. r = Inr m \<longrightarrow> m = seed j)"
    if "owes rows snap mode seed n [] s" "sq_TxCount (db_of n db) j i s = (r, s')" for i s r s'
  proof -
    from that(2) obtain w' where w: "sq_TxCount db j i (ws_world s) = (r, w')" "s' = s\<lparr>ws_world := w'\<rparr>"
      by (auto simp: db_of_def on_db_def split: prod.splits)
    have "snap (ws_world s) j = Some (seed j)" using that(1) by (simp add: owes_def wal_inv_def)
    with TxCount_law [OF assms(1) w(1)] w(2) show ?thesis by auto
  qed
  have count: "j = DELETE \<longrightarrow> c = seed j" if "owes rows snap mode seed n [] s" "sq_Count (db_of n db) j i s = (Inr c, s')" for i s c s'
  proof -
    from that(2) obtain w' where "sq_Count db j i (ws_world s) = (Inr c, w')"
      by (auto simp: db_of_def on_db_def split: prod.splits)
    from Count_law [OF assms(1) this] that(1) show ?thesis by (auto simp: owes_def wal_inv_def)
  qed
  show ?thesis unfolding variant_stats_def
  proof (rule wal_frame [OF assms(2) frames(5)])
    fix i r and s0 s1 :: "'a wal_server"
    assume s: "owes rows snap mode seed n [] s0" "sq_Count (db_of n db) j i s0 = (r, s1)" "owes rows snap mode seed n [] s1"
    show "wal_safe rows snap mode seed n ?Q (case r of Inl e \<Rightarrow> Done (Inl e)
       | Inr c \<Rightarrow> atomically (sq_TxCount (db_of n db) j) (\<lambda>r. case r of
           Inl e \<Rightarrow> Done (Inl e)
         | Inr snapshotRows \<Rightarrow> atomically (sq_WalSize (db_of n db) j) (\<lambda>size. atomically (\<lambda>i s. (ws_ok s j, s)) (\<lambda>ok.
           atomically (\<lambda>i s. (ws_locked s j, s)) (\<lambda>locked.
           atomically (\<lambda>i s. (ws_failed s j, s)) (\<lambda>failed. Done (Inr (?row c snapshotRows size ok locked failed)))))))) s1"
    proof (cases r)
      case (Inr c)
      with count s have c: "j = DELETE \<longrightarrow> c = seed j" by blast
      show ?thesis unfolding Inr sum.case
        by (rule wal_frame [OF s(3)]) (use tx stop size [OF _ c] in \<open>fastforce split: sum.splits\<close>)+
    qed (simp add: stop s)
  qed
qed

lemma wal_stats_safe:
  assumes "sqlite_laws db rows snap mode" "owes rows snap mode seed n [] s" "\<And>j. ov_seedRows (vs j) = seed j"
  shows "wal_safe rows snap mode seed n (\<lambda>resp s. owes rows snap mode seed n [] s \<and> stats_answer_ok seed resp) (wal_stats db vs n) s"
proof -
  let ?Q = "\<lambda>resp s. owes rows snap mode seed n [] s \<and> stats_answer_ok seed resp"
  have fail: "wal_safe rows snap mode seed n ?Q (Done (Fail 503 e)) s" if "owes rows snap mode seed n [] s" for e s
    using that by (intro wal_done) (simp_all add: stats_answer_ok_def Fail_def JSON_def)
  have second: "wal_safe rows snap mode seed n ?Q (and_then (variant_stats db n WAL (vs WAL)) (\<lambda>r. case r of
         Inl e \<Rightarrow> Done (Fail 503 (''WAL: '' @ e))
       | Inr b \<Rightarrow> Done (JSON 200 (JObject [(''variants'', JArray [a, b])])))) s"
    if "owes rows snap mode seed n [] s" "stats_row_ok seed DELETE a" for a s
    by (rule safe_and_then [OF variant_stats_safe [OF assms(1) that(1) assms(3)]])
      (use that(2) fail in \<open>auto simp: wal_rely_def stats_answer_ok_def JSON_def intro!: wal_done split: sum.splits\<close>)
  show ?thesis unfolding wal_stats_def
    by (rule safe_and_then [OF variant_stats_safe [OF assms(1,2,3)]])
      (use fail second in \<open>auto simp: wal_rely_def split: sum.splits\<close>)
qed

definition wal_reply :: "(journal \<Rightarrow> int) \<Rightarrow> wal_request \<Rightarrow> Response \<Rightarrow> bool" where
  "wal_reply seed r resp \<longleftrightarrow> (case r of WriteRequest name \<Rightarrow> write_reply resp | WalStats \<Rightarrow> stats_answer_ok seed resp)"

lemma wal_handle_safe:
  assumes "sqlite_laws db rows snap mode" "owes rows snap mode seed n [] (snd s)" "\<And>j. ov_seedRows (vs j) = seed j"
  shows "safe (\<lambda>s s'. wal_rely rows snap mode seed n (snd s) (snd s')) (\<lambda>s s'. wal_guar rows snap mode seed n (snd s) (snd s'))
    (\<lambda>_ _. False) (\<lambda>resp s. owes rows snap mode seed n [] (snd s) \<and> wal_reply seed r resp) (wal_handle db vs n r) s"
proof (cases r)
  case (WriteRequest name)
  let ?S = "safe (\<lambda>s s'. wal_rely rows snap mode seed n (snd s) (snd s')) (\<lambda>s s'. wal_guar rows snap mode seed n (snd s) (snd s'))
    (\<lambda>(_ :: tick) _. False) (\<lambda>resp s. owes rows snap mode seed n [] (snd s) \<and> write_reply resp)"
  have inner: "?S (zoom snd (\<lambda>w s. (fst s, w)) (wal_operation db n name)) s" if "owes rows snap mode seed n [] (snd s)" for s :: "64 word \<times> 'a wal_server"
    using wal_operation_safe [OF assms(1) that] by (rule safe_zoom) simp_all
  have stop: "?S (Done (Fail 429 ''run limit reached'')) s" if "owes rows snap mode seed n [] (snd s)" for s :: "64 word \<times> 'a wal_server"
    by (rule safe_Done) (use that in \<open>auto simp: write_reply_def Fail_def JSON_def intro: owes_rely\<close>)
  have "?S (Limit 10000 (wal_operation db n name)) s"
    unfolding Limit_def
  proof (rule safe_atomically)
    fix s1 i b and s2 :: "64 word \<times> 'a wal_server"
    assume r: "wal_rely rows snap mode seed n (snd s) (snd s1)" "served_Add i s1 = (b, s2)"
    then have e: "snd s2 = snd s1" "owes rows snap mode seed n [] (snd s2)"
      using owes_rely [OF assms(2)] by (auto simp: served_Add_def)
    then show "wal_guar rows snap mode seed n (snd s1) (snd s2) \<and> ?S (if b > 10000 then Done (Fail 429 ''run limit reached'')
       else zoom snd (\<lambda>w s. (fst s, w)) (wal_operation db n name)) s2"
      using inner [OF e(2)] stop [OF e(2)] by (simp add: wal_guar_def)
  qed
  with WriteRequest show ?thesis by (simp add: wal_handle_def wal_reply_def)
next
  case WalStats
  have "safe (\<lambda>s s'. wal_rely rows snap mode seed n (snd s) (snd s')) (\<lambda>s s'. wal_guar rows snap mode seed n (snd s) (snd s'))
    (\<lambda>_ _. False) (\<lambda>resp s. owes rows snap mode seed n [] (snd s) \<and> stats_answer_ok seed resp)
    (zoom snd (\<lambda>w s. (fst s, w)) (wal_stats db vs n)) s"
    using wal_stats_safe [OF assms] by (rule safe_zoom) simp_all
  with WalStats show ?thesis by (simp add: wal_handle_def wal_reply_def)
qed

definition wal_start :: "'w sqlite \<Rightarrow> (journal \<Rightarrow> opened_variant) \<Rightarrow> wal_request list \<Rightarrow> 'w
    \<Rightarrow> (tick, 64 word \<times> 'w wal_server, Response) system" where
  "wal_start db vs reqs w =
     ((0, \<lparr>ws_world = w, ws_ok = (\<lambda>_. 0), ws_locked = (\<lambda>_. 0), ws_failed = (\<lambda>_. 0), ws_pending = []\<rparr>),
      map (\<lambda>n. wal_handle db vs n (reqs ! n)) [0..<length reqs])"

text \<open>
  C36. The invariant the adapter reports, under any interleaving of writes and statistics and
  whatever fails: the held snapshots see the seed rows for ever; every counted write is in its
  table, and once all requests are answered the tables hold exactly the seed rows and the counted
  writes; with a rollback journal, which setting up gives to the database \<^verbatim>\<open>DELETE\<close> by its DSN, no write ever succeeds
  while the reader is open. The answers show it:
  a write request to that database is answered 200 only as locked, and every row of the statistics has the seed
  rows as its snapshot rows.
\<close>

theorem wal_requests_consistent:
  assumes "sqlite_laws db rows snap mode" "\<forall>j. rows w j = seed j \<and> snap w j = Some (seed j)" "mode w DELETE = Some ''DELETE''"
    and "\<forall>j. ov_seedRows (vs j) = seed j"
    and "reaches (wal_start db vs reqs w) ((served, s), ts)"
  shows "(\<forall>j. snap (ws_world s) j = Some (seed j) \<and> seed j + ws_ok s j \<le> rows (ws_world s) j
      \<and> (finished ((served, s), ts) \<longrightarrow> rows (ws_world s) j = seed j + ws_ok s j))
    \<and> ws_ok s DELETE = 0 \<and> rows (ws_world s) DELETE = seed DELETE
    \<and> list_all2 (\<lambda>r t. case result_of t of None \<Rightarrow> True | Some resp \<Rightarrow> wal_reply seed r resp) reqs ts"
proof -
  let ?c = "wal_start db vs reqs w"
  let ?Q = "\<lambda>n resp (s :: 64 word \<times> 'a wal_server). owes rows snap mode seed n [] (snd s) \<and> wal_reply seed (reqs ! n) resp"
  let ?I = "\<lambda>s :: 64 word \<times> 'a wal_server. wal_inv rows snap mode seed (snd s) \<and> (\<forall>m. length reqs \<le> m \<longrightarrow> mine m (snd s) = [])"
  have o: "owes rows snap mode seed n [] (snd (fst ?c))" for n
    using assms(2,3) by (simp add: wal_start_def owes_def wal_inv_def pending_on_def mine_def)
  then have safe: "wal.all_safe rows snap mode seed ?Q ?c"
    using wal_handle_safe [OF assms(1)] assms(4) by (simp add: wal.all_safe_def wal_start_def)
  have "?I (fst ((served, s), ts))"
  proof (rule wal.invariant_within [OF assms(5) safe])
    show "?I (fst ?c)" using o by (simp add: owes_def)
    show "?I s'" if "n < length (snd ?c)" "wal_guar rows snap mode seed n (snd s) (snd s')" "?I s" for n s s'
      using that by (auto simp: wal_guar_def wal_start_def)
  qed
  then have I: "wal_inv rows snap mode seed s" "\<And>m. length reqs \<le> m \<Longrightarrow> mine m s = []" by auto
  have len: "length ts = length reqs" using reaches_length [OF assms(5)] by (simp add: wal_start_def)
  have post: "?Q n resp (served, s)" if "n < length ts" "ts ! n = Done resp" for n resp
    using wal.post [OF assms(5) safe, of n resp] that by simp
  have "ws_pending s = []" if f: "finished ((served, s), ts)"
  proof (rule ccontr)
    assume "ws_pending s \<noteq> []"
    then obtain m j where m: "(m, j) \<in> set (ws_pending s)" by (metis list.set_intros(1) neq_Nil_conv surj_pair)
    then have ne: "mine m s \<noteq> []" by (force simp: mine_def filter_empty_conv)
    with I(2) len have lt: "m < length ts" by (metis not_le)
    with f obtain resp where "ts ! m = Done resp" by (cases "ts ! m") (auto simp: finished_def list_all_length)
    with post [OF lt] ne show False by (simp add: owes_def)
  qed
  then have fin: "finished ((served, s), ts) \<Longrightarrow> pending_on j s = 0" for j by (simp add: pending_on_def)
  have "case result_of (ts ! n) of None \<Rightarrow> True | Some resp \<Rightarrow> wal_reply seed (reqs ! n) resp" if "n < length ts" for n
    using post [OF that] by (cases "ts ! n") auto
  with len have "list_all2 (\<lambda>r t. case result_of t of None \<Rightarrow> True | Some resp \<Rightarrow> wal_reply seed r resp) reqs ts"
    by (simp add: list_all2_conv_all_nth)
  with I(1) fin show ?thesis by (simp add: wal_inv_def)
qed

definition seeded :: files where
  "seeded = \<lparr>fl_rows = (\<lambda>_. 1), fl_snap = (\<lambda>_. Some 1), fl_mode = (\<lambda>j. Some (journal_name j))\<rparr>"

definition seed_variant :: "journal \<Rightarrow> opened_variant" where
  "seed_variant j = \<lparr>ov_journalMode = journal_name j, ov_seedRows = 1\<rparr>"

definition demo_writes :: "(tick, 64 word \<times> files wal_server, Response) system" where
  "demo_writes = schedule (map (\<lambda>n. (n, calm_tick)) (replicate 9 0 @ replicate 9 1))
     (wal_start file_db seed_variant [WriteRequest ''WAL'', WriteRequest ''DELETE''] seeded)"

theorem wal_requests_consistent_witness:
  "fl_rows (ws_world (snd (fst demo_writes))) WAL = 2 \<and> fl_rows (ws_world (snd (fst demo_writes))) DELETE = 1"
proof -
  have 1: "ws_ok (snd (fst demo_writes)) WAL = 1" "finished demo_writes" by code_simp+
  have "reaches (wal_start file_db seed_variant [WriteRequest ''WAL'', WriteRequest ''DELETE''] seeded) demo_writes"
    unfolding demo_writes_def by (rule schedule_reaches)
  then have "reaches (wal_start file_db seed_variant [WriteRequest ''WAL'', WriteRequest ''DELETE''] seeded)
      ((fst (fst demo_writes), snd (fst demo_writes)), snd demo_writes)" by simp
  from wal_requests_consistent [OF file_db_laws(1) _ _ _ this, of "\<lambda>_. 1"] 1 show ?thesis
    by (simp add: seeded_def seed_variant_def journal_name_def)
qed

subsection \<open>Setting up\<close>

abbreviation alone :: "nat \<Rightarrow> (tick, 'w, 'a) thread \<Rightarrow> 'w \<Rightarrow> ('a \<Rightarrow> 'w \<Rightarrow> bool) \<Rightarrow> bool" where
  "alone \<equiv> within (\<lambda>_. True)"

definition unchanged :: "('w \<Rightarrow> journal \<Rightarrow> int) \<Rightarrow> ('w \<Rightarrow> journal \<rightharpoonup> int) \<Rightarrow> ('w \<Rightarrow> journal \<rightharpoonup> string) \<Rightarrow> 'w \<Rightarrow> 'w \<Rightarrow> bool" where
  "unchanged rows snap mode w w' \<longleftrightarrow> rows w' = rows w \<and> snap w' = snap w \<and> mode w' = mode w"

lemma warm_open_within:
  assumes "sqlite_laws db rows snap mode" "unchanged rows snap mode w0 w"
  shows "alone (2 * n) (warm_open db j n) w (\<lambda>r w. unchanged rows snap mode w0 w)"
  using assms(2)
proof (induction n arbitrary: w)
  case (Suc n)
  have "alone (Suc (Suc (2 * n))) (warm_open db j (Suc n)) w (\<lambda>r w. unchanged rows snap mode w0 w)"
    unfolding warm_open.simps
  proof (rule within_atomically)
    fix i e w1
    assume "sq_Conn db j i w = (e, w1)"
    with Suc.prems have w1: "unchanged rows snap mode w0 w1" by (auto simp: unchanged_def dest: frame_law [OF assms(1)])
    have "alone (Suc (2 * n)) (atomically (sq_Count db j) (\<lambda>r. case r of Inl e \<Rightarrow> Done (Inl (PanicError e))
        | Inr rows \<Rightarrow> warm_open db j n)) w1 (\<lambda>r w. unchanged rows snap mode w0 w)"
      by (rule within_atomically) (use w1 Suc.IH in \<open>auto simp: unchanged_def dest!: frame_law [OF assms(1)] split: sum.splits\<close>)
    with w1 show "alone (Suc (2 * n)) (case e of Some e \<Rightarrow> Done (Inl (PanicError e)) | None \<Rightarrow> atomically (sq_Count db j)
       (\<lambda>r. case r of Inl e \<Rightarrow> Done (Inl (PanicError e)) | Inr rows \<Rightarrow> warm_open db j n)) w1 (\<lambda>r w. unchanged rows snap mode w0 w)"
      by (cases e) simp_all
  qed
  then show ?case by simp
qed simp

lemma warm_close_within:
  assumes "sqlite_laws db rows snap mode" "unchanged rows snap mode w0 w"
  shows "alone n (warm_close db j n) w (\<lambda>r w. unchanged rows snap mode w0 w)"
  using assms(2)
proof (induction n arbitrary: w)
  case (Suc n)
  show ?case unfolding warm_close.simps
    by (rule within_atomically) (use Suc in \<open>auto simp: unchanged_def dest!: frame_law [OF assms(1)] split: option.splits\<close>)
qed simp

lemma warm_within:
  assumes "sqlite_laws db rows snap mode"
  shows "alone (3 * n) (warm db j n) w (\<lambda>r w'. unchanged rows snap mode w w')"
proof -
  have "alone (2 * n + n) (warm db j n) w (\<lambda>r w'. unchanged rows snap mode w w')"
    unfolding warm_def
    by (rule within_and_then [OF warm_open_within [OF assms]])
      (auto simp: unchanged_def [of _ _ _ w w] intro: warm_close_within [OF assms] split: sum.splits)
  then show ?thesis by simp
qed

text \<open>\<open>opens_variant j w r w'\<close>: from \<open>w\<close>, the variant \<open>j\<close> has its seed row, seen by an open snapshot.\<close>

definition opens_variant :: "('w \<Rightarrow> journal \<Rightarrow> int) \<Rightarrow> ('w \<Rightarrow> journal \<rightharpoonup> int) \<Rightarrow> ('w \<Rightarrow> journal \<rightharpoonup> string) \<Rightarrow> journal \<Rightarrow> 'w \<Rightarrow> (panic, opened_variant) result \<Rightarrow> 'w \<Rightarrow> bool" where
  "opens_variant rows snap mode j w r w' \<longleftrightarrow> (\<forall>v. r = Inr v \<longrightarrow> ov_seedRows v = 1
     \<and> rows w' = (rows w)(j := 1) \<and> snap w' = (snap w)(j \<mapsto> 1) \<and> mode w' = (mode w)(j \<mapsto> journal_name j))"

lemma OpenSnapshot_first:
  assumes "sqlite_laws db rows snap mode" "snap w j = None"
  shows "alone 3 (OpenSnapshot db j) w (\<lambda>r w'. \<forall>n. r = Inr n \<longrightarrow> n = rows w j \<and> rows w' = rows w \<and> mode w' = mode w \<and> snap w' = (snap w)(j \<mapsto> n))"
  unfolding OpenSnapshot_def numeral_eq_Suc pred_numeral_simps arith_simps
proof (rule within_atomically)
  let ?Q = "\<lambda>r w'. \<forall>n. r = Inr n \<longrightarrow> n = rows w j \<and> rows w' = rows w \<and> mode w' = mode w \<and> snap w' = (snap w)(j \<mapsto> n)"
  fix i e w1
  assume "sq_Begin db j i w = (e, w1)"
  then have w1: "rows w1 = rows w" "snap w1 = snap w" "mode w1 = mode w" using frame_law(1) [OF assms(1)] by blast+
  have count: "n = rows w j \<and> rows w2 = rows w \<and> mode w2 = mode w \<and> snap w2 = (snap w)(j \<mapsto> n)" if "sq_TxCount db j k w1 = (Inr n, w2)" for k n w2
    using table_law [OF assms(1), of j] that w1 assms(2) TxCount_law(1,5) [OF assms(1) that] by (metis option.case(1))
  have "alone (Suc (Suc 0)) (atomically (sq_TxCount db j) (\<lambda>r. case r of
         Inl e \<Rightarrow> atomically (sq_Rollback db j) (\<lambda>_. Done (Inl e)) | Inr count \<Rightarrow> Done (Inr count))) w1 ?Q"
    by (rule within_atomically) (use count in \<open>auto intro!: within_rules split: sum.splits\<close>)
  then show "alone (Suc (Suc 0)) (case e of Some e \<Rightarrow> Done (Inl e) | None \<Rightarrow> atomically (sq_TxCount db j) (\<lambda>r. case r of
         Inl e \<Rightarrow> atomically (sq_Rollback db j) (\<lambda>_. Done (Inl e)) | Inr count \<Rightarrow> Done (Inr count))) w1 ?Q"
    by (cases e) simp_all
qed

lemma open_variant_within:
  assumes "sqlite_laws db rows snap mode" "CHR ''?'' \<notin> set dir"
  shows "alone (3 * p + 10) (open_variant db j dir busyMs p) w (opens_variant rows snap mode j w)"
proof -
  let ?Q = "opens_variant rows snap mode j w"
  let ?seeded = "\<lambda>v. rows v = (rows w)(j := 1) \<and> snap v = (snap w)(j := None) \<and> mode v = (mode w)(j \<mapsto> journal_name j)"
  let ?new = "\<lambda>v. (\<forall>k. k \<noteq> j \<longrightarrow> rows v k = rows w k) \<and> snap v = (snap w)(j := None) \<and> mode v = (mode w)(j \<mapsto> journal_name j)"
  have panic: "?Q (Inl e) v" for e v by (simp add: opens_variant_def)
  let ?snap = "\<lambda>jm r. case r of Inl p \<Rightarrow> Done (Inl p) | Inr _ \<Rightarrow> and_then (OpenSnapshot db j) (\<lambda>r. case r of
       Inl e \<Rightarrow> Done (Inl (PanicError e)) | Inr rows \<Rightarrow> Done (Inr \<lparr>ov_journalMode = jm, ov_seedRows = rows\<rparr>))"
  have snap: "alone 3 (?snap jm r) v ?Q" if v: "?seeded v" for jm v and r :: "(panic, unit) result"
  proof (cases r)
    case (Inr u)
    have "snap v j = None" using v by simp
    have "alone (3 + 0) (and_then (OpenSnapshot db j) (\<lambda>r. case r of Inl e \<Rightarrow> Done (Inl (PanicError e))
       | Inr rows \<Rightarrow> Done (Inr \<lparr>ov_journalMode = jm, ov_seedRows = rows\<rparr>))) v ?Q"
    proof (rule within_and_then [OF OpenSnapshot_first [OF assms(1) \<open>snap v j = None\<close>]])
      fix r :: "(string, int) result" and u
      assume "\<forall>n. r = Inr n \<longrightarrow> n = rows v j \<and> rows u = rows v \<and> mode u = mode v \<and> snap u = (snap v)(j \<mapsto> n)"
      with v show "alone 0 (case r of Inl e \<Rightarrow> Done (Inl (PanicError e))
         | Inr rows \<Rightarrow> Done (Inr \<lparr>ov_journalMode = jm, ov_seedRows = rows\<rparr>)) u ?Q"
        by (cases r) (simp_all add: opens_variant_def)
    qed
    with Inr show ?thesis by simp
  qed (simp add: panic)
  have warm: "alone (3 * (p + 1) + 3) (and_then (warm db j (p + 1)) (?snap jm)) v ?Q" if v: "?seeded v" for jm v
    by (rule within_and_then [OF warm_within [OF assms(1)]], rule snap) (use v in \<open>simp_all add: unchanged_def\<close>)
  have reported: "alone (Suc (3 * (p + 1) + 3)) (atomically (sq_Mode db j) (\<lambda>r. case r of Inl e \<Rightarrow> Done (Inl (PanicError e))
     | Inr jm \<Rightarrow> and_then (warm db j (p + 1)) (?snap jm))) v ?Q" if v: "?seeded v" for v
    by (rule within_atomically) (use v panic warm frame_law(8) [OF assms(1)] in \<open>auto split: sum.splits\<close>)
  have seeded: "?seeded v'" if "?new v" "sq_Schema db j i v = (None, v')" for v v' i
    using Schema_law [OF assms(1) that(2)] that(1) by (auto simp: fun_eq_iff)
  have schema: "alone (Suc (Suc (3 * (p + 1) + 3))) (atomically (sq_Schema db j) (\<lambda>err. case err of Some e \<Rightarrow> Done (Inl (PanicError e))
     | None \<Rightarrow> atomically (sq_Mode db j) (\<lambda>r. case r of Inl e \<Rightarrow> Done (Inl (PanicError e))
       | Inr jm \<Rightarrow> and_then (warm db j (p + 1)) (?snap jm)))) v ?Q" if v: "?new v" for v
    by (rule within_atomically) (use panic reported seeded [OF v] in \<open>auto split: option.splits\<close>)
  have conns: "alone (Suc (Suc (Suc (3 * (p + 1) + 3)))) (atomically (sq_SetConns db j (int p + 1)) (\<lambda>_. atomically (sq_Schema db j)
     (\<lambda>err. case err of Some e \<Rightarrow> Done (Inl (PanicError e))
     | None \<Rightarrow> atomically (sq_Mode db j) (\<lambda>r. case r of Inl e \<Rightarrow> Done (Inl (PanicError e))
       | Inr jm \<Rightarrow> and_then (warm db j (p + 1)) (?snap jm))))) v ?Q" if v: "?new v" for v
    by (rule within_atomically) (use v schema frame_law(9) [OF assms(1)] in auto)
  have "alone (Suc (Suc (Suc (Suc (3 * (p + 1) + 3))))) (open_variant db j dir busyMs p) w ?Q"
    unfolding open_variant_def
  proof (rule within_atomically)
    fix i r v
    assume o: "sq_Open db j (DSN (file_Join dir (journal_name j @ ''.db'')) (journal_name j) busyMs) i w = (r, v)"
    have "CHR ''?'' \<notin> set (journal_name j @ ''.db'')" by (cases j) (simp_all add: journal_name_def)
    from opened_mode [OF assms(2) this] Open_law [OF assms(1)] o have "?new v" if "r = None" using that by simp
    then show "alone (Suc (Suc (Suc (3 * (p + 1) + 3)))) (case r of Some e \<Rightarrow> Done (Inl (PanicError e))
     | None \<Rightarrow> atomically (sq_SetConns db j (int p + 1)) (\<lambda>_. atomically (sq_Schema db j)
     (\<lambda>err. case err of Some e \<Rightarrow> Done (Inl (PanicError e))
     | None \<Rightarrow> atomically (sq_Mode db j) (\<lambda>r. case r of Inl e \<Rightarrow> Done (Inl (PanicError e))
       | Inr jm \<Rightarrow> and_then (warm db j (p + 1)) (?snap jm))))) v ?Q"
    proof (cases r)
      case None
      assume "r = None \<Longrightarrow> ?new v"
      with None show ?thesis unfolding None option.case by (intro conns) simp
    qed (simp add: panic)
  qed
  then show ?thesis by (simp add: add.commute)
qed

definition both_open :: "('w \<Rightarrow> journal \<Rightarrow> int) \<Rightarrow> ('w \<Rightarrow> journal \<rightharpoonup> int) \<Rightarrow> ('w \<Rightarrow> journal \<rightharpoonup> string)
    \<Rightarrow> opened_variant \<times> opened_variant \<Rightarrow> 'w \<Rightarrow> bool" where
  "both_open rows snap mode vs w \<longleftrightarrow> ov_seedRows (fst vs) = 1 \<and> ov_seedRows (snd vs) = 1
     \<and> (\<forall>j. rows w j = 1 \<and> snap w j = Some 1 \<and> mode w j = Some (journal_name j))"

lemma open_variants_within:
  assumes "sqlite_laws db rows snap mode" "CHR ''?'' \<notin> set dir"
  shows "alone (6 * p + 22) (open_variants db dir busyMs p) w (\<lambda>r w. \<forall>vs. r = Inr vs \<longrightarrow> both_open rows snap mode vs w)"
proof -
  let ?Q = "\<lambda>r w. \<forall>vs. r = Inr vs \<longrightarrow> both_open rows snap mode vs w"
  have close: "alone 2 (close_variant db DELETE (Done (Inl e))) v ?Q" for e v
    by (auto simp: close_variant_def deferred_def numeral_eq_Suc atomically_def split: prod.splits)
  have second: "alone ((3 * p + 10) + 2) (and_then (open_variant db WAL dir busyMs p) (\<lambda>r. case r of
         Inl e \<Rightarrow> close_variant db DELETE (Done (Inl e)) | Inr b \<Rightarrow> Done (Inr (a, b)))) v ?Q"
    if v: "ov_seedRows a = 1" "rows v = (rows w)(DELETE := 1)" "snap v = (snap w)(DELETE \<mapsto> 1)"
      "mode v = (mode w)(DELETE \<mapsto> journal_name DELETE)" for a v
  proof (rule within_and_then [OF open_variant_within [OF assms]])
    fix r u
    assume o: "opens_variant rows snap mode WAL v r u"
    show "alone 2 (case r of Inl e \<Rightarrow> close_variant db DELETE (Done (Inl e)) | Inr b \<Rightarrow> Done (Inr (a, b))) u ?Q"
    proof (cases r)
      case (Inr b)
      have "rows u k = 1 \<and> snap u k = Some 1 \<and> mode u k = Some (journal_name k)" for k
        using o Inr v by (cases k) (simp_all add: opens_variant_def)
      with Inr o v show ?thesis by (simp add: both_open_def opens_variant_def)
    qed (use close in simp)
  qed
  have "alone ((3 * p + 10) + (3 * p + 12)) (open_variants db dir busyMs p) w ?Q"
    unfolding open_variants_def
  proof (rule within_and_then [OF open_variant_within [OF assms]])
    fix r u
    assume "opens_variant rows snap mode DELETE w r u"
    with second show "alone (3 * p + 12) (case r of Inl p \<Rightarrow> Done (Inl p) | Inr a \<Rightarrow> and_then (open_variant db WAL dir busyMs p)
      (\<lambda>r. case r of Inl e \<Rightarrow> close_variant db DELETE (Done (Inl e)) | Inr b \<Rightarrow> Done (Inr (a, b)))) u ?Q"
      by (cases r) (simp_all add: opens_variant_def add.commute)
  qed
  then show ?thesis by simp
qed

text \<open>
  Setting up returns for every value of the settings, within 408 calls, and when it does not
  panic it has established what the requests rely on: both tables hold exactly the seed row,
  a snapshot that sees it is open on each, and each database is in the journal mode its DSN asked for.
\<close>

theorem wal_setup_opens:
  assumes "sqlite_laws db rows snap mode" "plain_temp db" "408 \<le> length is"
  shows "\<exists>r w'. run (wal_setup getenv db st) is w = (Done r, w')
    \<and> (\<forall>vs st'. r = Inr (vs, st') \<longrightarrow> both_open rows snap mode vs w')"
proof -
  let ?Q = "\<lambda>r w'. \<forall>vs st'. r = Inr (vs, st') \<longrightarrow> both_open rows snap mode vs w'"
  have ready: "alone (Suc ((6 * p + 22) + 1)) (atomically (sq_MkdirTemp db ''sqlite-wal-perf-'') (\<lambda>r. case r of
           Inl e \<Rightarrow> Done (Inl (PanicError e))
         | Inr dir \<Rightarrow> and_then (open_variants db dir busyMs p) (\<lambda>r. case r of
             Inl p \<Rightarrow> atomically (sq_RemoveAll db dir) (\<lambda>_. Done (Inl p))
           | Inr vs \<Rightarrow> Done (Inr (vs, st'))))) w ?Q" for p busyMs st'
  proof (rule within_atomically)
    fix i r w1
    assume m: "sq_MkdirTemp db ''sqlite-wal-perf-'' i w = (r, w1)"
    have "alone ((6 * p + 22) + 1) (and_then (open_variants db dir busyMs p) (\<lambda>r. case r of
             Inl p \<Rightarrow> atomically (sq_RemoveAll db dir) (\<lambda>_. Done (Inl p))
           | Inr vs \<Rightarrow> Done (Inr (vs, st')))) w1 ?Q" if "CHR ''?'' \<notin> set dir" for dir
      by (rule within_and_then [OF open_variants_within [OF assms(1) that]])
        (auto simp: numeral_eq_Suc intro!: within_rules split: sum.splits)
    moreover have "CHR ''?'' \<notin> set dir" if "r = Inr dir" for dir using assms(2) m that unfolding plain_temp_def by blast
    ultimately show "alone ((6 * p + 22) + 1) (case r of
           Inl e \<Rightarrow> Done (Inl (PanicError e))
         | Inr dir \<Rightarrow> and_then (open_variants db dir busyMs p) (\<lambda>r. case r of
             Inl p \<Rightarrow> atomically (sq_RemoveAll db dir) (\<lambda>_. Done (Inl p))
           | Inr vs \<Rightarrow> Done (Inr (vs, st')))) w1 ?Q"
      by (cases r) simp_all
  qed
  have "alone 408 (wal_setup getenv db st) w ?Q"
  proof (cases "Int_setting getenv ''BUSY_MS'' 250 0 4000 st")
    case (Inr bs)
    then obtain busyMs st1 where b: "Int_setting getenv ''BUSY_MS'' 250 0 4000 st = Inr (busyMs, st1)" by (cases bs) auto
    show ?thesis
    proof (cases "Int_setting getenv ''POOL_SIZE'' 8 1 64 st1")
      case (Inr ps)
      then obtain p st2 where p: "Int_setting getenv ''POOL_SIZE'' 8 1 64 st1 = Inr (p, st2)" by (cases ps) auto
      then have "p \<le> 64" by (auto simp: Int_setting_def Let_def split: option.splits if_splits)
      then have "Suc ((6 * nat p + 22) + 1) \<le> 408" by simp
      from within_more [OF ready this] show ?thesis unfolding wal_setup_def by (simp add: b p)
    qed (simp add: wal_setup_def b)
  qed (simp add: wal_setup_def)
  from within_run [OF this _ assms(3)] show ?thesis by (auto simp: list_all_iff)
qed

definition no_files :: files where
  "no_files = \<lparr>fl_rows = (\<lambda>_. 0), fl_snap = Map.empty, fl_mode = Map.empty\<rparr>"

definition one_conn :: "string \<Rightarrow> string" where
  "one_conn name = (if name = ''POOL_SIZE'' then ''1'' else [])"

definition calm_setup :: "(tick, files, (panic, (opened_variant \<times> opened_variant) \<times> settings) result) thread \<times> files" where
  "calm_setup = run (wal_setup one_conn file_db Map.empty) (replicate 408 calm_tick) no_files"

theorem wal_setup_opens_witness: "\<exists>vs st. result_of (fst calm_setup) = Some (Inr (vs, st)) \<and> both_open fl_rows fl_snap fl_mode vs (snd calm_setup)"
proof -
  have "case result_of (fst calm_setup) of Some (Inr _) \<Rightarrow> True | _ \<Rightarrow> False" by code_simp
  then obtain vs st where v: "result_of (fst calm_setup) = Some (Inr (vs, st))" by (auto split: option.splits sum.splits)
  have "\<exists>r w'. calm_setup = (Done r, w') \<and> (\<forall>vs st'. r = Inr (vs, st') \<longrightarrow> both_open fl_rows fl_snap fl_mode vs w')"
    unfolding calm_setup_def by (rule wal_setup_opens [OF file_db_laws]) simp
  then obtain r w' where r: "calm_setup = (Done r, w')" "\<forall>vs st'. r = Inr (vs, st') \<longrightarrow> both_open fl_rows fl_snap fl_mode vs w'" by blast
  with v have "r = Inr (vs, st)" by (metis fst_conv option.inject result_of.simps(1))
  with r v show ?thesis by (metis snd_conv)
qed

end
