(* ===== verification/Pipeline_Lesson.thy ===== *)
theory Pipeline_Lesson
  imports Pipelining Measurements
begin

section \<open>The pipelining experiment\<close>

text \<open>
  \<^verbatim>\<open>lessons/go/pipelining-work/main.go\<close>: connecting, the measurements file, the measured runs of both
  variants with their assertion, and the deferred \<^verbatim>\<open>Close\<close> of the file, which also runs when the
  experiment panics and whose own panic replaces the first one. The inputs are the errors of
  connecting and of creating and closing the file, the file itself, and the printed latencies. The
  progress lines and the client's own \<^verbatim>\<open>Close\<close>, whose result is dropped, are left out.
\<close>

record pipe_inputs =
  pi_parse :: "string option"
  pi_ping :: "string option"
  pi_create :: "string option"
  pi_close :: "string option"
  pi_writer :: file_writer
  pi_elapsed :: "pipe_variant \<Rightarrow> nat \<Rightarrow> string"

definition lesson_keys :: "string \<Rightarrow> nat \<Rightarrow> string list" where
  "lesson_keys pre batchSize = map (\<lambda>i. pre @ '':'' @ Itoa (int i)) [0..<batchSize]"

definition reset_keys :: "'w Store \<Rightarrow> string list \<Rightarrow> 'w \<Rightarrow> (panic, unit) result \<times> 'w" where
  "reset_keys st keys w = (case st_Del st keys w of (e, w) \<Rightarrow> (Check e, w))"

definition pipe_row :: "pipe_inputs \<Rightarrow> nat \<Rightarrow> pipe_variant \<Rightarrow> nat \<Rightarrow> int \<Rightarrow> string list" where
  "pipe_row pin batchSize v nr actual =
     [variant_name v, Itoa (int nr), Itoa (int batchSize), pi_elapsed pin v nr, Itoa actual]"

definition sum_mismatch :: "pipe_variant \<Rightarrow> int \<Rightarrow> nat \<Rightarrow> panic" where
  "sum_mismatch v actual batchSize =
     PanicMessage (variant_name v @ '' invariant failed: sum='' @ Itoa actual @ '' expected='' @ Itoa (int batchSize))"

text \<open>One measured run: the row is recorded before the sum is checked.\<close>

definition pipe_run :: "'w Store \<Rightarrow> pipe_inputs \<Rightarrow> pipe_variant \<Rightarrow> string list \<Rightarrow> nat \<Rightarrow> nat \<Rightarrow> Measurements \<times> 'w
    \<Rightarrow> (panic, unit) result \<times> Measurements \<times> 'w" where
  "pipe_run st pin v keys batchSize nr s = (case s of (m, w) \<Rightarrow>
     (case reset_keys st keys w of
        (Inl p, w) \<Rightarrow> (Inl p, m, w)
      | (Inr _, w) \<Rightarrow> (case variant_op v st keys w of
          (Some e, w) \<Rightarrow> (Inl (PanicError e), m, w)
        | (None, w) \<Rightarrow> (case Sum st keys w of
            (Inl e, w) \<Rightarrow> (Inl (PanicError (sum_err_text e)), m, w)
          | (Inr actual, w) \<Rightarrow> (case Write_row (pi_writer pin) (pipe_row pin batchSize v nr actual) m of
              (Inl p, m) \<Rightarrow> (Inl p, m, w)
            | (Inr _, m) \<Rightarrow>
                (if actual \<noteq> int batchSize then (Inl (sum_mismatch v actual batchSize), m, w)
                 else (Inr (), m, w)))))))"

fun pipe_runs :: "'w Store \<Rightarrow> pipe_inputs \<Rightarrow> pipe_variant \<Rightarrow> string list \<Rightarrow> nat \<Rightarrow> nat list \<Rightarrow> Measurements \<times> 'w
    \<Rightarrow> (panic, unit) result \<times> Measurements \<times> 'w" where
  "pipe_runs st pin v keys batchSize [] s = (Inr (), s)"
| "pipe_runs st pin v keys batchSize (nr # rs) s =
     (case pipe_run st pin v keys batchSize nr s of
        (Inl p, s) \<Rightarrow> (Inl p, s)
      | (Inr _, s) \<Rightarrow> pipe_runs st pin v keys batchSize rs s)"

text \<open>The variants in order, each after one call that is not measured.\<close>

fun pipe_variants :: "'w Store \<Rightarrow> pipe_inputs \<Rightarrow> string list \<Rightarrow> nat \<Rightarrow> nat \<Rightarrow> pipe_variant list \<Rightarrow> Measurements \<times> 'w
    \<Rightarrow> (panic, unit) result \<times> Measurements \<times> 'w" where
  "pipe_variants st pin keys batchSize runs [] s = (Inr (), s)"
| "pipe_variants st pin keys batchSize runs (v # vs) (m, w) =
     (case variant_op v st keys w of
        (Some e, w) \<Rightarrow> (Inl (PanicError e), m, w)
      | (None, w) \<Rightarrow> (case pipe_runs st pin v keys batchSize [1..<Suc runs] (m, w) of
          (Inl p, s) \<Rightarrow> (Inl p, s)
        | (Inr _, s) \<Rightarrow> pipe_variants st pin keys batchSize runs vs s))"

definition pipe_columns :: "string list" where
  "pipe_columns = [''variant'', ''run'', ''batch_size'', ''elapsed_ms'', ''actual_sum'']"

text \<open>The experiment between opening the file and closing it.\<close>

definition pipe_experiment :: "'w Store \<Rightarrow> pipe_inputs \<Rightarrow> Measurements \<times> 'w \<Rightarrow> (panic, unit) result \<times> Measurements \<times> 'w" where
  "pipe_experiment st pin s =
     (let keys = lesson_keys ''trinkets:valkey-pipeline'' 200 in
      case pipe_variants st pin keys 200 5 [Sequential, Pipeline] s of
        (Inl p, s) \<Rightarrow> (Inl p, s)
      | (Inr _, m, w) \<Rightarrow> (case reset_keys st keys w of (r, w) \<Rightarrow> (r, m, w)))"

definition with_file :: "pipe_inputs \<Rightarrow> (Measurements \<times> 'w \<Rightarrow> (panic, unit) result \<times> Measurements \<times> 'w) \<Rightarrow> 'w
    \<Rightarrow> (panic, unit) result \<times> Measurements \<times> 'w" where
  "with_file pin body w =
     (case NewMeasurements (pi_writer pin) (pi_create pin) pipe_columns of
        (Inl p, m) \<Rightarrow> (Inl p, m, w)
      | (Inr _, m) \<Rightarrow> (case body (m, w) of
          (r, m, w) \<Rightarrow> (case Close (pi_writer pin) (pi_close pin) m of
            (Inl q, m) \<Rightarrow> (Inl q, m, w)
          | (Inr _, m) \<Rightarrow> (r, m, w))))"

definition no_file :: Measurements where
  "no_file = \<lparr>ms_file = [], ms_buf = [], ms_err = None\<rparr>"

definition pipelining_main :: "'w Store \<Rightarrow> pipe_inputs \<Rightarrow> 'w \<Rightarrow> (panic, unit) result \<times> Measurements \<times> 'w" where
  "pipelining_main st pin w =
     (case Check (pi_parse pin) of
        Inl p \<Rightarrow> (Inl p, no_file, w)
      | Inr _ \<Rightarrow> (case Check (pi_ping pin) of
          Inl p \<Rightarrow> (Inl p, no_file, w)
        | Inr _ \<Rightarrow> with_file pin (pipe_experiment st pin) w))"

subsection \<open>Where an error comes from\<close>

definition store_error :: "'w Store \<Rightarrow> string \<Rightarrow> bool" where
  "store_error st e \<longleftrightarrow> (\<exists>k w w'. st_Incr st k w = (Some e, w')) \<or> (\<exists>cs w w'. st_Pipelined st cs w = (Some e, w'))
     \<or> (\<exists>ks w w'. st_MGet st ks w = (Inl e, w')) \<or> (\<exists>ks w w'. st_Del st ks w = (Some e, w'))"

definition write_error :: "file_writer \<Rightarrow> string \<Rightarrow> bool" where
  "write_error wr e \<longleftrightarrow> (\<exists>f c. snd (wr f c) = Some e)"

text \<open>An error of the file's buffer is one that the file reported.\<close>

definition sourced :: "file_writer \<Rightarrow> Measurements \<Rightarrow> bool" where
  "sourced wr m \<longleftrightarrow> (\<forall>e. ms_err m = Some e \<longrightarrow> write_error wr e)"

lemma sourced_Flush: "sourced wr m \<Longrightarrow> sourced wr (Flush wr m)"
  by (auto simp: sourced_def Flush_def write_error_def split: prod.splits) (metis snd_conv)

lemma sourced_put: "sourced wr m \<Longrightarrow> sourced wr (fold (put_byte wr) t m)"
proof (induction t arbitrary: m)
  case (Cons c t)
  have "sourced wr (put_byte wr c m)"
    using Cons.prems sourced_Flush [of wr m] by (auto simp: put_byte_def Let_def sourced_def)
  with Cons.IH show ?case by simp
qed simp

lemma Check_error: "Check e = Inl p \<longleftrightarrow> (\<exists>x. e = Some x \<and> p = PanicError x)" "Check e = Inr u \<longleftrightarrow> e = None"
  by (auto simp: Check_def split: option.splits)

lemma Write_row_end:
  assumes "Write_row wr row m = (r, m')" "sourced wr m" "file_laws wr" "follows m s"
  shows "sourced wr m' \<and> follows m' (s @ csv_record row) \<and> (\<forall>p. r = Inl p \<longrightarrow> (\<exists>e. p = PanicError e \<and> write_error wr e))"
  using assms(1) sourced_put [OF assms(2), of "csv_record row"] follows_Write [OF assms(3,4), of row]
  by (auto simp: Write_row_def Let_def sourced_def Check_error)

lemma variant_op_error: "variant_op v st keys w = (Some e, w') \<Longrightarrow> store_error st e"
proof -
  have "IncrementSequential st ks w = (Some e, w') \<Longrightarrow> store_error st e" for ks w
    by (induction ks arbitrary: w) (auto simp: store_error_def split: prod.splits option.splits)
  moreover have "IncrementPipelined st keys w = (Some e, w') \<Longrightarrow> store_error st e"
    by (auto simp: IncrementPipelined_def store_error_def)
  ultimately show "variant_op v st keys w = (Some e, w') \<Longrightarrow> store_error st e"
    by (cases v) (auto simp: variant_op_def)
qed

lemma reset_keys_end:
  assumes "store_laws r st val" "reset_keys st keys w = (x, w')"
  shows "case x of Inl p \<Rightarrow> \<exists>e. p = PanicError e \<and> store_error st e | Inr _ \<Rightarrow> val w' = (val w) |` (- set keys)"
proof -
  obtain e where e: "st_Del st keys w = (e, w')" "x = Check e"
    using assms(2) by (auto simp: reset_keys_def split: prod.splits)
  with assms(1) show ?thesis
    unfolding store_laws_def del_law_def store_error_def by (cases e) (auto simp: Check_def)
qed

subsection \<open>What the experiment writes\<close>

text \<open>
  \<open>ran\<close>: how a part of the experiment ends that was to make the runs \<open>planned\<close>, started when the
  bytes \<open>s\<close> had been written. A run that panics on its sum had recorded its row.
\<close>

definition error_of :: "'w Store \<Rightarrow> pipe_inputs \<Rightarrow> panic \<Rightarrow> bool" where
  "error_of st pin p \<longleftrightarrow> (\<exists>e. p = PanicError e \<and> (store_error st e \<or> write_error (pi_writer pin) e))"

definition good_rows :: "pipe_inputs \<Rightarrow> nat \<Rightarrow> (pipe_variant \<times> nat) list \<Rightarrow> string list list" where
  "good_rows pin n planned = map (\<lambda>(v, nr). pipe_row pin n v nr (int n)) planned"

definition over_counted :: "nat \<Rightarrow> nat \<Rightarrow> int \<Rightarrow> bool" where
  "over_counted r n actual \<longleftrightarrow> int n < actual \<and> actual \<le> int (Suc r * n)"

definition ran :: "nat \<Rightarrow> 'w Store \<Rightarrow> pipe_inputs \<Rightarrow> nat \<Rightarrow> string \<Rightarrow> (pipe_variant \<times> nat) list
    \<Rightarrow> (panic, unit) result \<Rightarrow> Measurements \<Rightarrow> bool" where
  "ran r st pin n s planned x m \<longleftrightarrow> sourced (pi_writer pin) m \<and> (case x of
       Inr _ \<Rightarrow> follows m (s @ csv_text (good_rows pin n planned))
     | Inl p \<Rightarrow> error_of st pin p
         \<or> (\<exists>before v nr after actual. planned = before @ (v, nr) # after \<and> over_counted r n actual
              \<and> p = sum_mismatch v actual n
              \<and> follows m (s @ csv_text (good_rows pin n before @ [pipe_row pin n v nr actual]))))"

lemma csv_text_append [simp]: "csv_text (a @ b) = csv_text a @ csv_text b" "csv_text [row] = csv_record row" "csv_text [] = []"
  by (simp_all add: csv_text_def)

lemma good_rows_append [simp]: "good_rows pin n (a @ b) = good_rows pin n a @ good_rows pin n b"
  "good_rows pin n [] = []" "good_rows pin n [(v, nr)] = [pipe_row pin n v nr (int n)]"
  by (simp_all add: good_rows_def)

lemma ran_append:
  assumes "ran r st pin n (s @ csv_text (good_rows pin n done_runs)) rest x m"
  shows "ran r st pin n s (done_runs @ rest) x m"
proof (cases x)
  case (Inl p)
  show ?thesis
  proof (cases "error_of st pin p")
    case False
    with assms Inl obtain before v nr "after" actual where "rest = before @ (v, nr) # after" "over_counted r n actual"
      "p = sum_mismatch v actual n" "sourced (pi_writer pin) m"
      "follows m ((s @ csv_text (good_rows pin n done_runs)) @ csv_text (good_rows pin n before @ [pipe_row pin n v nr actual]))"
      unfolding ran_def by auto
    with Inl show ?thesis unfolding ran_def
      by (auto intro!: exI [of _ "done_runs @ before"])
  qed (use assms Inl in \<open>simp add: ran_def\<close>)
qed (use assms in \<open>simp add: ran_def\<close>)

lemma ran_stop: "ran r st pin n s planned (Inl p) m \<Longrightarrow> ran r st pin n s (planned @ rest) (Inl p) m"
  unfolding ran_def by (auto; metis append.assoc append_Cons)

lemma ran_error: "sourced (pi_writer pin) m \<Longrightarrow> error_of st pin p \<Longrightarrow> ran r st pin n s planned (Inl p) m"
  by (simp add: ran_def)

lemma pipe_run_ran:
  assumes laws: "store_laws r st val" "file_laws (pi_writer pin)"
    and keys: "distinct keys" "length keys = n" "int (Suc r * n) < 2 ^ 63"
    and m: "sourced (pi_writer pin) m" "follows m s"
    and go: "pipe_run st pin v keys n k (m, w) = (x, m', w')"
  shows "ran r st pin n s [(v, k)] x m'"
proof -
  obtain x1 w1 where w1: "reset_keys st keys w = (x1, w1)" by fastforce
  note reset = reset_keys_end [OF laws(1) w1]
  show ?thesis
  proof (cases x1)
    case (Inl p)
    with go w1 reset m(1) show ?thesis by (auto simp: pipe_run_def error_of_def intro!: ran_error)
  next
    case (Inr u)
    obtain e w2 where w2: "variant_op v st keys w1 = (e, w2)" by fastforce
    show ?thesis
    proof (cases e)
      case (Some y)
      with go w1 w2 Inr m(1) variant_op_error show ?thesis
        by (auto simp: pipe_run_def error_of_def intro!: ran_error)
    next
      case None
      have "counted (val w1) j = 0" if "j \<in> set keys" for j
        using that reset Inr by (simp add: counted_def restrict_map_def)
      then have zero: "total_of (val w1) keys = 0" "\<forall>j \<in> set keys. 0 \<le> counted (val w1) j"
        by (simp_all add: total_of_def cong: map_cong)
      note eff = variant_op_done [OF laws(1) w2]
      note totals = batch_done_total [OF eff keys(1), unfolded zero keys(2)]
      have nonneg: "\<forall>j \<in> set keys. 0 \<le> counted (val w2) j"
        using eff zero(2) unfolding batch_done_def by (meson order_trans)
      obtain y w3 where w3: "Sum st keys w2 = (y, w3)" by fastforce
      have sum: "y = Inr (total_of (val w2) keys) \<or> (\<exists>e. st_MGet st keys w2 = (Inl e, w3) \<and> y = Inl (StoreErr e))"
        using Sum_total [OF laws(1) w3 nonneg] totals(2) keys(3) by simp
      let ?t = "total_of (val w2) keys"
      show ?thesis
      proof (cases y)
        case (Inl z)
        with sum go w1 w2 w3 Inr None m(1) show ?thesis
          by (auto simp: pipe_run_def error_of_def store_error_def sum_err_text_def intro!: ran_error)
      next
        case t: (Inr z)
        obtain q m1 where q: "Write_row (pi_writer pin) (pipe_row pin n v k ?t) m = (q, m1)" by fastforce
        note wrote = Write_row_end [OF q m(1) laws(2) m(2)]
        have x: "x = (case q of Inl p \<Rightarrow> Inl p | Inr _ \<Rightarrow> if ?t \<noteq> int n then Inl (sum_mismatch v ?t n) else Inr ())" "m' = m1"
          using go w1 w2 w3 Inr None t sum q by (auto simp: pipe_run_def split: sum.splits if_splits)
        have over: "over_counted r n ?t" if "?t \<noteq> int n" using that totals(2,3) None by (simp add: over_counted_def)
        show ?thesis
        proof (cases q)
          case (Inl p)
          with x wrote show ?thesis by (auto simp: error_of_def intro!: ran_error)
        next
          case (Inr u)
          show ?thesis
          proof (cases "?t = int n")
            case True
            with x wrote Inr show ?thesis by (simp add: ran_def)
          next
            case False
            with x wrote Inr over show ?thesis unfolding ran_def
              by (auto intro!: disjI2 exI [of _ "[]"] exI [of _ v] exI [of _ k] exI [of _ "?t"])
          qed
        qed
      qed
    qed
  qed
qed

lemma pipe_runs_ran:
  assumes laws: "store_laws r st val" "file_laws (pi_writer pin)"
    and keys: "distinct keys" "length keys = n" "int (Suc r * n) < 2 ^ 63"
  shows "sourced (pi_writer pin) m \<Longrightarrow> follows m s \<Longrightarrow> pipe_runs st pin v keys n rs (m, w) = (x, m', w')
    \<Longrightarrow> ran r st pin n s (map (Pair v) rs) x m'"
proof (induction rs arbitrary: m s w)
  case (Cons k rs)
  obtain y m1 w1 where y: "pipe_run st pin v keys n k (m, w) = (y, m1, w1)" by (metis prod_cases3)
  note one = pipe_run_ran [OF laws keys Cons.prems(1,2) y]
  show ?case
  proof (cases y)
    case (Inl p)
    with Cons.prems(3) y one ran_stop [of r st pin n s "[(v, k)]" p m1] show ?thesis by auto
  next
    case (Inr u)
    with one have "sourced (pi_writer pin) m1" "follows m1 (s @ csv_text (good_rows pin n [(v, k)]))"
      by (simp_all add: ran_def)
    from Cons.IH [OF this] Cons.prems(3) y Inr ran_append [of r st pin n s "[(v, k)]"] show ?thesis by auto
  qed
qed (auto simp: ran_def)

definition planned_runs :: "nat \<Rightarrow> pipe_variant list \<Rightarrow> (pipe_variant \<times> nat) list" where
  "planned_runs runs vs = concat (map (\<lambda>v. map (Pair v) [1..<Suc runs]) vs)"

lemma pipe_variants_ran:
  assumes laws: "store_laws r st val" "file_laws (pi_writer pin)"
    and keys: "distinct keys" "length keys = n" "int (Suc r * n) < 2 ^ 63"
  shows "sourced (pi_writer pin) m \<Longrightarrow> follows m s \<Longrightarrow> pipe_variants st pin keys n runs vs (m, w) = (x, m', w')
    \<Longrightarrow> ran r st pin n s (planned_runs runs vs) x m'"
proof (induction vs arbitrary: m s w)
  case (Cons v vs)
  obtain e w0 where e: "variant_op v st keys w = (e, w0)" by fastforce
  show ?case
  proof (cases e)
    case (Some y)
    with Cons.prems e variant_op_error show ?thesis by (auto simp: error_of_def intro!: ran_error)
  next
    case None
    obtain y m1 w1 where y: "pipe_runs st pin v keys n [1..<Suc runs] (m, w0) = (y, m1, w1)" by (metis prod_cases3)
    note some = pipe_runs_ran [OF laws keys Cons.prems(1,2) y]
    show ?thesis
    proof (cases y)
      case (Inl p)
      with Cons.prems(3) e None y some ran_stop [of r st pin n s "map (Pair v) [1..<Suc runs]" p m1] show ?thesis
        by (auto simp: planned_runs_def simp del: upt_Suc)
    next
      case (Inr u)
      with some have "sourced (pi_writer pin) m1" "follows m1 (s @ csv_text (good_rows pin n (map (Pair v) [1..<Suc runs])))"
        by (simp_all add: ran_def del: upt_Suc)
      from Cons.IH [OF this] Cons.prems(3) e None y Inr
        ran_append [of r st pin n s "map (Pair v) [1..<Suc runs]" "planned_runs runs vs"] show ?thesis
        by (auto simp: planned_runs_def simp del: upt_Suc)
    qed
  qed
qed (auto simp: ran_def planned_runs_def)

lemma distinct_lesson_keys: "distinct (lesson_keys pre n)"
  by (auto simp: lesson_keys_def distinct_map inj_on_def)

lemma pipe_experiment_ran:
  assumes laws: "store_laws r st val" "file_laws (pi_writer pin)" and "int (Suc r * 200) < 2 ^ 63"
    and m: "sourced (pi_writer pin) m" "follows m s" and go: "pipe_experiment st pin (m, w) = (x, m', w')"
  shows "ran r st pin 200 s (planned_runs 5 [Sequential, Pipeline]) x m'"
proof -
  let ?k = "lesson_keys ''trinkets:valkey-pipeline'' 200"
  have k: "distinct ?k" "length ?k = 200" by (simp_all add: distinct_lesson_keys) (simp add: lesson_keys_def)
  obtain y m1 w1 where y: "pipe_variants st pin ?k 200 5 [Sequential, Pipeline] (m, w) = (y, m1, w1)" by (metis prod_cases3)
  note ran = pipe_variants_ran [OF laws k assms(3) m y]
  show ?thesis
  proof (cases y)
    case (Inl p)
    with go y ran show ?thesis by (simp add: pipe_experiment_def Let_def del: pipe_variants.simps)
  next
    case (Inr u)
    obtain z w2 where z: "reset_keys st ?k w1 = (z, w2)" by fastforce
    with go y Inr have "x = z" "m' = m1" by (simp_all add: pipe_experiment_def Let_def del: pipe_variants.simps)
    with reset_keys_end [OF laws(1) z] ran Inr show ?thesis
      by (cases z) (auto simp: ran_def error_of_def)
  qed
qed

definition main_error :: "'w Store \<Rightarrow> pipe_inputs \<Rightarrow> string \<Rightarrow> bool" where
  "main_error st pin e \<longleftrightarrow> e \<in> set_option (pi_parse pin) \<union> set_option (pi_ping pin)
       \<union> set_option (pi_create pin) \<union> set_option (pi_close pin)
     \<or> store_error st e \<or> write_error (pi_writer pin) e"

lemma Close_end:
  assumes "Close wr closeErr m = (r, m')" "sourced wr m" "file_laws wr"
  shows "case r of Inl p \<Rightarrow> \<exists>e. p = PanicError e \<and> (write_error wr e \<or> closeErr = Some e)
    | Inr _ \<Rightarrow> \<forall>s. follows m s \<longrightarrow> ms_file m' = s"
proof -
  have "ms_file (Flush wr m) = s" if "ms_err (Flush wr m) = None" "follows m s" for s
    using follows_Flush [OF assms(3) that(2)] that(1) by (simp add: follows_def)
  with assms(1) sourced_Flush [OF assms(2)] show ?thesis
    by (auto simp: Close_def Let_def Check_def sourced_def split: option.splits)
qed

lemma rows_nonempty: "\<forall>row \<in> set (good_rows pin n planned). row \<noteq> []"
  by (auto simp: good_rows_def pipe_row_def)

text \<open>
  C21. The experiment measures what it asserts. When \<^verbatim>\<open>main\<close> returns, reading its file gives the
  header and ten rows, five runs of each variant in order, each with a stored sum equal to the batch size.
  When it panics, the panic carries an error that was reported: by the connection, by a call of the store, or
  by the file; or it is the assertion, and then the sum of that run is larger than the batch size, within what the
  client's repeated commands can add, and the file holds the rows before it and the row of the failing
  run. A client that sends no command twice never makes the assertion fail.
\<close>

theorem pipelining_main_invariant:
  assumes "store_laws r st val" "file_laws (pi_writer pin)" "int (Suc r * 200) < 2 ^ 63"
    and "pipelining_main st pin w = (x, m, w')"
  shows "case x of
      Inr _ \<Rightarrow> csv_rows (ms_file m) = pipe_columns # good_rows pin 200 (planned_runs 5 [Sequential, Pipeline])
    | Inl p \<Rightarrow> (\<exists>e. p = PanicError e \<and> main_error st pin e)
        \<or> (0 < r \<and> (\<exists>before v nr after actual.
             planned_runs 5 [Sequential, Pipeline] = before @ (v, nr) # after
             \<and> 200 < actual \<and> actual \<le> int (Suc r * 200) \<and> p = sum_mismatch v actual 200
             \<and> csv_rows (ms_file m) = pipe_columns # good_rows pin 200 before @ [pipe_row pin 200 v nr actual]))"
    (is "?goal x m")
proof -
  let ?wr = "pi_writer pin"
  have fail: "?goal (Inl (PanicError e)) m" if "main_error st pin e" for e m using that by simp
  show ?thesis
  proof (cases "pi_parse pin = None \<and> pi_ping pin = None \<and> pi_create pin = None")
    case False
    then have "\<exists>e. x = Inl (PanicError e) \<and> main_error st pin e"
      using assms(4) by (auto simp: pipelining_main_def with_file_def NewMeasurements_def Check_def main_error_def
          split: option.splits)
    with fail show ?thesis by blast
  next
    case True
    obtain y m1 where y: "Write_row ?wr pipe_columns no_file = (y, m1)" by fastforce
    have "sourced ?wr no_file" "follows no_file []" by (simp_all add: sourced_def no_file_def follows_def)
    from Write_row_end [OF y this(1) assms(2) this(2)]
    have hdr: "sourced ?wr m1" "follows m1 (csv_record pipe_columns)" "\<forall>p. y = Inl p \<longrightarrow> (\<exists>e. p = PanicError e \<and> write_error ?wr e)"
      by simp_all
    have start: "(x, m, w') = (case y of Inl p \<Rightarrow> (Inl p, m1, w) | Inr _ \<Rightarrow> (case pipe_experiment st pin (m1, w) of
        (r, m, w) \<Rightarrow> (case Close ?wr (pi_close pin) m of (Inl q, m) \<Rightarrow> (Inl q, m, w) | (Inr _, m) \<Rightarrow> (r, m, w))))"
      using assms(4) True y
      by (simp add: pipelining_main_def with_file_def NewMeasurements_def Check_def no_file_def split: sum.splits)
    show ?thesis
    proof (cases y)
      case (Inl p)
      with hdr(3) start fail show ?thesis by (auto simp: main_error_def)
    next
      case (Inr u)
      obtain z m2 w2 where z: "pipe_experiment st pin (m1, w) = (z, m2, w2)" by (metis prod_cases3)
      note ran = pipe_experiment_ran [OF assms(1-3) hdr(1,2) z, unfolded ran_def]
      obtain q m3 where q: "Close ?wr (pi_close pin) m2 = (q, m3)" by fastforce
      note closed = Close_end [OF q _ assms(2)]
      show ?thesis
      proof (cases q)
        case (Inl p)
        with closed ran start Inr z q fail show ?thesis by (auto simp: main_error_def)
      next
        case c: (Inr v)
        with start Inr z q have xm: "x = z" "m = m3" by simp_all
        have read: "csv_rows (ms_file m) = pipe_columns # rows"
          if "follows m2 (csv_record pipe_columns @ csv_text rows)" "\<forall>row \<in> set rows. row \<noteq> []" for rows
          using closed ran c that csv_rows_text [of "pipe_columns # rows"] xm by (simp add: csv_text_def pipe_columns_def)
        show ?thesis
        proof (cases z)
          case (Inr u)
          with ran read xm rows_nonempty show ?thesis by simp
        next
          case (Inl p)
          show ?thesis
          proof (cases "error_of st pin p")
            case True
            with Inl xm fail show ?thesis by (auto simp: error_of_def main_error_def)
          next
            case False
            with ran Inl obtain before v nr "after" actual where over:
              "planned_runs 5 [Sequential, Pipeline] = before @ (v, nr) # after" "over_counted r 200 actual"
              "p = sum_mismatch v actual 200"
              "follows m2 (csv_record pipe_columns @ csv_text (good_rows pin 200 before @ [pipe_row pin 200 v nr actual]))"
              by auto
            have "csv_rows (ms_file m) = pipe_columns # good_rows pin 200 before @ [pipe_row pin 200 v nr actual]"
              by (rule read [OF over(4)]) (use rows_nonempty [of pin 200 before] in \<open>auto simp: pipe_row_def\<close>)
            moreover have "0 < r" "200 < actual" "actual \<le> int (Suc r * 200)"
              using over(2) by (cases r; simp add: over_counted_def)+
            ultimately have "?goal (Inl p) m" unfolding sum.case using over(1,3)
              by (intro disjI2 conjI exI [of _ before] exI [of _ v] exI [of _ nr] exI [of _ "after"] exI [of _ actual])
            then show ?thesis using Inl xm by simp
          qed
        qed
      qed
    qed
  qed
qed

subsection \<open>The experiment on concrete stores\<close>

definition sample_inputs :: pipe_inputs where
  "sample_inputs = \<lparr>pi_parse = None, pi_ping = None, pi_create = None, pi_close = None, pi_writer = working_file,
     pi_elapsed = (\<lambda>_ _. ''0.123'')\<rparr>"

text \<open>A store without errors, which also accepts an empty list of keys to delete.\<close>

definition calm_store :: "(string \<rightharpoonup> int) Store" where
  "calm_store = map_store\<lparr>st_Del := (\<lambda>ks w. (None, w |` (- set ks)))\<rparr>"

lemma calm_store_laws: "store_laws r calm_store (\<lambda>w. w)"
  using map_store_laws [of r] unfolding store_laws_def incr_law_def pipelined_law_def mget_law_def del_law_def calm_store_def
  by simp

lemma no_main_errors: "\<not> main_error calm_store sample_inputs e"
  by (simp add: main_error_def sample_inputs_def store_error_def write_error_def working_file_def calm_store_def map_store_def)

theorem pipelining_main_invariant_witness:
  "\<exists>m w. pipelining_main calm_store sample_inputs Map.empty = (Inr (), m, w)
     \<and> csv_rows (ms_file m) = pipe_columns # good_rows sample_inputs 200 (planned_runs 5 [Sequential, Pipeline])"
proof -
  obtain x m w where go: "pipelining_main calm_store sample_inputs Map.empty = (x, m, w)" by (metis prod_cases3)
  have "file_laws (pi_writer sample_inputs)" by (simp add: sample_inputs_def working_file_laws)
  from pipelining_main_invariant [OF calm_store_laws [of 0] this _ go] go no_main_errors show ?thesis
    by (cases x) auto
qed

text \<open>
  The assertion can fail with a client that repeats commands, although no call reports an error: when every command
  is executed twice, one measured run over two counters finds the sum 4.
\<close>

lemma repeated_commands_fail_the_assertion:
  "fst (pipe_run twice_store sample_inputs Sequential [''a'', ''b''] 2 1 (no_file, Map.empty))
     = Inl (PanicMessage ''sequential invariant failed: sum=4 expected=2'')"
  by code_simp

end
