(* ===== verification/Sqlite_Lesson.thy ===== *)
theory Sqlite_Lesson
  imports Sqlite_WAL Measurements
begin

section \<open>The SQLite experiment\<close>

text \<open>
  \<^verbatim>\<open>lessons/go/sqlite-wal-lab/main.go\<close>: three trials in each journal mode, each row given to the measurements file, which is
  closed at the end. A panic loses the rows still in the buffer, as in the source, which does not defer \<^verbatim>\<open>Close\<close>. The state is the file and the world of the
  databases. \<open>wf_ms\<close> prints the elapsed nanoseconds as milliseconds.
\<close>

record wal_file =
  wf_create :: "string option"
  wf_close :: "string option"
  wf_writer :: file_writer
  wf_ms :: "int \<Rightarrow> string"

definition wal_columns :: "string list" where
  "wal_columns = [''mode'', ''trial'', ''write_ms'', ''result'']"

definition wal_row :: "wal_file \<Rightarrow> measurement \<Rightarrow> string list" where
  "wal_row fl m = [journal_name (m_mode m), Itoa (int (m_trial m)), wf_ms fl (m_writeNs m), m_result m]"

definition file_step :: "(Measurements \<Rightarrow> (panic, unit) result \<times> Measurements) \<Rightarrow> tick \<Rightarrow> Measurements \<times> 'w
    \<Rightarrow> (panic, unit) result \<times> (Measurements \<times> 'w)" where
  "file_step f i s = (case f (fst s) of (r, m) \<Rightarrow> (r, (m, snd s)))"

fun run_trials :: "wal_file \<Rightarrow> 'w sqlite \<Rightarrow> (journal \<times> nat) list
    \<Rightarrow> (tick, Measurements \<times> 'w, (panic, measurement list) result) thread" where
  "run_trials fl db [] = Done (Inr [])"
| "run_trials fl db ((j, trial) # rest) =
     and_then (zoom snd (\<lambda>w s. (fst s, w)) (run_trial db j trial)) (\<lambda>r. case r of
       Inl p \<Rightarrow> Done (Inl p)
     | Inr m \<Rightarrow> atomically (file_step (Write_row (wf_writer fl) (wal_row fl m))) (\<lambda>r. case r of
         Inl p \<Rightarrow> Done (Inl p)
       | Inr _ \<Rightarrow> and_then (run_trials fl db rest) (\<lambda>r. case r of
           Inl p \<Rightarrow> Done (Inl p)
         | Inr ms \<Rightarrow> Done (Inr (m # ms)))))"

definition trials :: nat where
  "trials = 3"

definition wal_main :: "wal_file \<Rightarrow> 'w sqlite \<Rightarrow> (tick, Measurements \<times> 'w, (panic, measurement list) result) thread" where
  "wal_main fl db =
     atomically (file_step (\<lambda>_. NewMeasurements (wf_writer fl) (wf_create fl) wal_columns)) (\<lambda>r. case r of
       Inl p \<Rightarrow> Done (Inl p)
     | Inr _ \<Rightarrow> and_then (run_trials fl db (List.product [DELETE, WAL] [1..<Suc trials])) (\<lambda>r. case r of
         Inl p \<Rightarrow> Done (Inl p)
       | Inr ms \<Rightarrow> atomically (file_step (Close (wf_writer fl) (wf_close fl))) (\<lambda>r. case r of
           Inl p \<Rightarrow> Done (Inl p)
         | Inr _ \<Rightarrow> Done (Inr ms))))"

subsection \<open>One trial\<close>

text \<open>The database is in the mode its variant is named by and, in a calm run, nobody writes to it.\<close>

definition ready :: "('w \<Rightarrow> journal \<rightharpoonup> string) \<Rightarrow> ('w \<Rightarrow> journal \<Rightarrow> bool) \<Rightarrow> bool \<Rightarrow> journal \<Rightarrow> 'w \<Rightarrow> bool" where
  "ready mode writing c j w \<longleftrightarrow> mode w j = Some (journal_name j) \<and> (c \<longrightarrow> \<not> writing w j)"

lemma ready_kept:
  assumes "sqlite_laws db rows snap mode" "c \<Longrightarrow> calm_laws db snap mode writing" "ready mode writing c j w"
  shows "sq_Begin db j i w = (a, w') \<Longrightarrow> ready mode writing c j w'"
    "sq_TxCount db j i w = (b, w') \<Longrightarrow> ready mode writing c j w'"
    "sq_Conn db j i w = (a, w') \<Longrightarrow> ready mode writing c j w'"
    "sq_Prepare db j i w = (a, w') \<Longrightarrow> ready mode writing c j w'"
    "sq_Schema db j i w = (None, w') \<Longrightarrow> ready mode writing c j w'"
proof -
  have w: "sq_Begin db j i w = (a, w') \<Longrightarrow> writing w' = writing w" "sq_TxCount db j i w = (b, w') \<Longrightarrow> writing w' = writing w"
    "sq_Conn db j i w = (a, w') \<Longrightarrow> writing w' = writing w" "sq_Prepare db j i w = (a, w') \<Longrightarrow> writing w' = writing w"
    "sq_Schema db j i w = (None, w') \<Longrightarrow> writing w' = writing w" if c
    using assms(2) [OF that] unfolding calm_laws_def keeps_def by (metis snd_conv)+
  show "sq_Begin db j i w = (a, w') \<Longrightarrow> ready mode writing c j w'"
    using w(1) frame_law(1) [OF assms(1)] assms(3) by (auto simp: ready_def)
  show "sq_TxCount db j i w = (b, w') \<Longrightarrow> ready mode writing c j w'"
    using w(2) TxCount_law(5) [OF assms(1)] assms(3) by (auto simp: ready_def)
  show "sq_Conn db j i w = (a, w') \<Longrightarrow> ready mode writing c j w'"
    using w(3) frame_law(2) [OF assms(1)] assms(3) by (auto simp: ready_def)
  show "sq_Prepare db j i w = (a, w') \<Longrightarrow> ready mode writing c j w'"
    using w(4) frame_law(3) [OF assms(1)] assms(3) by (auto simp: ready_def)
  show "sq_Schema db j i w = (None, w') \<Longrightarrow> ready mode writing c j w'"
    using w(5) Schema_law [OF assms(1)] assms(3) by (auto simp: ready_def)
qed

lemma calm_answers:
  assumes "calm_laws db snap mode writing" "calm i"
  shows "sq_MkdirTemp db ''wal-lab-'' i w \<noteq> (Inl e, w')" "sq_Open db j d i w = (r, w') \<Longrightarrow> r = None \<and> \<not> writing w' j"
    "sq_Begin db j i w = (r, w') \<Longrightarrow> r = None" "sq_TxCount db j i w \<noteq> (Inl e, w')"
    "sq_Conn db j i w = (r, w') \<Longrightarrow> r = None" "sq_Prepare db j i w = (r, w') \<Longrightarrow> r = None"
    "writable snap mode writing w j \<Longrightarrow> sq_Schema db j i w = (r, w') \<Longrightarrow> r = None"
    "writable snap mode writing w j \<Longrightarrow> sq_Exec db j i w = (x, w') \<Longrightarrow> x = None"
  using assms unfolding calm_laws_def by (metis fst_conv prod.inject old.sum.distinct(1))+

lemma within_deferred: "within P d t w (\<lambda>a w. Q a) \<Longrightarrow> within P (d + 1) (deferred f t) w (\<lambda>a w. Q a)"
  unfolding deferred_def by (erule within_and_then) (auto intro!: within_rules)

definition write_outcome :: "journal \<Rightarrow> bool \<Rightarrow> (string, WriteResult) result \<Rightarrow> bool" where
  "write_outcome j calm_run r \<longleftrightarrow> (case r of Inl e \<Rightarrow> \<not> calm_run
     | Inr wr \<Rightarrow> (j = DELETE \<longrightarrow> WriteErr wr \<noteq> None) \<and> (calm_run \<and> j = WAL \<longrightarrow> WriteErr wr = None)
         \<and> (\<forall>e. WriteErr wr = Some e \<longrightarrow> se_Error e \<noteq> ''ok''))"

lemma WriteEvent_within:
  assumes "sqlite_laws db rows snap mode" "c \<Longrightarrow> calm_laws db snap mode writing" "snap w j \<noteq> None" "ready mode writing c j w"
  shows "within (\<lambda>i. c \<longrightarrow> calm i) 7 (WriteEvent db j) w (\<lambda>r w. write_outcome j c r)"
proof -
  let ?S = "\<lambda>v. snap v j \<noteq> None \<and> ready mode writing c j v"
  note kept = ready_kept [OF assms(1,2)]
  have exec: "write_outcome j c (Inr \<lparr>Elapsed = t, WriteErr = r\<rparr>)"
    if "c \<longrightarrow> calm i" "sq_Exec db j i v = (r, w')" "?S v" for i v r w' t
  proof -
    note law = Exec_law [OF assms(1) that(2)]
    have "r \<noteq> None" if "j = DELETE"
    proof
      assume "r = None"
      from law(4) [OF this] \<open>?S v\<close> that show False by (simp add: ready_def journal_name_def)
    qed
    moreover have "r = None" if "c" "j = WAL"
    proof -
      from \<open>?S v\<close> that have "writable snap mode writing v j" by (simp add: ready_def journal_name_def writable_def)
      with calm_answers(8) [OF assms(2) [OF that(1)]] \<open>c \<longrightarrow> calm i\<close> that(1) \<open>sq_Exec db j i v = (r, w')\<close>
      show ?thesis by blast
    qed
    ultimately show ?thesis using law(3) by (auto simp: write_outcome_def)
  qed
  let ?P = "\<lambda>i. c \<longrightarrow> calm i" and ?Q = "\<lambda>r w. write_outcome j c r"
  let ?finish = "\<lambda>start err. atomically time_Now (\<lambda>now. atomically (sq_CloseStmt db j) (\<lambda>_. atomically (sq_CloseConn db j) (\<lambda>_.
    Done (Inr \<lparr>Elapsed = now - start, WriteErr = err\<rparr>))))"
  have "within ?P (Suc (Suc (Suc 0))) (?finish start r) w ?Q" if "\<And>t. write_outcome j c (Inr \<lparr>Elapsed = t, WriteErr = r\<rparr>)" for start r w
    using that by (intro within_atomically) simp
  then have e: "within ?P (Suc (Suc (Suc (Suc 0)))) (atomically (sq_Exec db j) (?finish start)) v ?Q" if "?S v" for start v
    using exec [OF _ _ that] by - (rule within_atomically, blast)
  have p: "within ?P (Suc (Suc (Suc (Suc (Suc (Suc 0)))))) (atomically (sq_Prepare db j) (\<lambda>err. case err of
         Some e \<Rightarrow> atomically (sq_CloseConn db j) (\<lambda>_. Done (Inl e))
       | None \<Rightarrow> atomically time_Now (\<lambda>start. atomically (sq_Exec db j) (?finish start)))) v ?Q" if "?S v" for v
  proof (rule within_atomically)
    fix i r w'
    assume r: "?P i" "sq_Prepare db j i v = (r, w')"
    with that kept(4) have s: "?S w'" by (auto simp: frame_law [OF assms(1)])
    show "within ?P (Suc (Suc (Suc (Suc (Suc 0))))) (case r of Some e \<Rightarrow> atomically (sq_CloseConn db j) (\<lambda>_. Done (Inl e))
       | None \<Rightarrow> atomically time_Now (\<lambda>start. atomically (sq_Exec db j) (?finish start))) w' ?Q"
    proof (cases r)
      case None
      show ?thesis unfolding None option.case
        by (rule within_atomically) (use e s in \<open>simp add: time_Now_def\<close>)
    next
      case (Some x)
      with r calm_answers(6) [OF assms(2)] have "\<not> c" by blast
      with Some show ?thesis by (auto intro!: within_rules simp: write_outcome_def)
    qed
  qed
  have "within ?P (Suc (Suc (Suc (Suc (Suc (Suc (Suc 0))))))) (WriteEvent db j) w ?Q"
    unfolding WriteEvent_def
  proof (rule within_atomically)
    fix i r w'
    assume r: "?P i" "sq_Conn db j i w = (r, w')"
    with assms(3,4) kept(3) have s: "?S w'" by (auto simp: frame_law [OF assms(1)])
    have "r = None" if c using calm_answers(5) [OF assms(2) [OF that]] r that by blast
    then show "within ?P (Suc (Suc (Suc (Suc (Suc (Suc 0)))))) (case r of Some e \<Rightarrow> Done (Inl e)
       | None \<Rightarrow> atomically (sq_Prepare db j) (\<lambda>err. case err of
         Some e \<Rightarrow> atomically (sq_CloseConn db j) (\<lambda>_. Done (Inl e))
       | None \<Rightarrow> atomically time_Now (\<lambda>start. atomically (sq_Exec db j) (?finish start)))) w' ?Q"
      using p [OF s] by (cases r) (auto simp: write_outcome_def)
  qed
  then show ?thesis by (simp add: numeral_eq_Suc)
qed

lemma OpenSnapshot_within:
  assumes "sqlite_laws db rows snap mode" "c \<Longrightarrow> calm_laws db snap mode writing" "ready mode writing c j w"
  shows "within (\<lambda>i. c \<longrightarrow> calm i) 3 (OpenSnapshot db j) w
    (\<lambda>r w. case r of Inl e \<Rightarrow> \<not> c | Inr n \<Rightarrow> snap w j = Some n \<and> ready mode writing c j w)"
proof -
  let ?P = "\<lambda>i. c \<longrightarrow> calm i" and ?Q = "\<lambda>r w. case r of Inl e \<Rightarrow> \<not> c | Inr n \<Rightarrow> snap w j = Some n \<and> ready mode writing c j w"
  have count: "within ?P (Suc (Suc 0)) (atomically (sq_TxCount db j) (\<lambda>r. case r of
         Inl e \<Rightarrow> atomically (sq_Rollback db j) (\<lambda>_. Done (Inl e)) | Inr count \<Rightarrow> Done (Inr count))) v ?Q"
    if v: "ready mode writing c j v" for v
  proof (rule within_atomically)
    fix i r w'
    assume r: "?P i" "sq_TxCount db j i v = (r, w')"
    have "\<not> c" if "r = Inl e" for e using calm_answers(4) [OF assms(2)] r that by blast
    moreover have "ready mode writing c j w'" by (rule ready_kept(2) [OF assms(1,2) v r(2)])
    moreover have "snap w' j = Some n" if "r = Inr n" for n using TxCount_law(2) [OF assms(1) r(2) that] by simp
    ultimately show "within ?P (Suc 0) (case r of Inl e \<Rightarrow> atomically (sq_Rollback db j) (\<lambda>_. Done (Inl e))
       | Inr count \<Rightarrow> Done (Inr count)) w' ?Q"
      by (cases r) (auto intro!: within_rules)
  qed
  have "within ?P (Suc (Suc (Suc 0))) (OpenSnapshot db j) w ?Q"
    unfolding OpenSnapshot_def
  proof (rule within_atomically)
    fix i r w'
    assume r: "?P i" "sq_Begin db j i w = (r, w')"
    have "r = None" if c using calm_answers(3) [OF assms(2) [OF that]] r that by blast
    with count [OF ready_kept(1) [OF assms r(2)]]
    show "within ?P (Suc (Suc 0)) (case r of Some e \<Rightarrow> Done (Inl e) | None \<Rightarrow> atomically (sq_TxCount db j) (\<lambda>r. case r of
         Inl e \<Rightarrow> atomically (sq_Rollback db j) (\<lambda>_. Done (Inl e)) | Inr count \<Rightarrow> Done (Inr count))) w' ?Q"
      by (cases r) auto
  qed
  then show ?thesis by (simp add: numeral_eq_Suc)
qed

definition trial_outcome :: "journal \<Rightarrow> nat \<Rightarrow> bool \<Rightarrow> (panic, measurement) result \<Rightarrow> bool" where
  "trial_outcome j trial c r \<longleftrightarrow> (case r of Inl p \<Rightarrow> \<not> c
     | Inr m \<Rightarrow> m_mode m = j \<and> m_trial m = trial \<and> (j = DELETE \<longrightarrow> m_result m \<noteq> ''ok'') \<and> (c \<and> j = WAL \<longrightarrow> m_result m = ''ok''))"

lemma run_trial_within:
  assumes "sqlite_laws db rows snap mode" "c \<Longrightarrow> calm_laws db snap mode writing" "plain_temp db"
  shows "within (\<lambda>i. c \<longrightarrow> calm i) 16 (run_trial db j trial) w (\<lambda>r w. trial_outcome j trial c r)"
proof -
  let ?P = "\<lambda>i. c \<longrightarrow> calm i" and ?Q = "\<lambda>r w. trial_outcome j trial c r"
  have writes: "within ?P (7 + 0) (and_then (WriteEvent db j) (\<lambda>r. case r of Inl e \<Rightarrow> Done (Inl (PanicError e))
      | Inr write \<Rightarrow> Done (Inr (measured j trial write)))) w ?Q" if "snap w j \<noteq> None" "ready mode writing c j w" for w
    by (rule within_and_then [OF WriteEvent_within [OF assms(1,2) that]])
      (auto simp: write_outcome_def trial_outcome_def measured_def split: sum.splits option.splits)
  have snap: "within ?P (3 + 8) (and_then (OpenSnapshot db j) (\<lambda>r. case r of
       Inl e \<Rightarrow> Done (Inl (PanicError e))
     | Inr n \<Rightarrow> deferred (sq_Rollback db j) (and_then (WriteEvent db j) (\<lambda>r. case r of Inl e \<Rightarrow> Done (Inl (PanicError e))
      | Inr write \<Rightarrow> Done (Inr (measured j trial write)))))) w ?Q" if "ready mode writing c j w" for w
  proof (rule within_and_then [OF OpenSnapshot_within [OF assms(1,2) that]])
    fix r :: "(string, int) result" and w
    assume "case r of Inl e \<Rightarrow> \<not> c | Inr n \<Rightarrow> snap w j = Some n \<and> ready mode writing c j w"
    then show "within ?P 8 (case r of Inl e \<Rightarrow> Done (Inl (PanicError e)) | Inr n \<Rightarrow> deferred (sq_Rollback db j)
      (and_then (WriteEvent db j) (\<lambda>r. case r of Inl e \<Rightarrow> Done (Inl (PanicError e))
      | Inr write \<Rightarrow> Done (Inr (measured j trial write))))) w ?Q"
      using within_deferred [OF writes] by (auto simp: trial_outcome_def split: sum.splits)
  qed
  let ?schema = "atomically (sq_Schema db j) (\<lambda>err. case err of
                 Some e \<Rightarrow> Done (Inl (PanicError e))
               | None \<Rightarrow> and_then (OpenSnapshot db j) (\<lambda>r. case r of
                   Inl e \<Rightarrow> Done (Inl (PanicError e))
                 | Inr count \<Rightarrow> deferred (sq_Rollback db j)
                     (and_then (WriteEvent db j) (\<lambda>r. case r of
                        Inl e \<Rightarrow> Done (Inl (PanicError e))
                      | Inr write \<Rightarrow> Done (Inr (measured j trial write))))))"
  have "within ?P (Suc 11) ?schema v ?Q" if v: "ready mode writing c j v" "snap v j = None" for v
  proof (rule within_atomically)
    fix i r w'
    assume r: "?P i" "sq_Schema db j i v = (r, w')"
    have "r = None" if c
    proof -
      from v that have "writable snap mode writing v j" by (simp add: writable_def ready_def)
      with calm_answers(7) [OF assms(2) [OF that]] r that show ?thesis by blast
    qed
    moreover have "ready mode writing c j w'" if "r = None" using ready_kept(5) [OF assms(1,2) v(1)] r(2) that by simp
    ultimately show "within ?P 11 (case r of Some e \<Rightarrow> Done (Inl (PanicError e)) | None \<Rightarrow> and_then (OpenSnapshot db j) (\<lambda>r. case r of
                   Inl e \<Rightarrow> Done (Inl (PanicError e))
                 | Inr count \<Rightarrow> deferred (sq_Rollback db j)
                     (and_then (WriteEvent db j) (\<lambda>r. case r of
                        Inl e \<Rightarrow> Done (Inl (PanicError e))
                      | Inr write \<Rightarrow> Done (Inr (measured j trial write)))))) w' ?Q"
      using snap by (cases r) (auto simp: trial_outcome_def)
  qed
  from within_deferred [OF this] have schema: "within ?P 13 (deferred (sq_Close db j) ?schema) v ?Q"
    if "ready mode writing c j v" "snap v j = None" for v using that by simp
  let ?open = "\<lambda>dir. atomically (sq_Open db j (DSN (file_Join dir ''events.db'') (journal_name j) 2000)) (\<lambda>err. case err of
            Some e \<Rightarrow> Done (Inl (PanicError e)) | None \<Rightarrow> deferred (sq_Close db j) ?schema)"
  have "within ?P (Suc 13) (?open dir) v ?Q" if dir: "CHR ''?'' \<notin> set dir" for dir v
  proof (rule within_atomically)
    fix i r w'
    assume r: "?P i" "sq_Open db j (DSN (file_Join dir ''events.db'') (journal_name j) 2000) i v = (r, w')"
    have "r = None \<and> \<not> writing w' j" if c using calm_answers(2) [OF assms(2) [OF that]] r that by blast
    moreover have "mode w' j = Some (journal_name j) \<and> snap w' j = None" if "r = None"
      using Open_law [OF assms(1)] r(2) that opened_mode [OF dir, of "''events.db''" j 2000] by simp
    ultimately show "within ?P 13 (case r of Some e \<Rightarrow> Done (Inl (PanicError e)) | None \<Rightarrow> deferred (sq_Close db j) ?schema) w' ?Q"
      using schema by (cases r) (auto simp: ready_def trial_outcome_def)
  qed
  from within_deferred [OF this] have rest: "within ?P 15 (deferred (sq_RemoveAll db dir) (?open dir)) v ?Q"
    if "CHR ''?'' \<notin> set dir" for dir v using that by simp
  have "within ?P (Suc 15) (run_trial db j trial) w ?Q" unfolding run_trial_def
  proof (rule within_atomically)
    fix i r w'
    assume r: "?P i" "sq_MkdirTemp db ''wal-lab-'' i w = (r, w')"
    have "\<not> c" if "r = Inl e" for e using calm_answers(1) [OF assms(2)] r that by blast
    moreover have "CHR ''?'' \<notin> set dir" if "r = Inr dir" for dir using assms(3) r(2) that unfolding plain_temp_def by blast
    ultimately show "within ?P 15 (case r of Inl e \<Rightarrow> Done (Inl (PanicError e))
        | Inr dir \<Rightarrow> deferred (sq_RemoveAll db dir) (?open dir)) w' ?Q"
      using rest by (cases r) (auto simp: trial_outcome_def)
  qed
  then show ?thesis by simp
qed

subsection \<open>The experiment\<close>

text \<open>The file never reports an error.\<close>

definition file_works :: "wal_file \<Rightarrow> bool" where
  "file_works fl \<longleftrightarrow> no_errors (wf_writer fl) \<and> wf_create fl = None \<and> wf_close fl = None"

definition trials_end :: "wal_file \<Rightarrow> bool \<Rightarrow> (journal \<times> nat) list \<Rightarrow> string \<Rightarrow> (panic, measurement list) result
    \<Rightarrow> Measurements \<times> 'w \<Rightarrow> bool" where
  "trials_end fl c js s r st \<longleftrightarrow> (case r of Inl p \<Rightarrow> \<not> c
     | Inr ms \<Rightarrow> list_all2 (\<lambda>(j, trial) m. trial_outcome j trial c (Inr m)) js ms
         \<and> follows (fst st) (s @ csv_text (map (wal_row fl) ms)) \<and> ms_err (fst st) = None)"

lemma run_trials_within:
  assumes "sqlite_laws db rows snap mode" "c \<Longrightarrow> calm_laws db snap mode writing \<and> file_works fl" "plain_temp db"
    "file_laws (wf_writer fl)"
  shows "follows m s \<Longrightarrow> ms_err m = None \<Longrightarrow> within (\<lambda>i. c \<longrightarrow> calm i) (17 * length js) (run_trials fl db js) (m, w) (trials_end fl c js s)"
proof (induction js arbitrary: m s w)
  case (Cons jt js)
  obtain j trial where jt: "jt = (j, trial)" by (cases jt)
  let ?P = "\<lambda>i. c \<longrightarrow> calm i" and ?k = "17 * length js"
  have more: "within ?P (?k + 0) (and_then (run_trials fl db js) (\<lambda>r. case r of
         Inl p \<Rightarrow> Done (Inl p) | Inr ms \<Rightarrow> Done (Inr (x # ms)))) (m', w') (trials_end fl c (jt # js) s)"
    if "trial_outcome j trial c (Inr x)" "follows m' (s @ csv_record (wal_row fl x))" "ms_err m' = None" for x m' w'
    by (rule within_and_then [OF Cons.IH [OF that(2,3)]])
      (use that(1) jt in \<open>auto simp: trials_end_def csv_text_def split: sum.splits\<close>)
  have row: "within ?P (Suc ?k) (atomically (file_step (Write_row (wf_writer fl) (wal_row fl x))) (\<lambda>r. case r of
         Inl p \<Rightarrow> Done (Inl p)
       | Inr _ \<Rightarrow> and_then (run_trials fl db js) (\<lambda>r. case r of
           Inl p \<Rightarrow> Done (Inl p) | Inr ms \<Rightarrow> Done (Inr (x # ms))))) (m, w') (trials_end fl c (jt # js) s)"
    if x: "trial_outcome j trial c (Inr x)" for x w'
  proof (rule within_atomically)
    fix i r st
    assume "file_step (Write_row (wf_writer fl) (wal_row fl x)) i (m, w') = (r, st)"
    then obtain m' where m': "Write_row (wf_writer fl) (wal_row fl x) m = (r, m')" "st = (m', w')"
      by (auto simp: file_step_def split: prod.splits)
    have f: "follows m' (s @ csv_record (wal_row fl x))"
      using follows_Write [OF assms(4) Cons.prems(1), of "wal_row fl x"] m'(1) by simp
    have "ms_err m' = None" if c
      using no_errors_put [OF _ Cons.prems(2), of "wf_writer fl" "csv_record (wal_row fl x)"] assms(2) [OF that] m'(1)
      by (auto simp: Write_row_def Let_def file_works_def)
    moreover have "(\<exists>p. r = Inl p) \<longleftrightarrow> ms_err m' \<noteq> None" using m'(1)
      by (auto simp: Write_row_def Let_def Check_def split: option.splits)
    ultimately show "within ?P ?k (case r of Inl p \<Rightarrow> Done (Inl p)
       | Inr _ \<Rightarrow> and_then (run_trials fl db js) (\<lambda>r. case r of
           Inl p \<Rightarrow> Done (Inl p) | Inr ms \<Rightarrow> Done (Inr (x # ms)))) st (trials_end fl c (jt # js) s)"
      using more [OF x f] m'(2) by (cases r) (auto simp: trials_end_def)
  qed
  have "within ?P (16 + Suc ?k) (run_trials fl db (jt # js)) (m, w) (trials_end fl c (jt # js) s)"
    unfolding jt run_trials.simps
  proof (rule within_and_then [OF within_zoom_snd [OF run_trial_within [OF assms(1) _ assms(3)]]])
    show "c \<Longrightarrow> calm_laws db snap mode writing" using assms(2) by blast
    fix r and st :: "Measurements \<times> 'a"
    assume "fst st = m \<and> trial_outcome j trial c r"
    with row show "within ?P (Suc ?k) (case r of Inl p \<Rightarrow> Done (Inl p)
       | Inr x \<Rightarrow> atomically (file_step (Write_row (wf_writer fl) (wal_row fl x))) (\<lambda>r. case r of
           Inl p \<Rightarrow> Done (Inl p)
         | Inr _ \<Rightarrow> and_then (run_trials fl db js) (\<lambda>r. case r of
             Inl p \<Rightarrow> Done (Inl p) | Inr ms \<Rightarrow> Done (Inr (x # ms))))) st (trials_end fl c ((j, trial) # js) s)"
      using jt by (cases st; cases r) (auto simp: trials_end_def trial_outcome_def [of _ _ _ "Inl _"])
  qed
  then show ?case by simp
qed (simp add: trials_end_def csv_text_def)

definition main_end :: "wal_file \<Rightarrow> bool \<Rightarrow> (journal \<times> nat) list \<Rightarrow> (panic, measurement list) result \<Rightarrow> Measurements \<times> 'w \<Rightarrow> bool" where
  "main_end fl c js r st \<longleftrightarrow> (case r of Inl p \<Rightarrow> \<not> c
     | Inr ms \<Rightarrow> list_all2 (\<lambda>(j, trial) m. trial_outcome j trial c (Inr m)) js ms
         \<and> csv_rows (ms_file (fst st)) = wal_columns # map (wal_row fl) ms)"

lemma wal_close_within:
  assumes "file_laws (wf_writer fl)" "c \<Longrightarrow> file_works fl" "trials_end fl c js (csv_record wal_columns) (Inr ms) st"
  shows "within P (Suc 0) (atomically (file_step (Close (wf_writer fl) (wf_close fl))) (\<lambda>r. case r of
           Inl p \<Rightarrow> Done (Inl p) | Inr _ \<Rightarrow> Done (Inr ms))) st (main_end fl c js)"
proof (rule within_atomically)
  fix i r st'
  let ?m = "Flush (wf_writer fl) (fst st)"
  assume "file_step (Close (wf_writer fl) (wf_close fl)) i st = (r, st')"
  then have r: "r = (case ms_err ?m of Some e \<Rightarrow> Inl (PanicError e) | None \<Rightarrow> Check (wf_close fl))" "fst st' = ?m"
    by (auto simp: file_step_def Close_def Let_def Check_def split: prod.splits option.splits)
  from assms(3) have s: "list_all2 (\<lambda>(j, trial) m. trial_outcome j trial c (Inr m)) js ms"
    "follows (fst st) (csv_text (wal_columns # map (wal_row fl) ms))" "ms_err (fst st) = None"
    by (simp_all add: trials_end_def csv_text_def)
  have "r = Inr ()" if c
    using assms(2) [OF that] no_errors_Flush [OF _ s(3), of "wf_writer fl"] r(1) by (simp add: file_works_def Check_def)
  moreover have "csv_rows (ms_file ?m) = wal_columns # map (wal_row fl) ms" if "r = Inr ()"
  proof -
    from that r(1) have "ms_err ?m = None" by (auto split: option.splits)
    with follows_Flush [OF assms(1) s(2)] have "ms_file ?m = csv_text (wal_columns # map (wal_row fl) ms)" by (simp add: follows_def)
    then show ?thesis by (simp add: csv_rows_text wal_columns_def wal_row_def)
  qed
  ultimately show "within P 0 (case r of Inl p \<Rightarrow> Done (Inl p) | Inr _ \<Rightarrow> Done (Inr ms)) st' (main_end fl c js)"
    using s(1) r(2) by (cases r) (auto simp: main_end_def)
qed

lemma wal_main_within:
  assumes "sqlite_laws db rows snap mode" "c \<Longrightarrow> calm_laws db snap mode writing \<and> file_works fl" "plain_temp db"
    "file_laws (wf_writer fl)"
  shows "within (\<lambda>i. c \<longrightarrow> calm i) 104 (wal_main fl db) (m, w) (main_end fl c (List.product [DELETE, WAL] [1..<Suc trials]))"
proof -
  let ?P = "\<lambda>i. c \<longrightarrow> calm i" and ?js = "List.product [DELETE, WAL] [1..<Suc trials]"
  let ?k = "and_then (run_trials fl db ?js) (\<lambda>r. case r of
         Inl p \<Rightarrow> Done (Inl p)
       | Inr ms \<Rightarrow> atomically (file_step (Close (wf_writer fl) (wf_close fl))) (\<lambda>r. case r of
           Inl p \<Rightarrow> Done (Inl p) | Inr _ \<Rightarrow> Done (Inr ms)))"
  have len: "length ?js = 6" by (simp add: trials_def)
  have body: "within ?P (17 * length ?js + Suc 0) ?k (m', w') (main_end fl c ?js)"
    if "follows m' (csv_record wal_columns)" "ms_err m' = None" for m' w'
  proof (rule within_and_then [OF run_trials_within [OF assms that]], assumption)
    fix r and st :: "Measurements \<times> 'a"
    assume "trials_end fl c ?js (csv_record wal_columns) r st"
    then show "within ?P (Suc 0) (case r of
         Inl p \<Rightarrow> Done (Inl p)
       | Inr ms \<Rightarrow> atomically (file_step (Close (wf_writer fl) (wf_close fl))) (\<lambda>r. case r of
           Inl p \<Rightarrow> Done (Inl p) | Inr _ \<Rightarrow> Done (Inr ms))) st (main_end fl c ?js)"
    proof (cases r)
      case (Inr ms)
      assume e: "trials_end fl c ?js (csv_record wal_columns) r st"
      show ?thesis unfolding Inr sum.case
        by (rule wal_close_within [OF assms(4) _ e [unfolded Inr]]) (use assms(2) in blast)
    qed (simp add: trials_end_def main_end_def)
  qed
  have "within ?P (Suc (17 * length ?js + Suc 0)) (wal_main fl db) (m, w) (main_end fl c ?js)"
    unfolding wal_main_def
  proof (rule within_atomically)
    fix i r st
    let ?e = "\<lparr>ms_file = [], ms_buf = [], ms_err = None\<rparr>"
    assume st: "file_step (\<lambda>_. NewMeasurements (wf_writer fl) (wf_create fl) wal_columns) i (m, w) = (r, st)"
    have f: "follows (snd (Write_row (wf_writer fl) wal_columns ?e)) (csv_record wal_columns)"
      using follows_Write [OF assms(4), of ?e "[]" wal_columns] by (simp add: follows_def)
    have "r = Inr ()" if c
      using st assms(2) [OF that] no_errors_put [of "wf_writer fl" ?e "csv_record wal_columns"]
      by (auto simp: file_step_def NewMeasurements_def file_works_def Write_row_def Let_def Check_def)
    moreover have "follows (fst st) (csv_record wal_columns) \<and> ms_err (fst st) = None" if "r = Inr ()"
      using st f that by (auto simp: file_step_def NewMeasurements_def Write_row_def Let_def Check_def split: option.splits)
    ultimately show "within ?P (17 * length ?js + Suc 0) (case r of Inl p \<Rightarrow> Done (Inl p) | Inr _ \<Rightarrow> ?k) st (main_end fl c ?js)"
      using body by (cases st; cases r) (auto simp: main_end_def)
  qed
  then show ?thesis unfolding len by simp
qed

text \<open>
  C37. What the experiment shows: 104 calls are enough for it to return. Whatever fails, when it returns its file gives
  back the header and one row for each of the three trials in each mode, in order, and every trial whose DSN asks for
  a rollback journal has a write that failed, because the reader's snapshot is open. When nothing but a lock makes
  a call fail, it does return, and every write whose DSN asks for \<^verbatim>\<open>WAL\<close> succeeds beside the open snapshot.
\<close>

theorem wal_main_shows:
  assumes "sqlite_laws db rows snap mode" "plain_temp db" "file_laws (wf_writer fl)" "104 \<le> length is"
  shows "\<exists>r m' w'. run (wal_main fl db) is (m, w) = (Done r, (m', w'))
    \<and> (\<forall>ms. r = Inr ms \<longrightarrow>
         map (\<lambda>x. (m_mode x, m_trial x)) ms = [(DELETE, 1), (DELETE, 2), (DELETE, 3), (WAL, 1), (WAL, 2), (WAL, 3)]
         \<and> csv_rows (ms_file m') = wal_columns # map (wal_row fl) ms
         \<and> list_all (\<lambda>x. m_mode x = DELETE \<longrightarrow> m_result x \<noteq> ''ok'') ms)
    \<and> (calm_laws db snap mode writing \<and> file_works fl \<and> list_all calm is \<longrightarrow>
         (\<exists>ms. r = Inr ms \<and> list_all (\<lambda>x. m_mode x = WAL \<longrightarrow> m_result x = ''ok'') ms))"
proof -
  let ?js = "List.product [DELETE, WAL] [1..<Suc trials]"
  let ?c = "calm_laws db snap mode writing \<and> file_works fl \<and> list_all calm is"
  have js: "?js = [(DELETE, 1), (DELETE, 2), (DELETE, 3), (WAL, 1), (WAL, 2), (WAL, 3)]"
    by (simp add: trials_def upt_rec)
  have 1: "within (\<lambda>i. ?c \<longrightarrow> calm i) 104 (wal_main fl db) (m, w) (main_end fl ?c ?js)"
    by (rule wal_main_within [OF assms(1) _ assms(2,3), where writing = writing]) simp
  have 2: "list_all (\<lambda>i. ?c \<longrightarrow> calm i) is" by (auto simp: list_all_iff)
  from within_run [OF 1 2 assms(4)] obtain r st where r: "run (wal_main fl db) is (m, w) = (Done r, st)" "main_end fl ?c ?js r st"
    by (elim exE conjE)
  obtain m' w' where st: "st = (m', w')" by (cases st)
  show ?thesis using r(1) r(2) [unfolded js main_end_def] unfolding st
    by (intro exI [of _ r] exI [of _ m'] exI [of _ w'])
      (auto simp: trial_outcome_def list_all2_Cons1 split: sum.splits)
qed

definition sample_file :: wal_file where
  "sample_file = \<lparr>wf_create = None, wf_close = None, wf_writer = working_file, wf_ms = (\<lambda>_. ''0.12'')\<rparr>"

lemma sample_file_works: "file_works sample_file" "file_laws (wf_writer sample_file)"
  by (simp_all add: file_works_def sample_file_def working_file_laws)

definition wal_before :: "Measurements \<times> files" where
  "wal_before = (\<lparr>ms_file = [], ms_buf = [], ms_err = None\<rparr>, \<lparr>fl_rows = \<lambda>_. 0, fl_snap = Map.empty, fl_mode = Map.empty\<rparr>)"

theorem wal_main_shows_witness:
  "\<exists>ms m' w'. run (wal_main sample_file file_db) (replicate 104 calm_tick) wal_before = (Done (Inr ms), (m', w'))
     \<and> csv_rows (ms_file m') = wal_columns # map (wal_row sample_file) ms
     \<and> list_all (\<lambda>x. (m_result x = ''ok'') = (m_mode x = WAL)) ms"
proof -
  have c: "list_all calm (replicate 104 calm_tick)" by (simp add: list_all_iff calm_def calm_tick_def)
  have len: "104 \<le> length (replicate 104 calm_tick)" by simp
  have start: "wal_before = (fst wal_before, snd wal_before)" by simp
  have "\<exists>r m' w'. run (wal_main sample_file file_db) (replicate 104 calm_tick) wal_before = (Done r, (m', w'))
    \<and> (\<forall>ms. r = Inr ms \<longrightarrow>
         map (\<lambda>x. (m_mode x, m_trial x)) ms = [(DELETE, 1), (DELETE, 2), (DELETE, 3), (WAL, 1), (WAL, 2), (WAL, 3)]
         \<and> csv_rows (ms_file m') = wal_columns # map (wal_row sample_file) ms
         \<and> list_all (\<lambda>x. m_mode x = DELETE \<longrightarrow> m_result x \<noteq> ''ok'') ms)
    \<and> (calm_laws file_db fl_snap fl_mode (\<lambda>_ _. False) \<and> file_works sample_file \<and> list_all calm (replicate 104 calm_tick) \<longrightarrow>
         (\<exists>ms. r = Inr ms \<and> list_all (\<lambda>x. m_mode x = WAL \<longrightarrow> m_result x = ''ok'') ms))"
    by (subst start, rule wal_main_shows [OF file_db_laws sample_file_works(2) len])
  then obtain r m' w' where r: "run (wal_main sample_file file_db) (replicate 104 calm_tick) wal_before = (Done r, (m', w'))"
    "\<forall>ms. r = Inr ms \<longrightarrow>
         map (\<lambda>x. (m_mode x, m_trial x)) ms = [(DELETE, 1), (DELETE, 2), (DELETE, 3), (WAL, 1), (WAL, 2), (WAL, 3)]
         \<and> csv_rows (ms_file m') = wal_columns # map (wal_row sample_file) ms
         \<and> list_all (\<lambda>x. m_mode x = DELETE \<longrightarrow> m_result x \<noteq> ''ok'') ms"
    "calm_laws file_db fl_snap fl_mode (\<lambda>_ _. False) \<and> file_works sample_file \<and> list_all calm (replicate 104 calm_tick) \<longrightarrow>
         (\<exists>ms. r = Inr ms \<and> list_all (\<lambda>x. m_mode x = WAL \<longrightarrow> m_result x = ''ok'') ms)"
    by (elim exE conjE)
  from r(3) file_db_calm sample_file_works(1) c have "\<exists>ms. r = Inr ms \<and> list_all (\<lambda>x. m_mode x = WAL \<longrightarrow> m_result x = ''ok'') ms"
    by blast
  with r(2) obtain ms where ms: "r = Inr ms" "list_all (\<lambda>x. m_mode x = WAL \<longrightarrow> m_result x = ''ok'') ms"
    "list_all (\<lambda>x. m_mode x = DELETE \<longrightarrow> m_result x \<noteq> ''ok'') ms" "csv_rows (ms_file m') = wal_columns # map (wal_row sample_file) ms"
    by blast
  have "(m_result x = ''ok'') = (m_mode x = WAL)" if "x \<in> set ms" for x
    using ms(2,3) that by (cases "m_mode x") (auto simp: list_all_iff)
  with r(1) ms(1,4) show ?thesis by (auto simp: list_all_iff)
qed

end
