(* ===== verification/Spec2Isabelle.thy ===== *)
theory Spec2Isabelle
  imports Counts Measurements Job_Lesson Job_Server Counter_Lesson Counter_Server Adapters Perf_Serve Cache_Lesson Profile_Server Sqlite_Server
    Pipeline_Lesson Sqlite_Lesson
begin

text \<open>
  \<^bold>\<open>The verification of the systems-trinkets harness and lessons.\<close>

  \<^bold>\<open>The program.\<close> The repository is a set of small experiments in Go. \<^verbatim>\<open>internal/lab\<close> holds what the
  lessons share; \<^verbatim>\<open>internal/lab/docker\<close> is a harness that builds fixture images, starts
  restricted containers from them, checks what the engine made of the request, and removes
  everything again; \<^verbatim>\<open>internal/lab/docker/probe\<close> is the binary inside these images, whose printed
  lines (\<^verbatim>\<open>probeout\<close>) the harness reads back; \<^verbatim>\<open>lessons/go\<close> are the experiments, each a core, a
  main program that measures and asserts, and an HTTP adapter under \<^verbatim>\<open>perf\<close>.

  \<^bold>\<open>Foundations.\<close> \<^verbatim>\<open>Prelude\<close> has the result type, generic lemmas and collections of rules.
  \<^verbatim>\<open>Go_Strings\<close>, \<^verbatim>\<open>Go_Strconv\<close>, \<^verbatim>\<open>Go_Path\<close>, \<^verbatim>\<open>Go_Regexp\<close>, \<^verbatim>\<open>Go_Utf8\<close>, \<^verbatim>\<open>Go_JSON\<close>, \<^verbatim>\<open>Go_Decode\<close>, \<^verbatim>\<open>Go_Encode\<close> and \<^verbatim>\<open>Go_Flag\<close> model what
  the sources use of the Go standard library (\<^verbatim>\<open>Go_Decode\<close> is the JSON scanner and decoder, \<^verbatim>\<open>Go_Encode\<close> what it makes of
  encoded text). \<^verbatim>\<open>Effects\<close> is the monad of programs that record
  their calls, with its program logic (\<open>triple\<close>, \<open>emits\<close>). \<^verbatim>\<open>Threads\<close> models goroutines as trees of
  atomic calls, their interleavings (\<open>reaches\<close>, \<open>schedule\<close>) and a rely-guarantee rule as a locale.

  \<^bold>\<open>The harness.\<close> \<^verbatim>\<open>Probeout\<close> is probeout.go. \<^verbatim>\<open>Image\<close> is image.go: validation of an image
  description, the generated Dockerfile, the build context. \<^verbatim>\<open>Container_Spec\<close> is spec.go, above
  all \<^verbatim>\<open>Translate\<close>; \<^verbatim>\<open>Invariants\<close> and \<^verbatim>\<open>Peers\<close> are invariants.go and the pure part of topology.go.
  \<^verbatim>\<open>Engine\<close> is the Docker client as a record of functions of everything that happened so far, so
  that it can answer anything; \<^verbatim>\<open>Lifecycle\<close> is run.go, \<^verbatim>\<open>Cleanup\<close> is cleanup.go and part of
  egress.go, \<^verbatim>\<open>Topology\<close> is the effectful part of topology.go. \<^verbatim>\<open>Build\<close> is docker.go, the building half of
  image.go with the parser of the daemon's build output, what topology.go does with the images it builds itself, and the
  request counts of egress.go. The lemmas show that what is created is what
  was checked, that nothing unlabelled is removed, and that every returning path has removed
  what it created.

  \<^bold>\<open>The fixture binary.\<close> \<^verbatim>\<open>Probe\<close> (checks.go), \<^verbatim>\<open>Probe_Serve\<close> (net.go, proc.go, egress.go) and
  \<^verbatim>\<open>Probe_Main\<close> (main.go) model every command against a kernel \<open>os\<close>, again a record of arbitrary
  functions of the history. \<^verbatim>\<open>Probe_Facts\<close> shows what holds of every command (the guard, lines
  that parse, exit statuses), \<^verbatim>\<open>Probe_Commands\<close> what single commands do. \<^verbatim>\<open>Counts\<close> joins the two sides:
  what the counting fixture answers, \<^verbatim>\<open>http-get\<close> prints and the harness decodes.

  \<^bold>\<open>The lessons.\<close> \<^verbatim>\<open>Perf\<close> is lab.go and the helpers of perf.go, \<^verbatim>\<open>Perf_Serve\<close> its \<^verbatim>\<open>Serve\<close> with the
  goroutine that shuts the server down, \<^verbatim>\<open>Measurements\<close> is measurements.go. \<^verbatim>\<open>Adapters\<close> has the service
  connectors, \<^verbatim>\<open>Database\<close> and \<^verbatim>\<open>Warm\<close>, and the main programs of the adapters with their deferred calls: what
  each still holds when it ends, counted from its calls. \<^verbatim>\<open>Job_Queue\<close>, \<^verbatim>\<open>Job_Rounds\<close>, \<^verbatim>\<open>Job_Lesson\<close> and \<^verbatim>\<open>Job_Server\<close> are the
  core, the rounds, the experiment and the adapter's handlers of background-job-queue; \<^verbatim>\<open>Job_Counter\<close>, \<^verbatim>\<open>Counter_Lesson\<close> and
  \<^verbatim>\<open>Counter_Server\<close> those of completed-job-counter; \<^verbatim>\<open>Pipelining\<close> and \<^verbatim>\<open>Pipeline_Lesson\<close> are pipelining-work; \<^verbatim>\<open>Cache_Aside\<close>,
  \<^verbatim>\<open>Cache_Lesson\<close> and \<^verbatim>\<open>Profile_Server\<close> are cache-aside; \<^verbatim>\<open>Sqlite_WAL\<close>, \<^verbatim>\<open>Sqlite_Lesson\<close> and \<^verbatim>\<open>Sqlite_Server\<close> are sqlite-wal-lab. SQL statements have the documented READ COMMITTED
  semantics with row locks, written out as operations on a record of tables, locks and pending
  writes; every call can fail by an input of its own. The key-value stores are records of
  operations with named laws, and each law record has an instance. The laws of the Valkey client count the attempts of
  a command, since go-redis sends a command again; those of SQLite take the journal mode from the DSN.

  \<^bold>\<open>Assumptions on the services.\<close> A call of the Docker client that creates an object and reports an error counts as having
  created nothing, and so does a failed \<^verbatim>\<open>create schema\<close>: the sources do not look for objects whose answer was lost, and
  no theorem speaks of them. A statement of the SQLite driver that reports an error has stored nothing. A commit of
  Postgres may have been applied although it reports an error; the theorems on the counters cover that.

  \<^bold>\<open>Fuel and inputs.\<close> A loop that may not end (polling, serving) takes fuel, and its result is
  an option; theorems about such loops either say that enough fuel gives a result or hold of every
  result. A thread is a finite tree, so no interleaving is infinite. Time does not occur:
  a deadline is a call that fails.

  \<^bold>\<open>Not modelled.\<close> The progress lines the lessons print, the \<^verbatim>\<open>GET /health\<close> handler, and the inside of
  the client libraries, whose calls are arguments. So are the parsers of URLs, floats and
  host:port pairs. Of \<^verbatim>\<open>net/http\<close> only starting, accepting, shutting down and closing occur; its time limits do not.
  What is left of the sources are imports, comments and declarations of types that other definitions stand for.
\<close>

end
